(* ===== verification/Kernel_Prelude.thy ===== *)
theory Kernel_Prelude
  imports Main "HOL-Library.Word"
begin

unbundle bit_operations_syntax

text \<open>
  Shared vocabulary of the development: the machine integers of the C code, the faults a
  driver can run into, sequencing of C statements that may fault, and the generic lemmas
  on lists, words and cyclic indices the components use.

  A C function body is a list of statements of type \<open>'s \<Rightarrow> fault + 's\<close>, run in order by
  \<open>run_ops\<close>: the first fault ends the run, as an oops would.
\<close>

named_theorems kyouko_simps \<open>unfolding of the register access functions\<close>
named_theorems ring_simps \<open>reading and writing the DMA ring\<close>
named_theorems frame_simps \<open>fields an operation does not touch\<close>
named_theorems sig_simps \<open>signal sets and signal numbers\<close>

type_synonym u8 = "8 word"
type_synonym u32 = "32 word"
type_synonym u64 = "64 word"

section \<open>Faults and sequencing\<close>

text \<open>
  \<open>Wild_Access r\<close>: a register was accessed through a pointer that is not (or no longer) a
  live I/O mapping. \<open>Still_Polling\<close>: a polling loop has used up every device answer and
  has not left the loop. \<open>Null_Device\<close>: a PCI service was called with a NULL device.
\<close>

datatype fault = Wild_Access u32 | Still_Polling | Null_Device

type_synonym 's op = "'s \<Rightarrow> fault + 's"

fun run_ops :: "('s \<Rightarrow> fault + 's) list \<Rightarrow> 's \<Rightarrow> fault + 's" where
  "run_ops [] s = Inr s"
| "run_ops (c # cs) s = (case c s of Inl e \<Rightarrow> Inl e | Inr s' \<Rightarrow> run_ops cs s')"

lemma run_ops_append:
  "run_ops (xs @ ys) s = (case run_ops xs s of Inl e \<Rightarrow> Inl e | Inr s' \<Rightarrow> run_ops ys s')"
  by (induction xs arbitrary: s) (auto split: sum.splits)

lemma run_ops_invariant:
  assumes "\<And>c s s'. c \<in> set cs \<Longrightarrow> c s = Inr s' \<Longrightarrow> P s \<Longrightarrow> P s'"
    and "run_ops cs s = Inr s'" and "P s"
  shows "P s'"
  using assms
proof (induction cs arbitrary: s)
  case Nil
  then show ?case by simp
next
  case (Cons c cs)
  then obtain t where t: "c s = Inr t" "run_ops cs t = Inr s'"
    by (auto split: sum.splits)
  with Cons.prems(1,3) have "P t" by auto
  with Cons.IH [of t] Cons.prems(1) t(2) show ?case by auto
qed

section \<open>Cyclic indices\<close>

text \<open>The index arithmetic \<open>i = (i + 1) % N\<close> of a ring of \<open>N\<close> slots.\<close>

definition ring_next :: "nat \<Rightarrow> nat \<Rightarrow> nat" where
  "ring_next N i = (i + 1) mod N"

text \<open>Distance from \<open>d\<close> forward to \<open>i\<close> in a ring of \<open>N\<close> slots.\<close>

definition ring_dist :: "nat \<Rightarrow> nat \<Rightarrow> nat \<Rightarrow> nat" where
  "ring_dist N d i = (i + N - d) mod N"

lemma ring_next_less [simp]: "0 < N \<Longrightarrow> ring_next N i < N"
  by (simp add: ring_next_def)

lemma ring_dist_less [simp]: "0 < N \<Longrightarrow> ring_dist N d i < N"
  by (simp add: ring_dist_def)

lemma ring_dist_self [simp]: "d < N \<Longrightarrow> ring_dist N d d = 0"
  by (simp add: ring_dist_def)

lemma ring_dist_offset: "d < N \<Longrightarrow> q < N \<Longrightarrow> ring_dist N d ((d + q) mod N) = q"
proof (cases "d + q < N")
  case True
  assume "d < N" "q < N"
  with True show ?thesis by (simp add: ring_dist_def)
next
  case False
  assume dq: "d < N" "q < N"
  with False have "(d + q) mod N = d + q - N"
    by (simp add: mod_if)
  with False dq show ?thesis by (simp add: ring_dist_def)
qed

lemma ring_dist_inv: "d < N \<Longrightarrow> i < N \<Longrightarrow> (d + ring_dist N d i) mod N = i"
  by (auto simp: ring_dist_def mod_if)

lemma ring_dist_eq_0: "d < N \<Longrightarrow> i < N \<Longrightarrow> ring_dist N d i = 0 \<longleftrightarrow> i = d"
  using ring_dist_inv [of d N i] by auto

lemma ring_dist_step:
  assumes "d < N" "i < N" "i \<noteq> d"
  shows "ring_dist N (ring_next N d) i = ring_dist N d i - 1"
  using assms by (auto simp: ring_dist_def ring_next_def mod_if split: if_splits)

lemma ring_next_offset: "ring_next N ((d + q) mod N) = (d + Suc q) mod N"
  by (simp add: ring_next_def mod_Suc_eq)

lemma ring_offset_next: "(ring_next N d + q) mod N = (d + Suc q) mod N"
  by (simp add: ring_next_def mod_add_left_eq)

lemma ring_offset_inj:
  assumes "(d + q) mod N = (d + r) mod (N :: nat)" "q < N" "r < N"
  shows "q = r"
proof -
  have N: "d mod N < N" using assms(2) by simp
  have "ring_dist N (d mod N) ((d + x) mod N) = x" if "x < N" for x
    using ring_dist_offset [OF N that] by (simp only: mod_add_left_eq)
  from this [OF assms(2)] this [OF assms(3)] have
    "ring_dist N (d mod N) ((d + q) mod N) = q" "ring_dist N (d mod N) ((d + r) mod N) = r" .
  with assms(1) show ?thesis by metis
qed

section \<open>Words\<close>

lemma word_and_not_self [simp]: "(x AND NOT y) AND y = (0 :: 'a::len word)"
  by (rule bit_word_eqI) (simp add: bit_simps)

lemma word_and_eq_0_bit: "x AND y = 0 \<longleftrightarrow> (\<forall>n < LENGTH('a). \<not> (bit x n \<and> bit y n))"
  for x y :: "'a::len word"
  by (auto simp: bit_eq_iff bit_simps)

lemma word_eq_0_bit: "x = 0 \<longleftrightarrow> (\<forall>n < LENGTH('a). \<not> bit x n)"
  for x :: "'a::len word"
  by (auto simp: bit_eq_iff)

text \<open>Fields of a word laid out by shifts: reading back, and what other fields contribute.\<close>

lemma small_take_bit:
  fixes x :: "'a::len word"
  assumes "x < 2 ^ k" "k < LENGTH('a)"
  shows "take_bit k x = x"
  using assms by (metis take_bit_eq_mask less_mask_eq take_bit_word_eq_self)

lemma field_at: "n + k \<le> LENGTH('a) \<Longrightarrow> take_bit k (drop_bit n (push_bit n x)) = take_bit k (x :: 'a::len word)"
  by (rule bit_word_eqI) (auto simp: bit_simps)

lemma field_above: "n + k \<le> m \<Longrightarrow> take_bit k (drop_bit n (push_bit m x)) = (0 :: 'a::len word)"
  by (rule bit_word_eqI) (auto simp: bit_simps)

lemma field_below: "m + k \<le> n \<Longrightarrow> drop_bit n (push_bit m (take_bit k x)) = (0 :: 'a::len word)"
  by (rule bit_word_eqI) (auto simp: bit_simps)

lemma field_below0: "k \<le> n \<Longrightarrow> drop_bit n (take_bit k x) = (0 :: 'a::len word)"
  by (rule bit_word_eqI) (auto simp: bit_simps)

lemma field_above0: "k \<le> m \<Longrightarrow> take_bit k (push_bit m x) = (0 :: 'a::len word)"
  by (rule bit_word_eqI) (auto simp: bit_simps)

lemmas field_simps = field_at field_above field_below field_below0 field_above0 take_bit_or drop_bit_or

end
