(* ===== verification/Kyouko_Bus.thy ===== *)
theory Kyouko_Bus
  imports Kernel_Prelude
begin

text \<open>
  The Kyouko2 graphics card as the drivers see it: the register offsets of the header
  files, the device structure with its physical and kernel base addresses, and the
  register access functions every driver starts with. The hardware is on the other side
  of the bus: a write is appended to the bus log, a read takes the next answer of the card
  from \<open>rd_answers\<close> (the card's behaviour is an input of the model).
  An access is a fault unless the base pointer is a live mapping.
\<close>

section \<open>Register offsets (\<open>regdmaBuffer.h\<close>, \<open>regdrawLineTriangle.h\<close>)\<close>

definition DeviceRAM :: u32 where "DeviceRAM = 0x0020"

definition ConfigReboot :: u32 where "ConfigReboot = 0x1000"
definition ConfigModeset :: u32 where "ConfigModeset = 0x1008"
definition ConfigInterrupt :: u32 where "ConfigInterrupt = 0x100C"
definition ConfigAcceleration :: u32 where "ConfigAcceleration = 0x1010"

definition STREAMBUFFERAADDRESS :: u32 where "STREAMBUFFERAADDRESS = 0x2000"
definition STREAMBUFFERACONFIG :: u32 where "STREAMBUFFERACONFIG = 0x2008"

definition RasterPrimitive :: u32 where "RasterPrimitive = 0x3000"
definition RasterEmit :: u32 where "RasterEmit = 0x3004"
definition RasterClear :: u32 where "RasterClear = 0x3008"
definition RasterFlush :: u32 where "RasterFlush = 0x3FFC"
definition InfoFifoDepth :: u32 where "InfoFifoDepth = 0x4004"
definition INFOSTATUS :: u32 where "INFOSTATUS = 0x4008"

definition DrawVertexCoordX :: u32 where "DrawVertexCoordX = 0x5000"
definition DrawVertexCoordY :: u32 where "DrawVertexCoordY = 0x5004"
definition DrawVertexCoordZ :: u32 where "DrawVertexCoordZ = 0x5008"
definition DrawVertexCoordW :: u32 where "DrawVertexCoordW = 0x500C"

definition DrawVertexColorR :: u32 where "DrawVertexColorR = 0x5010"
definition DrawVertexColorG :: u32 where "DrawVertexColorG = 0x5014"
definition DrawVertexColorB :: u32 where "DrawVertexColorB = 0x5018"
definition DrawVertexColorAlpha :: u32 where "DrawVertexColorAlpha = 0x501C"

definition DrawClearColorR :: u32 where "DrawClearColorR = 0x5100"
definition DrawClearColorG :: u32 where "DrawClearColorG = 0x5104"
definition DrawClearColorB :: u32 where "DrawClearColorB = 0x5108"
definition DrawClearColorAlpha :: u32 where "DrawClearColorAlpha = 0x510C"

definition FrameColumns :: u32 where "FrameColumns = 0x8000"
definition FrameRows :: u32 where "FrameRows = 0x8004"
definition FrameRowPitch :: u32 where "FrameRowPitch = 0x8008"
definition FramePixelFormat :: u32 where "FramePixelFormat = 0x800C"
definition FrameStartAddress :: u32 where "FrameStartAddress = 0x8010"

definition EncoderWidth :: u32 where "EncoderWidth = 0x9000"
definition EncoderHeight :: u32 where "EncoderHeight = 0x9004"
definition EncoderOffsetX :: u32 where "EncoderOffsetX = 0x9008"
definition EncoderOffsetY :: u32 where "EncoderOffsetY = 0x900C"
definition EncoderFrame :: u32 where "EncoderFrame = 0x9010"

lemmas reg_defs =
  DeviceRAM_def ConfigReboot_def ConfigModeset_def ConfigInterrupt_def ConfigAcceleration_def
  STREAMBUFFERAADDRESS_def STREAMBUFFERACONFIG_def RasterPrimitive_def RasterEmit_def
  RasterClear_def RasterFlush_def InfoFifoDepth_def INFOSTATUS_def DrawVertexCoordX_def
  DrawVertexCoordY_def DrawVertexCoordZ_def DrawVertexCoordW_def DrawVertexColorR_def
  DrawVertexColorG_def DrawVertexColorB_def DrawVertexColorAlpha_def DrawClearColorR_def
  DrawClearColorG_def DrawClearColorB_def DrawClearColorAlpha_def FrameColumns_def
  FrameRows_def FrameRowPitch_def FramePixelFormat_def FrameStartAddress_def EncoderWidth_def
  EncoderHeight_def EncoderOffsetX_def EncoderOffsetY_def EncoderFrame_def

text \<open>Driver macros (\<open>macrodmaBuffer.h\<close>, \<open>macrodrawLineTriangle.h\<close>).\<close>

definition PCI_VENDOR_ID_CCORSI :: u32 where "PCI_VENDOR_ID_CCORSI = 0x1234"
definition PCI_DEVICE_ID_KYOUKO2 :: u32 where "PCI_DEVICE_ID_KYOUKO2 = 0x1113"
definition KYOUKO2_CONTROL_SIZE :: u32 where "KYOUKO2_CONTROL_SIZE = 65536"
definition BUFFERS :: nat where "BUFFERS = 8"
definition GRAPHICS_ON :: u32 where "GRAPHICS_ON = 1"
definition GRAPHICS_OFF :: u32 where "GRAPHICS_OFF = 0"

text \<open>The bit patterns of the C \<open>float\<close> constants \<open>0.2\<close> and \<open>0.0\<close> (IEEE 754 single).\<close>

definition float_0_2 :: u32 where "float_0_2 = 0x3E4CCCCD"
definition float_0_0 :: u32 where "float_0_0 = 0"

section \<open>The device structure\<close>

text \<open>
  \<open>struct p_kyouko2_device\<close>. Kernel pointers are 64-bit addresses; \<open>iomaps\<close> holds the
  addresses that are live I/O mappings (what \<open>ioremap_nocache\<close> returned and \<open>iounmap\<close> has not
  taken back). \<open>p_pci_dev\<close> is NULL (\<open>None\<close>) until the probe hook has run.
  \<open>bus\<close> is the log of register accesses, oldest first, by word index \<open>reg >> 2\<close>.
  \<open>cdev_added\<close> and \<open>pci_registered\<close> say what the module has registered with the kernel.
\<close>

datatype bus_event = Wr u32 u32 | Rd u32 u32

text \<open>Calls of kernel services with an effect outside the driver, in the order they are made.\<close>

datatype kcall =
    Ioremap u64 | Iounmap u64
  | Cdev_Add | Cdev_Del | Pci_Register | Pci_Unregister
  | Pci_Enable_Device nat | Pci_Disable_Device nat | Pci_Set_Master nat
  | Pci_Alloc u64 u64 | Pci_Free u64 u64 | Do_Mmap u64 | Do_Munmap u64
  | Pci_Enable_Msi nat | Pci_Disable_Msi nat | Request_Irq nat | Free_Irq nat
  | Copy_To_User u64 u64

record kyouko2 =
  p_control_base :: u64
  p_card_ram_base :: u64
  k_control_base :: u64
  k_card_ram_base :: u64
  p_pci_dev :: "nat option"
  iomaps :: "u64 list"
  rd_answers :: "u32 list"
  bus :: "bus_event list"
  cdev_added :: bool
  pci_registered :: bool
  kcalls :: "kcall list"

definition reg_index :: "u32 \<Rightarrow> u32" where
  "reg_index reg = drop_bit 2 reg"

text \<open>The control base is a live mapping: the registers can be accessed.\<close>

definition live :: "'a kyouko2_scheme \<Rightarrow> bool" where
  "live d \<longleftrightarrow> k_control_base d \<in> set (iomaps d)"

definition K_READ_REG :: "u32 \<Rightarrow> 'a kyouko2_scheme \<Rightarrow> fault + u32 \<times> 'a kyouko2_scheme" where
  "K_READ_REG reg d =
     (if \<not> live d then Inl (Wild_Access reg)
      else case rd_answers d of
             [] \<Rightarrow> Inl Still_Polling
           | value # rest \<Rightarrow>
               Inr (value, d\<lparr>rd_answers := rest, bus := bus d @ [Rd (reg_index reg) value]\<rparr>))"

definition K_WRITE_REG :: "u32 \<Rightarrow> u32 \<Rightarrow> 'a kyouko2_scheme \<Rightarrow> fault + 'a kyouko2_scheme" where
  "K_WRITE_REG reg value d =
     (if \<not> live d then Inl (Wild_Access reg)
      else Inr (d\<lparr>bus := bus d @ [Wr (reg_index reg) value]\<rparr>))"

text \<open>\<open>K_WRITE_REG_F\<close> stores the bit pattern of its \<open>float\<close> argument.\<close>

definition K_WRITE_REG_F :: "u32 \<Rightarrow> u32 \<Rightarrow> 'a kyouko2_scheme \<Rightarrow> fault + 'a kyouko2_scheme" where
  "K_WRITE_REG_F reg float_bits d =
     (if \<not> live d then Inl (Wild_Access reg)
      else Inr (d\<lparr>bus := bus d @ [Wr (reg_index reg) float_bits]\<rparr>))"

text \<open>Poll a register until the card answers 0. Every poll uses up one answer.\<close>

function poll_zero :: "u32 \<Rightarrow> 'a kyouko2_scheme \<Rightarrow> fault + 'a kyouko2_scheme" where
  "poll_zero reg d = (case K_READ_REG reg d of
               Inl e \<Rightarrow> Inl e
             | Inr (value, d') \<Rightarrow> if value > 0 then poll_zero reg d' else Inr d')"
  by pat_completeness auto
termination
  by (relation "measure (\<lambda>(reg, d). length (rd_answers d))")
     (auto simp: K_READ_REG_def split: if_splits list.splits)

declare poll_zero.simps [simp del]

definition sync :: "'a kyouko2_scheme \<Rightarrow> fault + 'a kyouko2_scheme" where
  "sync = poll_zero InfoFifoDepth"

definition writeflush :: "'a kyouko2_scheme \<Rightarrow> fault + 'a kyouko2_scheme" where
  "writeflush = K_WRITE_REG RasterFlush 1"

definition clearBuf_1 :: "'a kyouko2_scheme \<Rightarrow> fault + 'a kyouko2_scheme" where
  "clearBuf_1 = K_WRITE_REG RasterClear 1"

definition reboot_1 :: "'a kyouko2_scheme \<Rightarrow> fault + 'a kyouko2_scheme" where
  "reboot_1 = K_WRITE_REG ConfigReboot 1"

definition graphicsOn :: "'a kyouko2_scheme \<Rightarrow> fault + 'a kyouko2_scheme" where
  "graphicsOn = run_ops
    [K_WRITE_REG FrameColumns 1024,
     K_WRITE_REG FrameRows 768,
     K_WRITE_REG FrameRowPitch (4 * 1024),
     K_WRITE_REG FramePixelFormat 0xf888,
     K_WRITE_REG FrameStartAddress 0,
     K_WRITE_REG EncoderWidth 1024,
     K_WRITE_REG EncoderHeight 768,
     K_WRITE_REG EncoderOffsetX 0,
     K_WRITE_REG EncoderOffsetY 0,
     K_WRITE_REG EncoderFrame 0,
     K_WRITE_REG ConfigAcceleration 0x40000000,
     sync,
     K_WRITE_REG ConfigModeset 1,
     K_WRITE_REG_F DrawClearColorR float_0_2,
     K_WRITE_REG_F DrawClearColorG float_0_2,
     K_WRITE_REG_F DrawClearColorB float_0_2,
     K_WRITE_REG_F DrawClearColorAlpha float_0_0,
     writeflush,
     clearBuf_1]"

section \<open>Lemmas\<close>

lemma live_bus [simp]: "live (d\<lparr>bus := b\<rparr>) = live d"
  and live_rd_answers [simp]: "live (d\<lparr>rd_answers := a\<rparr>) = live d"
  and live_kcalls [simp]: "live (d\<lparr>kcalls := k\<rparr>) = live d"
  by (simp_all add: live_def)

lemma K_WRITE_REG_live: "live d \<Longrightarrow> K_WRITE_REG reg v d = Inr (d\<lparr>bus := bus d @ [Wr (reg_index reg) v]\<rparr>)"
  by (simp add: K_WRITE_REG_def)

lemma K_WRITE_REG_dead: "\<not> live d \<Longrightarrow> K_WRITE_REG reg v d = Inl (Wild_Access reg)"
  by (simp add: K_WRITE_REG_def)

text \<open>The answers a poll uses up before the first 0, and the reads it puts on the bus.\<close>

definition poll_reads :: "u32 \<Rightarrow> u32 list \<Rightarrow> bus_event list" where
  "poll_reads reg vs = map (Rd (reg_index reg)) vs"

definition polls :: "u32 list \<Rightarrow> u32 list" where
  "polls vs = takeWhile (\<lambda>v. v > 0) vs"

lemma poll_zero_terminates:
  assumes "live d" and "0 \<in> set (rd_answers d)"
  shows "poll_zero reg d = Inr (d\<lparr>rd_answers := drop (Suc (length (polls (rd_answers d)))) (rd_answers d),
                        bus := bus d @ poll_reads reg (polls (rd_answers d) @ [0])\<rparr>)"
  using assms
proof (induction reg d rule: poll_zero.induct)
  case (1 reg d)
  then obtain v vs where a: "rd_answers d = v # vs" by (cases "rd_answers d") auto
  show ?case
  proof (cases "v > 0")
    case False
    then have "v = 0" by (simp add: word_neq_0_conv [symmetric])
    with 1(2) a show ?thesis
      by (subst poll_zero.simps) (simp add: K_READ_REG_def polls_def poll_reads_def)
  next
    case True
    let ?d = "d\<lparr>rd_answers := vs, bus := bus d @ [Rd (reg_index reg) v]\<rparr>"
    have r: "K_READ_REG reg d = Inr (v, ?d)"
      using 1(2) a by (simp add: K_READ_REG_def)
    have "live ?d" "0 \<in> set (rd_answers ?d)" using 1(2,3) a True by auto
    with 1(1) [OF r refl True] r True a show ?thesis
      by (subst poll_zero.simps) (simp add: polls_def poll_reads_def)
  qed
qed

lemma poll_zero_polls_on:
  assumes "live d" and "0 \<notin> set (rd_answers d)"
  shows "poll_zero reg d = Inl Still_Polling"
  using assms
proof (induction reg d rule: poll_zero.induct)
  case (1 reg d)
  show ?case
  proof (cases "rd_answers d")
    case Nil
    with 1(2) show ?thesis by (subst poll_zero.simps) (simp add: K_READ_REG_def)
  next
    case (Cons v vs)
    let ?d = "d\<lparr>rd_answers := vs, bus := bus d @ [Rd (reg_index reg) v]\<rparr>"
    have r: "K_READ_REG reg d = Inr (v, ?d)"
      using 1(2) Cons by (simp add: K_READ_REG_def)
    have v: "v > 0" using 1(3) Cons by (simp add: word_neq_0_conv)
    have "live ?d" "0 \<notin> set (rd_answers ?d)" using 1(2,3) Cons by auto
    with 1(1) [OF r refl v] r v show ?thesis by (subst poll_zero.simps) simp
  qed
qed

lemma poll_zero_dead: "\<not> live d \<Longrightarrow> poll_zero reg d = Inl (Wild_Access reg)"
  by (subst poll_zero.simps) (simp add: K_READ_REG_def)

end
