(* ===== verification/Dma_Ring.thy ===== *)
theory Dma_Ring
  imports Kyouko_Bus
begin

text \<open>
  The ring of DMA buffers of \<open>dmaBuffer.c\<close> (and, with other register names and buffer
  count, of \<open>driver.c\<close>): the slots between \<open>drain\<close> and \<open>fill\<close> hold requests that wait
  for the card, \<open>drain\<close> is the one the card works on. \<open>initiateTransfer\<close> fills a slot,
  \<open>dma_interrupt\<close> retires one. Both critical sections run under one spinlock, so each is
  one step; \<open>initiateTransfer\<close> is cut in two where it sleeps in \<open>wait_event_interruptible\<close>.
\<close>

section \<open>State and operations\<close>

record dma_Buffer =
  buffer :: u64
  count :: u32
  isFull :: u8

record ring_dev = kyouko2 +
  dmaBuffer :: "dma_Buffer list"
  userVirtAddr :: "u64 list"
  dma_handle :: "u64 list"
  fill :: nat
  drain :: nat
  user_size :: u32

text \<open>What differs between the two drivers: the number of buffers and the register offsets.\<close>

record dma_cfg =
  nbuf :: nat
  reg_address :: u32
  reg_config :: u32
  reg_status :: u32
  reg_fifo :: u32
  flushed_bit :: u32

definition kyouko2_cfg :: dma_cfg where
  "kyouko2_cfg = \<lparr>nbuf = BUFFERS, reg_address = STREAMBUFFERAADDRESS,
     reg_config = STREAMBUFFERACONFIG, reg_status = INFOSTATUS, reg_fifo = InfoFifoDepth, flushed_bit = 0x2\<rparr>"

definition slot_full :: "ring_dev \<Rightarrow> nat \<Rightarrow> bool" where
  "slot_full d i \<longleftrightarrow> isFull (dmaBuffer d ! i) = 1"

text \<open>\<open>isFull = 1; count = numBytes;\<close> on the slot at \<open>fill\<close>, then \<open>fill = (fill+1) % BUFFERS\<close>.\<close>

definition mark_full :: "u32 \<Rightarrow> ring_dev \<Rightarrow> ring_dev" where
  "mark_full numBytes d = d\<lparr>dmaBuffer := (dmaBuffer d)
     [fill d := (dmaBuffer d ! fill d)\<lparr>isFull := 1, count := numBytes\<rparr>]\<rparr>"

definition advance_fill :: "nat \<Rightarrow> ring_dev \<Rightarrow> ring_dev" where
  "advance_fill N d = d\<lparr>fill := ring_next N (fill d)\<rparr>"

definition queue_request :: "nat \<Rightarrow> u32 \<Rightarrow> ring_dev \<Rightarrow> ring_dev" where
  "queue_request N numBytes d = advance_fill N (mark_full numBytes d)"

text \<open>\<open>isFull = 0\<close> on the slot at \<open>drain\<close>, then \<open>drain = (drain + 1) % BUFFERS\<close>.\<close>

definition retire :: "nat \<Rightarrow> ring_dev \<Rightarrow> ring_dev" where
  "retire N d = d\<lparr>dmaBuffer := (dmaBuffer d)[drain d := (dmaBuffer d ! drain d)\<lparr>isFull := 0\<rparr>],
                  drain := ring_next N (drain d)\<rparr>"

text \<open>The two register writes that hand slot \<open>i\<close> to the card. \<open>K_WRITE_REG\<close> takes an
  \<open>unsigned int\<close>, so the 64-bit handle is cut to 32 bits.\<close>

definition kick :: "dma_cfg \<Rightarrow> u64 \<Rightarrow> u32 \<Rightarrow> ring_dev \<Rightarrow> fault + ring_dev" where
  "kick c handle n = run_ops [K_WRITE_REG (reg_address c) (ucast handle), K_WRITE_REG (reg_config c) n]"

text \<open>
  \<open>initiateTransfer\<close> up to its return or its sleep: the flag is \<open>True\<close> when the caller
  now waits in \<open>wait_event_interruptible\<close>.
\<close>

definition initiateTransfer :: "dma_cfg \<Rightarrow> u32 \<Rightarrow> ring_dev \<Rightarrow> fault + bool \<times> ring_dev" where
  "initiateTransfer c numBytes d =
     (if numBytes = 0 then Inr (False, d)
      else if fill d = drain d then
        if isFull (dmaBuffer d ! fill d) = 1 then Inr (True, d)
        else (case kick c (dma_handle d ! fill d) numBytes (mark_full numBytes d) of
                Inl e \<Rightarrow> Inl e
              | Inr d' \<Rightarrow> Inr (False, advance_fill (nbuf c) d'))
      else Inr (False, queue_request (nbuf c) numBytes d))"

definition wait_condition :: "ring_dev \<Rightarrow> bool" where
  "wait_condition d \<longleftrightarrow> fill d \<noteq> drain d \<or> isFull (dmaBuffer d ! fill d) = 0"

text \<open>The rest of \<open>initiateTransfer\<close> after the sleep: the request is queued unconditionally.\<close>

definition initiateTransfer_resume :: "dma_cfg \<Rightarrow> u32 \<Rightarrow> ring_dev \<Rightarrow> ring_dev" where
  "initiateTransfer_resume c numBytes d = queue_request (nbuf c) numBytes d"

datatype irqreturn = IRQ_NONE | IRQ_HANDLED

text \<open>\<open>dma_interrupt\<close>: the flag says whether \<open>wake_up_interruptible(&dma_snooze)\<close> was called.\<close>

definition irq_critical :: "dma_cfg \<Rightarrow> ring_dev \<Rightarrow> fault + bool \<times> ring_dev" where
  "irq_critical c d =
     (if fill d = drain d then
        if isFull (dmaBuffer d ! fill d) = 1 then
          (let d1 = retire (nbuf c) d in
           case kick c (dma_handle d1 ! drain d1) (count (dmaBuffer d1 ! drain d1)) d1 of
             Inl e \<Rightarrow> Inl e | Inr d2 \<Rightarrow> Inr (True, d2))
        else Inr (False, d)
      else
        (let d1 = retire (nbuf c) d in
         if fill d1 \<noteq> drain d1 then
           (case run_ops [poll_zero (reg_fifo c), kick c (dma_handle d1 ! drain d1) (count (dmaBuffer d1 ! drain d1))] d1 of
              Inl e \<Rightarrow> Inl e | Inr d2 \<Rightarrow> Inr (False, d2))
         else Inr (False, d1)))"

definition dma_interrupt :: "dma_cfg \<Rightarrow> ring_dev \<Rightarrow> fault + irqreturn \<times> bool \<times> ring_dev" where
  "dma_interrupt c d =
     (case K_READ_REG (reg_status c) d of
        Inl e \<Rightarrow> Inl e
      | Inr (flags, d1) \<Rightarrow>
          (case K_WRITE_REG (reg_status c) 0xFFFFFFFF d1 of
             Inl e \<Rightarrow> Inl e
           | Inr d2 \<Rightarrow>
               if flags AND flushed_bit c = 0 then Inr (IRQ_NONE, False, d2)
               else (case irq_critical c d2 of
                       Inl e \<Rightarrow> Inl e
                     | Inr (woken, d3) \<Rightarrow> Inr (IRQ_HANDLED, woken, d3))))"

section \<open>Abstraction: a bounded FIFO of requests\<close>

text \<open>Number of occupied slots, and the requests they hold in the order the card gets them.\<close>

definition occ :: "nat \<Rightarrow> ring_dev \<Rightarrow> nat" where
  "occ N d = (if fill d = drain d then (if slot_full d (drain d) then N else 0)
              else ring_dist N (drain d) (fill d))"

definition request_at :: "ring_dev \<Rightarrow> nat \<Rightarrow> u64 \<times> u32" where
  "request_at d i = (dma_handle d ! i, count (dmaBuffer d ! i))"

definition requests :: "nat \<Rightarrow> ring_dev \<Rightarrow> (u64 \<times> u32) list" where
  "requests N d = map (\<lambda>k. request_at d ((drain d + k) mod N)) [0..<occ N d]"

definition ring_inv :: "nat \<Rightarrow> ring_dev \<Rightarrow> bool" where
  "ring_inv N d \<longleftrightarrow> 0 < N \<and> fill d < N \<and> drain d < N \<and>
     length (dmaBuffer d) = N \<and> length (userVirtAddr d) = N \<and> length (dma_handle d) = N \<and>
     (\<forall>i < N. isFull (dmaBuffer d ! i) = (if ring_dist N (drain d) i < occ N d then 1 else 0))"

lemma length_requests [simp]: "length (requests N d) = occ N d"
  by (simp add: requests_def)

lemma requests_nth: "k < occ N d \<Longrightarrow> requests N d ! k = request_at d ((drain d + k) mod N)"
  by (simp add: requests_def)

lemma occ_le: "ring_inv N d \<Longrightarrow> occ N d \<le> N"
  using ring_dist_less [of N] by (auto simp: occ_def ring_inv_def less_imp_le)

lemma fill_from_drain: "ring_inv N d \<Longrightarrow> fill d = (drain d + occ N d) mod N"
  by (auto simp: occ_def ring_inv_def ring_dist_inv)

lemma occ_zero: "ring_inv N d \<Longrightarrow> occ N d = 0 \<longleftrightarrow> fill d = drain d \<and> \<not> slot_full d (drain d)"
  by (auto simp: occ_def ring_inv_def ring_dist_eq_0)

lemma occ_full: "ring_inv N d \<Longrightarrow> occ N d = N \<longleftrightarrow> fill d = drain d \<and> slot_full d (drain d)"
proof -
  assume "ring_inv N d"
  then have "ring_dist N (drain d) (fill d) \<noteq> N" "0 < N"
    using ring_dist_less [of N "drain d" "fill d"] by (auto simp: ring_inv_def simp del: ring_dist_less)
  then show ?thesis by (auto simp: occ_def)
qed

lemma slot_full_iff: "ring_inv N d \<Longrightarrow> i < N \<Longrightarrow> slot_full d i \<longleftrightarrow> ring_dist N (drain d) i < occ N d"
  by (simp add: ring_inv_def slot_full_def)

lemma wait_condition_iff: "ring_inv N d \<Longrightarrow> wait_condition d \<longleftrightarrow> occ N d < N"
  using occ_full [of N d] occ_le [of N d] by (auto simp: wait_condition_def ring_inv_def slot_full_def)


section \<open>The two ring operations implement the FIFO\<close>

lemma queue_request_sel [ring_simps]:
  "drain (queue_request N n d) = drain d"
  "fill (queue_request N n d) = ring_next N (fill d)"
  "dma_handle (queue_request N n d) = dma_handle d"
  "userVirtAddr (queue_request N n d) = userVirtAddr d"
  "bus (queue_request N n d) = bus d"
  "rd_answers (queue_request N n d) = rd_answers d"
  "live (queue_request N n d) = live d"
  "dmaBuffer (queue_request N n d) =
     (dmaBuffer d)[fill d := (dmaBuffer d ! fill d)\<lparr>isFull := 1, count := n\<rparr>]"
  by (simp_all add: queue_request_def advance_fill_def mark_full_def live_def)

lemma retire_sel [ring_simps]:
  "drain (retire N d) = ring_next N (drain d)"
  "fill (retire N d) = fill d"
  "dma_handle (retire N d) = dma_handle d"
  "userVirtAddr (retire N d) = userVirtAddr d"
  "bus (retire N d) = bus d"
  "rd_answers (retire N d) = rd_answers d"
  "live (retire N d) = live d"
  "dmaBuffer (retire N d) = (dmaBuffer d)[drain d := (dmaBuffer d ! drain d)\<lparr>isFull := 0\<rparr>]"
  by (simp_all add: retire_def live_def)

lemma occ_queue:
  assumes inv: "ring_inv N d" and room: "occ N d < N"
  shows "occ N (queue_request N n d) = Suc (occ N d)"
proof -
  let ?d = "queue_request N n d"
  have N: "drain d < N" "fill d < N" "length (dmaBuffer d) = N" using inv by (auto simp: ring_inv_def)
  have f: "fill ?d = (drain d + Suc (occ N d)) mod N"
    using fill_from_drain [OF inv] by (simp add: ring_simps ring_next_offset)
  show ?thesis
  proof (cases "Suc (occ N d) = N")
    case True
    with f N have eq: "fill ?d = drain ?d" by (simp add: ring_simps)
    have "slot_full ?d (drain d)"
    proof (cases "fill d = drain d")
      case True
      with N show ?thesis by (simp add: slot_full_def ring_simps)
    next
      case False
      with occ_zero [OF inv] have "slot_full d (drain d)"
        using slot_full_iff [OF inv N(1)] N by simp
      with False N show ?thesis by (simp add: slot_full_def ring_simps)
    qed
    with eq True show ?thesis by (simp add: occ_def ring_simps)
  next
    case False
    with room have lt: "Suc (occ N d) < N" by simp
    with f ring_dist_offset [OF N(1) lt] have r: "ring_dist N (drain d) (fill ?d) = Suc (occ N d)"
      by simp
    with N have "fill ?d \<noteq> drain d" by (metis ring_dist_self nat.distinct(1))
    with r show ?thesis by (simp add: occ_def ring_simps)
  qed
qed

lemma ring_inv_queue:
  assumes inv: "ring_inv N d" and room: "occ N d < N"
  shows "ring_inv N (queue_request N n d)"
proof -
  let ?d = "queue_request N n d"
  have N: "drain d < N" "fill d < N" "length (dmaBuffer d) = N" using inv by (auto simp: ring_inv_def)
  have "isFull (dmaBuffer ?d ! i) = (if ring_dist N (drain ?d) i < occ N ?d then 1 else 0)"
    if i: "i < N" for i
  proof (cases "i = fill d")
    case True
    with ring_dist_offset [OF N(1) room] fill_from_drain [OF inv]
    have "ring_dist N (drain d) i = occ N d" by simp
    with True N show ?thesis by (simp add: occ_queue [OF inv room] ring_simps)
  next
    case False
    with ring_dist_inv [OF N(1) i] fill_from_drain [OF inv]
    have "ring_dist N (drain d) i \<noteq> occ N d" by auto
    with False inv i show ?thesis
      by (auto simp: occ_queue [OF inv room] ring_simps ring_inv_def)
  qed
  with inv show ?thesis by (auto simp: ring_inv_def ring_simps)
qed

lemma requests_queue:
  assumes inv: "ring_inv N d" and room: "occ N d < N"
  shows "requests N (queue_request N n d) = requests N d @ [(dma_handle d ! fill d, n)]"
proof (rule nth_equalityI)
  let ?d = "queue_request N n d"
  have N: "drain d < N" "fill d < N" "length (dmaBuffer d) = N" using inv by (auto simp: ring_inv_def)
  show "length (requests N ?d) = length (requests N d @ [(dma_handle d ! fill d, n)])"
    by (simp add: occ_queue [OF inv room])
  fix k assume "k < length (requests N ?d)"
  then have k: "k < Suc (occ N d)" by (simp add: occ_queue [OF inv room])
  show "requests N ?d ! k = (requests N d @ [(dma_handle d ! fill d, n)]) ! k"
  proof (cases "k = occ N d")
    case True
    with N fill_from_drain [OF inv] show ?thesis
      by (simp add: requests_nth occ_queue [OF inv room] nth_append request_at_def ring_simps)
  next
    case False
    with k have k': "k < occ N d" by simp
    have "(drain d + k) mod N \<noteq> fill d"
      using ring_offset_inj [of "drain d" k N "occ N d"] fill_from_drain [OF inv] k' room by auto
    with k' show ?thesis
      by (simp add: requests_nth occ_queue [OF inv room] nth_append request_at_def ring_simps)
  qed
qed

lemma occ_retire:
  assumes inv: "ring_inv N d" and some: "0 < occ N d"
  shows "occ N (retire N d) = occ N d - 1"
proof -
  let ?d = "retire N d"
  have N: "drain d < N" "fill d < N" "length (dmaBuffer d) = N" "drain ?d < N"
    using inv by (auto simp: ring_inv_def ring_simps)
  have f: "fill d = (drain ?d + (occ N d - 1)) mod N"
    using fill_from_drain [OF inv] some ring_offset_next [of N "drain d" "occ N d - 1"]
    by (simp add: ring_simps)
  have lt: "occ N d - 1 < N" using occ_le [OF inv] some by simp
  with f ring_dist_offset [OF N(4) lt] have r: "ring_dist N (drain ?d) (fill d) = occ N d - 1" by simp
  show ?thesis
  proof (cases "occ N d = 1")
    case True
    with f N have eq: "fill ?d = drain ?d" by (simp add: ring_simps)
    have "\<not> slot_full ?d (drain ?d)"
    proof (cases "drain ?d = drain d")
      case True
      have "\<not> slot_full ?d (drain d)" using N(1,3) by (simp add: slot_full_def ring_simps)
      with True show ?thesis by simp
    next
      case False
      then have "ring_dist N (drain d) (drain ?d) \<noteq> 0" using N ring_dist_eq_0 by blast
      with \<open>occ N d = 1\<close> have "\<not> slot_full d (drain ?d)" using slot_full_iff [OF inv N(4)] by simp
      with False show ?thesis by (simp add: slot_full_def ring_simps)
    qed
    with eq True show ?thesis by (simp add: occ_def)
  next
    case False
    with r some have "ring_dist N (drain ?d) (fill d) \<noteq> 0" by simp
    with N have "fill d \<noteq> drain ?d" by (metis ring_dist_self)
    with r show ?thesis by (simp add: occ_def ring_simps)
  qed
qed

lemma ring_inv_retire:
  assumes inv: "ring_inv N d" and some: "0 < occ N d"
  shows "ring_inv N (retire N d)"
proof -
  let ?d = "retire N d"
  have N: "drain d < N" "fill d < N" "length (dmaBuffer d) = N" "drain ?d < N"
    using inv by (auto simp: ring_inv_def ring_simps)
  have "isFull (dmaBuffer ?d ! i) = (if ring_dist N (drain ?d) i < occ N ?d then 1 else 0)"
    if i: "i < N" for i
  proof (cases "i = drain d")
    case True
    have "(drain ?d + (N - 1)) mod N = drain d"
      using N by (auto simp: ring_simps ring_next_def mod_if)
    moreover have "N - 1 < N" using N by simp
    ultimately have "ring_dist N (drain ?d) i = N - 1"
      using ring_dist_offset [OF N(4), of "N - 1"] True by simp
    with True N occ_le [OF inv] some show ?thesis by (simp add: occ_retire [OF inv some] ring_simps)
  next
    case False
    with ring_dist_step [OF N(1) i] have "ring_dist N (drain ?d) i = ring_dist N (drain d) i - 1"
      by (simp add: ring_simps)
    moreover have "ring_dist N (drain d) i \<noteq> 0" using False N i ring_dist_eq_0 by blast
    ultimately show ?thesis
      using False inv i some by (auto simp: occ_retire [OF inv some] ring_simps ring_inv_def)
  qed
  with inv show ?thesis by (auto simp: ring_inv_def ring_simps)
qed

lemma requests_retire:
  assumes inv: "ring_inv N d" and some: "0 < occ N d"
  shows "requests N (retire N d) = tl (requests N d)"
proof (rule nth_equalityI)
  let ?d = "retire N d"
  show "length (requests N ?d) = length (tl (requests N d))" by (simp add: occ_retire [OF inv some])
  fix k assume "k < length (requests N ?d)"
  then have k: "Suc k < occ N d" by (simp add: occ_retire [OF inv some])
  have "count (dmaBuffer ?d ! i) = count (dmaBuffer d ! i)" for i
    by (cases "i = drain d"; cases "i < length (dmaBuffer d)")
       (simp_all add: ring_simps list_update_beyond)
  then have "request_at ?d i = request_at d i" for i
    by (simp add: request_at_def ring_simps)
  with k show "requests N ?d ! k = tl (requests N d) ! k"
    by (simp add: requests_nth nth_tl occ_retire [OF inv some] ring_simps ring_offset_next)
qed

text \<open>The head of the FIFO is the slot at \<open>drain\<close>.\<close>

lemma hd_requests: "ring_inv N d \<Longrightarrow> 0 < occ N d \<Longrightarrow> hd (requests N d) = request_at d (drain d)"
  by (subst hd_conv_nth) (auto simp: requests_nth ring_inv_def simp flip: length_greater_0_conv)

end
