(* ===== verification/Dma_System.thy ===== *)
theory Dma_System
  imports Dma_Ring
begin

text \<open>
  The ring at work: the process that submits buffers, the interrupt handler that retires
  them, and the sleep between the two as labelled steps of one system. First the FIFO
  contract of the ring as a locale, then the register traffic of each operation, then the
  step relation, its invariant, and the two ways the code leaves it.
\<close>

section \<open>The contract of a bounded FIFO\<close>

datatype 'a fifo_op = Enq 'a | Deq

fun fifo_spec :: "'a fifo_op list \<Rightarrow> 'a list \<Rightarrow> 'a list" where
  "fifo_spec [] xs = xs"
| "fifo_spec (Enq a # os) xs = fifo_spec os (xs @ [a])"
| "fifo_spec (Deq # os) xs = fifo_spec os (tl xs)"

fun fifo_impl :: "('a \<Rightarrow> 's \<Rightarrow> 's) \<Rightarrow> ('s \<Rightarrow> 's) \<Rightarrow> 'a fifo_op list \<Rightarrow> 's \<Rightarrow> 's" where
  "fifo_impl enq deq [] s = s"
| "fifo_impl enq deq (Enq a # os) s = fifo_impl enq deq os (enq a s)"
| "fifo_impl enq deq (Deq # os) s = fifo_impl enq deq os (deq s)"

text \<open>A script within bounds: never more than \<open>cap\<close> requests, never a retirement from an empty ring.\<close>

fun script_ok :: "nat \<Rightarrow> 'a fifo_op list \<Rightarrow> nat \<Rightarrow> bool" where
  "script_ok cap [] k = True"
| "script_ok cap (Enq a # os) k = (k < cap \<and> script_ok cap os (Suc k))"
| "script_ok cap (Deq # os) k = (0 < k \<and> script_ok cap os (k - 1))"

locale bounded_fifo =
  fixes inv :: "'s \<Rightarrow> bool" and abs :: "'s \<Rightarrow> 'a list" and cap :: nat
    and enq :: "'a \<Rightarrow> 's \<Rightarrow> 's" and deq :: "'s \<Rightarrow> 's"
  assumes enq_inv: "inv s \<Longrightarrow> length (abs s) < cap \<Longrightarrow> inv (enq a s)"
    and enq_abs: "inv s \<Longrightarrow> length (abs s) < cap \<Longrightarrow> abs (enq a s) = abs s @ [a]"
    and deq_inv: "inv s \<Longrightarrow> abs s \<noteq> [] \<Longrightarrow> inv (deq s)"
    and deq_abs: "inv s \<Longrightarrow> abs s \<noteq> [] \<Longrightarrow> abs (deq s) = tl (abs s)"
begin

lemma script_refines:
  assumes "inv s" and "script_ok cap os (length (abs s))"
  shows "inv (fifo_impl enq deq os s) \<and> abs (fifo_impl enq deq os s) = fifo_spec os (abs s)"
  using assms
proof (induction os arbitrary: s)
  case Nil
  then show ?case by simp
next
  case (Cons oper os)
  show ?case
  proof (cases oper)
    case (Enq a)
    with Cons.prems have "length (abs s) < cap" by simp
    with Cons Enq enq_inv enq_abs show ?thesis by simp
  next
    case Deq
    with Cons.prems have "abs s \<noteq> []" by auto
    with Cons Deq deq_inv deq_abs show ?thesis by simp
  qed
qed

end

interpretation dma_ring: bounded_fifo "ring_inv N" "\<lambda>d. map snd (requests N d)" N "queue_request N" "retire N"
  for N
  by unfold_locales
     (auto simp: ring_inv_queue requests_queue ring_inv_retire requests_retire map_tl
           simp flip: length_greater_0_conv)

section \<open>Register traffic\<close>

text \<open>
  The transfers the driver has started, read off the bus log: every write to the
  configuration register starts one at the address last written.
\<close>

fun kicks :: "dma_cfg \<Rightarrow> u32 \<Rightarrow> bus_event list \<Rightarrow> (u32 \<times> u32) list" where
  "kicks c a [] = []"
| "kicks c a (Wr i v # es) =
     (if i = reg_index (reg_address c) then kicks c v es
      else if i = reg_index (reg_config c) then (a, v) # kicks c a es
      else kicks c a es)"
| "kicks c a (Rd i v # es) = kicks c a es"

definition cfg_ok :: "dma_cfg \<Rightarrow> bool" where
  "cfg_ok c \<longleftrightarrow> 1 < nbuf c \<and> flushed_bit c \<noteq> 0 \<and>
     reg_index (reg_address c) \<noteq> reg_index (reg_config c) \<and>
     reg_index (reg_status c) \<notin> {reg_index (reg_address c), reg_index (reg_config c)}"

lemma kyouko2_cfg_ok: "cfg_ok kyouko2_cfg"
  by (simp add: cfg_ok_def kyouko2_cfg_def BUFFERS_def reg_index_def reg_defs)

lemma kicks_append_quiet:
  assumes "\<forall>e \<in> set ys. \<forall>i v. e = Wr i v \<longrightarrow> i \<noteq> reg_index (reg_address c) \<and> i \<noteq> reg_index (reg_config c)"
  shows "kicks c a (xs @ ys) = kicks c a xs"
proof -
  have quiet: "kicks c a' ys = []" for a'
    using assms
  proof (induction ys)
    case (Cons e ys)
    then show ?case by (cases e) auto
  qed simp
  show ?thesis
  proof (induction xs arbitrary: a)
    case (Cons e xs)
    then show ?case by (cases e) auto
  qed (simp add: quiet)
qed

lemma kicks_append_kick:
  assumes "cfg_ok c"
  shows "kicks c a (xs @ [Wr (reg_index (reg_address c)) h, Wr (reg_index (reg_config c)) n])
         = kicks c a xs @ [(h, n)]"
proof (induction xs arbitrary: a)
  case Nil
  from assms have "reg_index (reg_config c) \<noteq> reg_index (reg_address c)"
    unfolding cfg_ok_def by metis
  then show ?case by simp
next
  case (Cons e xs)
  then show ?case by (cases e) auto
qed

lemma kick_live:
  assumes "live d"
  shows "kick c h n d = Inr (d\<lparr>bus := bus d @
    [Wr (reg_index (reg_address c)) (ucast h), Wr (reg_index (reg_config c)) n]\<rparr>)"
  using assms by (simp add: kick_def K_WRITE_REG_def)

lemma kick_dead: "\<not> live d \<Longrightarrow> kick c h n d = Inl (Wild_Access (reg_address c))"
  by (simp add: kick_def K_WRITE_REG_def)

text \<open>The ring does not depend on the bus log or on the card's answers.\<close>

lemma ring_inv_io [simp]:
  "ring_inv N (d\<lparr>bus := b\<rparr>) = ring_inv N d" "ring_inv N (d\<lparr>rd_answers := a\<rparr>) = ring_inv N d"
  by (simp_all add: ring_inv_def occ_def slot_full_def)

lemma occ_io [simp]:
  "occ N (d\<lparr>bus := b\<rparr>) = occ N d" "occ N (d\<lparr>rd_answers := a\<rparr>) = occ N d"
  by (simp_all add: occ_def slot_full_def)

lemma requests_io [simp]:
  "requests N (d\<lparr>bus := b\<rparr>) = requests N d" "requests N (d\<lparr>rd_answers := a\<rparr>) = requests N d"
  by (simp_all add: requests_def request_at_def)

lemma mark_advance_bus: "advance_fill N ((mark_full n d)\<lparr>bus := b\<rparr>) = (queue_request N n d)\<lparr>bus := b\<rparr>"
  by (simp add: queue_request_def advance_fill_def mark_full_def)

lemma live_mark_full [simp]: "live (mark_full n d) = live d"
  by (simp add: mark_full_def live_def)

lemma bus_mark_full [simp]: "bus (mark_full n d) = bus d"
  by (simp add: mark_full_def)

section \<open>What one call does\<close>

definition kick_events :: "dma_cfg \<Rightarrow> u64 \<times> u32 \<Rightarrow> bus_event list" where
  "kick_events c r = [Wr (reg_index (reg_address c)) (ucast (fst r)), Wr (reg_index (reg_config c)) (snd r)]"

lemma initiateTransfer_cases:
  assumes c: "cfg_ok c" and inv: "ring_inv (nbuf c) d" and live: "live d" and n: "n \<noteq> 0"
  shows "initiateTransfer c n d =
    (if occ (nbuf c) d = nbuf c then Inr (True, d)
     else if occ (nbuf c) d = 0 then
       Inr (False, (queue_request (nbuf c) n d)\<lparr>bus := bus d @ kick_events c (dma_handle d ! fill d, n)\<rparr>)
     else Inr (False, queue_request (nbuf c) n d))"
proof -
  have N: "0 < nbuf c" using c by (simp add: cfg_ok_def)
  have e: "fill d = drain d \<and> slot_full d (drain d) \<longleftrightarrow> occ (nbuf c) d = nbuf c"
    "fill d = drain d \<and> \<not> slot_full d (drain d) \<longleftrightarrow> occ (nbuf c) d = 0"
    using occ_full [OF inv] occ_zero [OF inv] by auto
  show ?thesis
  proof (cases "fill d = drain d")
    case False
    then have "occ (nbuf c) d \<noteq> nbuf c" "occ (nbuf c) d \<noteq> 0" using e by auto
    with False n show ?thesis by (simp add: initiateTransfer_def)
  next
    case True
    with e n N kick_live [of "mark_full n d"] live show ?thesis
      by (auto simp: initiateTransfer_def slot_full_def kick_events_def mark_advance_bus)
  qed
qed


lemma irq_critical_cases:
  assumes c: "cfg_ok c" and inv: "ring_inv (nbuf c) d" and live: "live d"
    and some: "0 < occ (nbuf c) d"
    and idle: "occ (nbuf c) d \<in> {1, nbuf c} \<or> 0 \<in> set (rd_answers d)"
  shows "\<exists>as rs. irq_critical c d = Inr (occ (nbuf c) d = nbuf c,
    (retire (nbuf c) d)\<lparr>rd_answers := as, bus := bus d @ poll_reads (reg_fifo c) rs @
       (if occ (nbuf c) d = 1 then [] else kick_events c (hd (requests (nbuf c) (retire (nbuf c) d))))\<rparr>)"
proof -
  let ?N = "nbuf c" and ?d1 = "retire (nbuf c) d"
  have N: "1 < ?N" using c by (simp add: cfg_ok_def)
  have inv1: "ring_inv ?N ?d1" and occ1: "occ ?N ?d1 = occ ?N d - 1"
    using ring_inv_retire [OF inv some] occ_retire [OF inv some] by auto
  have live1: "live ?d1" using live by (simp add: ring_simps)
  have hd1: "hd (requests ?N ?d1) = request_at ?d1 (drain ?d1)" if "occ ?N d \<noteq> 1"
    using hd_requests [OF inv1] that some occ1 by auto
  have kick1: "kick c (dma_handle ?d1 ! drain ?d1) (count (dmaBuffer ?d1 ! drain ?d1)) e =
      Inr (e\<lparr>bus := bus e @ kick_events c (request_at ?d1 (drain ?d1))\<rparr>)" if "live e" for e
    using kick_live [OF that] by (simp add: kick_events_def request_at_def)
  let ?tail = "if occ ?N d = 1 then [] else kick_events c (hd (requests ?N ?d1))"
  have concl: ?thesis if "irq_critical c d = Inr (occ ?N d = ?N,
      ?d1\<lparr>rd_answers := as, bus := bus d @ poll_reads (reg_fifo c) rs @ ?tail\<rparr>)" for as rs
    using that by blast
  consider (full) "occ ?N d = ?N" | (last) "occ ?N d = 1" | (more) "occ ?N d \<noteq> 1" "occ ?N d \<noteq> ?N" by blast
  then show ?thesis
  proof cases
    case full
    then have fd: "fill d = drain d" "slot_full d (drain d)" using occ_full [OF inv] by auto
    have "occ ?N d \<noteq> 1" using full N by simp
    then have tail: "?tail = kick_events c (request_at ?d1 (drain ?d1))" using hd1 by simp
    have "irq_critical c d = Inr (True, ?d1\<lparr>bus := bus ?d1 @ kick_events c (request_at ?d1 (drain ?d1))\<rparr>)"
      using fd by (simp add: irq_critical_def slot_full_def Let_def kick1 [OF live1])
    then have "irq_critical c d = Inr (True, ?d1\<lparr>rd_answers := rd_answers d,
        bus := bus d @ poll_reads (reg_fifo c) [] @ kick_events c (request_at ?d1 (drain ?d1))\<rparr>)"
      by (simp add: poll_reads_def retire_def)
    with full tail show ?thesis by (intro concl [where as = "rd_answers d" and rs = "[]"]) simp
  next
    case last
    then have fd: "fill d \<noteq> drain d" using occ_full [OF inv] occ_zero [OF inv] N by auto
    have "fill ?d1 = drain ?d1" using occ_zero [OF inv1] occ1 last by simp
    with fd have "irq_critical c d = Inr (False, ?d1)" by (simp add: irq_critical_def Let_def)
    then have "irq_critical c d = Inr (False, ?d1\<lparr>rd_answers := rd_answers d, bus := bus d @ poll_reads (reg_fifo c) [] @ []\<rparr>)"
      by (simp add: poll_reads_def retire_def)
    with last N show ?thesis by (intro concl [where as = "rd_answers d" and rs = "[]"]) simp
  next
    case more
    then have fd: "fill d \<noteq> drain d" using occ_full [OF inv] occ_zero [OF inv] some by auto
    have fd1: "fill ?d1 \<noteq> drain ?d1"
      using occ_zero [OF inv1] occ_full [OF inv1] occ1 more some occ_le [OF inv] by auto
    have "0 \<in> set (rd_answers ?d1)" using idle more by (auto simp: ring_simps)
    from poll_zero_terminates [OF live1 this, of "reg_fifo c"]
    obtain as rs where s: "poll_zero (reg_fifo c) ?d1 = Inr (?d1\<lparr>rd_answers := as, bus := bus d @ poll_reads (reg_fifo c) rs\<rparr>)"
      by (simp add: ring_simps)
    have "irq_critical c d = Inr (False, ?d1\<lparr>rd_answers := as,
        bus := bus d @ poll_reads (reg_fifo c) rs @ kick_events c (request_at ?d1 (drain ?d1))\<rparr>)"
      using fd fd1 live1 by (simp add: irq_critical_def Let_def s kick1)
    with more hd1 show ?thesis by (intro concl [where as = as and rs = rs]) simp
  qed
qed

lemma dma_interrupt_flushed:
  assumes c: "cfg_ok c" and live: "live d" and "rd_answers d = flags # as"
    and "flags AND flushed_bit c \<noteq> 0"
  shows "dma_interrupt c d =
    (case irq_critical c (d\<lparr>rd_answers := as, bus := bus d @ [Rd (reg_index (reg_status c)) flags,
             Wr (reg_index (reg_status c)) 0xFFFFFFFF]\<rparr>) of
       Inl e \<Rightarrow> Inl e | Inr (woken, d3) \<Rightarrow> Inr (IRQ_HANDLED, woken, d3))"
  using assms by (simp add: dma_interrupt_def K_READ_REG_def K_WRITE_REG_def)

lemma dma_interrupt_other:
  assumes c: "cfg_ok c" and live: "live d" and "rd_answers d = flags # as"
    and "flags AND flushed_bit c = 0"
  shows "dma_interrupt c d = Inr (IRQ_NONE, False,
    d\<lparr>rd_answers := as, bus := bus d @ [Rd (reg_index (reg_status c)) flags,
             Wr (reg_index (reg_status c)) 0xFFFFFFFF]\<rparr>)"
  using assms by (simp add: dma_interrupt_def K_READ_REG_def K_WRITE_REG_def)

end
