(* ===== verification/Dma_Steps.thy ===== *)
theory Dma_Steps
  imports Dma_System
begin

text \<open>
  The driver, the submitting process and the card as one labelled transition system. The
  card is not modelled beyond one rule: it raises a completion interrupt only for a
  transfer that was started and not yet completed. The label \<open>Interrupted\<close> is the return
  of \<open>wait_event_interruptible\<close> because of a signal, whose result the code ignores.
\<close>

record dma_sys =
  dev :: ring_dev
  sleeper :: "u32 option"
  served :: nat

definition in_flight :: "dma_cfg \<Rightarrow> dma_sys \<Rightarrow> (u32 \<times> u32) list" where
  "in_flight c s = drop (served s) (kicks c 0 (bus (dev s)))"

datatype dma_label = Submit u32 | Sleep u32 | Wake | Interrupted | Irq | Spurious

inductive dma_step :: "dma_cfg \<Rightarrow> dma_sys \<Rightarrow> dma_label \<Rightarrow> dma_sys \<Rightarrow> bool" for c where
  submit: "sleeper s = None \<Longrightarrow> n \<noteq> 0 \<Longrightarrow> initiateTransfer c n (dev s) = Inr (False, d') \<Longrightarrow>
     dma_step c s (Submit n) (s\<lparr>dev := d'\<rparr>)"
| sleep: "sleeper s = None \<Longrightarrow> n \<noteq> 0 \<Longrightarrow> initiateTransfer c n (dev s) = Inr (True, d') \<Longrightarrow>
     dma_step c s (Sleep n) (s\<lparr>dev := d', sleeper := Some n\<rparr>)"
| wake: "sleeper s = Some n \<Longrightarrow> wait_condition (dev s) \<Longrightarrow>
     dma_step c s Wake (s\<lparr>dev := initiateTransfer_resume c n (dev s), sleeper := None\<rparr>)"
| interrupted: "sleeper s = Some n \<Longrightarrow>
     dma_step c s Interrupted (s\<lparr>dev := initiateTransfer_resume c n (dev s), sleeper := None\<rparr>)"
| irq: "in_flight c s \<noteq> [] \<Longrightarrow>
     dma_interrupt c ((dev s)\<lparr>rd_answers := as\<rparr>) = Inr (IRQ_HANDLED, woken, d') \<Longrightarrow>
     dma_step c s Irq (s\<lparr>dev := d', served := Suc (served s)\<rparr>)"
| spurious: "dma_interrupt c ((dev s)\<lparr>rd_answers := as\<rparr>) = Inr (IRQ_NONE, woken, d') \<Longrightarrow>
     dma_step c s Spurious (s\<lparr>dev := d'\<rparr>)"

inductive_cases submitE: "dma_step c s (Submit n) t"
inductive_cases sleepE: "dma_step c s (Sleep n) t"
inductive_cases wakeE: "dma_step c s Wake t"
inductive_cases irqE: "dma_step c s Irq t"
inductive_cases spuriousE: "dma_step c s Spurious t"
inductive_cases interruptedE: "dma_step c s Interrupted t"

lemmas dma_stepEs = submitE sleepE wakeE irqE spuriousE interruptedE

section \<open>The invariant\<close>

definition truncated :: "u64 \<times> u32 \<Rightarrow> u32 \<times> u32" where
  "truncated r = (ucast (fst r), snd r)"

definition sys_inv :: "dma_cfg \<Rightarrow> dma_sys \<Rightarrow> bool" where
  "sys_inv c s \<longleftrightarrow> ring_inv (nbuf c) (dev s) \<and> live (dev s) \<and>
     served s \<le> length (kicks c 0 (bus (dev s))) \<and>
     in_flight c s = map truncated (take 1 (requests (nbuf c) (dev s)))"

lemma kicks_kick_events:
  "cfg_ok c \<Longrightarrow> kicks c a (xs @ kick_events c r) = kicks c a xs @ [truncated r]"
  by (simp add: kick_events_def kicks_append_kick truncated_def)

lemma kicks_status_reads:
  assumes "cfg_ok c"
  shows "kicks c a (xs @ [Rd (reg_index (reg_status c)) f, Wr (reg_index (reg_status c)) v] @ poll_reads (reg_fifo c) rs)
         = kicks c a xs"
  using assms by (intro kicks_append_quiet) (auto simp: poll_reads_def cfg_ok_def)

lemma take1_append: "take 1 (xs @ [x]) = (if xs = [] then [x] else take 1 xs)"
  by (cases xs) auto

lemma irq_critical_idle:
  assumes inv: "ring_inv (nbuf c) d" and live: "live d" and some: "0 < occ (nbuf c) d"
    and res: "irq_critical c d = Inr r"
  shows "occ (nbuf c) d \<in> {1, nbuf c} \<or> 0 \<in> set (rd_answers d)"
proof (rule ccontr)
  let ?N = "nbuf c" and ?d1 = "retire (nbuf c) d"
  assume "\<not> ?thesis"
  then have more: "occ ?N d \<noteq> 1" "occ ?N d \<noteq> ?N" and none: "0 \<notin> set (rd_answers ?d1)"
    by (auto simp: ring_simps)
  have inv1: "ring_inv ?N ?d1" and occ1: "occ ?N ?d1 = occ ?N d - 1"
    using ring_inv_retire [OF inv some] occ_retire [OF inv some] by auto
  have "fill d \<noteq> drain d" "fill ?d1 \<noteq> drain ?d1"
    using more some occ_full [OF inv] occ_zero [OF inv] occ_zero [OF inv1] occ_full [OF inv1]
      occ1 occ_le [OF inv] by auto
  moreover have "live ?d1" using live by (simp add: ring_simps)
  ultimately show False
    using res none by (simp add: irq_critical_def Let_def poll_zero_polls_on)
qed

lemma dma_interrupt_handled:
  assumes c: "cfg_ok c" and live: "live d" and res: "dma_interrupt c d = Inr (IRQ_HANDLED, w, d')"
  obtains flags as where "rd_answers d = flags # as" "flags AND flushed_bit c \<noteq> 0"
    "irq_critical c (d\<lparr>rd_answers := as, bus := bus d @ [Rd (reg_index (reg_status c)) flags,
             Wr (reg_index (reg_status c)) 0xFFFFFFFF]\<rparr>) = Inr (w, d')"
proof (cases "rd_answers d")
  case Nil
  with res c live show ?thesis by (simp add: dma_interrupt_def K_READ_REG_def)
next
  case (Cons flags as)
  show ?thesis
  proof (cases "flags AND flushed_bit c = 0")
    case True
    with dma_interrupt_other [OF c live Cons] res show ?thesis by simp
  next
    case False
    with dma_interrupt_flushed [OF c live Cons] res that Cons show ?thesis
      by (auto split: sum.splits)
  qed
qed

text \<open>What the completion interrupt does to the system: the head of the FIFO is retired and
  the next request, if any, is the one in flight.\<close>

lemma irq_effect:
  assumes c: "cfg_ok c" and inv: "sys_inv c s" and fl: "in_flight c s \<noteq> []"
    and res: "dma_interrupt c ((dev s)\<lparr>rd_answers := as\<rparr>) = Inr (IRQ_HANDLED, w, d')"
  shows "sys_inv c (s\<lparr>dev := d', served := Suc (served s)\<rparr>)"
    and "requests (nbuf c) d' = tl (requests (nbuf c) (dev s))"
    and "0 < occ (nbuf c) (dev s)"
    and "w = (occ (nbuf c) (dev s) = nbuf c)"
    and "kicks c 0 (bus d') = kicks c 0 (bus (dev s)) @ map truncated (take 1 (requests (nbuf c) d'))"
proof -
  let ?N = "nbuf c" and ?d = "dev s"
  have r: "ring_inv ?N ?d" "live ?d" and sv: "served s \<le> length (kicks c 0 (bus ?d))"
    and inf: "in_flight c s = map truncated (take 1 (requests ?N ?d))"
    using inv by (auto simp: sys_inv_def)
  show some: "0 < occ ?N ?d" using fl inf by (cases "occ ?N ?d") (auto simp: requests_def)
  have lv: "live (?d\<lparr>rd_answers := as\<rparr>)" using r(2) by simp
  obtain flags as' where
    crit: "irq_critical c (?d\<lparr>rd_answers := as', bus := bus ?d @ [Rd (reg_index (reg_status c)) flags,
             Wr (reg_index (reg_status c)) 0xFFFFFFFF]\<rparr>) = Inr (w, d')"
    by (rule dma_interrupt_handled [OF c lv res], rule that) simp
  let ?e = "?d\<lparr>rd_answers := as', bus := bus ?d @ [Rd (reg_index (reg_status c)) flags,
             Wr (reg_index (reg_status c)) 0xFFFFFFFF]\<rparr>"
  have e: "ring_inv ?N ?e" "live ?e" "0 < occ ?N ?e" using r some by auto
  from irq_critical_cases [OF c e irq_critical_idle [OF e crit]] crit
  obtain as2 rs where d': "d' = (retire ?N ?e)\<lparr>rd_answers := as2, bus := bus ?e @ poll_reads (reg_fifo c) rs @
      (if occ ?N ?e = 1 then [] else kick_events c (hd (requests ?N (retire ?N ?e))))\<rparr>"
    and w: "w = (occ ?N ?e = ?N)" by auto
  show "w = (occ ?N ?d = ?N)" using w by simp
  have req: "requests ?N (retire ?N ?e) = tl (requests ?N ?d)"
    using requests_retire [OF e(1,3)] by simp
  show rq: "requests ?N d' = tl (requests ?N ?d)" using req d' by simp
  have len: "length (kicks c 0 (bus ?d)) = Suc (served s)"
    using arg_cong [OF inf, of length] some sv by (simp add: in_flight_def)
  let ?quiet = "bus ?d @ [Rd (reg_index (reg_status c)) flags, Wr (reg_index (reg_status c)) 0xFFFFFFFF]
      @ poll_reads (reg_fifo c) rs"
  have bus': "bus d' = ?quiet @ (if occ ?N ?d = 1 then [] else kick_events c (hd (requests ?N d')))"
    using d' req rq by simp
  have quiet: "kicks c 0 ?quiet = kicks c 0 (bus ?d)" by (rule kicks_status_reads [OF c])
  have len': "length (requests ?N d') = occ ?N ?d - 1" using rq by simp
  show ks: "kicks c 0 (bus d') = kicks c 0 (bus ?d) @ map truncated (take 1 (requests ?N d'))"
  proof (cases "requests ?N d'")
    case Nil
    with len' some have "occ ?N ?d = 1" by simp
    with bus' have "bus d' = ?quiet" by simp
    with quiet Nil show ?thesis by (simp only: append_Nil2 take_Nil list.map)
  next
    case (Cons x xs)
    with len' have "occ ?N ?d \<noteq> 1" by auto
    with bus' Cons have "bus d' = ?quiet @ kick_events c x" by (simp only: if_False list.sel)
    then have "kicks c 0 (bus d') = kicks c 0 (bus ?d) @ [truncated x]"
      by (simp only: kicks_kick_events [OF c] quiet)
    with Cons show ?thesis by simp
  qed
  have "ring_inv ?N d'" "live d'" using ring_inv_retire [OF e(1,3)] e(2) d' by (auto simp: ring_simps)
  with ks len show "sys_inv c (s\<lparr>dev := d', served := Suc (served s)\<rparr>)"
    by (simp add: sys_inv_def in_flight_def)
qed


lemma dma_interrupt_none:
  assumes c: "cfg_ok c" and live: "live d" and res: "dma_interrupt c d = Inr (IRQ_NONE, w, d')"
  obtains f r where "rd_answers d = f # r" and "f AND flushed_bit c = 0"
    and "d' = d\<lparr>rd_answers := r, bus := bus d @ [Rd (reg_index (reg_status c)) f,
             Wr (reg_index (reg_status c)) 0xFFFFFFFF] @ poll_reads (reg_fifo c) []\<rparr>"
proof (cases "rd_answers d")
  case Nil
  with res live c show ?thesis by (simp add: dma_interrupt_def K_READ_REG_def)
next
  case (Cons f r)
  show ?thesis
  proof (cases "f AND flushed_bit c = 0")
    case True
    with dma_interrupt_other [OF c live Cons] res Cons that show ?thesis by (simp add: poll_reads_def)
  next
    case False
    with dma_interrupt_flushed [OF c live Cons] res show ?thesis by (auto split: sum.splits)
  qed
qed

text \<open>An interrupt of another device on the line changes nothing but the bus log.\<close>

lemma irq_none_effect:
  assumes c: "cfg_ok c" and live: "live d"
    and res: "dma_interrupt c (d\<lparr>rd_answers := as\<rparr>) = Inr (IRQ_NONE, w, d')"
  shows "kicks c 0 (bus d') = kicks c 0 (bus d)" and "requests N d' = requests N d"
    and "ring_inv N d' = ring_inv N d" and "live d'" and "occ N d' = occ N d"
proof -
  have lv: "live (d\<lparr>rd_answers := as\<rparr>)" using live by simp
  obtain f r where d': "d' = d\<lparr>rd_answers := r, bus := bus d @ [Rd (reg_index (reg_status c)) f,
             Wr (reg_index (reg_status c)) 0xFFFFFFFF] @ poll_reads (reg_fifo c) []\<rparr>"
    by (rule dma_interrupt_none [OF c lv res], rule that) simp
  show "kicks c 0 (bus d') = kicks c 0 (bus d)"
    using kicks_status_reads [OF c, of 0 "bus d" f "0xFFFFFFFF" "[]"] by (simp add: d')
  show "requests N d' = requests N d" "ring_inv N d' = ring_inv N d" "live d'" "occ N d' = occ N d"
    using live by (simp_all add: d')
qed

lemma spurious_effect:
  assumes c: "cfg_ok c" and inv: "sys_inv c s"
    and res: "dma_interrupt c ((dev s)\<lparr>rd_answers := as\<rparr>) = Inr (IRQ_NONE, w, d')"
  shows "sys_inv c (s\<lparr>dev := d'\<rparr>)"
proof -
  have "live (dev s)" using inv by (simp add: sys_inv_def)
  from irq_none_effect [OF c this res] inv show ?thesis by (simp add: sys_inv_def in_flight_def)
qed

text \<open>Adding a request to a ring that holds some already: no register is written.\<close>

lemma queue_effect:
  assumes inv: "sys_inv c s" and occ: "0 < occ (nbuf c) (dev s)" "occ (nbuf c) (dev s) < nbuf c"
  shows "sys_inv c (s\<lparr>dev := queue_request (nbuf c) n (dev s)\<rparr>)"
  using inv occ
  by (auto simp: sys_inv_def in_flight_def ring_inv_queue requests_queue ring_simps take1_append
      simp flip: length_greater_0_conv)

lemma submit_effect:
  assumes c: "cfg_ok c" and inv: "sys_inv c s" and n: "n \<noteq> 0"
    and res: "initiateTransfer c n (dev s) = Inr (False, d')"
  shows "sys_inv c (s\<lparr>dev := d'\<rparr>)"
    and "requests (nbuf c) d' = requests (nbuf c) (dev s) @ [(dma_handle (dev s) ! fill (dev s), n)]"
    and "kicks c 0 (bus d') = kicks c 0 (bus (dev s)) @
           (if requests (nbuf c) (dev s) = [] then map truncated (requests (nbuf c) d') else [])"
proof -
  let ?N = "nbuf c" and ?d = "dev s" and ?r = "(dma_handle (dev s) ! fill (dev s), n)"
  have r: "ring_inv ?N ?d" "live ?d" using inv by (auto simp: sys_inv_def)
  have empty: "requests ?N ?d = [] \<longleftrightarrow> occ ?N ?d = 0" by (metis length_0_conv length_requests)
  have lt: "occ ?N ?d < ?N" and d': "d' = (if occ ?N ?d = 0 then
      (queue_request ?N n ?d)\<lparr>bus := bus ?d @ kick_events c ?r\<rparr> else queue_request ?N n ?d)"
    using initiateTransfer_cases [OF c r n] res occ_le [OF r(1)] by (auto split: if_splits)
  show rq: "requests ?N d' = requests ?N ?d @ [?r]" using requests_queue [OF r(1) lt] d' by simp
  show k: "kicks c 0 (bus d') = kicks c 0 (bus ?d) @
      (if requests ?N ?d = [] then map truncated (requests ?N d') else [])"
    using d' empty by (simp add: kicks_kick_events [OF c] requests_queue [OF r(1) lt] ring_simps)
  have "ring_inv ?N d'" "live d'" using ring_inv_queue [OF r(1) lt] r(2) d' by (auto simp: ring_simps)
  with inv k rq show "sys_inv c (s\<lparr>dev := d'\<rparr>)"
    by (cases "requests ?N ?d") (auto simp: sys_inv_def in_flight_def)
qed

lemma sleep_effect:
  assumes c: "cfg_ok c" and inv: "sys_inv c s" and n: "n \<noteq> 0"
    and res: "initiateTransfer c n (dev s) = Inr (True, d')"
  shows "d' = dev s" and "occ (nbuf c) (dev s) = nbuf c"
  using initiateTransfer_cases [OF c _ _ n, of "dev s"] inv res
  by (auto simp: sys_inv_def split: if_splits)

section \<open>Every prompt step keeps the invariant\<close>

text \<open>
  A step is \<open>prompt\<close> when it is not the ignored signal, and when a sleeper that wakes up
  does so before the card has drained the whole ring.
\<close>

definition prompt :: "dma_cfg \<Rightarrow> dma_sys \<Rightarrow> dma_label \<Rightarrow> bool" where
  "prompt c s l \<longleftrightarrow> l \<noteq> Interrupted \<and> (l = Wake \<longrightarrow> 0 < occ (nbuf c) (dev s))"

lemma wake_effect:
  assumes inv: "sys_inv c s" and occ: "0 < occ (nbuf c) (dev s)" and w: "wait_condition (dev s)"
  shows "sys_inv c (s\<lparr>dev := initiateTransfer_resume c n (dev s), sleeper := None\<rparr>)"
proof -
  have "occ (nbuf c) (dev s) < nbuf c" using inv w wait_condition_iff by (auto simp: sys_inv_def)
  from queue_effect [OF inv occ this] show ?thesis
    by (simp add: initiateTransfer_resume_def sys_inv_def in_flight_def)
qed

lemma sys_inv_step:
  assumes c: "cfg_ok c" and step: "dma_step c s l t" and inv: "sys_inv c s" and p: "prompt c s l"
  shows "sys_inv c t"
  using step
proof cases
  case (submit n d')
  then show ?thesis using submit_effect(1) [OF c inv] by simp
next
  case (sleep n d')
  then have "d' = dev s" using sleep_effect(1) [OF c inv] by simp
  with sleep inv show ?thesis by (simp add: sys_inv_def in_flight_def)
next
  case (wake n)
  with p wake_effect [OF inv] show ?thesis by (simp add: prompt_def)
next
  case (interrupted n)
  with p show ?thesis by (simp add: prompt_def)
next
  case (irq as w d')
  then show ?thesis using irq_effect(1) [OF c inv] by simp
next
  case (spurious as w d')
  then show ?thesis using spurious_effect [OF c inv] by simp
qed

end
