(* ===== verification/Dma_Runs.thy ===== *)
theory Dma_Runs
  imports Dma_Steps
begin

text \<open>
  Runs of the DMA system: what the card is told over a whole run of prompt steps, and the
  two schedules on which the code goes wrong (a sleeper that wakes after the ring has been
  drained, and a sleep ended by a signal).
\<close>

section \<open>Runs\<close>

inductive prompt_run :: "dma_cfg \<Rightarrow> dma_sys \<Rightarrow> dma_label list \<Rightarrow> dma_sys \<Rightarrow> bool" for c where
  nil: "prompt_run c s [] s"
| snoc: "prompt_run c s ls t \<Longrightarrow> dma_step c t l u \<Longrightarrow> prompt c t l \<Longrightarrow> prompt_run c s (ls @ [l]) u"

text \<open>Runs with any schedule but no signal.\<close>

inductive quiet_run :: "dma_cfg \<Rightarrow> dma_sys \<Rightarrow> dma_label list \<Rightarrow> dma_sys \<Rightarrow> bool" for c where
  nil: "quiet_run c s [] s"
| snoc: "quiet_run c s ls t \<Longrightarrow> dma_step c t l u \<Longrightarrow> l \<noteq> Interrupted \<Longrightarrow> quiet_run c s (ls @ [l]) u"

lemma prompt_run_quiet: "prompt_run c s ls t \<Longrightarrow> quiet_run c s ls t"
  by (induction rule: prompt_run.induct) (auto intro: quiet_run.intros simp: prompt_def)

lemma prompt_run_inv:
  assumes "cfg_ok c" and "prompt_run c s ls t" and "sys_inv c s"
  shows "sys_inv c t"
  using assms(2,3) by (induction rule: prompt_run.induct) (auto intro: sys_inv_step [OF assms(1)])

text \<open>The transfer sizes user space has asked for, in order.\<close>

fun submitted :: "dma_label list \<Rightarrow> u32 list" where
  "submitted [] = []"
| "submitted (Submit n # ls) = n # submitted ls"
| "submitted (Sleep n # ls) = n # submitted ls"
| "submitted (_ # ls) = submitted ls"

lemma submitted_append: "submitted (ls @ ks) = submitted ls @ submitted ks"
  by (induction ls rule: submitted.induct) auto

text \<open>What the driver holds: transfers started so far, then the queued ones, then the sleeper's.\<close>

definition history :: "dma_cfg \<Rightarrow> dma_sys \<Rightarrow> u32 list" where
  "history c s = map snd (kicks c 0 (bus (dev s))) @ map snd (tl (requests (nbuf c) (dev s))) @
     (case sleeper s of None \<Rightarrow> [] | Some n \<Rightarrow> [n])"

lemma snd_truncated [simp]: "snd (truncated r) = snd r"
  by (simp add: truncated_def)

lemma requests_Nil: "requests N d = [] \<longleftrightarrow> occ N d = 0"
  by (metis length_0_conv length_requests)

lemma history_step:
  assumes c: "cfg_ok c" and step: "dma_step c s l t" and inv: "sys_inv c s" and p: "prompt c s l"
  shows "history c t = history c s @ submitted [l]"
  using step
proof cases
  case (submit n d')
  note e = submit_effect [OF c inv submit(4,5)]
  show ?thesis
  proof (cases "requests (nbuf c) (dev s)")
    case Nil
    with e(2,3) submit show ?thesis by (simp add: history_def)
  next
    case (Cons r rs)
    with e(2,3) submit show ?thesis by (simp add: history_def)
  qed
next
  case (sleep n d')
  then have "d' = dev s" using sleep_effect(1) [OF c inv] by metis
  with sleep show ?thesis by (simp add: history_def)
next
  case (wake n)
  with p have "0 < occ (nbuf c) (dev s)" by (simp add: prompt_def)
  moreover have "occ (nbuf c) (dev s) < nbuf c"
    using wake inv wait_condition_iff by (auto simp: sys_inv_def)
  moreover have "ring_inv (nbuf c) (dev s)" using inv by (simp add: sys_inv_def)
  ultimately show ?thesis using wake
    by (simp add: history_def initiateTransfer_resume_def requests_queue requests_Nil ring_simps)
next
  case (interrupted n)
  with p show ?thesis by (simp add: prompt_def)
next
  case (irq as w d')
  note e = irq_effect [OF c inv irq(3,4)]
  show ?thesis
    using irq e(2,5) by (cases "tl (requests (nbuf c) (dev s))") (simp_all add: history_def)
next
  case (spurious as w d')
  have "live (dev s)" using inv by (simp add: sys_inv_def)
  from irq_none_effect(1,2) [OF c this spurious(3)] spurious show ?thesis by (simp add: history_def)
qed

lemma history_run:
  assumes c: "cfg_ok c" and run: "prompt_run c s ls t" and inv: "sys_inv c s"
  shows "history c t = history c s @ submitted ls"
  using run inv
proof (induction rule: prompt_run.induct)
  case (nil s)
  then show ?case by simp
next
  case (snoc s ls t l u)
  with prompt_run_inv [OF c snoc(1)] history_step [OF c snoc(2)]
  show ?case by (simp add: submitted_append)
qed

section \<open>The stall\<close>

text \<open>Requests wait in the ring, the card is idle, and nobody will tell it to start.\<close>

definition stalled :: "dma_cfg \<Rightarrow> dma_sys \<Rightarrow> bool" where
  "stalled c s \<longleftrightarrow> ring_inv (nbuf c) (dev s) \<and> live (dev s) \<and>
     0 < occ (nbuf c) (dev s) \<and> in_flight c s = []"

lemma wake_when_drained:
  assumes inv: "sys_inv c s" and step: "dma_step c s Wake t" and c: "cfg_ok c"
    and drained: "occ (nbuf c) (dev s) = 0"
  shows "stalled c t"
proof -
  have N: "0 < nbuf c" using c by (simp add: cfg_ok_def)
  from step obtain n where t: "t = s\<lparr>dev := queue_request (nbuf c) n (dev s), sleeper := None\<rparr>"
    by (auto elim: wakeE simp: initiateTransfer_resume_def)
  have "in_flight c s = []" using inv drained by (simp add: sys_inv_def requests_def)
  then show ?thesis using inv N drained
    by (simp add: t stalled_def in_flight_def sys_inv_def ring_inv_queue occ_queue ring_simps)
qed

lemma stalled_step:
  assumes c: "cfg_ok c" and st: "stalled c s" and step: "dma_step c s l t" and l: "l \<noteq> Interrupted"
  shows "stalled c t \<and> kicks c 0 (bus (dev t)) = kicks c 0 (bus (dev s))"
  using step
proof cases
  case (submit n d')
  have "occ (nbuf c) (dev s) < nbuf c" "d' = queue_request (nbuf c) n (dev s)"
    using submit initiateTransfer_cases [OF c _ _ submit(4), of "dev s"] st occ_le [of "nbuf c" "dev s"]
    by (auto simp: stalled_def split: if_splits)
  with submit st show ?thesis
    by (simp add: stalled_def in_flight_def ring_inv_queue occ_queue ring_simps)
next
  case (sleep n d')
  then have "d' = dev s"
    using initiateTransfer_cases [OF c _ _ sleep(4), of "dev s"] st
    by (auto simp: stalled_def split: if_splits)
  with sleep st show ?thesis by (simp add: stalled_def in_flight_def)
next
  case (wake n)
  then have "occ (nbuf c) (dev s) < nbuf c" using st wait_condition_iff by (auto simp: stalled_def)
  with wake st show ?thesis
    by (simp add: stalled_def in_flight_def initiateTransfer_resume_def ring_inv_queue occ_queue ring_simps)
next
  case (interrupted n)
  with l show ?thesis by simp
next
  case (irq as w d')
  with st show ?thesis by (simp add: stalled_def)
next
  case (spurious as w d')
  have "live (dev s)" using st by (simp add: stalled_def)
  from irq_none_effect [OF c this spurious(3)] spurious st show ?thesis
    by (simp add: stalled_def in_flight_def)
qed

lemma stalled_run:
  assumes c: "cfg_ok c" and run: "quiet_run c s ls t" and st: "stalled c s"
  shows "stalled c t \<and> kicks c 0 (bus (dev t)) = kicks c 0 (bus (dev s))"
  using run st
proof (induction rule: quiet_run.induct)
  case (snoc s ls t l u)
  with stalled_step [OF c _ snoc(2,3)] show ?case by metis
qed simp


text \<open>The stall can be reached: fill the ring, go to sleep, let the card drain it, wake up.\<close>

lemma submit_exists:
  assumes c: "cfg_ok c" and inv: "sys_inv c s" and sl: "sleeper s = None"
    and room: "occ (nbuf c) (dev s) < nbuf c"
  shows "\<exists>t. dma_step c s (Submit 1) t \<and> sleeper t = None \<and> occ (nbuf c) (dev t) = Suc (occ (nbuf c) (dev s))"
proof -
  have r: "ring_inv (nbuf c) (dev s)" "live (dev s)" using inv by (auto simp: sys_inv_def)
  obtain d' where d': "initiateTransfer c 1 (dev s) = Inr (False, d')"
    and o: "occ (nbuf c) d' = Suc (occ (nbuf c) (dev s))"
    using initiateTransfer_cases [OF c r, of 1] room occ_queue [OF r(1) room]
    by (cases "occ (nbuf c) (dev s) = 0") auto
  show ?thesis
    by (rule exI [of _ "s\<lparr>dev := d'\<rparr>"]) (use dma_step.submit [OF sl _ d'] sl o in simp)
qed

lemma irq_exists:
  assumes c: "cfg_ok c" and inv: "sys_inv c s" and some: "0 < occ (nbuf c) (dev s)"
  shows "\<exists>t. dma_step c s Irq t \<and> sleeper t = sleeper s \<and> occ (nbuf c) (dev t) = occ (nbuf c) (dev s) - 1"
proof -
  let ?N = "nbuf c" and ?d = "(dev s)\<lparr>rd_answers := [flushed_bit c, 0]\<rparr>"
  let ?e = "?d\<lparr>rd_answers := [0], bus := bus ?d @ [Rd (reg_index (reg_status c)) (flushed_bit c),
      Wr (reg_index (reg_status c)) 0xFFFFFFFF]\<rparr>"
  have r: "live ?d" "ring_inv ?N ?e" "live ?e" "0 < occ ?N ?e"
    using inv some by (auto simp: sys_inv_def)
  have "in_flight c s \<noteq> []" using inv some by (auto simp: sys_inv_def requests_Nil)
  moreover obtain w d' where i: "irq_critical c ?e = Inr (w, d')"
    using irq_critical_cases [OF c r(2,3,4)] by auto
  have res: "dma_interrupt c ?d = Inr (IRQ_HANDLED, w, d')"
    using dma_interrupt_flushed [OF c r(1)] i c by (simp add: cfg_ok_def)
  ultimately have "dma_step c s Irq (s\<lparr>dev := d', served := Suc (served s)\<rparr>)"
    by (intro dma_step.irq [OF _ res])
  moreover have "occ ?N d' = occ ?N (dev s) - 1"
    using arg_cong [OF irq_effect(2) [OF c inv \<open>in_flight c s \<noteq> []\<close> res], of length] by simp
  ultimately show ?thesis by (intro exI [of _ "s\<lparr>dev := d', served := Suc (served s)\<rparr>"]) simp
qed

lemma fill_up:
  assumes c: "cfg_ok c" and "sys_inv c s" and "sleeper s = None"
  shows "\<exists>ls t. prompt_run c s ls t \<and> sleeper t = None \<and> occ (nbuf c) (dev t) = nbuf c"
proof -
  have "\<exists>ls t. prompt_run c s ls t \<and> sleeper t = None \<and> occ (nbuf c) (dev t) = k"
    if "occ (nbuf c) (dev s) \<le> k" "k \<le> nbuf c" for k
    using that
  proof (induction k rule: dec_induct)
    case base
    with assms show ?case by (blast intro: prompt_run.nil)
  next
    case (step k)
    then obtain ls t where run: "prompt_run c s ls t" "sleeper t = None" "occ (nbuf c) (dev t) = k" by auto
    have inv: "sys_inv c t" by (rule prompt_run_inv [OF c run(1) assms(2)])
    from run(3) step.prems have "occ (nbuf c) (dev t) < nbuf c" by simp
    from submit_exists [OF c inv run(2) this] obtain u where
      "dma_step c t (Submit 1) u" "sleeper u = None" "occ (nbuf c) (dev u) = Suc k"
      using run(3) by auto
    moreover from this(1) run(1) have "prompt_run c s (ls @ [Submit 1]) u"
      by (intro prompt_run.snoc) (auto simp: prompt_def)
    ultimately show ?case by blast
  qed
  moreover have "occ (nbuf c) (dev s) \<le> nbuf c" using assms(2) occ_le by (auto simp: sys_inv_def)
  ultimately show ?thesis by blast
qed

lemma drain_down:
  assumes c: "cfg_ok c" and "sys_inv c s"
  shows "\<exists>ls t. prompt_run c s ls t \<and> sleeper t = sleeper s \<and> occ (nbuf c) (dev t) = 0"
proof -
  have "\<exists>ls t. prompt_run c s ls t \<and> sleeper t = sleeper s \<and> occ (nbuf c) (dev t) = occ (nbuf c) (dev s) - k"
    for k
  proof (induction k)
    case 0
    show ?case by (auto intro!: exI prompt_run.nil)
  next
    case (Suc k)
    then obtain ls t where run: "prompt_run c s ls t" "sleeper t = sleeper s"
      "occ (nbuf c) (dev t) = occ (nbuf c) (dev s) - k" by auto
    have inv: "sys_inv c t" by (rule prompt_run_inv [OF c run(1) assms(2)])
    show ?case
    proof (cases "occ (nbuf c) (dev t) = 0")
      case True
      with run show ?thesis by (intro exI [of _ ls] exI [of _ t]) simp
    next
      case False
      then obtain u where "dma_step c t Irq u" "sleeper u = sleeper t"
        "occ (nbuf c) (dev u) = occ (nbuf c) (dev t) - 1"
        using irq_exists [OF c inv] by auto
      with run show ?thesis
        by (intro exI [of _ "ls @ [Irq]"] exI [of _ u]) (auto intro: prompt_run.snoc simp: prompt_def)
    qed
  qed
  from this [of "occ (nbuf c) (dev s)"] show ?thesis by simp
qed

lemma quiet_run_trans: "quiet_run c t ls' u \<Longrightarrow> quiet_run c s ls t \<Longrightarrow> quiet_run c s (ls @ ls') u"
  by (induction rule: quiet_run.induct) (auto intro: quiet_run.snoc simp flip: append_assoc)

lemma stall_reachable:
  assumes c: "cfg_ok c" and inv: "sys_inv c s" and sl: "sleeper s = None"
  shows "\<exists>ls t. quiet_run c s ls t \<and> stalled c t"
proof -
  obtain ls t where full: "prompt_run c s ls t" "sleeper t = None" "occ (nbuf c) (dev t) = nbuf c"
    using fill_up [OF c inv sl] by blast
  have invt: "sys_inv c t" by (rule prompt_run_inv [OF c full(1) inv])
  then have r: "ring_inv (nbuf c) (dev t)" "live (dev t)" by (auto simp: sys_inv_def)
  let ?u = "t\<lparr>dev := dev t, sleeper := Some 1\<rparr>"
  have slp: "dma_step c t (Sleep 1) ?u"
    using initiateTransfer_cases [OF c r, of 1] full by (intro dma_step.sleep) auto
  have invu: "sys_inv c ?u" using invt by (simp add: sys_inv_def in_flight_def)
  obtain ls' v where dr: "prompt_run c ?u ls' v" "sleeper v = Some 1" "occ (nbuf c) (dev v) = 0"
    using drain_down [OF c invu] by auto
  have invv: "sys_inv c v" by (rule prompt_run_inv [OF c dr(1) invu])
  have "wait_condition (dev v)" using invv dr(3) c wait_condition_iff
    by (auto simp: sys_inv_def cfg_ok_def)
  from dma_step.wake [OF dr(2) this] obtain w where w: "dma_step c v Wake w" by blast
  have "quiet_run c s (ls @ [Sleep 1]) ?u"
    by (rule quiet_run.snoc [OF prompt_run_quiet [OF full(1)] slp]) simp
  from quiet_run_trans [OF prompt_run_quiet [OF dr(1)] this] w
  have "quiet_run c s (((ls @ [Sleep 1]) @ ls') @ [Wake]) w" by (intro quiet_run.snoc) auto
  moreover have "stalled c w" by (rule wake_when_drained [OF invv w c dr(3)])
  ultimately show ?thesis by blast
qed

section \<open>The ignored signal\<close>

text \<open>A signal that ends the sleep on a full ring makes the code overwrite the request the card
  is working on and forget all the others.\<close>

lemma interrupted_full:
  assumes c: "cfg_ok c" and inv: "sys_inv c s" and step: "dma_step c s Interrupted t"
    and full: "occ (nbuf c) (dev s) = nbuf c"
  shows "occ (nbuf c) (dev t) = 1" and "drain (dev t) = drain (dev s)"
    and "\<exists>n. sleeper s = Some n \<and> count (dmaBuffer (dev t) ! drain (dev t)) = n"
proof -
  let ?N = "nbuf c" and ?d = "dev s"
  have r: "ring_inv ?N ?d" using inv by (simp add: sys_inv_def)
  have N: "1 < ?N" "drain ?d < ?N" "length (dmaBuffer ?d) = ?N" using c r by (auto simp: cfg_ok_def ring_inv_def)
  from step obtain n where n: "sleeper s = Some n"
    and t: "t = s\<lparr>dev := queue_request ?N n ?d, sleeper := None\<rparr>"
    by (auto elim: interruptedE simp: initiateTransfer_resume_def)
  have fd: "fill ?d = drain ?d" using occ_full [OF r] full by simp
  have f: "fill (dev t) = (drain ?d + 1) mod ?N" "drain (dev t) = drain ?d"
    using t fd by (simp_all add: ring_simps ring_next_def)
  show "drain (dev t) = drain ?d" by (rule f(2))
  have dist: "ring_dist ?N (drain ?d) (fill (dev t)) = 1"
    using ring_dist_offset [OF N(2,1)] f(1) by simp
  then have "fill (dev t) \<noteq> drain (dev t)" using f(2) N(2) by auto
  with dist f(2) show "occ ?N (dev t) = 1" by (simp add: occ_def)
  show "\<exists>n. sleeper s = Some n \<and> count (dmaBuffer (dev t) ! drain (dev t)) = n"
    using n t fd N by (simp add: ring_simps)
qed

end
