(* ===== verification/Kernel_Services.thy ===== *)
theory Kernel_Services
  imports Kyouko_Bus
begin

text \<open>
  The kernel services the drivers call are not part of the repository: their results are a
  parameter \<open>K\<close> of the model. The wrappers below record each call and apply its documented
  effect on what the driver can see (which addresses are mapped, what is registered).
\<close>

record kservices =
  ioremap_nocache :: "u64 \<Rightarrow> u64"                  \<comment> \<open>physical base to kernel address, 0 on failure\<close>
  pci_resource_start :: "nat \<Rightarrow> nat \<Rightarrow> u64"         \<comment> \<open>device, BAR\<close>
  cdev_add :: int
  pci_register_driver :: "int \<times> nat option"         \<comment> \<open>result, and the device the core probed, if any\<close>
  pci_enable_device :: "nat \<Rightarrow> int"
  pci_enable_msi :: "nat \<Rightarrow> int"
  request_irq :: "nat \<Rightarrow> int"
  pci_alloc_consistent :: "nat \<Rightarrow> u64 \<times> u64"       \<comment> \<open>i-th buffer: kernel address (0 on failure), DMA handle\<close>
  do_mmap :: "u64 \<Rightarrow> u64"                           \<comment> \<open>file offset to user address\<close>
  do_munmap :: "u64 \<Rightarrow> int"
  copy_from_user :: "u64 \<Rightarrow> u32 \<times> u64"             \<comment> \<open>the word stored, bytes not copied\<close>
  io_remap_pfn_range :: "u64 \<Rightarrow> u64 \<Rightarrow> int"         \<comment> \<open>page frame, length\<close>
  current_fsuid :: u32

definition call :: "kcall \<Rightarrow> 'a kyouko2_scheme \<Rightarrow> 'a kyouko2_scheme" where
  "call k d = d\<lparr>kcalls := kcalls d @ [k]\<rparr>"

text \<open>Map a physical range: a non-NULL result is a live mapping until \<open>iounmap\<close>.\<close>

definition ioremap_as :: "u64 \<Rightarrow> 'a kyouko2_scheme \<Rightarrow> 'a kyouko2_scheme" where
  "ioremap_as v d = (call (Ioremap v) d)\<lparr>iomaps := (if v = 0 then iomaps d else v # iomaps d)\<rparr>"

definition iounmap :: "u64 \<Rightarrow> 'a kyouko2_scheme \<Rightarrow> 'a kyouko2_scheme" where
  "iounmap v d = (call (Iounmap v) d)\<lparr>iomaps := remove1 v (iomaps d)\<rparr>"

text \<open>A service that is handed \<open>p_pci_dev\<close> and dereferences it: a fault when it is NULL.\<close>

definition with_pci_dev :: "(nat \<Rightarrow> 'a kyouko2_scheme \<Rightarrow> 'b) \<Rightarrow> 'a kyouko2_scheme \<Rightarrow> fault + 'b" where
  "with_pci_dev f d = (case p_pci_dev d of None \<Rightarrow> Inl Null_Device | Some p \<Rightarrow> Inr (f p d))"

text \<open>\<open>pci_register_driver\<close>: on success the core calls the probe hook for a matching device.\<close>

definition register_driver ::
  "kservices \<Rightarrow> (nat \<Rightarrow> 'a kyouko2_scheme \<Rightarrow> 'a kyouko2_scheme) \<Rightarrow> 'a kyouko2_scheme \<Rightarrow> int \<times> 'a kyouko2_scheme" where
  "register_driver K probe d =
     (let (r, m) = pci_register_driver K; d1 = call Pci_Register d in
      if r = 0 then (0, (case m of None \<Rightarrow> d1 | Some p \<Rightarrow> probe p d1)\<lparr>pci_registered := True\<rparr>)
      else (r, d1))"

definition add_cdev :: "kservices \<Rightarrow> 'a kyouko2_scheme \<Rightarrow> int \<times> 'a kyouko2_scheme" where
  "add_cdev K d = (cdev_add K, (call Cdev_Add d)\<lparr>cdev_added := (cdev_add K = 0)\<rparr>)"

definition del_cdev :: "'a kyouko2_scheme \<Rightarrow> 'a kyouko2_scheme" where
  "del_cdev d = (call Cdev_Del d)\<lparr>cdev_added := False\<rparr>"

definition unregister_driver :: "'a kyouko2_scheme \<Rightarrow> 'a kyouko2_scheme" where
  "unregister_driver d = (call Pci_Unregister d)\<lparr>pci_registered := False\<rparr>"

text \<open>
  The enable step every PCI driver here ends with: \<open>pci_enable_device(kyouko2.p_pci_dev)\<close>,
  return its error, else \<open>pci_set_master\<close>. A NULL device is dereferenced.
\<close>

definition enable_device :: "kservices \<Rightarrow> 'a kyouko2_scheme \<Rightarrow> fault + int \<times> 'a kyouko2_scheme" where
  "enable_device K d =
     with_pci_dev (\<lambda>p e.
        let f = pci_enable_device K p; e1 = call (Pci_Enable_Device p) e in
        if f \<noteq> 0 then (f, e1) else (f, call (Pci_Set_Master p) e1)) d"

lemma call_sel [simp]:
  "k_control_base (call k d) = k_control_base d" "k_card_ram_base (call k d) = k_card_ram_base d"
  "iomaps (call k d) = iomaps d" "bus (call k d) = bus d" "p_pci_dev (call k d) = p_pci_dev d"
  "rd_answers (call k d) = rd_answers d" "kcalls (call k d) = kcalls d @ [k]"
  "cdev_added (call k d) = cdev_added d" "pci_registered (call k d) = pci_registered d"
  "p_control_base (call k d) = p_control_base d" "p_card_ram_base (call k d) = p_card_ram_base d"
  "live (call k d) = live d"
  by (simp_all add: call_def live_def)

lemma iounmap_live:
  "distinct (iomaps d) \<Longrightarrow> k_control_base d = v \<Longrightarrow> \<not> live (iounmap v d)"
  by (simp add: iounmap_def live_def)

lemma iounmap_dead: "\<not> live d \<Longrightarrow> \<not> live (iounmap v d)"
  by (auto simp: iounmap_def live_def dest: notin_set_remove1)

end
