(* ===== verification/Char_Modules.thy ===== *)
theory Char_Modules
  imports Kernel_Services
begin

text \<open>
  The three smaller modules: \<open>launchModule.c\<close> (a character device and nothing else),
  \<open>contactWithGraphicCard.c\<close> (the first contact with the card over PCI) and
  \<open>drawLineTriangle.c\<close> (drawing through mapped registers).
\<close>

section \<open>\<open>launchModule.c\<close>\<close>

definition launchModule_init :: "kservices \<Rightarrow> kyouko2 \<Rightarrow> int \<times> kyouko2" where
  "launchModule_init K d = add_cdev K d"

definition launchModule_exit :: "kyouko2 \<Rightarrow> kyouko2" where
  "launchModule_exit d = del_cdev d"

definition launch_open :: "kyouko2 \<Rightarrow> int \<times> kyouko2" where
  "launch_open d = (0, d)"

definition launch_release :: "kyouko2 \<Rightarrow> int \<times> kyouko2" where
  "launch_release d = (0, d)"

section \<open>\<open>contactWithGraphicCard.c\<close>\<close>

definition contact_write_reg :: "u32 \<Rightarrow> u32 \<Rightarrow> kyouko2 \<Rightarrow> fault + kyouko2" where
  "contact_write_reg reg value d =
     (if \<not> live d then Inl (Wild_Access reg)
      else Inr (d\<lparr>bus := bus d @ [Wr (reg_index reg) value]\<rparr>))"

definition contact_open :: "kservices \<Rightarrow> 'a kyouko2_scheme \<Rightarrow> int \<times> 'a kyouko2_scheme" where
  "contact_open K d =
     (let c = ioremap_nocache K (p_control_base d); d1 = (ioremap_as c d)\<lparr>k_control_base := c\<rparr>;
          r = ioremap_nocache K (p_card_ram_base d1); d2 = (ioremap_as r d1)\<lparr>k_card_ram_base := r\<rparr>
      in (0, d2))"

text \<open>Reboot the card (offset \<open>0x1000\<close>), then take both mappings down.\<close>

definition contact_release :: "kyouko2 \<Rightarrow> fault + int \<times> kyouko2" where
  "contact_release d =
     (case contact_write_reg 0x1000 1 d of
        Inl e \<Rightarrow> Inl e
      | Inr d1 \<Rightarrow> Inr (0, iounmap (k_card_ram_base d1) (iounmap (k_control_base d1) d1)))"

definition PAGE_SHIFT :: nat where "PAGE_SHIFT = 12"

record vma =
  vm_pgoff :: u64
  vm_start :: u64
  vm_end :: u64

text \<open>Every offset maps the control registers.\<close>

definition contact_mmap :: "kservices \<Rightarrow> vma \<Rightarrow> kyouko2 \<Rightarrow> int" where
  "contact_mmap K v d =
     io_remap_pfn_range K (drop_bit PAGE_SHIFT (p_control_base d)) (vm_end v - vm_start v)"

definition contact_probe :: "kservices \<Rightarrow> nat \<Rightarrow> 'a kyouko2_scheme \<Rightarrow> 'a kyouko2_scheme" where
  "contact_probe K pci_dev d = d\<lparr>p_control_base := pci_resource_start K pci_dev 1,
     p_card_ram_base := pci_resource_start K pci_dev 2, p_pci_dev := Some pci_dev\<rparr>"

definition contact_init :: "kservices \<Rightarrow> kyouko2 \<Rightarrow> fault + int \<times> kyouko2" where
  "contact_init K d =
     (let (flag, d1) = add_cdev K d in
      if flag \<noteq> 0 then Inr (flag, d1)
      else let (flag, d2) = register_driver K (contact_probe K) d1 in
           if flag = 0 then enable_device K d2 else Inr (flag, d2))"

definition contact_exit :: "kyouko2 \<Rightarrow> fault + kyouko2" where
  "contact_exit d =
     (case with_pci_dev (\<lambda>p e. call (Pci_Disable_Device p) e) d of
        Inl e \<Rightarrow> Inl e | Inr d1 \<Rightarrow> Inr (del_cdev (unregister_driver d1)))"

section \<open>\<open>drawLineTriangle.c\<close>\<close>

text \<open>The module's own register accesses and its copy of the register header.\<close>

definition draw_READ_REG :: "u32 \<Rightarrow> 'a kyouko2_scheme \<Rightarrow> fault + u32 \<times> 'a kyouko2_scheme" where
  "draw_READ_REG reg d =
     (if \<not> live d then Inl (Wild_Access reg)
      else case rd_answers d of
             [] \<Rightarrow> Inl Still_Polling
           | value # rest \<Rightarrow>
               Inr (value, d\<lparr>rd_answers := rest, bus := bus d @ [Rd (reg_index reg) value]\<rparr>))"

definition draw_WRITE_REG :: "u32 \<Rightarrow> u32 \<Rightarrow> 'a kyouko2_scheme \<Rightarrow> fault + 'a kyouko2_scheme" where
  "draw_WRITE_REG reg value d =
     (if \<not> live d then Inl (Wild_Access reg)
      else Inr (d\<lparr>bus := bus d @ [Wr (reg_index reg) value]\<rparr>))"

definition draw_WRITE_REG_F :: "u32 \<Rightarrow> u32 \<Rightarrow> 'a kyouko2_scheme \<Rightarrow> fault + 'a kyouko2_scheme" where
  "draw_WRITE_REG_F reg float_bits d =
     (if \<not> live d then Inl (Wild_Access reg)
      else Inr (d\<lparr>bus := bus d @ [Wr (reg_index reg) float_bits]\<rparr>))"

lemma draw_regs_same [simp]:
  "draw_READ_REG = K_READ_REG" "draw_WRITE_REG = K_WRITE_REG" "draw_WRITE_REG_F = K_WRITE_REG_F"
  by (intro ext, simp add: draw_READ_REG_def K_READ_REG_def draw_WRITE_REG_def K_WRITE_REG_def
      draw_WRITE_REG_F_def K_WRITE_REG_F_def)+

definition draw_registers :: "(string \<times> u32) list" where
  "draw_registers =
     [(''ConfigReboot'', 0x1000), (''ConfigModeset'', 0x1008), (''ConfigAcceleration'', 0x1010),
      (''RasterPrimitive'', 0x3000), (''RasterEmit'', 0x3004), (''RasterClear'', 0x3008), (''RasterFlush'', 0x3FFC),
      (''InfoFifoDepth'', 0x4004),
      (''DrawVertexCoordX'', 0x5000), (''DrawVertexCoordY'', 0x5004), (''DrawVertexCoordZ'', 0x5008),
      (''DrawVertexCoordW'', 0x500C), (''DrawVertexColorR'', 0x5010), (''DrawVertexColorG'', 0x5014),
      (''DrawVertexColorB'', 0x5018), (''DrawVertexColorAlpha'', 0x501C),
      (''DrawClearColorR'', 0x5100), (''DrawClearColorG'', 0x5104), (''DrawClearColorB'', 0x5108),
      (''DrawClearColorAlpha'', 0x510C),
      (''FrameColumns'', 0x8000), (''FrameRows'', 0x8004), (''FrameRowPitch'', 0x8008), (''FramePixelFormat'', 0x800C),
      (''FrameStartAddress'', 0x8010),
      (''EncoderWidth'', 0x9000), (''EncoderHeight'', 0x9004), (''EncoderOffsetX'', 0x9008),
      (''EncoderOffsetY'', 0x900C), (''EncoderFrame'', 0x9010)]"

definition draw_sync :: "'a kyouko2_scheme \<Rightarrow> fault + 'a kyouko2_scheme" where
  "draw_sync = poll_zero InfoFifoDepth"

definition draw_writeflush :: "'a kyouko2_scheme \<Rightarrow> fault + 'a kyouko2_scheme" where
  "draw_writeflush = draw_WRITE_REG RasterFlush 1"

definition draw_clearBuf_1 :: "'a kyouko2_scheme \<Rightarrow> fault + 'a kyouko2_scheme" where
  "draw_clearBuf_1 = draw_WRITE_REG RasterClear 1"

definition draw_reboot_1 :: "'a kyouko2_scheme \<Rightarrow> fault + 'a kyouko2_scheme" where
  "draw_reboot_1 = draw_WRITE_REG ConfigReboot 1"

lemma draw_ops_same [simp]:
  "draw_sync = sync" "draw_writeflush = writeflush" "draw_clearBuf_1 = clearBuf_1" "draw_reboot_1 = reboot_1"
  by (simp_all add: draw_sync_def sync_def draw_writeflush_def writeflush_def draw_clearBuf_1_def clearBuf_1_def
      draw_reboot_1_def reboot_1_def)

text \<open>The size of the card's memory is read before the registers are mapped, and not used.\<close>

definition draw_open :: "kservices \<Rightarrow> kyouko2 \<Rightarrow> fault + int \<times> kyouko2" where
  "draw_open K d =
     (case draw_READ_REG 0x20 d of
        Inl e \<Rightarrow> Inl e
      | Inr (ramSize, d0) \<Rightarrow>
          (let c = ioremap_nocache K (p_control_base d0); d1 = (ioremap_as c d0)\<lparr>k_control_base := c\<rparr>;
               r = ioremap_nocache K (p_card_ram_base d1); d2 = (ioremap_as r d1)\<lparr>k_card_ram_base := r\<rparr>
           in Inr (0, d2)))"

definition draw_release :: "kyouko2 \<Rightarrow> fault + int \<times> kyouko2" where
  "draw_release d =
     (case draw_WRITE_REG 0x1000 1 d of
        Inl e \<Rightarrow> Inl e
      | Inr d1 \<Rightarrow> Inr (0, iounmap (k_card_ram_base d1) (iounmap (k_control_base d1) d1)))"

definition draw_graphicsOn :: "kyouko2 \<Rightarrow> fault + kyouko2" where
  "draw_graphicsOn = run_ops
    [draw_WRITE_REG FrameColumns 1024,
     draw_WRITE_REG FrameRows 768,
     draw_WRITE_REG FrameRowPitch (4 * 1024),
     draw_WRITE_REG FramePixelFormat 0xf888,
     draw_WRITE_REG FrameStartAddress 0,
     draw_WRITE_REG EncoderWidth 1024,
     draw_WRITE_REG EncoderHeight 768,
     draw_WRITE_REG EncoderOffsetX 0,
     draw_WRITE_REG EncoderOffsetY 0,
     draw_WRITE_REG EncoderFrame 0,
     draw_WRITE_REG ConfigAcceleration 0x40000000,
     draw_sync,
     draw_WRITE_REG ConfigModeset 1,
     draw_WRITE_REG_F DrawClearColorR float_0_2,
     draw_WRITE_REG_F DrawClearColorG float_0_2,
     draw_WRITE_REG_F DrawClearColorB float_0_2,
     draw_WRITE_REG_F DrawClearColorAlpha float_0_0,
     draw_writeflush,
     draw_clearBuf_1]"

datatype draw_cmd = Draw_VMODE | Draw_SYNC | Draw_Other u32

definition draw_ioctl :: "draw_cmd \<Rightarrow> u64 \<Rightarrow> kyouko2 \<Rightarrow> fault + int \<times> kyouko2" where
  "draw_ioctl cmd arg d =
     (case (case cmd of
              Draw_VMODE \<Rightarrow>
                if (ucast arg :: u32) = GRAPHICS_ON then draw_graphicsOn d
                else run_ops [draw_sync, draw_reboot_1] d
            | Draw_SYNC \<Rightarrow> draw_sync d
            | Draw_Other c \<Rightarrow> Inr d) of
        Inl e \<Rightarrow> Inl e | Inr d1 \<Rightarrow> Inr (0, d1))"

text \<open>The page frame an offset of the device file stands for.\<close>

definition draw_mmap_pfn :: "vma \<Rightarrow> kyouko2 \<Rightarrow> u64 option" where
  "draw_mmap_pfn v d =
     (if push_bit PAGE_SHIFT (vm_pgoff v) = 0 then Some (drop_bit PAGE_SHIFT (p_control_base d))
      else if push_bit PAGE_SHIFT (vm_pgoff v) = 0x80000000 then Some (drop_bit PAGE_SHIFT (p_card_ram_base d))
      else None)"

definition draw_mmap :: "kservices \<Rightarrow> vma \<Rightarrow> kyouko2 \<Rightarrow> int" where
  "draw_mmap K v d = (case draw_mmap_pfn v d of
      None \<Rightarrow> -1 | Some pfn \<Rightarrow> io_remap_pfn_range K pfn (vm_end v - vm_start v))"

definition draw_probe :: "kservices \<Rightarrow> nat \<Rightarrow> 'a kyouko2_scheme \<Rightarrow> 'a kyouko2_scheme" where
  "draw_probe K pci_dev d = d\<lparr>p_control_base := pci_resource_start K pci_dev 1,
     p_card_ram_base := pci_resource_start K pci_dev 2, p_pci_dev := Some pci_dev\<rparr>"

text \<open>\<open>if (flag <= 0)\<close>: a negative error of \<open>pci_register_driver\<close> is taken for success.\<close>

definition draw_init :: "kservices \<Rightarrow> kyouko2 \<Rightarrow> fault + int \<times> kyouko2" where
  "draw_init K d =
     (let (flag, d1) = add_cdev K d in
      if flag \<noteq> 0 then Inr (flag, d1)
      else let (flag, d2) = register_driver K (draw_probe K) d1 in
           if flag \<le> 0 then enable_device K d2 else Inr (flag, d2))"

definition draw_exit :: "kyouko2 \<Rightarrow> kyouko2" where
  "draw_exit d = del_cdev (unregister_driver d)"

end
