(* ===== verification/Dma_Driver.thy ===== *)
theory Dma_Driver
  imports Dma_Runs Char_Modules
begin

text \<open>
  The file operations and the module entry points of \<open>dmaBuffer.c\<close>: open, release, ioctl,
  mmap, probe, init and exit, over the device state with the ring of \<open>Dma_Ring\<close>.
\<close>

section \<open>Open and release\<close>

definition BUF_BYTES :: u64 where "BUF_BYTES = 124 * 1024"

definition kyouko2_open :: "kservices \<Rightarrow> ring_dev \<Rightarrow> int \<times> ring_dev" where
  "kyouko2_open K d =
     (let c = ioremap_nocache K (p_control_base d); d1 = (ioremap_as c d)\<lparr>k_control_base := c\<rparr>;
          r = ioremap_nocache K (p_card_ram_base d1); d2 = (ioremap_as r d1)\<lparr>k_card_ram_base := r\<rparr>
      in (0, d2))"

definition free_buffer :: "nat \<Rightarrow> ring_dev \<Rightarrow> fault + ring_dev" where
  "free_buffer i d = Inr (call (Pci_Free (buffer (dmaBuffer d ! i)) (dma_handle d ! i))
                           (call (Do_Munmap (userVirtAddr d ! i)) d))"

text \<open>The registers are unmapped before the interrupt register is written.\<close>

definition kyouko2_release :: "ring_dev \<Rightarrow> fault + int \<times> ring_dev" where
  "kyouko2_release d =
     (case run_ops
        ([K_WRITE_REG 0x1000 1,
          \<lambda>e. Inr (iounmap (k_control_base e) e),
          \<lambda>e. Inr (iounmap (k_card_ram_base e) e),
          K_WRITE_REG ConfigInterrupt 0x00,
          with_pci_dev (\<lambda>p. call (Free_Irq p)),
          with_pci_dev (\<lambda>p. call (Pci_Disable_Msi p))]
         @ map free_buffer [0..<BUFFERS]) d of
        Inl e \<Rightarrow> Inl e | Inr d1 \<Rightarrow> Inr (0, d1))"

section \<open>ioctl\<close>

datatype dma_cmd = VMODE | SYNC | BIND_DMA | START_DMA | FLUSH | Other_Cmd u32

text \<open>Result of a call: it returned a value, or the caller now sleeps in \<open>wait_event_interruptible\<close>.\<close>

datatype ioctl_result = Returned int | Waiting

definition bind_slot :: "kservices \<Rightarrow> nat \<Rightarrow> ring_dev \<Rightarrow> fault + ring_dev" where
  "bind_slot K i d =
     (let (buf, handle) = pci_alloc_consistent K i;
          d1 = (call (Pci_Alloc buf handle) d)\<lparr>dma_handle := (dma_handle d)[i := handle],
                 dmaBuffer := (dmaBuffer d)[i := (dmaBuffer d ! i)\<lparr>buffer := buf\<rparr>]\<rparr>;
          off = of_nat ((i + 1) * 0x1000); ua = do_mmap K off;
          d2 = (call (Do_Mmap off) d1)\<lparr>userVirtAddr := (userVirtAddr d1)[i := ua]\<rparr>
      in Inr (d2\<lparr>dmaBuffer := (dmaBuffer d2)[i := (dmaBuffer d2 ! i)\<lparr>isFull := 0, count := 0\<rparr>]\<rparr>))"

definition bind_dma :: "kservices \<Rightarrow> u64 \<Rightarrow> ring_dev \<Rightarrow> fault + ring_dev" where
  "bind_dma K arg = run_ops
     (map (bind_slot K) [0..<BUFFERS] @
      [\<lambda>d. Inr (call (Copy_To_User arg (userVirtAddr d ! 0)) d),
       \<lambda>d. Inr (d\<lparr>fill := 0, drain := 0\<rparr>),
       with_pci_dev (\<lambda>p. call (Pci_Enable_Msi p)),
       with_pci_dev (\<lambda>p. call (Request_Irq p)),
       K_WRITE_REG INFOSTATUS 0xFFFFFFFF,
       K_WRITE_REG ConfigInterrupt 0x2])"

text \<open>Return the user address of the buffer to fill next.\<close>

definition next_buffer_to_user :: "u64 \<Rightarrow> ring_dev \<Rightarrow> ring_dev" where
  "next_buffer_to_user arg d = call (Copy_To_User arg (userVirtAddr d ! fill d)) d"

definition start_dma :: "kservices \<Rightarrow> u64 \<Rightarrow> ring_dev \<Rightarrow> fault + ioctl_result \<times> ring_dev" where
  "start_dma K arg d =
     (let d1 = d\<lparr>user_size := fst (copy_from_user K arg)\<rparr> in
      case initiateTransfer kyouko2_cfg (user_size d1) d1 of
        Inl e \<Rightarrow> Inl e
      | Inr (True, d2) \<Rightarrow> Inr (Waiting, d2)
      | Inr (False, d2) \<Rightarrow> Inr (Returned 0, next_buffer_to_user arg d2))"

text \<open>The rest of START_DMA once the sleep is over; \<open>numBytes\<close> was passed by value.\<close>

definition start_dma_resume :: "u64 \<Rightarrow> u32 \<Rightarrow> ring_dev \<Rightarrow> ioctl_result \<times> ring_dev" where
  "start_dma_resume arg numBytes d =
     (Returned 0, next_buffer_to_user arg (initiateTransfer_resume kyouko2_cfg numBytes d))"

definition returning :: "fault + ring_dev \<Rightarrow> fault + ioctl_result \<times> ring_dev" where
  "returning r = (case r of Inl e \<Rightarrow> Inl e | Inr d \<Rightarrow> Inr (Returned 0, d))"

definition kyouko2_ioctl ::
  "kservices \<Rightarrow> dma_cmd \<Rightarrow> u64 \<Rightarrow> ring_dev \<Rightarrow> fault + ioctl_result \<times> ring_dev" where
  "kyouko2_ioctl K cmd arg d =
     (case cmd of
        VMODE \<Rightarrow> returning (if (ucast arg :: u32) = GRAPHICS_ON then graphicsOn d
                            else run_ops [sync, reboot_1] d)
      | SYNC \<Rightarrow> returning (sync d)
      | BIND_DMA \<Rightarrow> returning (bind_dma K arg d)
      | START_DMA \<Rightarrow> start_dma K arg d
      | FLUSH \<Rightarrow> returning (writeflush d)
      | Other_Cmd c \<Rightarrow> Inr (Returned 0, d))"

section \<open>mmap\<close>

definition mmap_pfn :: "vma \<Rightarrow> ring_dev \<Rightarrow> u64 option" where
  "mmap_pfn v d =
     (let off = push_bit PAGE_SHIFT (vm_pgoff v) in
      if off = 0 then Some (drop_bit PAGE_SHIFT (p_control_base d))
      else if off = 0x80000000 then Some (drop_bit PAGE_SHIFT (p_card_ram_base d))
      else if 0x1000 = off then Some (drop_bit PAGE_SHIFT (dma_handle d ! 0))
      else if 0x2000 = off then Some (drop_bit PAGE_SHIFT (dma_handle d ! 1))
      else if 0x3000 = off then Some (drop_bit PAGE_SHIFT (dma_handle d ! 2))
      else if 0x4000 = off then Some (drop_bit PAGE_SHIFT (dma_handle d ! 3))
      else if 0x5000 = off then Some (drop_bit PAGE_SHIFT (dma_handle d ! 4))
      else if 0x6000 = off then Some (drop_bit PAGE_SHIFT (dma_handle d ! 5))
      else if 0x7000 = off then Some (drop_bit PAGE_SHIFT (dma_handle d ! 6))
      else if 0x8000 = off then Some (drop_bit PAGE_SHIFT (dma_handle d ! 7))
      else None)"

definition kyouko2_mmap :: "kservices \<Rightarrow> vma \<Rightarrow> ring_dev \<Rightarrow> int" where
  "kyouko2_mmap K v d = (case mmap_pfn v d of
      None \<Rightarrow> -1 | Some pfn \<Rightarrow> io_remap_pfn_range K pfn (vm_end v - vm_start v))"

section \<open>Probe, init, exit\<close>

definition kyouko2_probe :: "kservices \<Rightarrow> nat \<Rightarrow> 'a kyouko2_scheme \<Rightarrow> 'a kyouko2_scheme" where
  "kyouko2_probe K pci_dev d = d\<lparr>p_control_base := pci_resource_start K pci_dev 1,
     p_card_ram_base := pci_resource_start K pci_dev 2, p_pci_dev := Some pci_dev\<rparr>"

definition dmaBuffer_init :: "kservices \<Rightarrow> ring_dev \<Rightarrow> fault + int \<times> ring_dev" where
  "dmaBuffer_init K d =
     (let (flag, d1) = add_cdev K d in
      if flag \<noteq> 0 then Inr (flag, d1)
      else let (flag, d2) = register_driver K (kyouko2_probe K) d1 in
           if flag \<le> 0 then enable_device K d2 else Inr (flag, d2))"

definition dmaBuffer_exit :: "ring_dev \<Rightarrow> ring_dev" where
  "dmaBuffer_exit d = del_cdev (unregister_driver d)"

section \<open>Lemmas\<close>

subsection \<open>Release runs into the unmapped registers\<close>

lemma release_faults:
  assumes "distinct (iomaps d)"
  shows "kyouko2_release d = Inl (Wild_Access (if live d then ConfigInterrupt else 0x1000))"
proof (cases "live d")
  case False
  then show ?thesis by (simp add: kyouko2_release_def K_WRITE_REG_dead)
next
  case True
  let ?d = "d\<lparr>bus := bus d @ [Wr (reg_index ConfigReboot) 1]\<rparr>"
  have w: "K_WRITE_REG 0x1000 1 d = Inr ?d"
    using K_WRITE_REG_live [of d ConfigReboot 1] True by (simp add: ConfigReboot_def)
  have "\<not> live (iounmap (k_control_base ?d) ?d)"
    by (rule iounmap_live) (use assms in simp_all)
  then have "\<not> live (iounmap v (iounmap (k_control_base ?d) ?d))" for v by (rule iounmap_dead)
  with w True show ?thesis by (simp add: kyouko2_release_def K_WRITE_REG_dead)
qed

subsection \<open>BIND_DMA leaves an empty ring\<close>

definition dma_arrays :: "ring_dev \<Rightarrow> bool" where
  "dma_arrays d \<longleftrightarrow> length (dmaBuffer d) = BUFFERS \<and> length (userVirtAddr d) = BUFFERS \<and>
     length (dma_handle d) = BUFFERS"

definition bound_upto :: "nat \<Rightarrow> kservices \<Rightarrow> ring_dev \<Rightarrow> bool" where
  "bound_upto k K d \<longleftrightarrow> dma_arrays d \<and> (\<forall>i < k. isFull (dmaBuffer d ! i) = 0 \<and>
     buffer (dmaBuffer d ! i) = fst (pci_alloc_consistent K i) \<and>
     dma_handle d ! i = snd (pci_alloc_consistent K i) \<and>
     userVirtAddr d ! i = do_mmap K (of_nat ((i + 1) * 0x1000)))"

lemma bind_slot_ok:
  assumes "bound_upto k K d" and "k < BUFFERS"
  shows "\<exists>d'. bind_slot K k d = Inr d' \<and> bound_upto (Suc k) K d' \<and> bus d' = bus d \<and>
     (live d' = live d) \<and> p_pci_dev d' = p_pci_dev d"
proof -
  obtain buf handle where ph: "pci_alloc_consistent K k = (buf, handle)" by fastforce
  let ?d' = "THE d'. bind_slot K k d = Inr d'"
  have e: "bind_slot K k d = Inr ?d'" by (simp add: bind_slot_def ph Let_def)
  have "bound_upto (Suc k) K ?d'"
    using assms by (auto simp: bind_slot_def ph Let_def bound_upto_def dma_arrays_def call_def
        less_Suc_eq nth_list_update)
  moreover have "bus ?d' = bus d" "live ?d' = live d" "p_pci_dev ?d' = p_pci_dev d"
    by (simp_all add: bind_slot_def ph Let_def call_def live_def)
  ultimately show ?thesis using e by blast
qed

lemma bind_slots_ok:
  assumes "dma_arrays d" and "k \<le> BUFFERS"
  shows "\<exists>d'. run_ops (map (bind_slot K) [0..<k]) d = Inr d' \<and> bound_upto k K d' \<and> bus d' = bus d \<and>
     (live d' = live d) \<and> p_pci_dev d' = p_pci_dev d"
  using assms(2)
proof (induction k)
  case 0
  with assms(1) show ?case by (simp add: bound_upto_def)
next
  case (Suc k)
  then obtain d1 where d1: "run_ops (map (bind_slot K) [0..<k]) d = Inr d1" "bound_upto k K d1"
    "bus d1 = bus d" "live d1 = live d" "p_pci_dev d1 = p_pci_dev d" by auto
  with Suc.prems bind_slot_ok [OF d1(2)] show ?case by (auto simp: run_ops_append)
qed

lemma bind_dma_ok:
  assumes "dma_arrays d" and "live d" and "p_pci_dev d = Some p"
  shows "\<exists>d'. bind_dma K arg d = Inr d' \<and> bound_upto BUFFERS K d' \<and> fill d' = 0 \<and> drain d' = 0 \<and>
     live d' \<and> bus d' = bus d @ [Wr (reg_index INFOSTATUS) 0xFFFFFFFF, Wr (reg_index ConfigInterrupt) 0x2]"
proof -
  obtain d1 where d1: "run_ops (map (bind_slot K) [0..<BUFFERS]) d = Inr d1" "bound_upto BUFFERS K d1"
    "bus d1 = bus d" "live d1" "p_pci_dev d1 = Some p"
    using bind_slots_ok [OF assms(1) order_refl, of K] assms(2,3) by auto
  have lv: "live (d1\<lparr>fill := 0, drain := 0, kcalls := k, bus := b\<rparr>)" for k b
    using d1(4) by (simp add: live_def)
  show ?thesis
    using d1(2,3,4,5) lv
    by (simp add: bind_dma_def run_ops_append d1(1) with_pci_dev_def call_def K_WRITE_REG_live
        live_def bound_upto_def dma_arrays_def)
qed

lemma bound_ring_inv:
  assumes "bound_upto BUFFERS K d" and "fill d = 0" and "drain d = 0"
  shows "ring_inv BUFFERS d" and "occ BUFFERS d = 0"
  using assms by (auto simp: bound_upto_def ring_inv_def occ_def slot_full_def dma_arrays_def BUFFERS_def)

end
