(* ===== verification/Driver_F.thy ===== *)
theory Driver_F
  imports Dma_Driver
begin

text \<open>
  \<open>dmaBuffer/driver.c\<close>, the other driver of the card. It keeps the ring of
  \<open>Dma_Ring\<close> under other names, and adds the flags \<open>graphics_on\<close> and \<open>dma_mapped\<close>.
  Its constants come from \<open>dataTypes.h\<close>, which is not in the repository: they are the
  parameter \<open>D\<close> of every definition here.
\<close>

section \<open>The missing header and the device state\<close>

record dataTypes =
  dt_FRAME0_BASE :: u32
  dt_DAC0_BASE :: u32
  dt_CLEAR_COLOR :: u32
  dt_ACC_REG :: u32
  dt_MODESET :: u32
  dt_FLUSH :: u32
  dt_CLEAR_BUF_REG :: u32
  dt_REBOOT :: u32
  dt_FIFO_DEPTH :: u32
  dt_INTERRUPT :: u32
  dt_INTERRUPT_STATUS :: u32
  dt_DMA_ADDR_A :: u32
  dt_DMA_CONFIG_A :: u32
  dt_BUF_A_FLUSHED :: u32
  dt_NUM_BUFS :: nat
  dt_GRAPHICS_ON :: u32

definition f_cfg :: "dataTypes \<Rightarrow> dma_cfg" where
  "f_cfg D = \<lparr>nbuf = dt_NUM_BUFS D, reg_address = dt_DMA_ADDR_A D, reg_config = dt_DMA_CONFIG_A D,
     reg_status = dt_INTERRUPT_STATUS D, reg_fifo = dt_FIFO_DEPTH D, flushed_bit = dt_BUF_A_FLUSHED D\<rparr>"

record f_state =
  ring :: ring_dev
  graphics_on :: u32
  dma_mapped :: u32

text \<open>A statement on the device structure, run inside the driver's state.\<close>

definition on_ring :: "(ring_dev \<Rightarrow> fault + ring_dev) \<Rightarrow> f_state \<Rightarrow> fault + f_state" where
  "on_ring f s = (case f (ring s) of Inl e \<Rightarrow> Inl e | Inr d \<Rightarrow> Inr (s\<lparr>ring := d\<rparr>))"

definition f_SYNC :: "dataTypes \<Rightarrow> ring_dev \<Rightarrow> fault + ring_dev" where
  "f_SYNC D = poll_zero (dt_FIFO_DEPTH D)"

section \<open>The ring\<close>

text \<open>The driver's own copies of the register accesses, the interrupt handler and \<open>initiateTransfer\<close>.\<close>

definition f_WRITE_REG :: "u32 \<Rightarrow> u32 \<Rightarrow> 'a kyouko2_scheme \<Rightarrow> fault + 'a kyouko2_scheme" where
  "f_WRITE_REG reg value d =
     (if \<not> live d then Inl (Wild_Access reg)
      else Inr (d\<lparr>bus := bus d @ [Wr (reg_index reg) value]\<rparr>))"

definition f_READ_REG :: "u32 \<Rightarrow> 'a kyouko2_scheme \<Rightarrow> fault + u32 \<times> 'a kyouko2_scheme" where
  "f_READ_REG reg d =
     (if \<not> live d then Inl (Wild_Access reg)
      else case rd_answers d of
             [] \<Rightarrow> Inl Still_Polling
           | value # rest \<Rightarrow>
               Inr (value, d\<lparr>rd_answers := rest, bus := bus d @ [Rd (reg_index reg) value]\<rparr>))"

definition set_isFull :: "nat \<Rightarrow> u8 \<Rightarrow> ring_dev \<Rightarrow> ring_dev" where
  "set_isFull i v d = d\<lparr>dmaBuffer := (dmaBuffer d)[i := (dmaBuffer d ! i)\<lparr>isFull := v\<rparr>]\<rparr>"

definition set_count :: "nat \<Rightarrow> u32 \<Rightarrow> ring_dev \<Rightarrow> ring_dev" where
  "set_count i n d = d\<lparr>dmaBuffer := (dmaBuffer d)[i := (dmaBuffer d ! i)\<lparr>count := n\<rparr>]\<rparr>"

text \<open>Hand slot \<open>i\<close> with its count to the card.\<close>

definition f_submit :: "dataTypes \<Rightarrow> nat \<Rightarrow> u32 \<Rightarrow> ring_dev \<Rightarrow> fault + ring_dev" where
  "f_submit D i n = run_ops
     [\<lambda>d. f_WRITE_REG (dt_DMA_ADDR_A D) (ucast (dma_handle d ! i)) d, f_WRITE_REG (dt_DMA_CONFIG_A D) n]"

definition f_next :: "dataTypes \<Rightarrow> nat \<Rightarrow> nat" where
  "f_next D i = (i + 1) mod dt_NUM_BUFS D"

text \<open>The part of the handler under the lock; the flag is the wake-up.\<close>

definition f_irq_critical :: "dataTypes \<Rightarrow> ring_dev \<Rightarrow> fault + bool \<times> ring_dev" where
  "f_irq_critical D d =
     (if fill d = drain d then
        if isFull (dmaBuffer d ! fill d) = 1 then
          (let d = set_isFull (drain d) 0 d; d = d\<lparr>drain := f_next D (drain d)\<rparr> in
           case f_submit D (drain d) (count (dmaBuffer d ! drain d)) d of
             Inl e \<Rightarrow> Inl e | Inr d \<Rightarrow> Inr (True, d))
        else Inr (False, d)
      else
        (let d = set_isFull (drain d) 0 d; d = d\<lparr>drain := f_next D (drain d)\<rparr> in
         if fill d \<noteq> drain d then
           (case f_SYNC D d of
              Inl e \<Rightarrow> Inl e
            | Inr d \<Rightarrow> (case f_submit D (drain d) (count (dmaBuffer d ! drain d)) d of
                          Inl e \<Rightarrow> Inl e | Inr d \<Rightarrow> Inr (False, d)))
         else Inr (False, d)))"

definition f_dma_interrupt :: "dataTypes \<Rightarrow> ring_dev \<Rightarrow> fault + irqreturn \<times> bool \<times> ring_dev" where
  "f_dma_interrupt D d =
     (case f_READ_REG (dt_INTERRUPT_STATUS D) d of
        Inl e \<Rightarrow> Inl e
      | Inr (flags, d) \<Rightarrow>
          (case f_WRITE_REG (dt_INTERRUPT_STATUS D) 0xFFFFFFFF d of
             Inl e \<Rightarrow> Inl e
           | Inr d \<Rightarrow>
               if flags AND dt_BUF_A_FLUSHED D = 0 then Inr (IRQ_NONE, False, d)
               else (case f_irq_critical D d of
                       Inl e \<Rightarrow> Inl e
                     | Inr (woken, d) \<Rightarrow> Inr (IRQ_HANDLED, woken, d))))"

text \<open>Up to the return or the sleep, which is the flag; then the part after the sleep.\<close>

definition f_initiateTransfer :: "dataTypes \<Rightarrow> u32 \<Rightarrow> ring_dev \<Rightarrow> fault + bool \<times> ring_dev" where
  "f_initiateTransfer D numBytes d =
     (if numBytes = 0 then Inr (False, d)
      else if fill d = drain d then
        if isFull (dmaBuffer d ! fill d) = 1 then Inr (True, d)
        else (case f_submit D (fill d) numBytes (set_count (fill d) numBytes (set_isFull (fill d) 1 d)) of
                Inl e \<Rightarrow> Inl e
              | Inr d \<Rightarrow> Inr (False, d\<lparr>fill := f_next D (fill d)\<rparr>))
      else
        (let d = set_isFull (fill d) 1 (set_count (fill d) numBytes d)
         in Inr (False, d\<lparr>fill := f_next D (fill d)\<rparr>)))"

definition f_initiateTransfer_resume :: "dataTypes \<Rightarrow> u32 \<Rightarrow> ring_dev \<Rightarrow> ring_dev" where
  "f_initiateTransfer_resume D numBytes d =
     (let d = set_count (fill d) numBytes (set_isFull (fill d) 1 d) in d\<lparr>fill := f_next D (fill d)\<rparr>)"

text \<open>They are the operations of \<open>dmaBuffer.c\<close> with other constants.\<close>

lemma f_regs_same [simp]: "f_WRITE_REG = K_WRITE_REG" "f_READ_REG = K_READ_REG"
  by (intro ext, simp add: f_WRITE_REG_def K_WRITE_REG_def f_READ_REG_def K_READ_REG_def)+

lemma upd2: "(xs[i := f (xs ! i)])[i := g ((xs[i := f (xs ! i)]) ! i)] = xs[i := g (f (xs ! i))]"
  by (cases "i < length xs") (simp_all add: not_less list_update_beyond)

lemma buf_upd: "dmaBuffer (d\<lparr>dmaBuffer := a\<rparr>) = a" "(d\<lparr>dmaBuffer := a\<rparr>)\<lparr>dmaBuffer := b\<rparr> = d\<lparr>dmaBuffer := b\<rparr>"
  by simp_all

lemma slot_upd: "s\<lparr>count := n, isFull := v\<rparr> = s\<lparr>isFull := v, count := n\<rparr>" by simp

lemma set_count_isFull:
  "set_count i n (set_isFull i v d) = d\<lparr>dmaBuffer := (dmaBuffer d)[i := (dmaBuffer d ! i)\<lparr>isFull := v, count := n\<rparr>]\<rparr>"
  "set_isFull i v (set_count i n d) = d\<lparr>dmaBuffer := (dmaBuffer d)[i := (dmaBuffer d ! i)\<lparr>isFull := v, count := n\<rparr>]\<rparr>"
  unfolding set_count_def set_isFull_def buf_upd upd2 [where f = "\<lambda>s. s\<lparr>isFull := v\<rparr>" and g = "\<lambda>s. s\<lparr>count := n\<rparr>"]
     upd2 [where f = "\<lambda>s. s\<lparr>count := n\<rparr>" and g = "\<lambda>s. s\<lparr>isFull := v\<rparr>"] slot_upd by (rule HOL.refl)+

lemma set_slot_same [simp]:
  "set_count (fill d) n (set_isFull (fill d) 1 d) = mark_full n d"
  "set_isFull (fill d) 1 (set_count (fill d) n d) = mark_full n d"
  by (simp_all only: set_count_isFull mark_full_def)

lemma poll_frame: "poll_zero reg d = Inr d' \<Longrightarrow> \<exists>a b. d' = d\<lparr>rd_answers := a, bus := b\<rparr>"
proof (induction reg d rule: poll_zero.induct)
  case (1 reg d)
  show ?case
  proof (cases "K_READ_REG reg d")
    case (Inl e)
    with 1(2) show ?thesis by (simp add: poll_zero.simps)
  next
    case (Inr r)
    obtain v d1 where r: "r = (v, d1)" by (cases r)
    have d1: "\<exists>a b. d1 = d\<lparr>rd_answers := a, bus := b\<rparr>"
      using Inr r by (auto simp: K_READ_REG_def split: if_splits list.splits)
    show ?thesis
    proof (cases "v > 0")
      case True
      from 1(1) [OF Inr r [symmetric] True] 1(2) Inr r True obtain a b where "d' = d1\<lparr>rd_answers := a, bus := b\<rparr>"
        by (auto simp: poll_zero.simps [of reg d])
      with d1 show ?thesis by (intro exI [of _ a] exI [of _ b]) auto
    next
      case False
      with 1(2) Inr r d1 show ?thesis by (simp add: poll_zero.simps [of reg d])
    qed
  qed
qed
lemma f_submit_same: "f_submit D i n d = kick (f_cfg D) (dma_handle d ! i) n d"
  by (simp add: f_submit_def kick_def f_cfg_def)

lemma f_ring_same [simp]:
  "f_irq_critical D = irq_critical (f_cfg D)" "f_dma_interrupt D = dma_interrupt (f_cfg D)"
  "f_initiateTransfer D = initiateTransfer (f_cfg D)" "f_initiateTransfer_resume D = initiateTransfer_resume (f_cfg D)"
proof -
  have nx: "f_next D i = ring_next (nbuf (f_cfg D)) i" for i by (simp add: f_next_def f_cfg_def ring_next_def)
  have fields: "fill (mark_full n d) = fill d" "dma_handle (mark_full n d) = dma_handle d" for n d
    by (simp_all add: mark_full_def)
  have ret: "(set_isFull (drain d) 0 d)\<lparr>drain := f_next D (drain (set_isFull (drain d) 0 d))\<rparr> = retire (nbuf (f_cfg D)) d" for d
    by (simp add: set_isFull_def retire_def nx)
  have fifo: "reg_fifo (f_cfg D) = dt_FIFO_DEPTH D" by (simp add: f_cfg_def)
  have cfg: "reg_status (f_cfg D) = dt_INTERRUPT_STATUS D" "flushed_bit (f_cfg D) = dt_BUF_A_FLUSHED D"
    by (simp_all add: f_cfg_def)
  show 1: "f_irq_critical D = irq_critical (f_cfg D)"
  proof
    fix d
    show "f_irq_critical D d = irq_critical (f_cfg D) d"
      unfolding f_irq_critical_def irq_critical_def Let_def ret f_submit_same f_SYNC_def fifo [symmetric]
      by (auto dest!: poll_frame split: sum.splits)
  qed
  show "f_dma_interrupt D = dma_interrupt (f_cfg D)"
    by (intro ext) (simp only: f_dma_interrupt_def dma_interrupt_def 1 f_regs_same cfg)
  show "f_initiateTransfer D = initiateTransfer (f_cfg D)"
    unfolding f_initiateTransfer_def initiateTransfer_def set_slot_same f_submit_same queue_request_def
      advance_fill_def nx fields Let_def by (rule ext) (rule HOL.refl)
  show "f_initiateTransfer_resume D = initiateTransfer_resume (f_cfg D)"
    unfolding f_initiateTransfer_resume_def initiateTransfer_resume_def set_slot_same queue_request_def
      advance_fill_def nx fields Let_def by (rule ext) (rule HOL.refl)
qed

section \<open>Open, release, mmap\<close>

definition f_open :: "kservices \<Rightarrow> f_state \<Rightarrow> int \<times> f_state" where
  "f_open K s =
     (let d = ring s; c = ioremap_nocache K (p_control_base d); d1 = (ioremap_as c d)\<lparr>k_control_base := c\<rparr>;
          r = ioremap_nocache K (p_card_ram_base d1); d2 = (ioremap_as r d1)\<lparr>k_card_ram_base := r\<rparr>
      in (0, s\<lparr>ring := d2\<rparr>))"

definition f_release :: "dataTypes \<Rightarrow> f_state \<Rightarrow> fault + int \<times> f_state" where
  "f_release D s =
     (case (if dma_mapped s = 1
            then run_ops
              ([on_ring (K_WRITE_REG (dt_INTERRUPT D) 0x00),
                on_ring (with_pci_dev (\<lambda>p. call (Free_Irq p))),
                on_ring (with_pci_dev (\<lambda>p. call (Pci_Disable_Msi p)))]
               @ map (\<lambda>i. on_ring (free_buffer i)) [0..<dt_NUM_BUFS D]
               @ [\<lambda>e. Inr (e\<lparr>dma_mapped := 0\<rparr>), on_ring (K_WRITE_REG (dt_REBOOT D) 1)]) s
            else Inr s) of
        Inl e \<Rightarrow> Inl e
      | Inr s1 \<Rightarrow> Inr (0, s1\<lparr>ring := iounmap (k_card_ram_base (ring s1))
                                    (iounmap (k_control_base (ring s1)) (ring s1))\<rparr>))"

text \<open>Only root may map. An offset that is none of the ten known ones gives the initial \<open>ret = 1\<close>.\<close>

definition f_mmap :: "kservices \<Rightarrow> vma \<Rightarrow> f_state \<Rightarrow> int" where
  "f_mmap K v s =
     (let d = ring s; off = push_bit PAGE_SHIFT (vm_pgoff v);
          remap = (\<lambda>base. io_remap_pfn_range K (drop_bit PAGE_SHIFT base) (vm_end v - vm_start v)) in
      if current_fsuid K \<noteq> 0 then -1
      else if 0x0 = off then remap (p_control_base d)
      else if 0x80000000 = off then remap (p_card_ram_base d)
      else if 0x1000 = off then remap (dma_handle d ! 0)
      else if 0x2000 = off then remap (dma_handle d ! 1)
      else if 0x3000 = off then remap (dma_handle d ! 2)
      else if 0x4000 = off then remap (dma_handle d ! 3)
      else if 0x5000 = off then remap (dma_handle d ! 4)
      else if 0x6000 = off then remap (dma_handle d ! 5)
      else if 0x7000 = off then remap (dma_handle d ! 6)
      else if 0x8000 = off then remap (dma_handle d ! 7)
      else 1)"

section \<open>ioctl\<close>

definition setFrame0 :: "dataTypes \<Rightarrow> ring_dev \<Rightarrow> fault + ring_dev" where
  "setFrame0 D = run_ops
    [K_WRITE_REG (dt_FRAME0_BASE D) 1024,
     K_WRITE_REG (dt_FRAME0_BASE D + 0x4) 768,
     K_WRITE_REG (dt_FRAME0_BASE D + 0x8) 4096,
     K_WRITE_REG (dt_FRAME0_BASE D + 0xc) 0x0000F888,
     K_WRITE_REG (dt_FRAME0_BASE D + 0x10) 0]"

definition setDAC0 :: "dataTypes \<Rightarrow> ring_dev \<Rightarrow> fault + ring_dev" where
  "setDAC0 D = run_ops
    [K_WRITE_REG (dt_DAC0_BASE D) 1024,
     K_WRITE_REG (dt_DAC0_BASE D + 0x4) 768,
     K_WRITE_REG (dt_DAC0_BASE D + 0x8) 0,
     K_WRITE_REG (dt_DAC0_BASE D + 0xc) 0,
     K_WRITE_REG (dt_DAC0_BASE D + 0x10) 0]"

definition setClearColor :: "dataTypes \<Rightarrow> ring_dev \<Rightarrow> fault + ring_dev" where
  "setClearColor D = run_ops
    [K_WRITE_REG (dt_CLEAR_COLOR D) float_0_2,
     K_WRITE_REG (dt_CLEAR_COLOR D + 0x4) float_0_2,
     K_WRITE_REG (dt_CLEAR_COLOR D + 0x8) float_0_2,
     K_WRITE_REG (dt_CLEAR_COLOR D + 0xc) 0]"

definition f_graphics_on :: "dataTypes \<Rightarrow> f_state \<Rightarrow> fault + f_state" where
  "f_graphics_on D = run_ops
    [on_ring (setFrame0 D), on_ring (setDAC0 D),
     on_ring (K_WRITE_REG (dt_ACC_REG D) 0x40000000),
     on_ring (f_SYNC D),
     on_ring (K_WRITE_REG (dt_MODESET D) 1),
     on_ring (setClearColor D),
     on_ring (K_WRITE_REG (dt_FLUSH D) 1),
     on_ring (f_SYNC D),
     on_ring (K_WRITE_REG (dt_CLEAR_BUF_REG D) 1),
     \<lambda>s. Inr (s\<lparr>graphics_on := 1\<rparr>)]"

text \<open>
  \<open>while(1 == kyouko2.DMA[i].isFull);\<close>: only an interrupt can end the loop. The model is
  given the interrupts that arrive while the loop spins, each by the card's answers during its
  handler; when they are used up and the slot is still full, the loop is \<open>Still_Polling\<close>.
\<close>

fun spin_slot :: "dataTypes \<Rightarrow> nat \<Rightarrow> u32 list list \<Rightarrow> ring_dev \<Rightarrow> fault + u32 list list \<times> ring_dev" where
  "spin_slot D i [] d = (if isFull (dmaBuffer d ! i) = 1 then Inl Still_Polling else Inr ([], d))"
| "spin_slot D i (as # irqs) d =
     (if isFull (dmaBuffer d ! i) = 1 then
        (case f_dma_interrupt D (d\<lparr>rd_answers := as\<rparr>) of
           Inl e \<Rightarrow> Inl e
         | Inr (_, _, d') \<Rightarrow> spin_slot D i irqs d')
      else Inr (as # irqs, d))"

text \<open>\<open>for(i = 0; i < NUM_BUFS; i++) while(1 == kyouko2.DMA[i].isFull);\<close>\<close>

fun spin_slots :: "dataTypes \<Rightarrow> nat list \<Rightarrow> u32 list list \<Rightarrow> ring_dev \<Rightarrow> fault + ring_dev" where
  "spin_slots D [] irqs d = Inr d"
| "spin_slots D (i # is) irqs d =
     (case spin_slot D i irqs d of
        Inl e \<Rightarrow> Inl e
      | Inr (irqs', d') \<Rightarrow> spin_slots D is irqs' d')"

definition f_graphics_off :: "dataTypes \<Rightarrow> u32 list list \<Rightarrow> f_state \<Rightarrow> fault + f_state" where
  "f_graphics_off D irqs s = run_ops
    [\<lambda>e. Inr (e\<lparr>graphics_on := 0\<rparr>),
     on_ring (f_SYNC D),
     \<lambda>e. if dma_mapped e = 1 then on_ring (spin_slots D [0..<dt_NUM_BUFS D] irqs) e
         else on_ring (K_WRITE_REG (dt_REBOOT D) 1) e] s"

definition f_bind_dma :: "dataTypes \<Rightarrow> kservices \<Rightarrow> u64 \<Rightarrow> f_state \<Rightarrow> fault + f_state" where
  "f_bind_dma D K arg = run_ops
     (map (\<lambda>i. on_ring (bind_slot K i)) [0..<dt_NUM_BUFS D] @
      [\<lambda>s. Inr (s\<lparr>dma_mapped := 1\<rparr>),
       on_ring (\<lambda>d. Inr (call (Copy_To_User arg (userVirtAddr d ! 0)) d)),
       on_ring (\<lambda>d. Inr (d\<lparr>fill := 0, drain := 0\<rparr>)),
       on_ring (with_pci_dev (\<lambda>p. call (Pci_Enable_Msi p))),
       on_ring (with_pci_dev (\<lambda>p. call (Request_Irq p))),
       on_ring (K_WRITE_REG (dt_INTERRUPT_STATUS D) 0xFFFFFFFF),
       on_ring (K_WRITE_REG (dt_INTERRUPT D) (dt_BUF_A_FLUSHED D))])"

definition f_start_dma :: "dataTypes \<Rightarrow> kservices \<Rightarrow> u64 \<Rightarrow> f_state \<Rightarrow> fault + ioctl_result \<times> f_state" where
  "f_start_dma D K arg s =
     (if dma_mapped s = 0 then Inr (Returned (-1), s)
      else let d = (ring s)\<lparr>user_size := fst (copy_from_user K arg)\<rparr> in
           case f_initiateTransfer D (user_size d) d of
             Inl e \<Rightarrow> Inl e
           | Inr (True, d') \<Rightarrow> Inr (Waiting, s\<lparr>ring := d'\<rparr>)
           | Inr (False, d') \<Rightarrow> Inr (Returned 0, s\<lparr>ring := next_buffer_to_user arg d'\<rparr>))"

datatype f_cmd = F_VMODE | F_SYNC_CMD | F_BIND_DMA | F_START_DMA | F_FLUSH_CMD | F_Other u32

text \<open>The value of \<open>result\<close>: 0, or for BIND_DMA what \<open>request_irq\<close> gave.\<close>

definition f_returning :: "int \<Rightarrow> fault + f_state \<Rightarrow> fault + ioctl_result \<times> f_state" where
  "f_returning v r = (case r of Inl e \<Rightarrow> Inl e | Inr s \<Rightarrow> Inr (Returned v, s))"

definition f_ioctl ::
  "dataTypes \<Rightarrow> kservices \<Rightarrow> u32 list list \<Rightarrow> f_cmd \<Rightarrow> u64 \<Rightarrow> f_state \<Rightarrow> fault + ioctl_result \<times> f_state" where
  "f_ioctl D K irqs cmd arg s =
     (case cmd of
        F_VMODE \<Rightarrow> f_returning 0 (if (ucast arg :: u32) = dt_GRAPHICS_ON D then f_graphics_on D s
                                  else f_graphics_off D irqs s)
      | F_SYNC_CMD \<Rightarrow> f_returning 0 (on_ring (f_SYNC D) s)
      | F_BIND_DMA \<Rightarrow> f_returning (case p_pci_dev (ring s) of None \<Rightarrow> 0 | Some p \<Rightarrow> request_irq K p)
                                   (f_bind_dma D K arg s)
      | F_START_DMA \<Rightarrow> f_start_dma D K arg s
      | F_FLUSH_CMD \<Rightarrow> f_returning 0 (on_ring (K_WRITE_REG (dt_FLUSH D) 0) s)
      | F_Other c \<Rightarrow> Inr (Returned 0, s))"

section \<open>Probe, init, exit\<close>

definition f_probe :: "kservices \<Rightarrow> nat \<Rightarrow> ring_dev \<Rightarrow> ring_dev" where
  "f_probe K pci_dev d = d\<lparr>p_control_base := pci_resource_start K pci_dev 1,
     p_card_ram_base := pci_resource_start K pci_dev 2, p_pci_dev := Some pci_dev\<rparr>"

text \<open>\<open>pci_set_master\<close> is called whether or not the two calls before it succeeded.\<close>

definition my_init_function :: "kservices \<Rightarrow> f_state \<Rightarrow> fault + int \<times> f_state" where
  "my_init_function K s =
     (let (ret, d1) = add_cdev K (ring s) in
      if ret = 0 then
        let (ret, d2) = register_driver K (f_probe K) d1 in
        case (if ret = 0
              then with_pci_dev (\<lambda>p e. (pci_enable_device K p, call (Pci_Enable_Device p) e)) d2
              else Inr (ret, d2)) of
          Inl e \<Rightarrow> Inl e
        | Inr (ret, d3) \<Rightarrow>
            (case with_pci_dev (\<lambda>p. call (Pci_Set_Master p)) d3 of
               Inl e \<Rightarrow> Inl e | Inr d4 \<Rightarrow> Inr (ret, s\<lparr>ring := d4\<rparr>))
      else Inr (ret, s\<lparr>ring := d1\<rparr>))"

definition my_exit_function :: "f_state \<Rightarrow> f_state" where
  "my_exit_function s = s\<lparr>ring := del_cdev (unregister_driver (ring s))\<rparr>"

section \<open>Lemmas\<close>

text \<open>The slot an interrupt retires is the only one whose \<open>isFull\<close> changes.\<close>

lemma retire_slot_full: "slot_full (retire N d) j \<Longrightarrow> slot_full d j"
  by (cases "j = drain d"; cases "j < length (dmaBuffer d)")
     (auto simp: slot_full_def ring_simps list_update_beyond)

lemma slot_full_io [simp]: "slot_full (d\<lparr>rd_answers := a, bus := b\<rparr>) j = slot_full d j"
  by (simp add: slot_full_def)

text \<open>A completion interrupt, as the card answers it: the status has the flushed bit and the
  command FIFO runs empty.\<close>

definition completion :: "dma_cfg \<Rightarrow> u32 list \<Rightarrow> bool" where
  "completion c as \<longleftrightarrow> (case as of [] \<Rightarrow> False | flags # r \<Rightarrow> flags AND flushed_bit c \<noteq> 0 \<and> 0 \<in> set r)"

text \<open>An interrupt of another device on the line.\<close>

definition foreign :: "dma_cfg \<Rightarrow> u32 list \<Rightarrow> bool" where
  "foreign c as \<longleftrightarrow> (case as of [] \<Rightarrow> False | flags # r \<Rightarrow> flags AND flushed_bit c = 0)"

lemma completion_interrupt:
  assumes c: "cfg_ok c" and inv: "ring_inv (nbuf c) d" and live: "live d"
    and some: "0 < occ (nbuf c) d" and as: "completion c as"
  shows "\<exists>w d'. dma_interrupt c (d\<lparr>rd_answers := as\<rparr>) = Inr (IRQ_HANDLED, w, d') \<and>
     ring_inv (nbuf c) d' \<and> live d' \<and> occ (nbuf c) d' = occ (nbuf c) d - 1 \<and>
     (\<forall>j. slot_full d' j \<longrightarrow> slot_full d j)"
proof -
  from as obtain flags r where a: "as = flags # r" "flags AND flushed_bit c \<noteq> 0" "0 \<in> set r"
    by (auto simp: completion_def split: list.splits)
  let ?d = "d\<lparr>rd_answers := as\<rparr>"
  let ?e = "?d\<lparr>rd_answers := r, bus := bus ?d @ [Rd (reg_index (reg_status c)) flags,
             Wr (reg_index (reg_status c)) 0xFFFFFFFF]\<rparr>"
  have e: "ring_inv (nbuf c) ?e" "live ?e" "0 < occ (nbuf c) ?e" using inv live some by auto
  have lv: "live ?d" using live by simp
  have ra: "rd_answers ?d = flags # r" using a by simp
  have f: "dma_interrupt c ?d = (case irq_critical c ?e of
       Inl e \<Rightarrow> Inl e | Inr (woken, d3) \<Rightarrow> Inr (IRQ_HANDLED, woken, d3))"
    by (rule dma_interrupt_flushed [OF c lv ra a(2)])
  have idle: "occ (nbuf c) ?e \<in> {1, nbuf c} \<or> 0 \<in> set (rd_answers ?e)" using a(3) by simp
  from irq_critical_cases [OF c e idle]
  obtain as2 b w where crit: "irq_critical c ?e = Inr (w, (retire (nbuf c) ?e)\<lparr>rd_answers := as2, bus := b\<rparr>)"
    by blast
  let ?d' = "(retire (nbuf c) ?e)\<lparr>rd_answers := as2, bus := b\<rparr>"
  have "dma_interrupt c ?d = Inr (IRQ_HANDLED, w, ?d')" using f crit by simp
  moreover have "ring_inv (nbuf c) ?d'" "live ?d'" "occ (nbuf c) ?d' = occ (nbuf c) d - 1"
    using ring_inv_retire [OF e(1,3)] occ_retire [OF e(1,3)] e(2) by (auto simp: ring_simps)
  moreover have "slot_full ?d' j \<longrightarrow> slot_full d j" for j
    using retire_slot_full [of "nbuf c" ?e j] by auto
  ultimately show ?thesis by blast
qed

lemma spin_slot_drains:
  assumes c: "cfg_ok (f_cfg D)" and "ring_inv (dt_NUM_BUFS D) d" and "live d" and "i < dt_NUM_BUFS D"
    and "\<forall>as \<in> set irqs. completion (f_cfg D) as" and "occ (dt_NUM_BUFS D) d \<le> length irqs"
  shows "\<exists>irqs' d'. spin_slot D i irqs d = Inr (irqs', d') \<and> ring_inv (dt_NUM_BUFS D) d' \<and> live d' \<and>
     \<not> slot_full d' i \<and> (\<forall>j. slot_full d' j \<longrightarrow> slot_full d j) \<and>
     (\<forall>as \<in> set irqs'. completion (f_cfg D) as) \<and> occ (dt_NUM_BUFS D) d' \<le> length irqs'"
  using assms(2-)
proof (induction irqs arbitrary: d)
  case Nil
  then have "occ (dt_NUM_BUFS D) d = 0" by simp
  with Nil have "\<not> slot_full d i" using slot_full_iff [OF Nil(1)] by simp
  with Nil show ?case by (simp add: slot_full_def)
next
  case (Cons as irqs)
  show ?case
  proof (cases "slot_full d i")
    case False
    with Cons.prems show ?thesis by (simp add: slot_full_def)
  next
    case True
    then have some: "0 < occ (dt_NUM_BUFS D) d" using slot_full_iff [OF Cons.prems(1)] Cons.prems(3) by fastforce
    have n: "nbuf (f_cfg D) = dt_NUM_BUFS D" by (simp add: f_cfg_def)
    obtain w d1 where d1: "dma_interrupt (f_cfg D) (d\<lparr>rd_answers := as\<rparr>) = Inr (IRQ_HANDLED, w, d1)"
      "ring_inv (dt_NUM_BUFS D) d1" "live d1" "occ (dt_NUM_BUFS D) d1 = occ (dt_NUM_BUFS D) d - 1"
      "\<forall>j. slot_full d1 j \<longrightarrow> slot_full d j"
      using completion_interrupt [OF c, of d as] Cons.prems some unfolding n by auto
    have le: "occ (dt_NUM_BUFS D) d1 \<le> length irqs" using d1(4) Cons.prems(5) by simp
    from Cons.IH [OF d1(2,3) Cons.prems(3) _ le] Cons.prems(4) d1(1,5) True
    show ?thesis by (auto simp: slot_full_def)
  qed
qed

lemma spin_slots_drains:
  assumes c: "cfg_ok (f_cfg D)" and "ring_inv (dt_NUM_BUFS D) d" and "live d"
    and "\<forall>i \<in> set is. i < dt_NUM_BUFS D"
    and "\<forall>as \<in> set irqs. completion (f_cfg D) as" and "occ (dt_NUM_BUFS D) d \<le> length irqs"
  shows "\<exists>d'. spin_slots D is irqs d = Inr d' \<and> ring_inv (dt_NUM_BUFS D) d' \<and>
     (\<forall>i \<in> set is. \<not> slot_full d' i) \<and> (\<forall>j. slot_full d' j \<longrightarrow> slot_full d j)"
  using assms(2-)
proof (induction "is" arbitrary: irqs d)
  case Nil
  then show ?case by simp
next
  case (Cons i "is")
  from Cons.prems(3) have "i < dt_NUM_BUFS D" by simp
  from spin_slot_drains [OF c Cons.prems(1,2) this Cons.prems(4,5)]
  obtain irqs1 d1 where d1: "spin_slot D i irqs d = Inr (irqs1, d1)" "ring_inv (dt_NUM_BUFS D) d1" "live d1"
    "\<not> slot_full d1 i" "\<forall>j. slot_full d1 j \<longrightarrow> slot_full d j"
    "\<forall>as \<in> set irqs1. completion (f_cfg D) as" "occ (dt_NUM_BUFS D) d1 \<le> length irqs1" by blast
  have "\<forall>i \<in> set is. i < dt_NUM_BUFS D" using Cons.prems(3) by simp
  from Cons.IH [OF d1(2,3) this d1(6,7)] d1(1,4,5) show ?case by auto
qed

lemma all_empty_occ:
  assumes "ring_inv N d" and "\<forall>i < N. \<not> slot_full d i"
  shows "occ N d = 0"
proof (rule ccontr)
  assume "occ N d \<noteq> 0"
  moreover have "drain d < N" using assms(1) by (simp add: ring_inv_def)
  ultimately have "slot_full d (drain d)" using slot_full_iff [OF assms(1)] by simp
  with assms(2) \<open>drain d < N\<close> show False by blast
qed

text \<open>Without completions the loop never ends, however many other interrupts arrive.\<close>

lemma spin_slot_hangs:
  assumes c: "cfg_ok (f_cfg D)" and "live d" and "slot_full d i"
    and "\<forall>as \<in> set irqs. foreign (f_cfg D) as"
  shows "spin_slot D i irqs d = Inl Still_Polling"
  using assms(2-)
proof (induction irqs arbitrary: d)
  case Nil
  then show ?case by (simp add: slot_full_def)
next
  case (Cons as irqs)
  obtain flags r where a: "as = flags # r" "flags AND flushed_bit (f_cfg D) = 0"
    using Cons.prems(3) by (auto simp: foreign_def split: list.splits)
  let ?d = "d\<lparr>rd_answers := as\<rparr>"
  have lv: "live ?d" and ra: "rd_answers ?d = flags # r" using Cons.prems a by auto
  let ?e = "?d\<lparr>rd_answers := r, bus := bus ?d @ [Rd (reg_index (reg_status (f_cfg D))) flags,
             Wr (reg_index (reg_status (f_cfg D))) 0xFFFFFFFF]\<rparr>"
  have "spin_slot D i irqs ?e = Inl Still_Polling"
    by (rule Cons.IH) (use Cons.prems in auto)
  with dma_interrupt_other [OF c lv ra a(2)] Cons.prems(2) show ?case by (simp add: slot_full_def)
qed

lemma free_buffers_ok:
  "\<exists>d'. run_ops (map (\<lambda>i. on_ring (free_buffer i)) is) s = Inr (s\<lparr>ring := d'\<rparr>) \<and> bus d' = bus (ring s) \<and>
     iomaps d' = iomaps (ring s) \<and> k_control_base d' = k_control_base (ring s) \<and>
     k_card_ram_base d' = k_card_ram_base (ring s)"
proof (induction "is" arbitrary: s)
  case Nil
  have "s = s\<lparr>ring := ring s\<rparr>" by simp
  then show ?case by (intro exI [of _ "ring s"]) simp
next
  case (Cons i "is")
  obtain d1 where d1: "free_buffer i (ring s) = Inr d1" "bus d1 = bus (ring s)" "iomaps d1 = iomaps (ring s)"
    "k_control_base d1 = k_control_base (ring s)" "k_card_ram_base d1 = k_card_ram_base (ring s)"
    by (simp add: free_buffer_def)
  with Cons.IH [of "s\<lparr>ring := d1\<rparr>"] show ?case by (auto simp: on_ring_def)
qed

lemma f_release_mapped:
  assumes m: "dma_mapped s = 1" and live: "live (ring s)" and p: "p_pci_dev (ring s) = Some p"
  shows "\<exists>s'. f_release D s = Inr (0, s') \<and> dma_mapped s' = 0 \<and>
     bus (ring s') = bus (ring s) @ [Wr (reg_index (dt_INTERRUPT D)) 0, Wr (reg_index (dt_REBOOT D)) 1] \<and>
     iomaps (ring s') = remove1 (k_card_ram_base (ring s)) (remove1 (k_control_base (ring s)) (iomaps (ring s)))"
proof -
  let ?d1 = "call (Pci_Disable_Msi p) (call (Free_Irq p)
      ((ring s)\<lparr>bus := bus (ring s) @ [Wr (reg_index (dt_INTERRUPT D)) 0]\<rparr>))"
  let ?s1 = "s\<lparr>ring := ?d1\<rparr>"
  obtain d2 where d2: "run_ops (map (\<lambda>i. on_ring (free_buffer i)) [0..<dt_NUM_BUFS D]) ?s1 = Inr (?s1\<lparr>ring := d2\<rparr>)"
    "bus d2 = bus (ring ?s1)" "iomaps d2 = iomaps (ring ?s1)" "k_control_base d2 = k_control_base (ring ?s1)"
    "k_card_ram_base d2 = k_card_ram_base (ring ?s1)"
    using free_buffers_ok by blast
  have l2: "live d2" using d2 live by (simp add: live_def)
  show ?thesis
    using m live p d2 l2
    by (simp add: f_release_def run_ops_append on_ring_def K_WRITE_REG_live with_pci_dev_def iounmap_def)
qed

end
