(* ===== verification/User_Programs.thy ===== *)
theory User_Programs
  imports Driver_F
begin

text \<open>
  The user space side of the card: the test programs \<open>testdrawLineTriangle.c\<close> and
  \<open>testdmaBuffer.c\<close> as the sequence of system calls and stores they make, and the packing of
  the DMA command header, a C bit-field laid out from the least significant bit as the x86-64
  ABI does.
\<close>

datatype 'c user_event =
    U_Open | U_Close | U_Sleep nat
  | U_Mmap u64 u64                 \<comment> \<open>length, offset\<close>
  | U_Read u32                     \<comment> \<open>register word index\<close>
  | U_Write u32 u32                \<comment> \<open>register word index, value\<close>
  | U_Frame u32 u32                \<comment> \<open>frame buffer word index, value\<close>
  | U_Store u64 u32                \<comment> \<open>user address, value\<close>
  | U_Ioctl 'c u64

section \<open>The DMA command header\<close>

record Kyouko2_dma_hdr =
  stride :: u32
  has_v4 :: u32
  has_c3 :: u32
  has_c4 :: u32
  unused :: u32
  prim_type :: u32
  hdr_count :: u32
  opcode :: u32

definition pack_hdr :: "Kyouko2_dma_hdr \<Rightarrow> u32" where
  "pack_hdr h = take_bit 5 (stride h) OR push_bit 5 (take_bit 1 (has_v4 h)) OR
     push_bit 6 (take_bit 1 (has_c3 h)) OR push_bit 7 (take_bit 1 (has_c4 h)) OR
     push_bit 8 (take_bit 4 (unused h)) OR push_bit 12 (take_bit 2 (prim_type h)) OR
     push_bit 14 (take_bit 10 (hdr_count h)) OR push_bit 24 (take_bit 8 (opcode h))"

definition unpack_hdr :: "u32 \<Rightarrow> Kyouko2_dma_hdr" where
  "unpack_hdr w = \<lparr>stride = take_bit 5 w, has_v4 = take_bit 1 (drop_bit 5 w),
     has_c3 = take_bit 1 (drop_bit 6 w), has_c4 = take_bit 1 (drop_bit 7 w),
     unused = take_bit 4 (drop_bit 8 w), prim_type = take_bit 2 (drop_bit 12 w),
     hdr_count = take_bit 10 (drop_bit 14 w), opcode = take_bit 8 (drop_bit 24 w)\<rparr>"

definition hdr_in_range :: "Kyouko2_dma_hdr \<Rightarrow> bool" where
  "hdr_in_range h \<longleftrightarrow> stride h < 32 \<and> has_v4 h < 2 \<and> has_c3 h < 2 \<and> has_c4 h < 2 \<and> unused h < 16 \<and>
     prim_type h < 4 \<and> hdr_count h < 1024 \<and> opcode h < 256"

definition hdr :: Kyouko2_dma_hdr where
  "hdr = \<lparr>stride = 0x5, has_v4 = 0x0, has_c3 = 0x1, has_c4 = 0x0, unused = 0x0,
     prim_type = 1, hdr_count = 3 * 2, opcode = 0x14\<rparr>"

section \<open>\<open>testdrawLineTriangle.c\<close>\<close>

text \<open>IEEE 754 single precision patterns of the constants in the program.\<close>

definition f_m0_5 :: u32 where "f_m0_5 = 0xBF000000"
definition f_0_5 :: u32 where "f_0_5 = 0x3F000000"
definition f_1_0 :: u32 where "f_1_0 = 0x3F800000"
definition f_0_0 :: u32 where "f_0_0 = 0"
definition f_0_1 :: u32 where "f_0_1 = 0x3DCCCCCD"
definition f_0_2 :: u32 where "f_0_2 = 0x3E4CCCCD"
definition f_0_3 :: u32 where "f_0_3 = 0x3E99999A"
definition f_0_4 :: u32 where "f_0_4 = 0x3ECCCCCD"
definition f_0_7 :: u32 where "f_0_7 = 0x3F333333"

definition U_WRITE_REG :: "u32 \<Rightarrow> u32 \<Rightarrow> draw_cmd user_event" where
  "U_WRITE_REG rgister value = U_Write (reg_index rgister) value"

definition U_READ_REG :: "u32 \<Rightarrow> draw_cmd user_event" where
  "U_READ_REG rgister = U_Read (reg_index rgister)"

definition U_WRITE_REG_FB :: "nat \<Rightarrow> u32 \<Rightarrow> draw_cmd user_event" where
  "U_WRITE_REG_FB i value = U_Frame (of_nat i) value"

text \<open>One vertex: position, colour, then the emit register.\<close>

definition emit_vertex :: "u32 \<times> u32 \<times> u32 \<times> u32 \<Rightarrow> u32 \<times> u32 \<times> u32 \<times> u32 \<Rightarrow> draw_cmd user_event list" where
  "emit_vertex p c = (case (p, c) of ((x, y, z, w), (r, g, b, a)) \<Rightarrow>
     [U_WRITE_REG DrawVertexCoordX x, U_WRITE_REG DrawVertexCoordY y,
      U_WRITE_REG DrawVertexCoordZ z, U_WRITE_REG DrawVertexCoordW w,
      U_WRITE_REG DrawVertexColorR r, U_WRITE_REG DrawVertexColorG g,
      U_WRITE_REG DrawVertexColorB b, U_WRITE_REG DrawVertexColorAlpha a,
      U_WRITE_REG RasterEmit 0])"

text \<open>The program, given the RAM size in MB the card answers.\<close>

definition draw_main :: "u32 \<Rightarrow> draw_cmd user_event list" where
  "draw_main ram =
     [U_Open, U_Mmap 65536 0, U_READ_REG DeviceRAM, U_Mmap (ucast (ram * 1024 * 1024)) 0x80000000,
      U_Ioctl Draw_VMODE (ucast GRAPHICS_ON), U_Ioctl Draw_SYNC 0]
     @ map (\<lambda>i. U_WRITE_REG_FB i 0x00ff0000) [200 * 1024..<201 * 1024]
     @ [U_WRITE_REG RasterFlush 1, U_Ioctl Draw_SYNC 0, U_WRITE_REG RasterFlush 1, U_Ioctl Draw_SYNC 0,
        U_Sleep 5, U_WRITE_REG RasterPrimitive 1]
     @ emit_vertex (f_m0_5, f_m0_5, f_0_0, f_1_0) (f_0_5, f_0_5, f_0_4, f_0_0)
     @ emit_vertex (f_0_5, f_m0_5, f_0_0, f_1_0) (f_0_2, f_0_3, f_0_5, f_0_0)
     @ emit_vertex (f_m0_5, f_0_5, f_0_0, f_1_0) (f_0_7, f_0_5, f_0_1, f_0_0)
     @ [U_WRITE_REG RasterPrimitive 0, U_WRITE_REG RasterFlush 1, U_Ioctl Draw_SYNC 0,
        U_WRITE_REG RasterFlush 1, U_Ioctl Draw_SYNC 0, U_Sleep 5,
        U_Ioctl Draw_VMODE (ucast GRAPHICS_OFF), U_Close]"

section \<open>\<open>testdmaBuffer.c\<close>\<close>

text \<open>
  Buffer \<open>i\<close> is filled at user address \<open>a i\<close> (the value BIND_DMA, then the START_DMA
  calls, stored in the program's variable): the header word at its start, then 36 vertices of
  seven floats. \<open>rnd i k\<close> is the pattern of the \<open>k\<close>-th random float of buffer \<open>i\<close>.
\<close>

definition fill_buffer :: "(nat \<Rightarrow> u32) \<Rightarrow> u64 \<Rightarrow> dma_cmd user_event list" where
  "fill_buffer rnd a = map (\<lambda>k. U_Store (a + 4 + 4 * of_nat k) (rnd k)) [0..<18 * 2 * 7]"

text \<open>The size the program hands to START_DMA: \<open>37*4\<close> the first time, \<open>37\<close> after that.\<close>

definition dma_size :: "nat \<Rightarrow> u64" where
  "dma_size i = (if i = 0 then 37 * 4 else 37)"

definition dma_round :: "(nat \<Rightarrow> u64) \<Rightarrow> (nat \<Rightarrow> nat \<Rightarrow> u32) \<Rightarrow> nat \<Rightarrow> dma_cmd user_event list" where
  "dma_round a rnd i = fill_buffer (rnd i) (a i) @
     [U_Ioctl FLUSH 0, U_Ioctl START_DMA (dma_size i), U_Store (a (Suc i)) (pack_hdr hdr)]"

definition dma_main :: "(nat \<Rightarrow> u64) \<Rightarrow> (nat \<Rightarrow> nat \<Rightarrow> u32) \<Rightarrow> dma_cmd user_event list" where
  "dma_main a rnd =
     [U_Open, U_Ioctl VMODE (ucast GRAPHICS_ON), U_Ioctl SYNC 0, U_Ioctl BIND_DMA 0, U_Store (a 0) (pack_hdr hdr)]
     @ concat (map (dma_round a rnd) [0..<16])
     @ [U_Sleep 3, U_Ioctl VMODE (ucast GRAPHICS_OFF), U_Close]"

section \<open>Lemmas\<close>

text \<open>The eight registers a vertex needs, in the order of the program.\<close>

definition vertex_regs :: "u32 list" where
  "vertex_regs = map reg_index [DrawVertexCoordX, DrawVertexCoordY, DrawVertexCoordZ, DrawVertexCoordW,
     DrawVertexColorR, DrawVertexColorG, DrawVertexColorB, DrawVertexColorAlpha]"

text \<open>Every emit comes after all eight vertex registers were written since the last emit.\<close>

fun emits_complete :: "u32 list \<Rightarrow> 'c user_event list \<Rightarrow> bool" where
  "emits_complete seen [] = True"
| "emits_complete seen (U_Write i v # es) =
     (if i = reg_index RasterEmit then list_all (\<lambda>r. r \<in> set seen) vertex_regs \<and> emits_complete [] es
      else emits_complete (i # seen) es)"
| "emits_complete seen (_ # es) = emits_complete seen es"

lemma emits_complete_frames [simp]:
  "emits_complete seen (map (\<lambda>i. U_WRITE_REG_FB i v) is @ es) = emits_complete seen es"
  by (induction "is") (simp_all add: U_WRITE_REG_FB_def)

lemma emits_complete_vertex [simp]:
  "emits_complete seen (emit_vertex p c @ es) = emits_complete [] es"
  by (cases p; cases c) (simp add: emit_vertex_def U_WRITE_REG_def vertex_regs_def reg_index_def reg_defs)

lemma unpack_pack_fields:
  "unpack_hdr (pack_hdr h) = \<lparr>stride = take_bit 5 (stride h), has_v4 = take_bit 1 (has_v4 h),
     has_c3 = take_bit 1 (has_c3 h), has_c4 = take_bit 1 (has_c4 h), unused = take_bit 4 (unused h),
     prim_type = take_bit 2 (prim_type h), hdr_count = take_bit 10 (hdr_count h),
     opcode = take_bit 8 (opcode h)\<rparr>"
  by (simp add: unpack_hdr_def pack_hdr_def field_simps del: One_nat_def take_bit_Suc_0)

lemma pack_unpack:
  assumes "hdr_in_range h"
  shows "unpack_hdr (pack_hdr h) = h"
proof -
  have r: "stride h < 2 ^ 5" "has_v4 h < 2 ^ 1" "has_c3 h < 2 ^ 1" "has_c4 h < 2 ^ 1" "unused h < 2 ^ 4"
    "prim_type h < 2 ^ 2" "hdr_count h < 2 ^ 10" "opcode h < 2 ^ 8"
    using assms by (simp_all add: hdr_in_range_def)
  show ?thesis unfolding unpack_pack_fields
    by (simp add: r [THEN small_take_bit] del: One_nat_def take_bit_Suc_0 power_one_right)
qed

text \<open>The stores of the DMA test stay in the buffers it was handed.\<close>

fun stores_within :: "(u64 \<times> nat) list \<Rightarrow> 'c user_event list \<Rightarrow> bool" where
  "stores_within bufs [] = True"
| "stores_within bufs (U_Store a v # es) =
     ((\<exists>(b, n) \<in> set bufs. \<exists>k < n. a = b + of_nat k) \<and> stores_within bufs es)"
| "stores_within bufs (_ # es) = stores_within bufs es"

lemma stores_within_append: "stores_within B (xs @ ys) = (stores_within B xs \<and> stores_within B ys)"
  by (induction xs rule: stores_within.induct [of _ B]) auto

lemma stores_within_all:
  "stores_within B es = (\<forall>a v. U_Store a v \<in> set es \<longrightarrow> (\<exists>(b, n) \<in> set B. \<exists>k < n. a = b + of_nat k))"
  by (induction B es rule: stores_within.induct) auto

lemma fill_buffer_within: "U_Store x v \<in> set (fill_buffer rnd a) \<Longrightarrow> \<exists>k < 1012. x = a + of_nat k"
  unfolding fill_buffer_def by clarsimp (rule_tac x = "4 + 4 * xa" in exI, simp)

lemma dma_main_within:
  assumes "\<forall>i \<le> 16. 1012 \<le> n i"
  shows "stores_within (map (\<lambda>i. (a i, n i)) [0..<17]) (dma_main a rnd)"
proof -
  have hd: "\<exists>k < n i. a i = a i + of_nat k" if "i \<le> 16" for i
    using assms that by (intro exI [of _ 0]) auto
  have "\<exists>i \<le> 16. \<exists>k < n i. x = a i + of_nat k" if "U_Store x v \<in> set (dma_main a rnd)" for x v
  proof -
    from that consider "x = a 0" | i where "i < 16" "x = a (Suc i)"
      | i where "i < 16" "U_Store x v \<in> set (fill_buffer (rnd i) (a i))"
      by (auto simp: dma_main_def dma_round_def)
    then show ?thesis
    proof cases
      case 1
      from hd [of 0] 1 show ?thesis by (intro exI [of _ 0]) simp
    next
      case (2 i)
      with hd [of "Suc i"] show ?thesis by (intro exI [of _ "Suc i"]) simp
    next
      case (3 i)
      with fill_buffer_within obtain k where "k < 1012" "x = a i + of_nat k" by blast
      with 3 assms show ?thesis by (intro exI [of _ i] conjI exI [of _ k]) (auto intro: less_le_trans)
    qed
  qed
  then show ?thesis by (fastforce simp: stores_within_all less_Suc_eq_le)
qed

end
