(* ===== verification/Dma_Session.thy ===== *)
theory Dma_Session
  imports User_Programs
begin

text \<open>
  The DMA test program, \<open>dmaBuffer.c\<close> and the card together: the program makes its calls one
  after the other, completions and foreign interrupts come in between, and a START_DMA that finds
  the ring full sleeps until the handler wakes it. A schedule is prompt when the sleeper runs before
  the card has drained the whole ring.
\<close>

section \<open>Steps\<close>

text \<open>
  \<open>p\<close> is the address of the variable the call is given and \<open>v\<close> the word in it when the call is made.
  \<open>as\<close> are the answers the card gives during a call.
\<close>

definition ioctl_at :: "kservices \<Rightarrow> u64 \<Rightarrow> dma_cmd \<Rightarrow> u64 \<Rightarrow> u32 list \<Rightarrow> ring_dev \<Rightarrow> fault + ioctl_result \<times> ring_dev" where
  "ioctl_at K p cmd v as d =
     kyouko2_ioctl (K\<lparr>copy_from_user := \<lambda>_. (ucast v, 0)\<rparr>) cmd (if cmd = START_DMA \<or> cmd = BIND_DMA then p else v)
       (d\<lparr>rd_answers := as\<rparr>)"

text \<open>The events left to do, and the driver with its sleeper and the card.\<close>

type_synonym dma_session = "dma_cmd user_event list \<times> dma_sys"

inductive session_step :: "kservices \<Rightarrow> u64 \<Rightarrow> dma_session \<Rightarrow> dma_session \<Rightarrow> bool" for K p where
  ioctl: "sleeper s = None \<Longrightarrow> ioctl_at K p cmd v as (dev s) = Inr (Returned r, d') \<Longrightarrow>
     session_step K p (U_Ioctl cmd v # es, s) (es, s\<lparr>dev := d'\<rparr>)"
| block: "sleeper s = None \<Longrightarrow> ioctl_at K p cmd v as (dev s) = Inr (Waiting, d') \<Longrightarrow>
     session_step K p (U_Ioctl cmd v # es, s) (es, s\<lparr>dev := d', sleeper := Some (user_size d')\<rparr>)"
| wake: "sleeper s = Some n \<Longrightarrow> wait_condition (dev s) \<Longrightarrow> 0 < occ BUFFERS (dev s) \<Longrightarrow>
     start_dma_resume p n (dev s) = (Returned r, d') \<Longrightarrow>
     session_step K p (es, s) (es, s\<lparr>dev := d', sleeper := None\<rparr>)"
| user: "sleeper s = None \<Longrightarrow> e = U_Sleep n \<or> e = U_Store a x \<Longrightarrow> session_step K p (e # es, s) (es, s)"
| card: "dma_step kyouko2_cfg s l t \<Longrightarrow> l = Irq \<or> l = Spurious \<Longrightarrow> session_step K p (es, s) (es, t)"

inductive session_run :: "kservices \<Rightarrow> u64 \<Rightarrow> dma_session \<Rightarrow> dma_session \<Rightarrow> bool" for K p where
  start: "session_run K p x x"
| snoc: "session_run K p x y \<Longrightarrow> session_step K p y z \<Longrightarrow> session_run K p x z"

text \<open>The sizes the events still ask for.\<close>

fun asked :: "dma_cmd user_event list \<Rightarrow> u32 list" where
  "asked [] = []"
| "asked (U_Ioctl START_DMA v # es) = ucast v # asked es"
| "asked (_ # es) = asked es"

text \<open>Events that submit something or leave the ring alone.\<close>

definition plain :: "dma_cmd user_event list \<Rightarrow> bool" where
  "plain es \<longleftrightarrow> (\<forall>c v. U_Ioctl c v \<in> set es \<longrightarrow> c \<noteq> BIND_DMA \<and> (c = START_DMA \<longrightarrow> (ucast v :: u32) \<noteq> 0))"

text \<open>The program after BIND_DMA.\<close>

definition after_bind :: "(nat \<Rightarrow> u64) \<Rightarrow> (nat \<Rightarrow> nat \<Rightarrow> u32) \<Rightarrow> dma_cmd user_event list" where
  "after_bind a rnd = U_Store (a 0) (pack_hdr hdr) # concat (map (dma_round a rnd) [0..<16])
     @ [U_Sleep 3, U_Ioctl VMODE (ucast GRAPHICS_OFF), U_Close]"

lemma dma_main_split:
  "dma_main a rnd = [U_Open, U_Ioctl VMODE (ucast GRAPHICS_ON), U_Ioctl SYNC 0, U_Ioctl BIND_DMA 0] @ after_bind a rnd"
  by (simp add: dma_main_def after_bind_def del: upt_rec_numeral)

lemma asked_append: "asked (xs @ ys) = asked xs @ asked ys"
  by (induction xs rule: asked.induct) auto

lemma asked_round: "asked (dma_round a rnd i) = [ucast (dma_size i)]"
proof -
  have "asked (map (\<lambda>k. U_Store (f k) (g k)) ks) = []" for f g ks by (induction ks) simp_all
  then show ?thesis by (simp add: dma_round_def fill_buffer_def asked_append)
qed

lemma asked_program: "asked (after_bind a rnd) = 148 # replicate 15 37"
proof -
  have "asked (concat (map (dma_round a rnd) ks)) = map (\<lambda>i. ucast (dma_size i)) ks" for ks
    by (induction ks) (simp_all add: asked_append asked_round)
  moreover have "map (\<lambda>i. ucast (dma_size i) :: u32) [0..<16] = 148 # replicate 15 37"
  proof -
    have "map (\<lambda>i. ucast (dma_size i) :: u32) [1..<16] = map (\<lambda>i. 37) [1..<16]" by (simp add: dma_size_def)
    also have "\<dots> = replicate 15 37" by (simp add: map_replicate_const del: upt_rec_numeral)
    finally show ?thesis by (simp add: upt_conv_Cons [of 0] dma_size_def)
  qed
  ultimately show ?thesis by (simp add: after_bind_def asked_append del: upt_rec_numeral)
qed

lemma plain_program: "plain (after_bind a rnd)"
  by (auto simp: plain_def after_bind_def dma_round_def fill_buffer_def dma_size_def simp del: upt_rec_numeral)

section \<open>Calls that leave the ring alone\<close>

text \<open>Same ring, same mappings, and nothing on the bus that starts a transfer.\<close>

definition idle :: "ring_dev \<Rightarrow> ring_dev \<Rightarrow> bool" where
  "idle d d' \<longleftrightarrow> fill d' = fill d \<and> drain d' = drain d \<and> dmaBuffer d' = dmaBuffer d \<and> userVirtAddr d' = userVirtAddr d \<and>
     dma_handle d' = dma_handle d \<and> iomaps d' = iomaps d \<and> k_control_base d' = k_control_base d \<and>
     kicks kyouko2_cfg 0 (bus d') = kicks kyouko2_cfg 0 (bus d)"

lemma idle_refl [simp]: "idle d d"
  by (simp add: idle_def)

lemma idle_trans: "idle d e \<Longrightarrow> idle e f \<Longrightarrow> idle d f"
  by (simp add: idle_def)

lemma idle_ring:
  assumes "idle d d'"
  shows "ring_inv N d' = ring_inv N d" and "occ N d' = occ N d" and "requests N d' = requests N d" and "live d' = live d"
proof -
  have f: "fill d' = fill d" "drain d' = drain d" "dmaBuffer d' = dmaBuffer d" "userVirtAddr d' = userVirtAddr d"
    "dma_handle d' = dma_handle d" "iomaps d' = iomaps d" "k_control_base d' = k_control_base d"
    using assms by (simp_all add: idle_def)
  have s: "slot_full d' i = slot_full d i" for i by (simp add: slot_full_def f)
  show o: "occ N d' = occ N d" by (simp add: occ_def s f)
  show "ring_inv N d' = ring_inv N d" unfolding ring_inv_def f s o ..
  show "requests N d' = requests N d" by (simp add: requests_def request_at_def o f)
  show "live d' = live d" by (simp add: live_def f)
qed

lemma idle_sys:
  assumes "idle (dev s) d'"
  shows "sys_inv kyouko2_cfg (s\<lparr>dev := d'\<rparr>) = sys_inv kyouko2_cfg s"
    and "history kyouko2_cfg (s\<lparr>dev := d'\<rparr>) = history kyouko2_cfg s"
proof -
  have k: "kicks kyouko2_cfg 0 (bus d') = kicks kyouko2_cfg 0 (bus (dev s))" using assms by (simp add: idle_def)
  show "sys_inv kyouko2_cfg (s\<lparr>dev := d'\<rparr>) = sys_inv kyouko2_cfg s"
    unfolding sys_inv_def in_flight_def by (simp add: k idle_ring [OF assms])
  show "history kyouko2_cfg (s\<lparr>dev := d'\<rparr>) = history kyouko2_cfg s"
    by (simp add: history_def k idle_ring [OF assms])
qed

lemma idle_answers [simp]: "idle d (d\<lparr>rd_answers := as\<rparr>)" "idle d (d\<lparr>user_size := n\<rparr>)" "idle d (call k d)"
  by (simp_all add: idle_def call_def)

definition quiet_reg :: "u32 \<Rightarrow> bool" where
  "quiet_reg r \<longleftrightarrow> reg_index r \<noteq> reg_index STREAMBUFFERAADDRESS \<and> reg_index r \<noteq> reg_index STREAMBUFFERACONFIG"

lemma idle_write: "K_WRITE_REG r v d = Inr d' \<Longrightarrow> quiet_reg r \<Longrightarrow> idle d d'"
  by (auto simp: K_WRITE_REG_def idle_def quiet_reg_def kyouko2_cfg_def intro!: kicks_append_quiet split: if_splits)

lemma idle_write_F: "K_WRITE_REG_F r v d = Inr d' \<Longrightarrow> quiet_reg r \<Longrightarrow> idle d d'"
  by (auto simp: K_WRITE_REG_F_def idle_def quiet_reg_def kyouko2_cfg_def intro!: kicks_append_quiet split: if_splits)

lemma idle_poll: "poll_zero r d = Inr d' \<Longrightarrow> idle d d'"
proof (induction r d rule: poll_zero.induct)
  case (1 r d)
  obtain v e where e: "K_READ_REG r d = Inr (v, e)"
    using 1(2) by (auto simp: poll_zero.simps split: sum.splits)
  then have "idle d e"
    by (auto simp: K_READ_REG_def idle_def intro!: kicks_append_quiet split: if_splits list.splits)
  moreover have "idle e d'" using 1 e by (subst (asm) poll_zero.simps) (auto split: if_splits)
  ultimately show ?case by (rule idle_trans)
qed

lemma idle_ops:
  assumes "run_ops cs d = Inr d'" and "\<And>c e e'. c \<in> set cs \<Longrightarrow> c e = Inr e' \<Longrightarrow> idle e e'"
  shows "idle d d'"
  by (rule run_ops_invariant [OF _ assms(1), of "idle d"]) (auto intro: idle_trans assms(2))

lemma quiet_regs:
  "\<forall>r \<in> {FrameColumns, FrameRows, FrameRowPitch, FramePixelFormat, FrameStartAddress, EncoderWidth, EncoderHeight,
    EncoderOffsetX, EncoderOffsetY, EncoderFrame, ConfigAcceleration, ConfigModeset, DrawClearColorR, DrawClearColorG,
    DrawClearColorB, DrawClearColorAlpha, RasterFlush, RasterClear, ConfigReboot, INFOSTATUS, ConfigInterrupt}. quiet_reg r"
  by (simp add: quiet_reg_def reg_index_def reg_defs)

lemma idle_calls:
  "sync d = Inr d' \<Longrightarrow> idle d d'" "writeflush d = Inr d' \<Longrightarrow> idle d d'" "clearBuf_1 d = Inr d' \<Longrightarrow> idle d d'"
  "reboot_1 d = Inr d' \<Longrightarrow> idle d d'" "graphicsOn d = Inr d' \<Longrightarrow> idle d d'"
  "run_ops [sync, reboot_1] d = Inr d' \<Longrightarrow> idle d d'"
proof -
  note q = quiet_regs [THEN bspec]
  have 1: "sync e = Inr e' \<Longrightarrow> idle e e'" "writeflush e = Inr e' \<Longrightarrow> idle e e'" "clearBuf_1 e = Inr e' \<Longrightarrow> idle e e'"
    "reboot_1 e = Inr e' \<Longrightarrow> idle e e'" for e e' :: ring_dev
    by (auto simp: sync_def writeflush_def clearBuf_1_def reboot_1_def intro: idle_poll idle_write [OF _ q])
  show "sync d = Inr d' \<Longrightarrow> idle d d'" by (rule 1(1))
  show "writeflush d = Inr d' \<Longrightarrow> idle d d'" by (rule 1(2))
  show "clearBuf_1 d = Inr d' \<Longrightarrow> idle d d'" by (rule 1(3))
  show "reboot_1 d = Inr d' \<Longrightarrow> idle d d'" by (rule 1(4))
  show "idle d d'" if "graphicsOn d = Inr d'"
    by (rule idle_ops [OF that [unfolded graphicsOn_def]]) (auto intro: 1 idle_write [OF _ q] idle_write_F [OF _ q])
  show "idle d d'" if "run_ops [sync, reboot_1] d = Inr d'"
    by (rule idle_ops [OF that]) (auto intro: 1)
qed

section \<open>The invariant of a session\<close>

text \<open>What START_DMA does to the ring is a step of \<open>dma_step\<close>, and the rest of it is idle.\<close>

lemma start_dma_steps:
  assumes s: "sleeper s = None" and n: "(ucast v :: u32) \<noteq> 0"
    and c: "ioctl_at K p START_DMA v as (dev s) = Inr (r, d')"
  obtains d1 t l where "idle (dev s) d1" and "dma_step kyouko2_cfg (s\<lparr>dev := d1\<rparr>) l t" and "submitted [l] = [ucast v]"
    and "prompt kyouko2_cfg (s\<lparr>dev := d1\<rparr>) l" and "idle (dev t) d'"
    and "sleeper t = (if r = Waiting then Some (ucast v) else None)" and "served t = served s"
    and "r = Waiting \<Longrightarrow> user_size d' = ucast v"
proof -
  let ?d1 = "(dev s)\<lparr>rd_answers := as, user_size := ucast v\<rparr>"
  have i: "idle (dev s) ?d1" by (simp add: idle_def)
  show thesis
  proof (cases "initiateTransfer kyouko2_cfg (ucast v) ?d1")
    case (Inl e)
    with c show ?thesis by (simp add: ioctl_at_def kyouko2_ioctl_def start_dma_def)
  next
    case (Inr bd)
    then obtain b d2 where b: "initiateTransfer kyouko2_cfg (ucast v) ?d1 = Inr (b, d2)" by (cases bd) auto
    show ?thesis
    proof (cases b)
      case True
      then have "d2 = ?d1" using b n by (auto simp: initiateTransfer_def split: if_splits sum.splits)
      then have u: "user_size d2 = ucast v" by simp
      have "r = Waiting" "d' = d2" using c b True by (simp_all add: ioctl_at_def kyouko2_ioctl_def start_dma_def)
      with u have r: "r = Waiting" "d' = d2" "user_size d' = ucast v" by simp_all
      have "dma_step kyouko2_cfg (s\<lparr>dev := ?d1\<rparr>) (Sleep (ucast v)) (s\<lparr>dev := d2, sleeper := Some (ucast v)\<rparr>)"
        using dma_step.sleep [of "s\<lparr>dev := ?d1\<rparr>" "ucast v" kyouko2_cfg d2] s n b True by simp
      from that [OF i this] r show ?thesis by (simp add: prompt_def)
    next
      case False
      with c b have r: "r = Returned 0" "d' = next_buffer_to_user p d2"
        by (simp_all add: ioctl_at_def kyouko2_ioctl_def start_dma_def)
      have "dma_step kyouko2_cfg (s\<lparr>dev := ?d1\<rparr>) (Submit (ucast v)) (s\<lparr>dev := d2\<rparr>)"
        using dma_step.submit [of "s\<lparr>dev := ?d1\<rparr>" "ucast v" kyouko2_cfg d2] s n b False by simp
      from that [OF i this] r s show ?thesis by (simp add: prompt_def next_buffer_to_user_def)
    qed
  qed
qed

lemma ioctl_idle:
  assumes "ioctl_at K p cmd v as d = Inr (r, d')" and "cmd \<noteq> START_DMA" and "cmd \<noteq> BIND_DMA"
  shows "idle d d'" and "r = Returned 0"
proof -
  have "idle (d\<lparr>rd_answers := as\<rparr>) d' \<and> r = Returned 0"
    using assms by (cases cmd) (auto simp: ioctl_at_def kyouko2_ioctl_def returning_def
        split: if_splits sum.splits dest: idle_calls intro: idle_trans)
  then show "idle d d'" "r = Returned 0" using idle_trans [OF idle_answers(1)] by blast+
qed

text \<open>The session is in order: consistent, and nothing of the total is lost.\<close>

definition session_ok :: "u32 list \<Rightarrow> dma_session \<Rightarrow> bool" where
  "session_ok all x \<longleftrightarrow> sys_inv kyouko2_cfg (snd x) \<and> plain (fst x) \<and>
     history kyouko2_cfg (snd x) @ asked (fst x) = all"

lemma session_ok_idle:
  "session_ok all (es, s) \<Longrightarrow> idle (dev s) d' \<Longrightarrow> session_ok all (es, s\<lparr>dev := d'\<rparr>)"
  by (simp add: session_ok_def idle_sys)

lemma session_ok_dma_step:
  assumes "session_ok all (es, s)" and "dma_step kyouko2_cfg s l t" and "prompt kyouko2_cfg s l"
    and "asked es = submitted [l] @ asked es'" and "plain es'"
  shows "session_ok all (es', t)"
  using assms sys_inv_step [OF kyouko2_cfg_ok assms(2) _ assms(3)] history_step [OF kyouko2_cfg_ok assms(2) _ assms(3)]
  by (simp add: session_ok_def)

lemma plain_Cons: "plain (e # es) \<Longrightarrow> plain es"
  by (auto simp: plain_def)

lemma plain_ioctl: "plain (U_Ioctl c v # es) \<Longrightarrow> c \<noteq> BIND_DMA \<and> (c = START_DMA \<longrightarrow> (ucast v :: u32) \<noteq> 0)"
  by (auto simp: plain_def)

lemma session_ok_skip:
  assumes "session_ok all (e # es, s)" and "\<And>v. e \<noteq> U_Ioctl START_DMA v"
  shows "session_ok all (es, s)"
proof -
  have "asked (e # es) = asked es"
  proof (cases e)
    case (U_Ioctl c v)
    with assms(2) show ?thesis by (cases c) auto
  qed simp_all
  with assms(1) show ?thesis by (auto simp: session_ok_def dest: plain_Cons)
qed

lemma session_start_dma:
  assumes ok: "session_ok all (U_Ioctl START_DMA v # es, s)" and s: "sleeper s = None"
    and c: "ioctl_at K p START_DMA v as (dev s) = Inr (r, d')"
  shows "session_ok all (es, s\<lparr>dev := d', sleeper := (if r = Waiting then Some (user_size d') else None)\<rparr>)"
proof -
  have pl: "plain (U_Ioctl START_DMA v # es)" using ok by (simp add: session_ok_def)
  with plain_ioctl have n: "(ucast v :: u32) \<noteq> 0" by blast
  from start_dma_steps [OF s n c] obtain d1 t l where t: "idle (dev s) d1" "dma_step kyouko2_cfg (s\<lparr>dev := d1\<rparr>) l t"
    "submitted [l] = [ucast v]" "prompt kyouko2_cfg (s\<lparr>dev := d1\<rparr>) l" "idle (dev t) d'"
    "sleeper t = (if r = Waiting then Some (ucast v) else None)" "served t = served s"
    "r = Waiting \<Longrightarrow> user_size d' = ucast v" by blast
  have "session_ok all (es, t)"
    by (rule session_ok_dma_step [OF session_ok_idle [OF ok t(1)] t(2,4)]) (use t(3) pl in \<open>auto dest: plain_Cons\<close>)
  moreover have "t\<lparr>dev := d'\<rparr> = s\<lparr>dev := d', sleeper := (if r = Waiting then Some (user_size d') else None)\<rparr>"
    using t(6-8) by (cases t; cases s) auto
  ultimately show ?thesis using session_ok_idle [OF _ t(5)] by metis
qed

lemma session_step_ok:
  assumes "session_step K p x y" and "session_ok all x"
  shows "session_ok all y"
  using assms
proof cases
  case (ioctl s cmd v as r d' es)
  show ?thesis
  proof (cases "cmd = START_DMA")
    case True
    with assms(2) ioctl session_start_dma [of all v es s K p as "Returned r" d'] show ?thesis
      by (cases s) simp
  next
    case False
    from assms(2) ioctl have "cmd \<noteq> BIND_DMA" using plain_ioctl by (auto simp: session_ok_def)
    with ioctl_idle [OF ioctl(4) False] have "idle (dev s) d'" by blast
    with session_ok_skip assms(2) ioctl False session_ok_idle show ?thesis by blast
  qed
next
  case (block s cmd v as d' es)
  from assms(2) block have "cmd \<noteq> BIND_DMA" using plain_ioctl by (auto simp: session_ok_def)
  with block ioctl_idle(2) have "cmd = START_DMA" by blast
  with assms(2) block session_start_dma [of all v es s K p as Waiting d'] show ?thesis by simp
next
  case (wake s n r d' es)
  let ?t = "s\<lparr>dev := initiateTransfer_resume kyouko2_cfg n (dev s), sleeper := None\<rparr>"
  have "dma_step kyouko2_cfg s Wake ?t" using wake by (simp add: dma_step.wake)
  moreover have "prompt kyouko2_cfg s Wake" using wake by (simp add: prompt_def kyouko2_cfg_def)
  ultimately have "session_ok all (es, ?t)" using session_ok_dma_step [of all es s Wake ?t es] assms(2) wake
    by (simp add: session_ok_def)
  moreover have "idle (dev ?t) d'" using wake by (auto simp: start_dma_resume_def next_buffer_to_user_def)
  ultimately have "session_ok all (es, ?t\<lparr>dev := d'\<rparr>)" by (rule session_ok_idle)
  with wake show ?thesis by (cases s) simp
next
  case (user s e n a x es)
  with session_ok_skip assms(2) show ?thesis by blast
next
  case (card s l t es)
  then have "prompt kyouko2_cfg s l" "submitted [l] = []" by (auto simp: prompt_def)
  with card assms(2) session_ok_dma_step show ?thesis by (auto simp: session_ok_def)
qed

lemma session_run_ok:
  assumes "session_run K p x y" and "session_ok all x"
  shows "session_ok all y"
  using assms by (induction rule: session_run.induct) (auto intro: session_step_ok)

section \<open>A session can always go on\<close>

text \<open>The events the program makes after BIND_DMA, the last one, \<open>close\<close>, apart.\<close>

definition answerable :: "dma_cmd user_event \<Rightarrow> bool" where
  "answerable e \<longleftrightarrow> (case e of U_Sleep n \<Rightarrow> True | U_Store a x \<Rightarrow> True
     | U_Ioctl c v \<Rightarrow> c = FLUSH \<or> c = VMODE \<and> v = ucast GRAPHICS_OFF \<or> c = START_DMA \<and> (ucast v :: u32) \<noteq> 0
     | _ \<Rightarrow> False)"

lemma session_trans: "session_run K p y z \<Longrightarrow> session_run K p x y \<Longrightarrow> session_run K p x z"
  by (induction rule: session_run.induct) (auto intro: session_run.snoc)

lemma one_step: "session_step K p x y \<Longrightarrow> session_run K p x y"
  by (rule session_run.snoc [OF session_run.start])

lemma session_ok_live: "session_ok all (es, s) \<Longrightarrow> live (dev s) \<and> ring_inv BUFFERS (dev s)"
  by (simp add: session_ok_def sys_inv_def kyouko2_cfg_def)

lemma flush_answers: "live d \<Longrightarrow> \<exists>d'. ioctl_at K p FLUSH v [] d = Inr (Returned 0, d')"
  by (simp add: ioctl_at_def kyouko2_ioctl_def returning_def writeflush_def K_WRITE_REG_live)

lemma off_answers: "live d \<Longrightarrow> \<exists>d'. ioctl_at K p VMODE (ucast GRAPHICS_OFF) [0] d = Inr (Returned 0, d')"
  by (simp add: ioctl_at_def kyouko2_ioctl_def returning_def GRAPHICS_OFF_def GRAPHICS_ON_def sync_def
      poll_zero_terminates reboot_1_def K_WRITE_REG_live)

lemma start_dma_answers:
  assumes "live d" and "ring_inv BUFFERS d" and n: "(ucast v :: u32) \<noteq> 0"
  shows "occ BUFFERS d = BUFFERS \<Longrightarrow>
      ioctl_at K p START_DMA v [] d = Inr (Waiting, d\<lparr>rd_answers := [], user_size := ucast v\<rparr>)"
    and "occ BUFFERS d \<noteq> BUFFERS \<Longrightarrow> \<exists>d'. ioctl_at K p START_DMA v [] d = Inr (Returned 0, d')"
proof -
  let ?d = "d\<lparr>rd_answers := [], user_size := ucast v\<rparr>"
  have i: "idle d ?d" by (simp add: idle_def)
  have N: "nbuf kyouko2_cfg = BUFFERS" by (simp add: kyouko2_cfg_def)
  have "ring_inv (nbuf kyouko2_cfg) ?d" "live ?d" using assms idle_ring [OF i] by (simp_all add: N)
  note t = initiateTransfer_cases [OF kyouko2_cfg_ok this n] idle_ring(2) [OF i, of BUFFERS]
  show "ioctl_at K p START_DMA v [] d = Inr (Waiting, ?d)" if "occ BUFFERS d = BUFFERS"
    using t that by (simp add: ioctl_at_def kyouko2_ioctl_def start_dma_def N Let_def)
  show "\<exists>d'. ioctl_at K p START_DMA v [] d = Inr (Returned 0, d')" if "occ BUFFERS d \<noteq> BUFFERS"
    using t that by (simp add: ioctl_at_def kyouko2_ioctl_def start_dma_def N Let_def)
qed

text \<open>A blocked caller gets on after one completion.\<close>

lemma blocked_goes_on:
  assumes ok: "session_ok all (es, s)" and full: "occ BUFFERS (dev s) = BUFFERS" and sl: "sleeper s = Some n"
  shows "\<exists>t. session_run K p (es, s) (es, t) \<and> sleeper t = None"
proof -
  have inv: "sys_inv kyouko2_cfg s" and N: "nbuf kyouko2_cfg = BUFFERS" "(0::nat) < BUFFERS - 1"
    using ok by (simp_all add: session_ok_def kyouko2_cfg_def BUFFERS_def)
  then obtain t where t: "dma_step kyouko2_cfg s Irq t" "sleeper t = Some n" "occ BUFFERS (dev t) = BUFFERS - 1"
    using irq_exists [OF kyouko2_cfg_ok inv] full sl by auto
  have st: "session_step K p (es, s) (es, t)" by (rule card [OF t(1)]) simp
  have "ring_inv BUFFERS (dev t)" using session_ok_live [OF session_step_ok [OF st ok]] by simp
  then have w: "wait_condition (dev t)" and o: "0 < occ BUFFERS (dev t)"
    using t(3) N by (simp_all add: wait_condition_iff)
  have "session_step K p (es, t) (es, t\<lparr>dev := snd (start_dma_resume p n (dev t)), sleeper := None\<rparr>)"
    by (rule wake [OF t(2) w o, where r = 0]) (simp add: start_dma_resume_def)
  from session_run.snoc [OF one_step [OF st] this]
  show ?thesis by (intro exI [of _ "t\<lparr>dev := snd (start_dma_resume p n (dev t)), sleeper := None\<rparr>"]) simp
qed

lemma event_answered:
  assumes ok: "session_ok all (e # es, s)" and sl: "sleeper s = None" and e: "answerable e"
  shows "\<exists>t. session_run K p (e # es, s) (es, t) \<and> sleeper t = None"
proof -
  note lv = session_ok_live [OF ok]
  have ret: ?thesis if "e = U_Ioctl c v" "\<exists>d'. ioctl_at K p c v as (dev s) = Inr (Returned 0, d')" for c v as
  proof -
    from that(2) obtain d' where d': "ioctl_at K p c v as (dev s) = Inr (Returned 0, d')" ..
    from one_step [OF ioctl [OF sl d']] show ?thesis using that(1) sl by (intro exI [of _ "s\<lparr>dev := d'\<rparr>"]) simp
  qed
  consider n where "e = U_Sleep n" | a x where "e = U_Store a x" | v where "e = U_Ioctl FLUSH v"
    | "e = U_Ioctl VMODE (ucast GRAPHICS_OFF)" | v where "e = U_Ioctl START_DMA v" "(ucast v :: u32) \<noteq> 0"
    using e by (cases e) (auto simp: answerable_def)
  then show ?thesis
  proof cases
    case (5 v)
    show ?thesis
    proof (cases "occ BUFFERS (dev s) = BUFFERS")
      case True
      let ?d = "(dev s)\<lparr>rd_answers := [], user_size := ucast v\<rparr>"
      let ?t = "s\<lparr>dev := ?d, sleeper := Some (user_size ?d)\<rparr>"
      have st: "session_step K p (e # es, s) (es, ?t)"
        using block [OF sl start_dma_answers(1) [OF _ _ 5(2) True]] lv 5(1) by blast
      have "idle (dev s) ?d" by (simp add: idle_def)
      then have "occ BUFFERS (dev ?t) = BUFFERS" using True idle_ring(2) by simp
      from blocked_goes_on [OF session_step_ok [OF st ok] this, of "user_size ?d"] obtain u
        where "session_run K p (es, ?t) (es, u)" "sleeper u = None" by auto
      with session_trans [OF _ one_step [OF st]] show ?thesis by blast
    next
      case False
      from start_dma_answers(2) [OF _ _ 5(2) this] lv have "\<exists>d'. ioctl_at K p START_DMA v [] (dev s) = Inr (Returned 0, d')" by blast
      then show ?thesis by (rule ret [OF 5(1)])
    qed
  qed (use sl lv flush_answers off_answers ret in \<open>blast intro: one_step user\<close>)+
qed

lemma events_answered:
  assumes "session_ok all (es @ rest, s)" and "sleeper s = None" and "\<forall>e \<in> set es. answerable e"
  shows "\<exists>t. session_run K p (es @ rest, s) (rest, t) \<and> sleeper t = None"
  using assms
proof (induction es arbitrary: s)
  case Nil
  then show ?case by (auto intro: session_run.start)
next
  case (Cons e es)
  then obtain t where t: "session_run K p (e # es @ rest, s) (es @ rest, t)" "sleeper t = None"
    using event_answered [of all e "es @ rest" s K p] by auto
  with Cons.prems session_run_ok [OF t(1)] Cons.IH [of t] obtain u
    where "session_run K p (es @ rest, t) (rest, u)" "sleeper u = None" by auto
  with t(1) show ?case using session_trans by (metis append_Cons)
qed

lemma ring_drains:
  assumes "session_ok all (es, s)"
  shows "\<exists>t. session_run K p (es, s) (es, t) \<and> sleeper t = sleeper s \<and> occ BUFFERS (dev t) = 0"
  using assms
proof (induction "occ BUFFERS (dev s)" arbitrary: s)
  case 0
  then show ?case by (metis session_run.start)
next
  case (Suc k)
  have inv: "sys_inv kyouko2_cfg s" using Suc(3) by (simp add: session_ok_def)
  then obtain t where t: "dma_step kyouko2_cfg s Irq t" "sleeper t = sleeper s" "occ BUFFERS (dev t) = k"
    using irq_exists [OF kyouko2_cfg_ok inv] Suc(2) by (auto simp: kyouko2_cfg_def)
  have st: "session_step K p (es, s) (es, t)" by (rule card [OF t(1)]) simp
  from Suc(1) [OF t(3) [symmetric] session_step_ok [OF st Suc(3)]] t(2) one_step [OF st] show ?case
    by (metis session_trans)
qed

end
