(* ===== verification/Kyouko2_Properties.thy ===== *)
theory Kyouko2_Properties
  imports User_Programs
begin

text \<open>
  What the drivers of the Kyouko2 card promise and where they break the promise: the DMA ring
  as a bounded queue, the transfers the card is told to make over whole runs, the schedules that
  stall or corrupt the ring, and the file operations around it.
\<close>

section \<open>A device to instantiate the properties with\<close>

definition sample_dev :: ring_dev where
  "sample_dev = \<lparr>p_control_base = 0xF0000000, p_card_ram_base = 0xE0000000,
     k_control_base = 0xC000, k_card_ram_base = 0xD000, p_pci_dev = Some 1,
     iomaps = [0xC000, 0xD000], rd_answers = [3, 0], bus = [], cdev_added = True, pci_registered = True,
     kcalls = [], dmaBuffer = replicate 8 \<lparr>buffer = 0xA000, count = 0, isFull = 0\<rparr>,
     userVirtAddr = map (\<lambda>i. of_nat (0x7000 + 0x1000 * i)) [0..<8],
     dma_handle = map (\<lambda>i. of_nat (0x100000 + 0x20000 * i)) [0..<8], fill = 0, drain = 0, user_size = 0\<rparr>"

definition sample_sys :: dma_sys where
  "sample_sys = \<lparr>dev = sample_dev, sleeper = None, served = 0\<rparr>"

definition sample_kernel :: kservices where
  "sample_kernel = \<lparr>ioremap_nocache = (\<lambda>a. a + 1), pci_resource_start = (\<lambda>p b. of_nat (4096 * b)),
     cdev_add = 0, pci_register_driver = (0, Some 1), pci_enable_device = (\<lambda>_. 0), pci_enable_msi = (\<lambda>_. 0),
     request_irq = (\<lambda>_. 0), pci_alloc_consistent = (\<lambda>i. (of_nat (i + 1), of_nat (4096 * (i + 100)))),
     do_mmap = (\<lambda>off. off + 0x70000000), do_munmap = (\<lambda>_. 0), copy_from_user = (\<lambda>_. (148, 0)),
     io_remap_pfn_range = (\<lambda>pfn len. 0), current_fsuid = 0\<rparr>"

lemma sample_live: "live sample_dev"
  by (simp add: sample_dev_def live_def)

lemma sample_ring: "ring_inv 8 sample_dev"
  by (simp add: ring_inv_def sample_dev_def occ_def slot_full_def)

lemma sample_occ: "occ 8 sample_dev = 0"
  by (simp add: sample_dev_def occ_def slot_full_def)

lemma nbuf_kyouko2: "nbuf kyouko2_cfg = 8"
  by (simp add: kyouko2_cfg_def BUFFERS_def)

lemma sample_sys_inv: "sys_inv kyouko2_cfg sample_sys"
  using sample_ring sample_live sample_occ
  by (simp add: sys_inv_def in_flight_def sample_sys_def nbuf_kyouko2 requests_def)
     (simp add: sample_dev_def)

lemma sample_submit:
  "\<exists>t. prompt_run kyouko2_cfg sample_sys [Submit 1] t \<and> sleeper t = None \<and> occ 8 (dev t) = 1"
proof -
  have "\<exists>t. dma_step kyouko2_cfg sample_sys (Submit 1) t \<and> sleeper t = None \<and> occ 8 (dev t) = 1"
    using submit_exists [OF kyouko2_cfg_ok sample_sys_inv] sample_occ
    by (simp add: sample_sys_def nbuf_kyouko2)
  moreover have "prompt_run kyouko2_cfg sample_sys ([] @ [Submit 1]) t"
    if "dma_step kyouko2_cfg sample_sys (Submit 1) t" for t
    by (rule prompt_run.snoc [OF prompt_run.nil that]) (simp add: prompt_def)
  ultimately show ?thesis by auto
qed

section \<open>The ring\<close>

text \<open>C1: Over any sequence of prompt steps (buffers submitted, sleeps, timely wake-ups, completion
  interrupts, interrupts of other devices), the sizes in the transfers the card has been started on,
  followed by those still queued in the ring and the one held by a sleeping caller, are exactly what
  was there before followed by the sizes submitted, in order: no buffer is lost, duplicated or
  reordered.\<close>

theorem transfers_follow_submissions:
  assumes "prompt_run kyouko2_cfg s ls t" and "sys_inv kyouko2_cfg s"
  shows "map snd (kicks kyouko2_cfg 0 (bus (dev t))) @ map snd (tl (requests 8 (dev t))) @
         (case sleeper t of None \<Rightarrow> [] | Some n \<Rightarrow> [n])
         = history kyouko2_cfg s @ submitted ls"
  using history_run [OF kyouko2_cfg_ok assms] by (simp add: history_def nbuf_kyouko2)

theorem transfers_follow_submissions_witness:
  "\<exists>t. prompt_run kyouko2_cfg sample_sys [Submit 1] t \<and>
     map snd (kicks kyouko2_cfg 0 (bus (dev t))) @ map snd (tl (requests 8 (dev t))) = [1]"
proof -
  obtain t where t: "prompt_run kyouko2_cfg sample_sys [Submit 1] t" "sleeper t = None"
    using sample_submit by auto
  have "history kyouko2_cfg sample_sys = []"
    using sample_occ by (simp add: history_def sample_sys_def nbuf_kyouko2 requests_def) (simp add: sample_dev_def)
  with transfers_follow_submissions [OF t(1) sample_sys_inv] t show ?thesis by auto
qed

text \<open>C2: Every prompt step keeps the system invariant: the ring is well formed (\<open>isFull\<close> is set on
  exactly the slots between \<open>drain\<close> and \<open>fill\<close>, indices in range, arrays of the right length), the
  registers stay mapped, and the card works on exactly the request at the head of the ring, with
  nothing in flight when the ring is empty.\<close>

theorem prompt_steps_keep_invariant:
  assumes "sys_inv kyouko2_cfg s" and "dma_step kyouko2_cfg s l t" and "prompt kyouko2_cfg s l"
  shows "sys_inv kyouko2_cfg t"
  using sys_inv_step [OF kyouko2_cfg_ok assms(2,1,3)] .

theorem prompt_steps_keep_invariant_witness:
  "\<exists>t. dma_step kyouko2_cfg sample_sys (Submit 1) t \<and> sys_inv kyouko2_cfg t"
proof -
  obtain t where t: "dma_step kyouko2_cfg sample_sys (Submit 1) t"
    using submit_exists [OF kyouko2_cfg_ok sample_sys_inv] sample_occ
    by (auto simp: sample_sys_def nbuf_kyouko2)
  have "prompt kyouko2_cfg sample_sys (Submit 1)" by (simp add: prompt_def)
  from prompt_steps_keep_invariant [OF sample_sys_inv t this] t show ?thesis by blast
qed

text \<open>C9: The two ring operations of the driver, queueing at \<open>fill\<close> and retiring at \<open>drain\<close>,
  implement a bounded FIFO: run on any script that neither overfills nor underruns the ring they
  keep the representation invariant and hold the same requests as the list specification.\<close>

theorem ring_refines_fifo:
  assumes "ring_inv BUFFERS d" and "script_ok BUFFERS os (occ BUFFERS d)"
  shows "ring_inv BUFFERS (fifo_impl (queue_request BUFFERS) (retire BUFFERS) os d) \<and>
     map snd (requests BUFFERS (fifo_impl (queue_request BUFFERS) (retire BUFFERS) os d))
       = fifo_spec os (map snd (requests BUFFERS d))"
  using dma_ring.script_refines [OF assms(1)] assms(2) by simp

theorem ring_refines_fifo_witness:
  "map snd (requests BUFFERS (fifo_impl (queue_request BUFFERS) (retire BUFFERS) [Enq 3, Enq 5, Deq, Enq 7] sample_dev))
     = [5, 7]"
  using ring_refines_fifo [of sample_dev "[Enq 3, Enq 5, Deq, Enq 7]"] sample_ring sample_occ
  by (simp add: BUFFERS_def requests_def)

text \<open>A completion interrupt on a consistent system retires the request at the head, starts the
  next queued request and nothing else, and wakes the waiting process exactly when the ring was full.\<close>

theorem completion_starts_next:
  assumes "sys_inv kyouko2_cfg s" and "in_flight kyouko2_cfg s \<noteq> []"
    and "dma_interrupt kyouko2_cfg ((dev s)\<lparr>rd_answers := as\<rparr>) = Inr (IRQ_HANDLED, w, d')"
  shows "requests 8 d' = tl (requests 8 (dev s)) \<and> w = (occ 8 (dev s) = 8) \<and>
     kicks kyouko2_cfg 0 (bus d') = kicks kyouko2_cfg 0 (bus (dev s)) @ map truncated (take 1 (requests 8 d'))"
  using irq_effect [OF kyouko2_cfg_ok assms] by (simp add: nbuf_kyouko2)

theorem completion_starts_next_witness:
  "\<exists>(s :: dma_sys) w d'. dma_interrupt kyouko2_cfg ((dev s)\<lparr>rd_answers := [2, 0]\<rparr>) = Inr (IRQ_HANDLED, w, d') \<and>
     \<not> w \<and> requests 8 d' = []"
proof -
  obtain t where t: "prompt_run kyouko2_cfg sample_sys [Submit 1] t" "occ 8 (dev t) = 1"
    using sample_submit by auto
  have inv: "sys_inv kyouko2_cfg t" by (rule prompt_run_inv [OF kyouko2_cfg_ok t(1) sample_sys_inv])
  then have r: "ring_inv (nbuf kyouko2_cfg) (dev t)" "live (dev t)" "0 < occ (nbuf kyouko2_cfg) (dev t)"
    using t(2) by (auto simp: sys_inv_def nbuf_kyouko2)
  have fl: "in_flight kyouko2_cfg t \<noteq> []" using inv r(3) by (auto simp: sys_inv_def requests_Nil)
  have "completion kyouko2_cfg [2, 0]" by (simp add: completion_def kyouko2_cfg_def)
  from completion_interrupt [OF kyouko2_cfg_ok r this]
  obtain w d' where i: "dma_interrupt kyouko2_cfg ((dev t)\<lparr>rd_answers := [2, 0]\<rparr>) = Inr (IRQ_HANDLED, w, d')"
    by blast
  have "length (requests 8 (dev t)) = 1" using t(2) by simp
  then have "tl (requests 8 (dev t)) = []" by (cases "requests 8 (dev t)") simp_all
  with completion_starts_next [OF inv fl i] t(2) have "\<not> w \<and> requests 8 d' = []" by simp
  with i show ?thesis by blast
qed

section \<open>The stall and the ignored signal\<close>

text \<open>C10: From every consistent state with no sleeper, a run without any signal reaches a stalled
  state: the caller sleeps on the full ring, the card drains it, and the caller then queues its
  request without starting it, so that the ring holds a request and nothing is in flight.\<close>

theorem stall_is_reachable:
  assumes "sys_inv kyouko2_cfg s" and "sleeper s = None"
  shows "\<exists>ls t. quiet_run kyouko2_cfg s ls t \<and> 0 < occ 8 (dev t) \<and> in_flight kyouko2_cfg t = []"
  using stall_reachable [OF kyouko2_cfg_ok assms] by (auto simp: stalled_def nbuf_kyouko2)

theorem stall_is_reachable_witness:
  "\<exists>ls t. quiet_run kyouko2_cfg sample_sys ls t \<and> 0 < occ 8 (dev t) \<and> in_flight kyouko2_cfg t = []"
  using stall_is_reachable [OF sample_sys_inv] by (simp add: sample_sys_def)

text \<open>C11: A stall is permanent: whatever is submitted, whatever wakes up and whatever other devices
  interrupt, the card is never started again and the ring never empties.\<close>

theorem stall_is_permanent:
  assumes "stalled kyouko2_cfg s" and "quiet_run kyouko2_cfg s ls t"
  shows "kicks kyouko2_cfg 0 (bus (dev t)) = kicks kyouko2_cfg 0 (bus (dev s)) \<and> 0 < occ 8 (dev t)"
  using stalled_run [OF kyouko2_cfg_ok assms(2,1)] by (simp add: stalled_def nbuf_kyouko2)

definition stalled_sys :: dma_sys where
  "stalled_sys = sample_sys\<lparr>dev := queue_request 8 64 sample_dev\<rparr>"

lemma stalled_sample: "stalled kyouko2_cfg stalled_sys"
  using ring_inv_queue [OF sample_ring, of 64] occ_queue [OF sample_ring, of 64] sample_occ sample_live
  by (simp add: stalled_def stalled_sys_def sample_sys_def in_flight_def nbuf_kyouko2 ring_simps)
     (simp add: sample_dev_def)

theorem stall_is_permanent_witness:
  "\<exists>t. quiet_run kyouko2_cfg stalled_sys [Submit 9] t \<and> kicks kyouko2_cfg 0 (bus (dev t)) = [] \<and> 0 < occ 8 (dev t)"
proof -
  have d: "dev stalled_sys = queue_request 8 64 sample_dev" "sleeper stalled_sys = None"
    by (simp_all add: stalled_sys_def sample_sys_def)
  have "initiateTransfer kyouko2_cfg 9 (dev stalled_sys) = Inr (False, queue_request 8 9 (dev stalled_sys))"
    using initiateTransfer_cases [OF kyouko2_cfg_ok, of "dev stalled_sys" 9] stalled_sample
      occ_queue [OF sample_ring, of 64] sample_occ
    by (simp add: stalled_def nbuf_kyouko2 d)
  from dma_step.submit [OF d(2) _ this] have
    "dma_step kyouko2_cfg stalled_sys (Submit 9) (stalled_sys\<lparr>dev := queue_request 8 9 (dev stalled_sys)\<rparr>)" by simp
  from quiet_run.snoc [OF quiet_run.nil this] obtain t where t: "quiet_run kyouko2_cfg stalled_sys [Submit 9] t"
    by auto
  have "kicks kyouko2_cfg 0 (bus (dev stalled_sys)) = []"
    by (simp add: d ring_simps) (simp add: sample_dev_def)
  with stall_is_permanent [OF stalled_sample t] t show ?thesis by metis
qed

text \<open>C12: The result of \<open>wait_event_interruptible\<close> is ignored. When a signal ends the sleep on
  a full ring, the caller's size is written over the request the card is working on, and the seven
  other queued requests are dropped from the ring.\<close>

theorem signal_overwrites_active_request:
  assumes "sys_inv kyouko2_cfg s" and "occ 8 (dev s) = 8" and "sleeper s = Some n"
    and "dma_step kyouko2_cfg s Interrupted t"
  shows "occ 8 (dev t) = 1 \<and> drain (dev t) = drain (dev s) \<and>
     count (dmaBuffer (dev t) ! drain (dev t)) = n"
  using interrupted_full [OF kyouko2_cfg_ok assms(1,4)] assms(2,3) by (auto simp: nbuf_kyouko2)

theorem signal_overwrites_active_request_witness:
  "\<exists>s t. dma_step kyouko2_cfg s Interrupted t \<and> occ 8 (dev s) = 8 \<and> occ 8 (dev t) = 1"
proof -
  obtain ls u where u: "prompt_run kyouko2_cfg sample_sys ls u" "occ 8 (dev u) = 8"
    using fill_up [OF kyouko2_cfg_ok sample_sys_inv] by (auto simp: sample_sys_def nbuf_kyouko2)
  have "sys_inv kyouko2_cfg u" by (rule prompt_run_inv [OF kyouko2_cfg_ok u(1) sample_sys_inv])
  then have inv: "sys_inv kyouko2_cfg (u\<lparr>sleeper := Some 5\<rparr>)" by (simp add: sys_inv_def in_flight_def)
  obtain t where t: "dma_step kyouko2_cfg (u\<lparr>sleeper := Some 5\<rparr>) Interrupted t"
    using dma_step.interrupted [of "u\<lparr>sleeper := Some 5\<rparr>" 5] by auto
  from signal_overwrites_active_request [OF inv _ _ t, of 5] t u(2) show ?thesis
    by (intro exI [of _ "u\<lparr>sleeper := Some 5\<rparr>"] exI [of _ t]) simp
qed

lemma user_size_sel [simp]:
  "ring_inv N (d\<lparr>user_size := n\<rparr>) = ring_inv N d" "occ N (d\<lparr>user_size := n\<rparr>) = occ N d"
  "live (d\<lparr>user_size := n\<rparr>) = live d" "slot_full (d\<lparr>user_size := n\<rparr>) i = slot_full d i"
  by (simp_all add: ring_inv_def occ_def slot_full_def live_def)




section \<open>Registers and mode setting\<close>

text \<open>\<open>sync\<close> returns exactly when the card's answers contain a 0 (command FIFO empty). Then it
  has read the FIFO depth register once per answer up to the first 0 and touched nothing else.\<close>

theorem sync_returns_iff_fifo_empties:
  assumes "live d"
  shows "sync d = (if 0 \<in> set (rd_answers d) then Inr (d\<lparr>
       rd_answers := drop (Suc (length (polls (rd_answers d)))) (rd_answers d),
       bus := bus d @ poll_reads InfoFifoDepth (polls (rd_answers d) @ [0])\<rparr>)
     else Inl Still_Polling)"
  using poll_zero_terminates [OF assms, of InfoFifoDepth] poll_zero_polls_on [OF assms, of InfoFifoDepth]
  by (simp add: sync_def)

theorem sync_returns_iff_fifo_empties_witness:
  "\<exists>d'. sync sample_dev = Inr d' \<and> bus d' = [Rd 0x1001 3, Rd 0x1001 0]"
  using sync_returns_iff_fifo_empties [OF sample_live]
  by (simp add: sample_dev_def polls_def poll_reads_def reg_index_def reg_defs)

lemma run_ops_write: "live d \<Longrightarrow> run_ops (K_WRITE_REG r v # cs) d = run_ops cs (d\<lparr>bus := bus d @ [Wr (reg_index r) v]\<rparr>)"
  and run_ops_write_f: "live d \<Longrightarrow> run_ops (K_WRITE_REG_F r v # cs) d = run_ops cs (d\<lparr>bus := bus d @ [Wr (reg_index r) v]\<rparr>)"
  by (simp_all add: K_WRITE_REG_def K_WRITE_REG_F_def)

text \<open>Switching graphics on programs frame, encoder and acceleration, waits for the command
  FIFO, and only then sets the mode, the clear colour, flushes and clears: the bus sees exactly this
  sequence (word indices), with the polling reads between acceleration and mode set.\<close>

theorem graphicsOn_sequence:
  assumes "live d" and "0 \<in> set (rd_answers d)"
  shows "\<exists>d'. graphicsOn d = Inr d' \<and> bus d' = bus d @
    [Wr 0x2000 1024, Wr 0x2001 768, Wr 0x2002 4096, Wr 0x2003 0xf888, Wr 0x2004 0,
     Wr 0x2400 1024, Wr 0x2401 768, Wr 0x2402 0, Wr 0x2403 0, Wr 0x2404 0, Wr 0x404 0x40000000]
    @ poll_reads InfoFifoDepth (polls (rd_answers d) @ [0]) @
    [Wr 0x402 1, Wr 0x1440 float_0_2, Wr 0x1441 float_0_2, Wr 0x1442 float_0_2, Wr 0x1443 0,
     Wr 0xFFF 1, Wr 0xC02 1]"
proof -
  have s: "run_ops (sync # cs) e = run_ops cs (e\<lparr>rd_answers := drop (Suc (length (polls (rd_answers e)))) (rd_answers e),
       bus := bus e @ poll_reads InfoFifoDepth (polls (rd_answers e) @ [0])\<rparr>)"
    if "live e" "0 \<in> set (rd_answers e)" for e :: "'a kyouko2_scheme" and cs
    using poll_zero_terminates [OF that, of InfoFifoDepth] by (simp add: sync_def)
  show ?thesis
    using assms
    by (simp add: graphicsOn_def run_ops_write run_ops_write_f s writeflush_def clearBuf_1_def
        del: run_ops.simps(2))
       (simp add: reg_index_def reg_defs float_0_0_def)
qed

theorem graphicsOn_sequence_witness:
  "\<exists>d'. graphicsOn sample_dev = Inr d' \<and> length (bus d') = 20"
  using graphicsOn_sequence [OF sample_live] by (auto simp: sample_dev_def polls_def poll_reads_def)

section \<open>File operations\<close>

text \<open>C14: BIND_DMA on an open device whose PCI device is known returns without a fault and leaves
  an empty, well-formed ring of eight buffers; each slot holds the buffer, the DMA handle and the
  user mapping (at offset \<open>(i+1)*0x1000\<close>) of its index, and the interrupt is enabled on the card
  last, after its status was cleared.\<close>

theorem bind_dma_establishes_ring:
  assumes "dma_arrays d" and "live d" and "p_pci_dev d = Some p"
  shows "\<exists>d'. kyouko2_ioctl K BIND_DMA arg d = Inr (Returned 0, d') \<and> ring_inv BUFFERS d' \<and> occ BUFFERS d' = 0 \<and>
     (\<forall>i < BUFFERS. (buffer (dmaBuffer d' ! i), dma_handle d' ! i) = pci_alloc_consistent K i \<and>
        userVirtAddr d' ! i = do_mmap K (of_nat ((i + 1) * 0x1000))) \<and>
     bus d' = bus d @ [Wr 0x1002 0xFFFFFFFF, Wr 0x403 0x2]"
proof -
  obtain d' where d': "bind_dma K arg d = Inr d'" "bound_upto BUFFERS K d'" "fill d' = 0" "drain d' = 0"
    "bus d' = bus d @ [Wr (reg_index INFOSTATUS) 0xFFFFFFFF, Wr (reg_index ConfigInterrupt) 0x2]"
    using bind_dma_ok [OF assms] by blast
  have "ring_inv BUFFERS d'" "occ BUFFERS d' = 0" using bound_ring_inv [OF d'(2-4)] by auto
  with d' show ?thesis
    by (intro exI [of _ d']) (auto simp: kyouko2_ioctl_def returning_def bound_upto_def reg_index_def reg_defs)
qed

theorem bind_dma_establishes_ring_witness:
  "\<exists>d'. kyouko2_ioctl sample_kernel BIND_DMA 0 sample_dev = Inr (Returned 0, d') \<and> ring_inv BUFFERS d' \<and>
     dma_handle d' ! 3 = 0x67000"
proof -
  have a: "dma_arrays sample_dev" "p_pci_dev sample_dev = Some 1"
    by (simp_all add: dma_arrays_def sample_dev_def BUFFERS_def)
  from bind_dma_establishes_ring [OF a(1) sample_live a(2), of sample_kernel 0]
  obtain d' where "kyouko2_ioctl sample_kernel BIND_DMA 0 sample_dev = Inr (Returned 0, d')" "ring_inv BUFFERS d'"
    "\<forall>i < BUFFERS. (buffer (dmaBuffer d' ! i), dma_handle d' ! i) = pci_alloc_consistent sample_kernel i"
    by auto
  then show ?thesis by (intro exI [of _ d']) (auto simp: BUFFERS_def sample_kernel_def)
qed

text \<open>The offset of a mapping as \<open>mmap\<close> sees it.\<close>

definition vma_at :: "u64 \<Rightarrow> vma" where
  "vma_at off = \<lparr>vm_pgoff = drop_bit PAGE_SHIFT off, vm_start = 0, vm_end = BUF_BYTES\<rparr>"

text \<open>The mapping offset the kernel passes to \<open>do_mmap\<close> for buffer \<open>i\<close> is the one \<open>mmap\<close>
  resolves to the page frame of DMA handle \<open>i\<close>, for each of the eight buffers.\<close>

theorem mmap_finds_bound_buffer:
  assumes "i < BUFFERS"
  shows "mmap_pfn (vma_at (of_nat ((i + 1) * 0x1000))) d = Some (drop_bit PAGE_SHIFT (dma_handle d ! i))"
proof -
  from assms consider "i = 0" | "i = 1" | "i = 2" | "i = 3" | "i = 4" | "i = 5" | "i = 6" | "i = 7"
    by (fastforce simp: BUFFERS_def)
  then show ?thesis
    by cases (simp_all add: mmap_pfn_def vma_at_def PAGE_SHIFT_def Let_def)
qed

theorem mmap_finds_bound_buffer_witness:
  "mmap_pfn (vma_at 0x4000) sample_dev = Some 0x160"
  using mmap_finds_bound_buffer [of 3 sample_dev]
  by (simp add: BUFFERS_def sample_dev_def PAGE_SHIFT_def)

text \<open>C15: Closing the device never succeeds: whatever the state of the ring, release touches a
  register through a pointer that is not mapped, the reboot register when the device is not open
  and otherwise the interrupt register, after both mappings have been taken down.\<close>

theorem release_always_faults:
  assumes "distinct (iomaps d)"
  shows "kyouko2_release d = Inl (Wild_Access (if live d then ConfigInterrupt else ConfigReboot))"
  using release_faults [OF assms] by (simp add: ConfigReboot_def)

theorem release_always_faults_witness:
  "kyouko2_release sample_dev = Inl (Wild_Access 0x100C)"
  using release_always_faults [of sample_dev] sample_live
  by (simp add: sample_dev_def ConfigInterrupt_def)

text \<open>C16: \<open>driver.c\<close> writes its transfer routine and its interrupt handler out anew, with separate stores to
  \<open>isFull\<close> and \<open>count\<close>, its own advance of the indices and its own register access; they are the
  functions of \<open>dmaBuffer.c\<close> with the offsets and the ring size of \<open>dataTypes.h\<close>, on every state and
  every answer of the card.\<close>

theorem drivers_share_ring:
  "f_initiateTransfer D = initiateTransfer (f_cfg D) \<and> f_initiateTransfer_resume D = initiateTransfer_resume (f_cfg D) \<and>
   f_irq_critical D = irq_critical (f_cfg D) \<and> f_dma_interrupt D = dma_interrupt (f_cfg D)"
  by simp

text \<open>The other driver closes without a fault: with DMA mapped it disables the card's
  interrupt, frees the buffers, clears \<open>dma_mapped\<close>, reboots the card while the registers are still
  mapped, and takes the two mappings down last.\<close>

theorem f_release_is_safe:
  assumes "dma_mapped s = 1" and "live (ring s)" and "p_pci_dev (ring s) = Some p"
    and "distinct (iomaps (ring s))"
  shows "\<exists>s'. f_release D s = Inr (0, s') \<and> dma_mapped s' = 0 \<and>
     bus (ring s') = bus (ring s) @ [Wr (reg_index (dt_INTERRUPT D)) 0, Wr (reg_index (dt_REBOOT D)) 1] \<and>
     k_control_base (ring s) \<notin> set (iomaps (ring s'))"
proof -
  have "k_control_base (ring s) \<notin> set (remove1 v (remove1 (k_control_base (ring s)) (iomaps (ring s))))" for v
    using assms(4) by (auto dest: notin_set_remove1)
  with f_release_mapped [OF assms(1-3), of D] show ?thesis by auto
qed

definition sample_F :: dataTypes where
  "sample_F = \<lparr>dt_FRAME0_BASE = 0x8000, dt_DAC0_BASE = 0x9000, dt_CLEAR_COLOR = 0x5100, dt_ACC_REG = 0x1010,
     dt_MODESET = 0x1008, dt_FLUSH = 0x3FFC, dt_CLEAR_BUF_REG = 0x3008, dt_REBOOT = 0x1000,
     dt_FIFO_DEPTH = 0x4004, dt_INTERRUPT = 0x100C, dt_INTERRUPT_STATUS = 0x4008, dt_DMA_ADDR_A = 0x2000,
     dt_DMA_CONFIG_A = 0x2008, dt_BUF_A_FLUSHED = 2, dt_NUM_BUFS = 8, dt_GRAPHICS_ON = 1\<rparr>"

theorem f_release_is_safe_witness:
  "\<exists>s'. f_release sample_F \<lparr>ring = sample_dev, graphics_on = 0, dma_mapped = 1\<rparr> = Inr (0, s') \<and>
     bus (ring s') = [Wr 0x403 0, Wr 0x400 1]"
  using f_release_is_safe [of "\<lparr>ring = sample_dev, graphics_on = 0, dma_mapped = 1\<rparr>" 1 sample_F] sample_live
  by (auto simp: sample_dev_def sample_F_def reg_index_def)


lemma sample_F_ok: "cfg_ok (f_cfg sample_F)"
  by (simp add: cfg_ok_def f_cfg_def sample_F_def reg_index_def)


text \<open>In the same busy loop a slot that stays full is never left: with any number of
  interrupts of other devices on the shared line, and no completion, the ioctl keeps spinning.\<close>

theorem graphics_off_hangs:
  assumes "cfg_ok (f_cfg D)" and "live (ring s)" and "0 \<in> set (rd_answers (ring s))"
    and "dma_mapped s = 1" and "0 < dt_NUM_BUFS D" and "slot_full (ring s) 0"
    and "\<forall>as \<in> set irqs. foreign (f_cfg D) as"
  shows "f_graphics_off D irqs s = Inl Still_Polling"
proof -
  obtain a b where sy: "f_SYNC D (ring s) = Inr ((ring s)\<lparr>rd_answers := a, bus := b\<rparr>)"
    using poll_zero_terminates [OF assms(2,3)] by (simp add: f_SYNC_def)
  have "spin_slot D 0 irqs ((ring s)\<lparr>rd_answers := a, bus := b\<rparr>) = Inl Still_Polling"
    by (rule spin_slot_hangs [OF assms(1) _ _ assms(7)]) (use assms in auto)
  then have "spin_slots D [0..<dt_NUM_BUFS D] irqs ((ring s)\<lparr>rd_answers := a, bus := b\<rparr>) = Inl Still_Polling"
    using assms(5) by (simp add: upt_conv_Cons)
  with sy assms(4) show ?thesis by (simp add: f_graphics_off_def on_ring_def)
qed

theorem graphics_off_hangs_witness:
  "f_graphics_off sample_F [[0], [1]]
     \<lparr>ring = queue_request 8 5 sample_dev, graphics_on = 1, dma_mapped = 1\<rparr> = Inl Still_Polling"
  by (rule graphics_off_hangs [OF sample_F_ok])
     (use sample_live in \<open>auto simp: ring_simps slot_full_def sample_F_def foreign_def f_cfg_def\<close>,
      auto simp: sample_dev_def)

section \<open>Module entry points\<close>

text \<open>When \<open>pci_register_driver\<close> fails with a negative error before any device was probed,
  \<open>dmaBuffer.c\<close> and \<open>drawLineTriangle.c\<close> go on to enable a NULL device, because they test
  \<open>flag <= 0\<close>; \<open>contactWithGraphicCard.c\<close> returns the error, with the character device left registered.\<close>

theorem init_after_failed_registration:
  assumes "cdev_add K = 0" and "pci_register_driver K = (r, m)" and "r < 0"
    and "p_pci_dev d = None" and "p_pci_dev e = None"
  shows "dmaBuffer_init K d = Inl Null_Device \<and> draw_init K e = Inl Null_Device \<and>
     (\<exists>e'. contact_init K e = Inr (r, e') \<and> cdev_added e' \<and> \<not> pci_registered e' = (\<not> pci_registered e))"
  using assms
  by (auto simp: dmaBuffer_init_def draw_init_def contact_init_def add_cdev_def register_driver_def
      enable_device_def with_pci_dev_def call_def)

theorem init_after_failed_registration_witness:
  "dmaBuffer_init (sample_kernel\<lparr>pci_register_driver := (-16, None)\<rparr>) (sample_dev\<lparr>p_pci_dev := None\<rparr>) = Inl Null_Device"
  using init_after_failed_registration [of "sample_kernel\<lparr>pci_register_driver := (-16, None)\<rparr>" "-16" None
      "sample_dev\<lparr>p_pci_dev := None\<rparr>"
      "\<lparr>p_control_base = 0, p_card_ram_base = 0, k_control_base = 0, k_card_ram_base = 0, p_pci_dev = None,
        iomaps = [], rd_answers = [], bus = [], cdev_added = False, pci_registered = False, kcalls = []\<rparr>"]
  by (simp add: sample_kernel_def)

text \<open>\<open>drawLineTriangle.c\<close> reads the RAM size register before it maps the registers, so an
  open with no live mapping faults; the open of \<open>contactWithGraphicCard.c\<close> on the same device
  maps the registers and makes them accessible.\<close>

theorem first_open:
  assumes "\<not> live d" and "ioremap_nocache K (p_control_base d) \<noteq> 0"
  shows "draw_open K d = Inl (Wild_Access 0x20) \<and>
     (\<exists>d'. contact_open K d = (0, d') \<and> live d' \<and> bus d' = bus d)"
  using assms
  by (auto simp: draw_open_def contact_open_def K_READ_REG_def ioremap_as_def live_def Let_def)

theorem first_open_witness:
  "draw_open sample_kernel \<lparr>p_control_base = 0xF000, p_card_ram_base = 0, k_control_base = 0, k_card_ram_base = 0,
     p_pci_dev = Some 1, iomaps = [], rd_answers = [64], bus = [], cdev_added = True, pci_registered = True,
     kcalls = []\<rparr> = Inl (Wild_Access 0x20)"
  using first_open [of "\<lparr>p_control_base = 0xF000, p_card_ram_base = 0, k_control_base = 0, k_card_ram_base = 0,
     p_pci_dev = Some 1, iomaps = [], rd_answers = [64], bus = [], cdev_added = True, pci_registered = True,
     kcalls = []\<rparr>" sample_kernel]
  by (simp add: live_def sample_kernel_def DeviceRAM_def)

section \<open>The user programs\<close>



text \<open>The DMA test program, run with buffers of at least 1012 bytes at the addresses the driver
  hands out, stores only inside those buffers.\<close>

theorem dma_test_stays_in_buffers:
  assumes "\<forall>i \<le> 16. 1012 \<le> n i"
  shows "stores_within (map (\<lambda>i. (a i, n i)) [0..<17]) (dma_main a rnd)"
  by (rule dma_main_within [OF assms])

theorem dma_test_stays_in_buffers_witness:
  "stores_within (map (\<lambda>i. (of_nat (0x1000 * i), unat BUF_BYTES)) [0..<17]) (dma_main (\<lambda>i. of_nat (0x1000 * i)) (\<lambda>_ _. 0))"
  using dma_test_stays_in_buffers [of "\<lambda>_. unat BUF_BYTES"] by (simp add: BUF_BYTES_def)

text \<open>In the triangle test program every write of the emit register comes after all eight
  coordinate and colour registers have been written since the previous emit, whatever RAM size the
  card reports; and its stores to the frame buffer all lie in row 200 of the 1024-pixel frame.\<close>

theorem draw_test_emits_complete_vertices:
  "emits_complete [] (draw_main ram) \<and>
   (\<forall>e \<in> set (draw_main ram). case e of U_Frame i v \<Rightarrow> unat i div 1024 = 200 | _ \<Rightarrow> True)"
proof
  show "emits_complete [] (draw_main ram)"
    by (simp add: draw_main_def U_READ_REG_def del: upt_rec_numeral)
       (simp add: U_WRITE_REG_def reg_index_def reg_defs)
  have "unat (of_nat i :: u32) = i" if "i < 2 ^ 20" for i
    using that by (simp add: unat_of_nat)
  then have "unat (of_nat i :: u32) div 1024 = 200" if "200 * 1024 \<le> i" "i < 201 * 1024" for i
    using that by simp
  then show "\<forall>e \<in> set (draw_main ram). case e of U_Frame i v \<Rightarrow> unat i div 1024 = 200 | _ \<Rightarrow> True"
    by (auto simp: draw_main_def U_WRITE_REG_def U_READ_REG_def U_WRITE_REG_FB_def emit_vertex_def
        simp del: upt_rec_numeral)
qed

theorem draw_test_emits_complete_vertices_witness:
  "emits_complete [] (draw_main 64) \<and> \<not> emits_complete [] [U_WRITE_REG RasterEmit 0]"
  using draw_test_emits_complete_vertices [of 64]
  by (simp add: U_WRITE_REG_def vertex_regs_def)

end
