(* ===== verification/Session_Properties.thy ===== *)
theory Session_Properties
  imports Dma_Session Kyouko2_Properties
begin

text \<open>
  What the DMA test program gets from the driver and the card once BIND_DMA has returned. The
  schedules are the prompt ones; \<open>stall_is_reachable\<close> shows what a late wake-up does.
\<close>

section \<open>After BIND_DMA\<close>










section \<open>The properties\<close>





end
