(* ===== verification/Lock_Programs.thy ===== *)
theory Lock_Programs
  imports Kernel_Prelude
begin

text \<open>
  Code between \<open>spin_lock\<close> and \<open>spin_unlock\<close>, statement by statement: the program of a critical
  section is a tree of statements, tests and polling loops. \<open>pstep\<close> runs one statement, which is
  what another CPU can interleave with; \<open>runs\<close> is the whole section. The last part says when two
  states that differ in what a section does not look at stay so through every statement of it.
\<close>

section \<open>Programs\<close>

text \<open>\<open>Until b p\<close> repeats \<open>b\<close> until it answers true, and goes on with \<open>p\<close>.\<close>

datatype ('s, 'r) prog =
    Return 'r
  | Stmt "'s \<Rightarrow> fault + 's" "('s, 'r) prog"
  | Test "'s \<Rightarrow> bool" "('s, 'r) prog" "('s, 'r) prog"
  | Until "'s \<Rightarrow> fault + bool \<times> 's" "('s, 'r) prog"

inductive pstep :: "('s, 'r) prog \<Rightarrow> 's \<Rightarrow> ('s, 'r) prog \<Rightarrow> 's \<Rightarrow> bool" where
  stmt: "f s = Inr t \<Longrightarrow> pstep (Stmt f p) s p t"
| test: "pstep (Test b p q) s (if b s then p else q) s"
| stop: "b s = Inr (True, t) \<Longrightarrow> pstep (Until b p) s p t"
| again: "b s = Inr (False, t) \<Longrightarrow> pstep (Until b p) s (Until b p) t"

inductive psteps :: "('s, 'r) prog \<Rightarrow> 's \<Rightarrow> ('s, 'r) prog \<Rightarrow> 's \<Rightarrow> bool" where
  start: "psteps p s p s"
| extend: "psteps p s q t \<Longrightarrow> pstep q t r u \<Longrightarrow> psteps p s r u"

inductive runs :: "('s, 'r) prog \<Rightarrow> 's \<Rightarrow> 'r \<Rightarrow> 's \<Rightarrow> bool" where
  return: "runs (Return r) s r s"
| stmt: "f s = Inr t \<Longrightarrow> runs p t r u \<Longrightarrow> runs (Stmt f p) s r u"
| test: "runs (if b s then p else q) s r u \<Longrightarrow> runs (Test b p q) s r u"
| stop: "b s = Inr (True, t) \<Longrightarrow> runs p t r u \<Longrightarrow> runs (Until b p) s r u"
| again: "b s = Inr (False, t) \<Longrightarrow> runs (Until b p) t r u \<Longrightarrow> runs (Until b p) s r u"

inductive_simps pstep_simps [simp]:
  "pstep (Return r) s q t" "pstep (Stmt f p) s q t" "pstep (Test b p q) s r t"

inductive_simps runs_simps [simp]:
  "runs (Return r) s r' t" "runs (Stmt f p) s r t" "runs (Test b p q) s r t"

inductive_cases pstepE: "pstep p s q t"

lemma pstep_runs: "pstep p s q t \<Longrightarrow> runs q t r u \<Longrightarrow> runs p s r u"
  by (induction rule: pstep.induct) (auto intro: runs.intros)

lemma psteps_runs: "psteps p s q t \<Longrightarrow> runs q t r u \<Longrightarrow> runs p s r u"
  by (induction rule: psteps.induct) (auto intro: pstep_runs)

lemma psteps_step: "pstep p s q t \<Longrightarrow> psteps p s q t"
  by (auto intro: psteps.intros)

lemma psteps_trans: "psteps q t r u \<Longrightarrow> psteps p s q t \<Longrightarrow> psteps p s r u"
  by (induction rule: psteps.induct) (auto intro: psteps.extend)

lemma runs_psteps: "runs p s r u \<Longrightarrow> psteps p s (Return r) u"
proof (induction rule: runs.induct)
  case (return r s)
  show ?case by (rule psteps.start)
next
  case (stmt f s t p r u)
  then show ?case by (blast intro: psteps_trans psteps_step pstep.stmt)
next
  case (test b s p q r u)
  then show ?case by (blast intro: psteps_trans psteps_step pstep.test)
next
  case (stop b s t p r u)
  then show ?case by (blast intro: psteps_trans psteps_step pstep.stop)
next
  case (again b s t p r u)
  then show ?case by (blast intro: psteps_trans psteps_step pstep.again)
qed

text \<open>Statement by statement or as a whole: the same results.\<close>

theorem psteps_iff_runs: "psteps p s (Return r) u \<longleftrightarrow> runs p s r u"
  using psteps_runs [of p s "Return r" u] runs_psteps by (auto intro: runs.return)

section \<open>What every statement of a program keeps\<close>

text \<open>Every statement leads from a state to one related to it.\<close>

primrec moves_by :: "('s \<Rightarrow> 's \<Rightarrow> bool) \<Rightarrow> ('s, 'r) prog \<Rightarrow> bool" where
  "moves_by R (Return r) \<longleftrightarrow> True"
| "moves_by R (Stmt f p) \<longleftrightarrow> (\<forall>s t. f s = Inr t \<longrightarrow> R s t) \<and> moves_by R p"
| "moves_by R (Test b p q) \<longleftrightarrow> moves_by R p \<and> moves_by R q"
| "moves_by R (Until b p) \<longleftrightarrow> (\<forall>s x t. b s = Inr (x, t) \<longrightarrow> R s t) \<and> moves_by R p"

lemma moves_by_pstep:
  assumes "pstep p s q t" and "moves_by R p" and "\<And>s. R s s"
  shows "R s t \<and> moves_by R q"
  using assms by (induction rule: pstep.induct) auto

text \<open>Every statement does the same to two related states.\<close>

primrec agrees :: "('s \<Rightarrow> 's \<Rightarrow> bool) \<Rightarrow> ('s, 'r) prog \<Rightarrow> bool" where
  "agrees R (Return r) \<longleftrightarrow> True"
| "agrees R (Stmt f p) \<longleftrightarrow>
     (\<forall>s t s'. R s t \<longrightarrow> f s = Inr s' \<longrightarrow> (\<exists>t'. f t = Inr t' \<and> R s' t')) \<and> agrees R p"
| "agrees R (Test b p q) \<longleftrightarrow> (\<forall>s t. R s t \<longrightarrow> b s = b t) \<and> agrees R p \<and> agrees R q"
| "agrees R (Until b p) \<longleftrightarrow>
     (\<forall>s t x s'. R s t \<longrightarrow> b s = Inr (x, s') \<longrightarrow> (\<exists>t'. b t = Inr (x, t') \<and> R s' t')) \<and> agrees R p"

lemma agrees_pstep:
  assumes "pstep p s q s'" and "agrees R p" and "R s t"
  shows "\<exists>t'. pstep p t q t' \<and> R s' t' \<and> agrees R q"
  using assms
proof (induction rule: pstep.induct)
  case (stmt f s s' p)
  then obtain t' where "f t = Inr t'" "R s' t'" unfolding agrees.simps by blast
  with stmt show ?case by auto
next
  case (test b p q s)
  then show ?case by auto
next
  case (stop b s s' p)
  then obtain t' where "b t = Inr (True, t')" "R s' t'" unfolding agrees.simps by blast
  with stop show ?case by (auto intro: pstep.stop)
next
  case (again b s s' p)
  then obtain t' where "b t = Inr (False, t')" "R s' t'" unfolding agrees.simps by blast
  with again show ?case by (auto intro: pstep.again)
qed

lemma moves_by_psteps:
  assumes "psteps p s q t" and "moves_by R p" and "\<And>s. R s s"
  shows "moves_by R q"
  using assms by (induction rule: psteps.induct) (auto dest: moves_by_pstep)

lemma psteps_moves:
  assumes "psteps p s q t" and "moves_by R p" and "\<And>s. R s s" and "\<And>s t u. R s t \<Longrightarrow> R t u \<Longrightarrow> R s u"
  shows "R s t"
proof -
  have "R s t \<and> moves_by R q" using assms(1,2)
  proof (induction rule: psteps.induct)
    case (extend p s q t r u)
    with moves_by_pstep [OF extend.hyps(2)] assms(3,4) show ?case by blast
  qed (use assms(3) in blast)
  then show ?thesis ..
qed

lemma agrees_psteps:
  assumes "psteps p s q s'" and "agrees R p" and "R s t"
  shows "\<exists>t'. psteps p t q t' \<and> R s' t' \<and> agrees R q"
  using assms
proof (induction rule: psteps.induct)
  case (start p s)
  then show ?case by (blast intro: psteps.start)
next
  case (extend p s q s' r s'')
  then obtain t' where "psteps p t q t'" "R s' t'" "agrees R q" by blast
  moreover from agrees_pstep [OF extend.hyps(2) this(3,2)]
  obtain t'' where "pstep q t' r t''" "R s'' t''" "agrees R r" by blast
  ultimately show ?case by (blast intro: psteps.extend)
qed

text \<open>A statement run in a state that agrees with where the section has got to is one more of its statements.\<close>

lemma psteps_follow:
  assumes "psteps p0 s0 p e" and "R m e" and "pstep p m q m'"
    and "agrees R p0" and "\<And>s. R s s"
  shows "\<exists>e'. psteps p0 s0 q e' \<and> R m' e'"
proof -
  have "agrees R p" using agrees_psteps [OF assms(1,4,5)] by blast
  from agrees_pstep [OF assms(3) this assms(2)] obtain e' where "pstep p e q e'" "R m' e'" by blast
  with assms(1) show ?thesis by (blast intro: psteps.extend)
qed

end
