(* ===== verification/Dma_Threads.thy ===== *)
theory Dma_Threads
  imports Lock_Programs Dma_Runs
begin

text \<open>
  The ring of DMA buffers with several CPUs, one statement at a time. In \<open>Dma_Steps\<close> a critical
  section is one step; here the spinlock is a field, a section is a program of \<open>Lock_Programs\<close>, and
  between two statements of it any other CPU may run: other processes in \<open>initiateTransfer\<close>, the
  handler outside its section, the card. The theories behind this one show that with one process
  every such run is a run of \<open>Dma_Steps\<close>, and what two processes can do to the ring.
\<close>

section \<open>The sections as programs\<close>

definition set_isFull_fill :: "ring_dev \<Rightarrow> ring_dev" where
  "set_isFull_fill d = d\<lparr>dmaBuffer := (dmaBuffer d)[fill d := (dmaBuffer d ! fill d)\<lparr>isFull := 1\<rparr>]\<rparr>"

definition set_count_fill :: "u32 \<Rightarrow> ring_dev \<Rightarrow> ring_dev" where
  "set_count_fill n d = d\<lparr>dmaBuffer := (dmaBuffer d)[fill d := (dmaBuffer d ! fill d)\<lparr>count := n\<rparr>]\<rparr>"

definition clear_isFull_drain :: "ring_dev \<Rightarrow> ring_dev" where
  "clear_isFull_drain d = d\<lparr>dmaBuffer := (dmaBuffer d)[drain d := (dmaBuffer d ! drain d)\<lparr>isFull := 0\<rparr>]\<rparr>"

definition advance_drain :: "nat \<Rightarrow> ring_dev \<Rightarrow> ring_dev" where
  "advance_drain N d = d\<lparr>drain := ring_next N (drain d)\<rparr>"

text \<open>One register access per statement; a transfer starts with the second of the two writes.\<close>

definition write_address :: "dma_cfg \<Rightarrow> nat \<Rightarrow> ring_dev \<Rightarrow> fault + ring_dev" where
  "write_address c i d = K_WRITE_REG (reg_address c) (ucast (dma_handle d ! i)) d"

definition poll_fifo :: "dma_cfg \<Rightarrow> ring_dev \<Rightarrow> fault + bool \<times> ring_dev" where
  "poll_fifo c d = (case K_READ_REG (reg_fifo c) d of Inl e \<Rightarrow> Inl e | Inr (v, d') \<Rightarrow> Inr (\<not> v > 0, d'))"

text \<open>\<open>initiateTransfer\<close> from \<open>spin_lock_irqsave\<close> to the unlock; it returns whether it goes to sleep.\<close>

definition transfer_prog :: "dma_cfg \<Rightarrow> u32 \<Rightarrow> (ring_dev, bool) prog" where
  "transfer_prog c n =
     Test (\<lambda>d. fill d = drain d)
       (Test (\<lambda>d. isFull (dmaBuffer d ! fill d) = 1)
          (Return True)
          (Stmt (Inr \<circ> set_isFull_fill)
          (Stmt (Inr \<circ> set_count_fill n)
          (Stmt (\<lambda>d. write_address c (fill d) d)
          (Stmt (K_WRITE_REG (reg_config c) n)
          (Stmt (Inr \<circ> advance_fill (nbuf c))
          (Return False)))))))
       (Stmt (Inr \<circ> set_count_fill n)
       (Stmt (Inr \<circ> set_isFull_fill)
       (Stmt (Inr \<circ> advance_fill (nbuf c))
       (Return False))))"

text \<open>The second section of \<open>initiateTransfer\<close>, after the sleep.\<close>

definition resume_prog :: "dma_cfg \<Rightarrow> u32 \<Rightarrow> (ring_dev, unit) prog" where
  "resume_prog c n =
     Stmt (Inr \<circ> set_isFull_fill)
    (Stmt (Inr \<circ> set_count_fill n)
    (Stmt (Inr \<circ> advance_fill (nbuf c))
    (Return ())))"

text \<open>\<open>dma_interrupt\<close> from the lock to the unlock; it returns whether it wakes the sleepers.\<close>

definition kick_prog :: "dma_cfg \<Rightarrow> bool \<Rightarrow> (ring_dev, bool) prog" where
  "kick_prog c r =
     Stmt (\<lambda>d. write_address c (drain d) d)
    (Stmt (\<lambda>d. K_WRITE_REG (reg_config c) (count (dmaBuffer d ! drain d)) d)
    (Return r))"

definition irq_prog :: "dma_cfg \<Rightarrow> (ring_dev, bool) prog" where
  "irq_prog c =
     Test (\<lambda>d. fill d = drain d)
       (Test (\<lambda>d. isFull (dmaBuffer d ! fill d) = 1)
          (Stmt (Inr \<circ> clear_isFull_drain)
          (Stmt (Inr \<circ> advance_drain (nbuf c))
          (kick_prog c True)))
          (Return False))
       (Stmt (Inr \<circ> clear_isFull_drain)
       (Stmt (Inr \<circ> advance_drain (nbuf c))
       (Test (\<lambda>d. fill d \<noteq> drain d)
          (Until (poll_fifo c) (kick_prog c False))
          (Return False))))"

section \<open>As a whole they are the functions of the ring\<close>

lemma update_read [simp]: "xs[i := g ((xs[i := a]) ! i)] = xs[i := g a]"
  by (cases "i < length xs") (auto simp: list_update_beyond)

lemma full_and_count: "b\<lparr>count := n, isFull := v\<rparr> = b\<lparr>isFull := v, count := n\<rparr>" for b :: dma_Buffer
  by simp

lemma set_both:
  "set_count_fill n (set_isFull_fill d) = mark_full n d"
  "set_isFull_fill (set_count_fill n d) = mark_full n d"
  by (simp_all add: set_count_fill_def set_isFull_fill_def mark_full_def
      update_read [of _ _ "count_update (\<lambda>_. n)"] update_read [of _ _ "isFull_update (\<lambda>_. 1)"] full_and_count)

lemma clear_advance: "advance_drain N (clear_isFull_drain d) = retire N d"
  by (simp add: advance_drain_def clear_isFull_drain_def retire_def)

lemma poll_zero_step:
  "poll_zero reg d = Inr e \<longleftrightarrow>
     (\<exists>v d1. K_READ_REG reg d = Inr (v, d1) \<and> (if v > 0 then poll_zero reg d1 = Inr e else d1 = e))"
  by (subst poll_zero.simps) (auto split: sum.splits)

lemma poll_fifo_eq:
  "poll_fifo c d = Inr (x, d1) \<longleftrightarrow> (\<exists>v. K_READ_REG (reg_fifo c) d = Inr (v, d1) \<and> x = (\<not> v > 0))"
  by (auto simp: poll_fifo_def split: sum.splits)

lemma poll_runs:
  assumes "runs (Until (poll_fifo c) p) d r d'"
  shows "\<exists>e. poll_zero (reg_fifo c) d = Inr e \<and> runs p e r d'"
  using assms
proof (induction "Until (poll_fifo c) p" d r d' rule: runs.induct)
  case (stop d e r d')
  then show ?case unfolding poll_fifo_eq poll_zero_step [of _ d] by auto
next
  case (again d e r d')
  then show ?case unfolding poll_fifo_eq poll_zero_step [of _ d] by auto
qed

lemma poll_runs_back:
  assumes "poll_zero (reg_fifo c) d = Inr e" and "runs p e r d'"
  shows "runs (Until (poll_fifo c) p) d r d'"
  using assms
proof (induction "length (rd_answers d)" arbitrary: d)
  case 0
  then show ?case by (auto simp: poll_zero_step [of _ d] K_READ_REG_def split: if_splits)
next
  case (Suc k)
  then obtain v d1 where k: "K_READ_REG (reg_fifo c) d = Inr (v, d1)"
    and e: "if v > 0 then poll_zero (reg_fifo c) d1 = Inr e else d1 = e" unfolding poll_zero_step [of _ d] by blast
  have len: "k = length (rd_answers d1)"
    using k Suc.hyps(2) by (auto simp: K_READ_REG_def split: if_splits list.splits)
  show ?case
  proof (cases "v > 0")
    case True
    with e have "runs (Until (poll_fifo c) p) d1 r d'" using Suc.hyps(1) [OF len] Suc.prems(2) by simp
    moreover have "poll_fifo c d = Inr (False, d1)" using k True unfolding poll_fifo_eq by blast
    ultimately show ?thesis by (rule runs.again [rotated])
  next
    case False
    with e Suc.prems(2) have "runs p d1 r d'" by simp
    moreover have "poll_fifo c d = Inr (True, d1)" using k False unfolding poll_fifo_eq by blast
    ultimately show ?thesis by (rule runs.stop [rotated])
  qed
qed

lemma address_after_mark [simp]: "dma_handle (mark_full n d) = dma_handle d" "fill (mark_full n d) = fill d"
  by (simp_all add: mark_full_def)

theorem transfer_prog_runs:
  assumes "n \<noteq> 0"
  shows "runs (transfer_prog c n) d b d' \<longleftrightarrow> initiateTransfer c n d = Inr (b, d')"
proof (cases "fill d = drain d \<and> isFull (dmaBuffer d ! fill d) \<noteq> 1")
  case True
  then show ?thesis using assms
    by (auto simp: transfer_prog_def initiateTransfer_def set_both kick_def write_address_def K_WRITE_REG_def)
next
  case False
  then show ?thesis using assms
    by (auto simp: transfer_prog_def initiateTransfer_def set_both queue_request_def)
qed

theorem resume_prog_runs: "runs (resume_prog c n) d u d' \<longleftrightarrow> d' = initiateTransfer_resume c n d"
  by (auto simp: resume_prog_def initiateTransfer_resume_def queue_request_def set_both)

lemma read_keeps:
  "K_READ_REG reg d = Inr (v, d1) \<Longrightarrow> drain d1 = drain d \<and> dma_handle d1 = dma_handle d \<and> dmaBuffer d1 = dmaBuffer d"
  by (auto simp: K_READ_REG_def split: if_splits list.splits)

lemma poll_keeps:
  assumes "poll_zero reg d = Inr e"
  shows "drain e = drain d \<and> dma_handle e = dma_handle d \<and> dmaBuffer e = dmaBuffer d"
  using assms
proof (induction "length (rd_answers d)" arbitrary: d)
  case 0
  then show ?case by (auto simp: poll_zero_step [of _ d] K_READ_REG_def split: if_splits)
next
  case (Suc k)
  then obtain v d1 where k: "K_READ_REG reg d = Inr (v, d1)"
    and e: "if v > 0 then poll_zero reg d1 = Inr e else d1 = e" unfolding poll_zero_step [of _ d] by blast
  have "k = length (rd_answers d1)"
    using k Suc.hyps(2) by (auto simp: K_READ_REG_def split: if_splits list.splits)
  from Suc.hyps(1) [OF this] read_keeps [OF k] e show ?case by (auto split: if_splits)
qed

lemma poll_runs_iff:
  "runs (Until (poll_fifo c) p) d r d' \<longleftrightarrow>
     (case poll_zero (reg_fifo c) d of Inl e \<Rightarrow> False | Inr e \<Rightarrow> runs p e r d')"
  using poll_runs [of c p d r d'] poll_runs_back [of c d _ p r d'] by (auto split: sum.splits)

lemma kick_runs:
  "runs (kick_prog c r) d w d' \<longleftrightarrow>
   w = r \<and> kick c (dma_handle d ! drain d) (count (dmaBuffer d ! drain d)) d = Inr d'"
  by (auto simp: kick_prog_def kick_def write_address_def K_WRITE_REG_def split: if_splits)

theorem irq_prog_runs: "runs (irq_prog c) d w d' \<longleftrightarrow> irq_critical c d = Inr (w, d')"
  by (auto simp: irq_prog_def irq_critical_def Let_def clear_advance kick_runs poll_runs_iff poll_keeps
      split: sum.splits)

section \<open>Several CPUs\<close>

text \<open>
  A process in \<open>initiateTransfer\<close>: before the lock, inside, in the two tests of
  \<open>wait_event_interruptible\<close> (made again whenever the process is woken), before the second lock,
  inside again. The handler: started, status read, status acknowledged, inside. Holding the lock
  masks the interrupts of one CPU only, so the handler may run beside the sections of a process.
\<close>

datatype proc_state =
    P_Idle | P_Enter u32 | P_In u32 "(ring_dev, bool) prog"
  | P_Check u32 | P_Check_Full u32 | P_Again u32 | P_Back u32 dma_label "(ring_dev, unit) prog"

datatype irq_state = H_Idle | H_Read | H_Ack u32 | H_Enter | H_In "(ring_dev, bool) prog"

datatype holder = Process nat | Handler

record threads =
  mem :: ring_dev
  held :: "holder option"
  proc :: "nat \<Rightarrow> proc_state"
  hand :: irq_state
  finished :: nat

definition started :: "dma_cfg \<Rightarrow> threads \<Rightarrow> (u32 \<times> u32) list" where
  "started c s = drop (finished s) (kicks c 0 (bus (mem s)))"

text \<open>
  The steps for a set \<open>P\<close> of processes, with signals when \<open>sig\<close>. A section ends with the label of
  the step of \<open>Dma_Steps\<close> that has its effect; the other steps have no label. When a process takes
  the lock again it queues its request whatever the ring looks like by then: the label is that of a
  wake-up if there is room, and of an interrupted sleep otherwise. The card reports a finished
  transfer only when it has one.
\<close>

inductive tstep :: "dma_cfg \<Rightarrow> nat set \<Rightarrow> bool \<Rightarrow> threads \<Rightarrow> dma_label option \<Rightarrow> threads \<Rightarrow> bool"
  for c P sig where
  call: "i \<in> P \<Longrightarrow> proc s i = P_Idle \<Longrightarrow> n \<noteq> 0 \<Longrightarrow>
     tstep c P sig s None (s\<lparr>proc := (proc s)(i := P_Enter n)\<rparr>)"
| enter: "i \<in> P \<Longrightarrow> proc s i = P_Enter n \<Longrightarrow> held s = None \<Longrightarrow>
     tstep c P sig s None (s\<lparr>held := Some (Process i), proc := (proc s)(i := P_In n (transfer_prog c n))\<rparr>)"
| inside: "i \<in> P \<Longrightarrow> proc s i = P_In n p \<Longrightarrow> pstep p (mem s) q m \<Longrightarrow>
     tstep c P sig s None (s\<lparr>mem := m, proc := (proc s)(i := P_In n q)\<rparr>)"
| leave: "i \<in> P \<Longrightarrow> proc s i = P_In n (Return b) \<Longrightarrow>
     tstep c P sig s (Some (if b then Sleep n else Submit n))
       (s\<lparr>held := None, proc := (proc s)(i := if b then P_Check n else P_Idle)\<rparr>)"
| check: "i \<in> P \<Longrightarrow> proc s i = P_Check n \<Longrightarrow>
     tstep c P sig s None
       (s\<lparr>proc := (proc s)(i := if fill (mem s) \<noteq> drain (mem s) then P_Again n else P_Check_Full n)\<rparr>)"
| check_full: "i \<in> P \<Longrightarrow> proc s i = P_Check_Full n \<Longrightarrow>
     tstep c P sig s None
       (s\<lparr>proc := (proc s)(i := if isFull (dmaBuffer (mem s) ! fill (mem s)) = 0 then P_Again n else P_Check n)\<rparr>)"
| signal: "i \<in> P \<Longrightarrow> sig \<Longrightarrow> proc s i = P_Check n \<Longrightarrow>
     tstep c P sig s None (s\<lparr>proc := (proc s)(i := P_Again n)\<rparr>)"
| again: "i \<in> P \<Longrightarrow> proc s i = P_Again n \<Longrightarrow> held s = None \<Longrightarrow>
     tstep c P sig s None (s\<lparr>held := Some (Process i),
       proc := (proc s)(i := P_Back n (if wait_condition (mem s) then Wake else Interrupted) (resume_prog c n))\<rparr>)"
| inside_again: "i \<in> P \<Longrightarrow> proc s i = P_Back n l p \<Longrightarrow> pstep p (mem s) q m \<Longrightarrow>
     tstep c P sig s None (s\<lparr>mem := m, proc := (proc s)(i := P_Back n l q)\<rparr>)"
| leave_again: "i \<in> P \<Longrightarrow> proc s i = P_Back n l (Return ()) \<Longrightarrow>
     tstep c P sig s (Some l) (s\<lparr>held := None, proc := (proc s)(i := P_Idle)\<rparr>)"
| raised: "hand s = H_Idle \<Longrightarrow> as \<noteq> [] \<Longrightarrow> (hd as AND flushed_bit c \<noteq> 0 \<Longrightarrow> started c s \<noteq> []) \<Longrightarrow>
     tstep c P sig s None (s\<lparr>mem := (mem s)\<lparr>rd_answers := as\<rparr>, hand := H_Read\<rparr>)"
| read: "hand s = H_Read \<Longrightarrow> K_READ_REG (reg_status c) (mem s) = Inr (f, m) \<Longrightarrow>
     tstep c P sig s None (s\<lparr>mem := m, hand := H_Ack f\<rparr>)"
| ack: "hand s = H_Ack f \<Longrightarrow> K_WRITE_REG (reg_status c) 0xFFFFFFFF (mem s) = Inr m \<Longrightarrow>
     tstep c P sig s (if f AND flushed_bit c = 0 then Some Spurious else None)
       (s\<lparr>mem := m, hand := if f AND flushed_bit c = 0 then H_Idle else H_Enter\<rparr>)"
| irq_enter: "hand s = H_Enter \<Longrightarrow> held s = None \<Longrightarrow>
     tstep c P sig s None (s\<lparr>held := Some Handler, hand := H_In (irq_prog c)\<rparr>)"
| irq_inside: "hand s = H_In p \<Longrightarrow> pstep p (mem s) q m \<Longrightarrow>
     tstep c P sig s None (s\<lparr>mem := m, hand := H_In q\<rparr>)"
| irq_leave: "hand s = H_In (Return w) \<Longrightarrow>
     tstep c P sig s (Some Irq) (s\<lparr>held := None, hand := H_Idle, finished := Suc (finished s)\<rparr>)"

text \<open>The labels of a run, in the order in which the sections end.\<close>

inductive trun :: "dma_cfg \<Rightarrow> nat set \<Rightarrow> bool \<Rightarrow> threads \<Rightarrow> dma_label list \<Rightarrow> threads \<Rightarrow> bool"
  for c P sig where
  nil: "trun c P sig s [] s"
| snoc: "trun c P sig s ls t \<Longrightarrow> tstep c P sig t l u \<Longrightarrow>
     trun c P sig s (ls @ (case l of None \<Rightarrow> [] | Some k \<Rightarrow> [k])) u"

text \<open>Nobody is in the driver.\<close>

definition at_rest :: "ring_dev \<Rightarrow> nat \<Rightarrow> threads" where
  "at_rest d k = \<lparr>mem = d, held = None, proc = (\<lambda>_. P_Idle), hand = H_Idle, finished = k\<rparr>"

end
