(* ===== verification/Dma_Simulation.thy ===== *)
theory Dma_Simulation
  imports Dma_Threads
begin

text \<open>
  One process, the handler and the card, statement by statement, against the steps of \<open>Dma_Steps\<close>:
  a simulation. While the lock is held the coarse system stands still, and the memory is what the
  statements run so far make of it; the section takes effect when it ends. The accesses to the status
  register, which the handler makes without the lock, may fall between the two writes that start a
  transfer: states are compared up to them.
\<close>

section \<open>States that agree but for the status register\<close>

fun bus_index :: "bus_event \<Rightarrow> u32" where
  "bus_index (Wr i v) = i"
| "bus_index (Rd i v) = i"

definition core :: "dma_cfg \<Rightarrow> bus_event list \<Rightarrow> bus_event list" where
  "core c es = filter (\<lambda>e. bus_index e \<noteq> reg_index (reg_status c)) es"

definition same :: "dma_cfg \<Rightarrow> ring_dev \<Rightarrow> ring_dev \<Rightarrow> bool" where
  "same c d e \<longleftrightarrow> (\<exists>b as. d = e\<lparr>bus := b, rd_answers := as\<rparr> \<and> core c b = core c (bus e))"

definition same_answers :: "dma_cfg \<Rightarrow> ring_dev \<Rightarrow> ring_dev \<Rightarrow> bool" where
  "same_answers c d e \<longleftrightarrow> (\<exists>b. d = e\<lparr>bus := b\<rparr> \<and> core c b = core c (bus e))"

lemma core_append [simp]: "core c (xs @ ys) = core c xs @ core c ys"
  by (simp add: core_def)

lemma core_status [simp]:
  "core c [Rd (reg_index (reg_status c)) v] = []" "core c [Wr (reg_index (reg_status c)) v] = []"
  "core c [Rd (reg_index (reg_status c)) v, Wr (reg_index (reg_status c)) w] = []"
  by (simp_all add: core_def)

lemma kicks_core:
  assumes "cfg_ok c"
  shows "kicks c a (core c es) = kicks c a es"
proof (induction es arbitrary: a)
  case (Cons e es)
  then show ?case using assms by (cases e) (auto simp: core_def cfg_ok_def)
qed (simp add: core_def)

lemma same_refl [simp]: "same c d d"
  unfolding same_def by (intro exI [of _ "bus d"] exI [of _ "rd_answers d"]) simp

lemma same_sym: "same c d e \<Longrightarrow> same c e d"
  unfolding same_def by (auto intro!: exI [of _ "bus e"] exI [of _ "rd_answers e"])

lemma same_trans: "same c d e \<Longrightarrow> same c e f \<Longrightarrow> same c d f"
  unfolding same_def by fastforce

lemma same_weaken: "same_answers c d e \<Longrightarrow> same c d e"
  unfolding same_def same_answers_def by (auto intro!: exI [of _ "rd_answers e"])

lemma same_fields:
  assumes "same c d e"
  shows "fill d = fill e" "drain d = drain e" "dmaBuffer d = dmaBuffer e" "dma_handle d = dma_handle e"
    "live d = live e" "wait_condition d = wait_condition e" "requests N d = requests N e" "occ N d = occ N e"
    "ring_inv N d = ring_inv N e" "core c (bus d) = core c (bus e)"
  using assms by (auto simp: same_def live_def wait_condition_def)

lemma same_kicks: "cfg_ok c \<Longrightarrow> same c d e \<Longrightarrow> kicks c a (bus d) = kicks c a (bus e)"
  using same_fields(10) kicks_core by metis

lemma sameE:
  assumes "same c d e"
  obtains b as where "d = e\<lparr>bus := b, rd_answers := as\<rparr>" and "core c b = core c (bus e)"
  using assms by (auto simp: same_def)

lemma sameI: "d = e\<lparr>bus := b, rd_answers := as\<rparr> \<Longrightarrow> core c b = core c (bus e) \<Longrightarrow> same c d e"
  by (auto simp: same_def)

lemma same_answersE:
  assumes "same_answers c d e"
  obtains b where "d = e\<lparr>bus := b\<rparr>" and "core c b = core c (bus e)"
  using assms by (auto simp: same_answers_def)

lemma same_answersI: "d = e\<lparr>bus := b\<rparr> \<Longrightarrow> core c b = core c (bus e) \<Longrightarrow> same_answers c d e"
  by (auto simp: same_answers_def)

lemma same_io:
  "core c b = [] \<Longrightarrow> same c (d\<lparr>bus := bus d @ b\<rparr>) d"
  "same c (d\<lparr>rd_answers := as\<rparr>) d"
  by (rule sameI [where b = "bus d @ b" and as = "rd_answers d"]; simp)
     (rule sameI [where b = "bus d" and as = as]; simp)

section \<open>The statements of the sections respect the agreement\<close>

lemma same_write:
  assumes "same c s t" and "K_WRITE_REG r v s = Inr s'"
  shows "\<exists>t'. K_WRITE_REG r v t = Inr t' \<and> same c s' t'"
  using assms(1)
proof (rule sameE)
  fix b as
  assume s: "s = t\<lparr>bus := b, rd_answers := as\<rparr>" and b: "core c b = core c (bus t)"
  let ?t = "t\<lparr>bus := bus t @ [Wr (reg_index r) v]\<rparr>"
  have "live s" "s' = s\<lparr>bus := bus s @ [Wr (reg_index r) v]\<rparr>"
    using assms(2) by (auto simp: K_WRITE_REG_def split: if_splits)
  with s b have "live t" "same c s' ?t"
    by (auto intro: sameI [where b = "b @ [Wr (reg_index r) v]" and as = as])
  then show ?thesis by (simp add: K_WRITE_REG_def)
qed

lemma same_answers_write:
  assumes "same_answers c s t" and "K_WRITE_REG r v s = Inr s'"
  shows "\<exists>t'. K_WRITE_REG r v t = Inr t' \<and> same_answers c s' t'"
  using assms(1)
proof (rule same_answersE)
  fix b
  assume s: "s = t\<lparr>bus := b\<rparr>" and b: "core c b = core c (bus t)"
  let ?t = "t\<lparr>bus := bus t @ [Wr (reg_index r) v]\<rparr>"
  have "live s" "s' = s\<lparr>bus := bus s @ [Wr (reg_index r) v]\<rparr>"
    using assms(2) by (auto simp: K_WRITE_REG_def split: if_splits)
  with s b have "live t" "same_answers c s' ?t"
    by (auto intro: same_answersI [where b = "b @ [Wr (reg_index r) v]"])
  then show ?thesis by (simp add: K_WRITE_REG_def)
qed

lemma same_update:
  assumes "same c s t"
  shows "same c (set_isFull_fill s) (set_isFull_fill t)" "same c (set_count_fill n s) (set_count_fill n t)"
    "same c (advance_fill N s) (advance_fill N t)"
  using assms
  by (auto elim!: sameE intro!: sameI [where b = "bus s" and as = "rd_answers s"]
      simp: set_isFull_fill_def set_count_fill_def advance_fill_def)

lemma same_answers_update:
  assumes "same_answers c s t"
  shows "same_answers c (clear_isFull_drain s) (clear_isFull_drain t)"
    "same_answers c (advance_drain N s) (advance_drain N t)"
  using assms by (auto elim!: same_answersE intro!: same_answersI [where b = "bus s"] simp: clear_isFull_drain_def advance_drain_def)

lemma same_answers_poll:
  assumes "same_answers c s t" and "poll_fifo c s = Inr (x, s')"
  shows "\<exists>t'. poll_fifo c t = Inr (x, t') \<and> same_answers c s' t'"
  using assms unfolding same_answers_def poll_fifo_def K_READ_REG_def
  by (auto split: if_splits list.splits sum.splits intro!: exI)

lemma sections_agree:
  "agrees (same c) (transfer_prog c n)" "agrees (same c) (resume_prog c n)"
  "agrees (same_answers c) (irq_prog c)"
proof -
  have f: "fill s = fill t" "drain s = drain t" "dmaBuffer s = dmaBuffer t" "dma_handle s = dma_handle t"
    if "same_answers c s t" for s t using same_fields [OF same_weaken [OF that]] by simp_all
  show "agrees (same c) (transfer_prog c n)" "agrees (same c) (resume_prog c n)"
    by (auto simp: transfer_prog_def resume_prog_def write_address_def same_fields [of c] same_update dest: same_write)
  show "agrees (same_answers c) (irq_prog c)"
    by (auto simp: irq_prog_def kick_prog_def write_address_def f same_answers_update
        dest: same_answers_write same_answers_poll)
qed

text \<open>The bus log only grows, the mapping stays, and a process does not use up answers.\<close>

definition grows :: "ring_dev \<Rightarrow> ring_dev \<Rightarrow> bool" where
  "grows d e \<longleftrightarrow> live e = live d \<and> rd_answers e = rd_answers d \<and> (\<exists>es. bus e = bus d @ es)"

lemma grows_refl: "grows d d"
  by (simp add: grows_def)

lemma grows_trans: "grows d e \<Longrightarrow> grows e f \<Longrightarrow> grows d f"
  by (auto simp: grows_def)

lemma write_grows: "K_WRITE_REG r v d = Inr e \<Longrightarrow> grows d e"
  by (auto simp: K_WRITE_REG_def grows_def split: if_splits)

lemma sections_grow: "moves_by grows (transfer_prog c n)" "moves_by grows (resume_prog c n)"
  by (auto simp: transfer_prog_def resume_prog_def write_address_def set_isFull_fill_def set_count_fill_def
      advance_fill_def dest!: write_grows) (auto simp: grows_def live_def)

lemma kicks_extend: "\<exists>ks. kicks c a (xs @ ys) = kicks c a xs @ ks"
proof (induction xs arbitrary: a)
  case (Cons e xs)
  then show ?case by (cases e) auto
qed simp

lemma grows_started:
  assumes "grows d e" and "drop k (kicks c 0 (bus d)) \<noteq> []"
  shows "drop k (kicks c 0 (bus e)) \<noteq> []"
proof -
  obtain es where "bus e = bus d @ es" using assms(1) by (auto simp: grows_def)
  with kicks_extend [of c 0 "bus d" es] assms(2) show ?thesis by auto
qed

definition live_kept :: "ring_dev \<Rightarrow> ring_dev \<Rightarrow> bool" where
  "live_kept d e \<longleftrightarrow> live e = live d"

lemma irq_live: "moves_by live_kept (irq_prog c)"
  by (auto simp: irq_prog_def kick_prog_def live_kept_def write_address_def poll_fifo_def K_WRITE_REG_def K_READ_REG_def
      clear_isFull_drain_def advance_drain_def live_def split: if_splits list.splits sum.splits)

lemma initiateTransfer_live:
  assumes "initiateTransfer c n d = Inr (b, e)"
  shows "live e = live d"
proof (cases "n = 0")
  case True
  with assms show ?thesis by (simp add: initiateTransfer_def)
next
  case False
  then have "psteps (transfer_prog c n) d (Return b) e"
    using assms by (simp add: psteps_iff_runs transfer_prog_runs)
  from psteps_moves [OF this sections_grow(1) grows_refl grows_trans] show ?thesis by (simp add: grows_def)
qed

section \<open>The simulation\<close>

text \<open>Who sleeps in the coarse system, and the device once the handler has acknowledged a finished transfer.\<close>

fun waiting :: "proc_state \<Rightarrow> u32 option" where
  "waiting (P_Check n) = Some n"
| "waiting (P_Check_Full n) = Some n"
| "waiting (P_Again n) = Some n"
| "waiting (P_Back n l p) = Some n"
| "waiting _ = None"

definition acked :: "dma_cfg \<Rightarrow> u32 list \<Rightarrow> ring_dev \<Rightarrow> ring_dev" where
  "acked c as d = d\<lparr>rd_answers := as, bus := bus d @
     [Rd (reg_index (reg_status c)) (flushed_bit c), Wr (reg_index (reg_status c)) 0xFFFFFFFF]\<rparr>"

text \<open>What the position of the process and of the handler says of the coarse state \<open>s\<close> and the memory \<open>m\<close>.\<close>

fun proc_ok :: "dma_cfg \<Rightarrow> nat \<Rightarrow> dma_sys \<Rightarrow> holder option \<Rightarrow> ring_dev \<Rightarrow> proc_state \<Rightarrow> bool" where
  "proc_ok c i s h m (P_Enter n) \<longleftrightarrow> h \<noteq> Some (Process i) \<and> n \<noteq> 0"
| "proc_ok c i s h m (P_In n p) \<longleftrightarrow> h = Some (Process i) \<and> n \<noteq> 0 \<and>
     (\<exists>e. psteps (transfer_prog c n) (dev s) p e \<and> same c m e)"
| "proc_ok c i s h m (P_Back n l p) \<longleftrightarrow> h = Some (Process i) \<and>
     l = (if wait_condition (dev s) then Wake else Interrupted) \<and>
     (\<exists>e. psteps (resume_prog c n) (dev s) p e \<and> same c m e)"
| "proc_ok c i s h m _ \<longleftrightarrow> h \<noteq> Some (Process i)"

fun hand_ok :: "dma_cfg \<Rightarrow> dma_sys \<Rightarrow> holder option \<Rightarrow> ring_dev \<Rightarrow> irq_state \<Rightarrow> bool" where
  "hand_ok c s h m H_Idle \<longleftrightarrow> h \<noteq> Some Handler"
| "hand_ok c s h m H_Read \<longleftrightarrow> h \<noteq> Some Handler \<and>
     (rd_answers m \<noteq> [] \<longrightarrow> hd (rd_answers m) AND flushed_bit c \<noteq> 0 \<longrightarrow> drop (served s) (kicks c 0 (bus m)) \<noteq> [])"
| "hand_ok c s h m (H_Ack f) \<longleftrightarrow> h \<noteq> Some Handler \<and>
     (f AND flushed_bit c \<noteq> 0 \<longrightarrow> drop (served s) (kicks c 0 (bus m)) \<noteq> [])"
| "hand_ok c s h m H_Enter \<longleftrightarrow> h \<noteq> Some Handler \<and> drop (served s) (kicks c 0 (bus m)) \<noteq> []"
| "hand_ok c s h m (H_In p) \<longleftrightarrow> h = Some Handler \<and> in_flight c s \<noteq> [] \<and>
     (\<exists>as e. psteps (irq_prog c) (acked c as (dev s)) p e \<and> same_answers c m e)"

definition sim :: "dma_cfg \<Rightarrow> nat \<Rightarrow> dma_sys \<Rightarrow> threads \<Rightarrow> bool" where
  "sim c i s x \<longleftrightarrow> live (dev s) \<and> finished x = served s \<and> sleeper s = waiting (proc x i) \<and>
     (held x = None \<longrightarrow> same c (mem x) (dev s)) \<and> held x \<in> {None, Some Handler, Some (Process i)} \<and>
     proc_ok c i s (held x) (mem x) (proc x i) \<and> hand_ok c s (held x) (mem x) (hand x)"

lemma hand_ok_grows:
  assumes "hand_ok c s h m x" and "grows m m'" and "h \<noteq> Some Handler" and "h' \<noteq> Some Handler"
  shows "hand_ok c s h' m' x"
  using assms grows_started [OF assms(2)] by (cases x) (auto simp: grows_def)

lemma hand_ok_waits:
  assumes "hand_ok c s h m x" and "h \<noteq> Some Handler"
  shows "hand_ok c (s\<lparr>sleeper := w\<rparr>) h m x" "same c d (dev s) \<Longrightarrow> hand_ok c (s\<lparr>dev := d, sleeper := w\<rparr>) h m x"
  using assms by (cases x; auto)+

text \<open>What the handler does outside its section leaves the simulation alone.\<close>

lemma proc_ok_same:
  assumes "proc_ok c i s h m x" and "same c m' m"
  shows "proc_ok c i s h m' x"
  using assms by (cases x) (auto dest: same_trans)

lemma psteps_move:
  assumes "psteps p0 d p e" and "same c m e" and "agrees (same c) p0" and "same c d' d"
  shows "\<exists>e'. psteps p0 d' p e' \<and> same c m e'"
proof -
  obtain e' where "psteps p0 d' p e'" "same c e e'"
    using agrees_psteps [OF assms(1,3) same_sym [OF assms(4)]] by blast
  with same_trans [OF assms(2)] show ?thesis by blast
qed

lemma proc_ok_dev:
  assumes "proc_ok c i s h m x" and d: "same c d (dev s)"
  shows "proc_ok c i (s\<lparr>dev := d\<rparr>) h m x"
proof (cases x)
  case (P_In n p)
  with assms(1) obtain e where "psteps (transfer_prog c n) (dev s) p e" "same c m e" by auto
  from psteps_move [OF this sections_agree(1) d] have "\<exists>e'. psteps (transfer_prog c n) d p e' \<and> same c m e'" .
  with assms(1) P_In show ?thesis by simp
next
  case (P_Back n l p)
  with assms(1) obtain e where "psteps (resume_prog c n) (dev s) p e" "same c m e" by auto
  from psteps_move [OF this sections_agree(2) d] have "\<exists>e'. psteps (resume_prog c n) d p e' \<and> same c m e'" .
  with assms(1) P_Back same_fields(6) [OF d] show ?thesis by simp
qed (use assms(1) in auto)

lemma sim_handler:
  assumes "sim c i s x" and "same c m (mem x)" and "held x \<noteq> Some Handler" and "hand_ok c s (held x) m h"
  shows "sim c i s (x\<lparr>mem := m, hand := h\<rparr>)"
  using assms by (auto simp: sim_def dest: same_trans proc_ok_same)

lemma sim_dev:
  assumes "sim c i s x" and "same c d (dev s)" and "held x \<noteq> Some Handler"
  shows "sim c i (s\<lparr>dev := d\<rparr>) x"
proof -
  have "hand_ok c (s\<lparr>dev := d\<rparr>) (held x) (mem x) (hand x)"
    using hand_ok_waits(2) [of c s "held x" "mem x" "hand x" d "sleeper s"] assms by (simp add: sim_def)
  moreover have "held x = None \<longrightarrow> same c (mem x) d"
    using assms(1) same_trans [OF _ same_sym [OF assms(2)]] by (simp add: sim_def)
  ultimately show ?thesis
    using assms proc_ok_dev [of c i s "held x" "mem x" "proc x i" d] same_fields(5) [OF assms(2)]
    by (simp add: sim_def)
qed

lemma hand_grows_proc:
  assumes "sim c i s x" and "held x = Some (Process i)" and "grows (mem x) m"
    and "h \<noteq> Some Handler"
  shows "hand_ok c s h m (hand x)"
  using assms by (auto simp: sim_def intro: hand_ok_grows)

text \<open>The steps of the process.\<close>

definition follows :: "dma_cfg \<Rightarrow> nat \<Rightarrow> dma_sys \<Rightarrow> dma_label option \<Rightarrow> threads \<Rightarrow> bool" where
  "follows c i s l x \<longleftrightarrow> (case l of None \<Rightarrow> sim c i s x | Some k \<Rightarrow> \<exists>t. dma_step c s k t \<and> sim c i t x)"

lemma step_inside:
  assumes "sim c i s x" and p: "proc x i = P_In n p" and step: "pstep p (mem x) q m"
  shows "sim c i s (x\<lparr>mem := m, proc := (proc x)(i := P_In n q)\<rparr>)"
proof -
  from assms(1) p have held: "held x = Some (Process i)" by (simp add: sim_def)
  from assms(1) p obtain e where e: "psteps (transfer_prog c n) (dev s) p e" "same c (mem x) e"
    by (auto simp: sim_def)
  have "\<exists>e'. psteps (transfer_prog c n) (dev s) q e' \<and> same c m e'"
    by (rule psteps_follow [OF e step sections_agree(1) same_refl])
  moreover have "grows (mem x) m"
    using moves_by_pstep [OF step moves_by_psteps [OF e(1) sections_grow(1)]] grows_refl by blast
  then have "hand_ok c s (held x) m (hand x)" by (rule hand_grows_proc [OF assms(1) held]) (simp add: held)
  ultimately show ?thesis using assms(1) p held by (simp add: sim_def)
qed

lemma step_inside_again:
  assumes "sim c i s x" and p: "proc x i = P_Back n l p" and step: "pstep p (mem x) q m"
  shows "sim c i s (x\<lparr>mem := m, proc := (proc x)(i := P_Back n l q)\<rparr>)"
proof -
  from assms(1) p have held: "held x = Some (Process i)" by (simp add: sim_def)
  from assms(1) p obtain e where e: "psteps (resume_prog c n) (dev s) p e" "same c (mem x) e"
    by (auto simp: sim_def)
  have "\<exists>e'. psteps (resume_prog c n) (dev s) q e' \<and> same c m e'"
    by (rule psteps_follow [OF e step sections_agree(2) same_refl])
  moreover have "grows (mem x) m"
    using moves_by_pstep [OF step moves_by_psteps [OF e(1) sections_grow(2)]] grows_refl by blast
  then have "hand_ok c s (held x) m (hand x)" by (rule hand_grows_proc [OF assms(1) held]) (simp add: held)
  ultimately show ?thesis using assms(1) p held by (simp add: sim_def)
qed

text \<open>The end of a section of the process.\<close>

lemma hand_after_proc:
  assumes "hand_ok c s (Some (Process i)) m x"
  shows "hand_ok c (s\<lparr>dev := d, sleeper := w\<rparr>) None m x"
  using assms by (cases x) auto

lemma step_leave:
  assumes "sim c i s x" and p: "proc x i = P_In n (Return b)"
  shows "follows c i s (Some (if b then Sleep n else Submit n))
     (x\<lparr>held := None, proc := (proc x)(i := if b then P_Check n else P_Idle)\<rparr>)"
proof -
  from assms(1) p obtain e where h: "held x = Some (Process i)" and n: "n \<noteq> 0"
    and e: "psteps (transfer_prog c n) (dev s) (Return b) e" "same c (mem x) e" by (auto simp: sim_def)
  have res: "initiateTransfer c n (dev s) = Inr (b, e)" using e(1) transfer_prog_runs [OF n] by (simp add: psteps_iff_runs)
  let ?t = "s\<lparr>dev := e, sleeper := (if b then Some n else None)\<rparr>"
  have sl: "sleeper s = None" using assms(1) p by (simp add: sim_def)
  then have t: "?t = (if b then s\<lparr>dev := e, sleeper := Some n\<rparr> else s\<lparr>dev := e\<rparr>)" by simp
  have "dma_step c s (if b then Sleep n else Submit n) ?t"
    unfolding t using dma_step.sleep [OF sl n] dma_step.submit [OF sl n] res by simp
  moreover have "live e" using assms(1) initiateTransfer_live [OF res] by (simp add: sim_def)
  then have "sim c i ?t (x\<lparr>held := None, proc := (proc x)(i := if b then P_Check n else P_Idle)\<rparr>)"
    using assms(1) h e(2) n hand_after_proc [of c s i "mem x" "hand x"] by (simp add: sim_def)
  ultimately show ?thesis unfolding follows_def option.case by (intro exI conjI)
qed

lemma step_leave_again:
  assumes "sim c i s x" and p: "proc x i = P_Back n l (Return ())"
  shows "follows c i s (Some l) (x\<lparr>held := None, proc := (proc x)(i := P_Idle)\<rparr>)"
proof -
  from assms(1) p obtain e where h: "held x = Some (Process i)"
    and l: "l = (if wait_condition (dev s) then Wake else Interrupted)"
    and e: "psteps (resume_prog c n) (dev s) (Return ()) e" "same c (mem x) e" by (auto simp: sim_def)
  have res: "e = initiateTransfer_resume c n (dev s)" using e(1) by (simp add: psteps_iff_runs resume_prog_runs)
  have sl: "sleeper s = Some n" using assms(1) p by (simp add: sim_def)
  let ?t = "s\<lparr>dev := e, sleeper := None\<rparr>"
  have "dma_step c s l ?t"
    unfolding l res using dma_step.wake [OF sl] dma_step.interrupted [OF sl] by simp
  moreover have "live e" using assms(1) by (simp add: sim_def res initiateTransfer_resume_def ring_simps)
  then have "sim c i ?t (x\<lparr>held := None, proc := (proc x)(i := P_Idle)\<rparr>)"
    using assms(1) h e(2) hand_after_proc [of c s i "mem x" "hand x"] by (simp add: sim_def)
  ultimately show ?thesis unfolding follows_def option.case by (intro exI conjI)
qed

text \<open>The lock is taken.\<close>

lemma hand_ok_taken:
  assumes "hand_ok c s None m x"
  shows "hand_ok c s (Some (Process i)) m x"
  using assms by (cases x) auto

lemma step_enter:
  assumes "sim c i s x" and "proc x i = P_Enter n" and "held x = None"
  shows "sim c i s (x\<lparr>held := Some (Process i), proc := (proc x)(i := P_In n (transfer_prog c n))\<rparr>)"
  using assms hand_ok_taken psteps.start [of "transfer_prog c n" "dev s"] by (auto simp: sim_def)

lemma step_again:
  assumes "sim c i s x" and "proc x i = P_Again n" and "held x = None"
  shows "sim c i s (x\<lparr>held := Some (Process i),
    proc := (proc x)(i := P_Back n (if wait_condition (mem x) then Wake else Interrupted) (resume_prog c n))\<rparr>)"
proof -
  have m: "same c (mem x) (dev s)" using assms by (simp add: sim_def)
  from assms hand_ok_taken psteps.start [of "resume_prog c n" "dev s"] m same_fields(6) [OF m]
  show ?thesis by (auto simp: sim_def)
qed

text \<open>The handler reads and acknowledges the status; the lock may be held by the process.\<close>

lemma step_raised:
  assumes "sim c i s x" and "hand x = H_Idle" and "as \<noteq> []"
    and "hd as AND flushed_bit c \<noteq> 0 \<Longrightarrow> started c x \<noteq> []"
  shows "sim c i s (x\<lparr>mem := (mem x)\<lparr>rd_answers := as\<rparr>, hand := H_Read\<rparr>)"
  using assms by (intro sim_handler same_io(2)) (auto simp: sim_def started_def)

lemma read_same:
  assumes "K_READ_REG (reg_status c) d = Inr (f, e)"
  shows "same c e d" and "rd_answers d = f # rd_answers e" and "kicks c a (bus e) = kicks c a (bus d)"
proof -
  show "rd_answers d = f # rd_answers e" using assms by (auto simp: K_READ_REG_def split: if_splits list.splits)
  have e: "e = d\<lparr>bus := bus d @ [Rd (reg_index (reg_status c)) f], rd_answers := rd_answers e\<rparr>"
    using assms by (auto simp: K_READ_REG_def split: if_splits list.splits)
  show "same c e d" by (rule sameI [OF e]) simp
  have b: "bus e = bus d @ [Rd (reg_index (reg_status c)) f]" by (subst e) simp
  show "kicks c a (bus e) = kicks c a (bus d)" unfolding b by (rule kicks_append_quiet) simp
qed

lemma ack_same:
  assumes "cfg_ok c" and "K_WRITE_REG (reg_status c) v d = Inr e"
  shows "same c e d" and "kicks c a (bus e) = kicks c a (bus d)"
proof -
  have e: "e = d\<lparr>bus := bus d @ [Wr (reg_index (reg_status c)) v], rd_answers := rd_answers d\<rparr>"
    using assms(2) by (auto simp: K_WRITE_REG_def split: if_splits)
  show "same c e d" by (rule sameI [OF e]) simp
  have b: "bus e = bus d @ [Wr (reg_index (reg_status c)) v]" by (subst e) simp
  show "kicks c a (bus e) = kicks c a (bus d)"
    unfolding b using assms(1) by (intro kicks_append_quiet) (auto simp: cfg_ok_def)
qed

lemma step_read:
  assumes "sim c i s x" and "hand x = H_Read" and r: "K_READ_REG (reg_status c) (mem x) = Inr (f, m)"
  shows "sim c i s (x\<lparr>mem := m, hand := H_Ack f\<rparr>)"
  using assms(1,2) read_same [OF r] by (intro sim_handler) (auto simp: sim_def)

lemma step_ack:
  assumes c: "cfg_ok c" and "sim c i s x" and "hand x = H_Ack f"
    and r: "K_WRITE_REG (reg_status c) 0xFFFFFFFF (mem x) = Inr m"
  shows "follows c i s (if f AND flushed_bit c = 0 then Some Spurious else None)
    (x\<lparr>mem := m, hand := if f AND flushed_bit c = 0 then H_Idle else H_Enter\<rparr>)"
proof (cases "f AND flushed_bit c = 0")
  case False
  then have "sim c i s (x\<lparr>mem := m, hand := H_Enter\<rparr>)"
    using assms(2,3) ack_same [OF c r] by (intro sim_handler) (auto simp: sim_def)
  with False show ?thesis by (simp add: follows_def)
next
  case True
  let ?b = "[Rd (reg_index (reg_status c)) f, Wr (reg_index (reg_status c)) 0xFFFFFFFF]"
  let ?d = "(dev s)\<lparr>rd_answers := [], bus := bus (dev s) @ ?b\<rparr>"
  have free: "held x \<noteq> Some Handler" "live (dev s)" using assms(2,3) by (auto simp: sim_def)
  have d: "same c ?d (dev s)" by (rule sameI [where as = "[]" and b = "bus (dev s) @ ?b"]) simp_all
  have "dma_interrupt c ((dev s)\<lparr>rd_answers := [f]\<rparr>) = Inr (IRQ_NONE, False, ?d)"
    using dma_interrupt_other [OF c, of "(dev s)\<lparr>rd_answers := [f]\<rparr>" f "[]"] free True by simp
  then have "dma_step c s Spurious (s\<lparr>dev := ?d\<rparr>)" by (rule dma_step.spurious)
  moreover have "sim c i (s\<lparr>dev := ?d\<rparr>) x" by (rule sim_dev [OF assms(2) d free(1)])
  then have "sim c i (s\<lparr>dev := ?d\<rparr>) (x\<lparr>mem := m, hand := H_Idle\<rparr>)"
    using free ack_same [OF c r] by (intro sim_handler) auto
  ultimately show ?thesis using True unfolding follows_def by auto
qed

text \<open>The section of the handler.\<close>

lemma proc_ok_lock:
  assumes "proc_ok c i s h m x" and "h \<noteq> Some (Process i)" and "h' \<noteq> Some (Process i)"
  shows "proc_ok c i s' h' m' x"
  using assms by (cases x) auto

lemma step_irq_enter:
  assumes c: "cfg_ok c" and "sim c i s x" and "hand x = H_Enter" and "held x = None"
  shows "sim c i s (x\<lparr>held := Some Handler, hand := H_In (irq_prog c)\<rparr>)"
proof -
  have m: "same c (mem x) (dev s)" and fin: "drop (served s) (kicks c 0 (bus (mem x))) \<noteq> []"
    using assms(2-4) by (auto simp: sim_def)
  obtain b as where d: "mem x = (dev s)\<lparr>bus := b, rd_answers := as\<rparr>" and b: "core c b = core c (bus (dev s))"
    using m by (rule sameE)
  have "same_answers c (mem x) (acked c as (dev s))"
    using d b by (intro same_answersI [where b = b]) (simp_all add: acked_def)
  then have "\<exists>as e. psteps (irq_prog c) (acked c as (dev s)) (irq_prog c) e \<and> same_answers c (mem x) e"
    by (blast intro: psteps.start)
  moreover have "in_flight c s \<noteq> []" using fin same_kicks [OF c m] by (simp add: in_flight_def)
  moreover have "proc_ok c i s (Some Handler) (mem x) (proc x i)"
    using assms(2,4) by (auto simp: sim_def intro: proc_ok_lock)
  ultimately show ?thesis using assms(2) by (simp add: sim_def)
qed

lemma step_irq_inside:
  assumes "sim c i s x" and h: "hand x = H_In p" and step: "pstep p (mem x) q m"
  shows "sim c i s (x\<lparr>mem := m, hand := H_In q\<rparr>)"
proof -
  obtain as e where e: "psteps (irq_prog c) (acked c as (dev s)) p e" "same_answers c (mem x) e"
    and held: "held x = Some Handler" using assms(1) h by (auto simp: sim_def)
  have refl: "same_answers c d d" for d by (rule same_answersI [where b = "bus d"]) simp_all
  have "\<exists>e'. psteps (irq_prog c) (acked c as (dev s)) q e' \<and> same_answers c m e'"
    by (rule psteps_follow [OF e step sections_agree(3) refl])
  then have "\<exists>as e'. psteps (irq_prog c) (acked c as (dev s)) q e' \<and> same_answers c m e'" by blast
  moreover have "proc_ok c i s (held x) m (proc x i)"
    using assms(1) held by (auto simp: sim_def intro: proc_ok_lock)
  ultimately show ?thesis using assms(1) h held by (simp add: sim_def)
qed

lemma step_irq_leave:
  assumes c: "cfg_ok c" and "sim c i s x" and h: "hand x = H_In (Return w)"
  shows "follows c i s (Some Irq) (x\<lparr>held := None, hand := H_Idle, finished := Suc (finished x)\<rparr>)"
proof -
  obtain as e where e: "psteps (irq_prog c) (acked c as (dev s)) (Return w) e" "same_answers c (mem x) e"
    and held: "held x = Some Handler" and fl: "in_flight c s \<noteq> []" and lv: "live (dev s)"
    using assms(2) h by (auto simp: sim_def)
  let ?d = "(dev s)\<lparr>rd_answers := flushed_bit c # as\<rparr>"
  have crit: "irq_critical c (acked c as (dev s)) = Inr (w, e)" using e(1) by (simp add: psteps_iff_runs irq_prog_runs)
  have "dma_interrupt c ?d = Inr (IRQ_HANDLED, w, e)"
    using dma_interrupt_flushed [OF c, of ?d "flushed_bit c" as] crit lv c by (simp add: acked_def cfg_ok_def)
  then have step: "dma_step c s Irq (s\<lparr>dev := e, served := Suc (served s)\<rparr>)" by (rule dma_step.irq [OF fl])
  have "live_kept (acked c as (dev s)) e"
    by (rule psteps_moves [OF e(1) irq_live]) (simp_all add: live_kept_def)
  then have "live e" using lv by (simp add: live_kept_def acked_def)
  moreover have "proc_ok c i (s\<lparr>dev := e, served := Suc (served s)\<rparr>) None (mem x) (proc x i)"
    using assms(2) held by (auto simp: sim_def intro: proc_ok_lock)
  ultimately have "sim c i (s\<lparr>dev := e, served := Suc (served s)\<rparr>)
      (x\<lparr>held := None, hand := H_Idle, finished := Suc (finished x)\<rparr>)"
    using assms(2) same_weaken [OF e(2)] by (simp add: sim_def)
  with step show ?thesis by (auto simp: follows_def)
qed

theorem sim_step:
  assumes c: "cfg_ok c" and s: "sim c i s x" and step: "tstep c {i} sig x l y"
  shows "follows c i s l y"
  using step
proof cases
  case (call j n)
  with s show ?thesis by (auto simp: follows_def sim_def)
next
  case (enter j n)
  with s show ?thesis by (auto simp: follows_def dest: step_enter)
next
  case (inside j n p q m)
  with s show ?thesis by (auto simp: follows_def dest: step_inside)
next
  case (leave j n b)
  with step_leave [OF s] show ?thesis by auto
next
  case (check j n)
  with s show ?thesis by (auto simp: follows_def sim_def)
next
  case (check_full j n)
  with s show ?thesis by (auto simp: follows_def sim_def)
next
  case (signal j n)
  with s show ?thesis by (auto simp: follows_def sim_def)
next
  case (again j n)
  with step_again [OF s] show ?thesis by (auto simp: follows_def)
next
  case (inside_again j n k p q m)
  with step_inside_again [OF s] show ?thesis by (auto simp: follows_def)
next
  case (leave_again j n k)
  with step_leave_again [OF s] show ?thesis by auto
next
  case (raised as)
  with step_raised [OF s] show ?thesis by (auto simp: follows_def)
next
  case (read f m)
  with step_read [OF s] show ?thesis by (auto simp: follows_def)
next
  case (ack f m)
  with step_ack [OF c s] show ?thesis by auto
next
  case irq_enter
  with step_irq_enter [OF c s] show ?thesis by (auto simp: follows_def)
next
  case (irq_inside p q m)
  with step_irq_inside [OF s] show ?thesis by (auto simp: follows_def)
next
  case (irq_leave w)
  with step_irq_leave [OF c s] show ?thesis by auto
qed

section \<open>Runs\<close>

inductive dma_run :: "dma_cfg \<Rightarrow> dma_sys \<Rightarrow> dma_label list \<Rightarrow> dma_sys \<Rightarrow> bool" for c where
  nil: "dma_run c s [] s"
| snoc: "dma_run c s ls t \<Longrightarrow> dma_step c t l u \<Longrightarrow> dma_run c s (ls @ [l]) u"

lemma sim_run:
  assumes c: "cfg_ok c" and run: "trun c {i} sig x ls y" and s: "sim c i s x"
  shows "\<exists>t. dma_run c s ls t \<and> sim c i t y"
  using run s
proof (induction rule: trun.induct)
  case (nil x)
  then show ?case by (blast intro: dma_run.nil)
next
  case (snoc x ls y l z)
  then obtain t where t: "dma_run c s ls t" "sim c i t y" by blast
  from sim_step [OF c t(2) snoc.hyps(2)] t(1) show ?case
    by (cases l) (auto simp: follows_def intro: dma_run.snoc)
qed

lemma sim_at_rest: "live d \<Longrightarrow> sim c i \<lparr>dev = d, sleeper = None, served = k\<rparr> (at_rest d k)"
  by (simp add: sim_def at_rest_def)

lemma sim_free:
  assumes "cfg_ok c" and "sim c i s x" and "held x = None"
  shows "requests N (mem x) = requests N (dev s)" and "kicks c a (bus (mem x)) = kicks c a (bus (dev s))"
    and "finished x = served s"
proof -
  have m: "same c (mem x) (dev s)" using assms(2,3) by (simp add: sim_def)
  from same_fields(7) [OF m] same_kicks [OF assms(1) m] assms(2)
  show "requests N (mem x) = requests N (dev s)" "kicks c a (bus (mem x)) = kicks c a (bus (dev s))"
    "finished x = served s" by (simp_all add: sim_def)
qed

subsection \<open>Without signals\<close>

text \<open>
  A process that has seen its condition hold finds it still true under the lock: nobody else fills
  the ring.
\<close>

definition alert :: "nat \<Rightarrow> threads \<Rightarrow> bool" where
  "alert i x \<longleftrightarrow> (case proc x i of
     P_Again n \<Rightarrow> (\<exists>p. hand x = H_In p) \<or> wait_condition (mem x) | P_Back n l p \<Rightarrow> l = Wake | _ \<Rightarrow> True)"

lemma same_wait: "same c m d \<Longrightarrow> wait_condition d \<Longrightarrow> wait_condition m"
  using same_fields(6) by simp

lemma alert_step:
  assumes c: "cfg_ok c" and s: "sim c i s x" and a: "alert i x" and step: "tstep c {i} False x l y"
    and l: "l \<noteq> Some Irq"
  shows "alert i y \<and> l \<noteq> Some Interrupted"
  using step
proof cases
  case (check j n)
  then show ?thesis by (auto simp: alert_def wait_condition_def)
next
  case (check_full j n)
  then show ?thesis by (auto simp: alert_def wait_condition_def)
next
  case (again j n)
  with s a show ?thesis by (auto simp: alert_def sim_def)
next
  case (raised as)
  with a same_wait [OF same_io(2)] show ?thesis by (auto simp: alert_def split: proc_state.splits)
next
  case (read f m)
  with a same_wait [OF read_same(1) [OF read(4)]] show ?thesis by (auto simp: alert_def split: proc_state.splits)
next
  case (ack f m)
  with a same_wait [OF ack_same(1) [OF c ack(4)]] show ?thesis
    by (auto simp: alert_def split: proc_state.splits)
qed (use a l in \<open>auto simp: alert_def split: proc_state.splits if_splits\<close>)

text \<open>Without signals a run keeps the invariant or has stalled.\<close>

lemma inv_or_stalled:
  assumes c: "cfg_ok c" and step: "dma_step c s l t" and l: "l \<noteq> Interrupted"
    and s: "sys_inv c s \<or> stalled c s"
  shows "sys_inv c t \<or> stalled c t"
proof (cases "sys_inv c s")
  case False
  with s stalled_step [OF c _ step l] show ?thesis by blast
next
  case True
  show ?thesis
  proof (cases "prompt c s l")
    case True
    with sys_inv_step [OF c step \<open>sys_inv c s\<close>] show ?thesis by blast
  next
    case False
    with l have "l = Wake" "occ (nbuf c) (dev s) = 0" by (auto simp: prompt_def)
    with wake_when_drained [OF True] step c show ?thesis by blast
  qed
qed

lemma room_after_irq:
  assumes c: "cfg_ok c" and step: "dma_step c s Irq t" and s: "sys_inv c s \<or> stalled c s"
  shows "wait_condition (dev t)"
  using step
proof (rule irqE)
  fix as w d'
  assume t: "t = s\<lparr>dev := d', served := Suc (served s)\<rparr>" and fl: "in_flight c s \<noteq> []"
    and res: "dma_interrupt c ((dev s)\<lparr>rd_answers := as\<rparr>) = Inr (IRQ_HANDLED, w, d')"
  from s fl have inv: "sys_inv c s" by (auto simp: stalled_def)
  note e = irq_effect [OF c inv fl res]
  have "length (requests (nbuf c) d') = occ (nbuf c) (dev s) - 1" using e(2) by simp
  moreover have "occ (nbuf c) (dev s) \<le> nbuf c" "ring_inv (nbuf c) d'"
    using inv e(1) by (auto simp: sys_inv_def occ_le)
  ultimately show "wait_condition (dev t)" using e(3) t by (simp add: wait_condition_iff)
qed

lemma calm_run:
  assumes c: "cfg_ok c" and run: "trun c {i} False x ls y" and s: "sim c i s x"
    and inv: "sys_inv c s \<or> stalled c s" and a: "alert i x"
  shows "\<exists>t. quiet_run c s ls t \<and> sim c i t y \<and> (sys_inv c t \<or> stalled c t) \<and> alert i y"
  using run s inv a
proof (induction rule: trun.induct)
  case (nil x)
  then show ?case by (blast intro: quiet_run.nil)
next
  case (snoc x ls y l z)
  then obtain t where t: "quiet_run c s ls t" "sim c i t y" "sys_inv c t \<or> stalled c t" "alert i y" by blast
  note f = sim_step [OF c t(2) snoc.hyps(2)]
  show ?case
  proof (cases l)
    case None
    with f t alert_step [OF c t(2,4) snoc.hyps(2)] show ?thesis by (auto simp: follows_def)
  next
    case (Some k)
    with f obtain u where u: "dma_step c t k u" "sim c i u z" by (auto simp: follows_def)
    have k: "alert i z \<and> k \<noteq> Interrupted"
    proof (cases "k = Irq")
      case False
      with alert_step [OF c t(2,4) snoc.hyps(2)] Some show ?thesis by simp
    next
      case True
      from snoc.hyps(2) Some True t(4) have "held z = None" and p: "proc z i = proc y i"
        by (auto simp: alert_def elim!: tstep.cases split: if_splits)
      then have "same c (mem z) (dev u)" using u(2) by (simp add: sim_def)
      from same_wait [OF this room_after_irq [OF c _ t(3)]] u(1) True t(4) p show ?thesis
        by (auto simp: alert_def split: proc_state.splits)
    qed
    with t(1) u have "quiet_run c s (ls @ [k]) u" by (blast intro: quiet_run.snoc)
    with Some u inv_or_stalled [OF c u(1) _ t(3)] k show ?thesis by auto
  qed
qed

end
