(* ===== verification/Dma_Schedules.thy ===== *)
theory Dma_Schedules
  imports Dma_Simulation
begin

text \<open>
  Schedules of the statement-level system: whole sections run without a break, from which the
  runs of \<open>Dma_Steps\<close> without signals come back as runs of statements, and the lock, which keeps any
  number of processes and the handler out of each other's sections.
\<close>

section \<open>Sections without a break\<close>

lemma trun_trans: "trun c P sig y ks z \<Longrightarrow> trun c P sig x ls y \<Longrightarrow> trun c P sig x (ls @ ks) z"
  by (induction rule: trun.induct) (auto intro: trun.snoc simp flip: append_assoc)

lemma trun_silent: "trun c P sig x ls y \<Longrightarrow> tstep c P sig y None z \<Longrightarrow> trun c P sig x ls z"
  using trun.snoc [of c P sig x ls y None z] by simp

lemma trun_label: "trun c P sig x ls y \<Longrightarrow> tstep c P sig y (Some k) z \<Longrightarrow> trun c P sig x (ls @ [k]) z"
  using trun.snoc [of c P sig x ls y "Some k" z] by simp

lemma run_inside:
  assumes "psteps p (mem x) q m" and "i \<in> P" and "proc x i = P_In n p"
  shows "trun c P sig x [] (x\<lparr>mem := m, proc := (proc x)(i := P_In n q)\<rparr>)"
  using assms
proof (induction p "mem x" q m rule: psteps.induct)
  case (start p)
  then have "x\<lparr>mem := mem x, proc := (proc x)(i := P_In n p)\<rparr> = x" by (cases x) auto
  then show ?case by (simp add: trun.nil)
next
  case (extend p q m r u)
  let ?y = "x\<lparr>mem := m, proc := (proc x)(i := P_In n q)\<rparr>"
  have "trun c P sig x [] ?y" using extend by simp
  moreover from extend have "tstep c P sig ?y None (?y\<lparr>mem := u, proc := (proc ?y)(i := P_In n r)\<rparr>)"
    by (intro tstep.inside) auto
  ultimately show ?case by (auto dest: trun_silent)
qed

lemma run_inside_again:
  assumes "psteps p (mem x) q m" and "i \<in> P" and "proc x i = P_Back n l p"
  shows "trun c P sig x [] (x\<lparr>mem := m, proc := (proc x)(i := P_Back n l q)\<rparr>)"
  using assms
proof (induction p "mem x" q m rule: psteps.induct)
  case (start p)
  then have "x\<lparr>mem := mem x, proc := (proc x)(i := P_Back n l p)\<rparr> = x" by (cases x) auto
  then show ?case by (simp add: trun.nil)
next
  case (extend p q m r u)
  let ?y = "x\<lparr>mem := m, proc := (proc x)(i := P_Back n l q)\<rparr>"
  have "trun c P sig x [] ?y" using extend by simp
  moreover from extend have "tstep c P sig ?y None (?y\<lparr>mem := u, proc := (proc ?y)(i := P_Back n l r)\<rparr>)"
    by (intro tstep.inside_again) auto
  ultimately show ?case by (auto dest: trun_silent)
qed

lemma run_irq_inside:
  assumes "psteps p (mem x) q m" and "hand x = H_In p"
  shows "trun c P sig x [] (x\<lparr>mem := m, hand := H_In q\<rparr>)"
  using assms
proof (induction p "mem x" q m rule: psteps.induct)
  case (start p)
  then have "x\<lparr>mem := mem x, hand := H_In p\<rparr> = x" by (cases x) auto
  then show ?case by (simp add: trun.nil)
next
  case (extend p q m r u)
  let ?y = "x\<lparr>mem := m, hand := H_In q\<rparr>"
  have "trun c P sig x [] ?y" using extend by simp
  moreover from extend have "tstep c P sig ?y None (?y\<lparr>mem := u, hand := H_In r\<rparr>)"
    by (intro tstep.irq_inside) auto
  ultimately show ?case by (auto dest: trun_silent)
qed

lemma whole_call:
  assumes i: "i \<in> P" "proc x i = P_Idle" "held x = None" and n: "n \<noteq> 0"
    and res: "initiateTransfer c n (mem x) = Inr (b, d)"
  shows "trun c P sig x [if b then Sleep n else Submit n]
     (x\<lparr>mem := d, proc := (proc x)(i := if b then P_Check n else P_Idle)\<rparr>)"
proof -
  let ?x1 = "x\<lparr>proc := (proc x)(i := P_Enter n)\<rparr>"
  let ?x2 = "?x1\<lparr>held := Some (Process i), proc := (proc ?x1)(i := P_In n (transfer_prog c n))\<rparr>"
  let ?x3 = "?x2\<lparr>mem := d, proc := (proc ?x2)(i := P_In n (Return b))\<rparr>"
  have "trun c P sig x [] ?x1" by (rule trun_silent [OF trun.nil tstep.call [OF i(1,2) n]])
  moreover have "tstep c P sig ?x1 None ?x2" using i by (intro tstep.enter) auto
  ultimately have "trun c P sig x [] ?x2" by (rule trun_silent)
  moreover have "psteps (transfer_prog c n) (mem ?x2) (Return b) d"
    using res n by (simp add: psteps_iff_runs transfer_prog_runs)
  then have "trun c P sig ?x2 [] ?x3" using i by (intro run_inside) auto
  ultimately have "trun c P sig x [] ?x3" using trun_trans by fastforce
  moreover have "tstep c P sig ?x3 (Some (if b then Sleep n else Submit n))
      (?x3\<lparr>held := None, proc := (proc ?x3)(i := if b then P_Check n else P_Idle)\<rparr>)"
    using i by (intro tstep.leave) auto
  ultimately have "trun c P sig x ([] @ [if b then Sleep n else Submit n])
      (?x3\<lparr>held := None, proc := (proc ?x3)(i := if b then P_Check n else P_Idle)\<rparr>)"
    by (rule trun_label)
  moreover have "?x3\<lparr>held := None, proc := (proc ?x3)(i := if b then P_Check n else P_Idle)\<rparr> =
      x\<lparr>mem := d, proc := (proc x)(i := if b then P_Check n else P_Idle)\<rparr>" using i(3) by (cases x) simp
  ultimately show ?thesis by simp
qed

lemma whole_resume:
  assumes i: "i \<in> P" "proc x i = P_Again n" "held x = None"
  shows "trun c P sig x [if wait_condition (mem x) then Wake else Interrupted]
     (x\<lparr>mem := initiateTransfer_resume c n (mem x), proc := (proc x)(i := P_Idle)\<rparr>)"
proof -
  let ?l = "if wait_condition (mem x) then Wake else Interrupted" and ?d = "initiateTransfer_resume c n (mem x)"
  let ?x1 = "x\<lparr>held := Some (Process i), proc := (proc x)(i := P_Back n ?l (resume_prog c n))\<rparr>"
  let ?x2 = "?x1\<lparr>mem := ?d, proc := (proc ?x1)(i := P_Back n ?l (Return ()))\<rparr>"
  have "trun c P sig x [] ?x1" by (rule trun_silent [OF trun.nil tstep.again [OF i]])
  moreover have "psteps (resume_prog c n) (mem ?x1) (Return ()) ?d"
    by (simp add: psteps_iff_runs resume_prog_runs)
  then have "trun c P sig ?x1 [] ?x2" using i by (intro run_inside_again) auto
  ultimately have "trun c P sig x [] ?x2" using trun_trans by fastforce
  moreover have "tstep c P sig ?x2 (Some ?l) (?x2\<lparr>held := None, proc := (proc ?x2)(i := P_Idle)\<rparr>)"
    using i by (intro tstep.leave_again) auto
  ultimately have "trun c P sig x ([] @ [?l]) (?x2\<lparr>held := None, proc := (proc ?x2)(i := P_Idle)\<rparr>)"
    by (rule trun_label)
  moreover have "?x2\<lparr>held := None, proc := (proc ?x2)(i := P_Idle)\<rparr> =
      x\<lparr>mem := ?d, proc := (proc x)(i := P_Idle)\<rparr>" using i(3) by (cases x) simp
  ultimately show ?thesis by simp
qed

lemma see_room:
  assumes i: "i \<in> P" "proc x i = P_Check n" and w: "wait_condition (mem x)"
  shows "trun c P sig x [] (x\<lparr>proc := (proc x)(i := P_Again n)\<rparr>)"
proof (cases "fill (mem x) = drain (mem x)")
  case False
  with trun_silent [OF trun.nil tstep.check [OF i]] show ?thesis by simp
next
  case True
  let ?x1 = "x\<lparr>proc := (proc x)(i := P_Check_Full n)\<rparr>"
  have "trun c P sig x [] ?x1" using True trun_silent [OF trun.nil tstep.check [OF i]] by simp
  moreover have "tstep c P sig ?x1 None (?x1\<lparr>proc := (proc ?x1)(i := P_Again n)\<rparr>)"
    using tstep.check_full [OF i(1), of ?x1 n c sig] True w by (simp add: wait_condition_def)
  ultimately have "trun c P sig x [] (?x1\<lparr>proc := (proc ?x1)(i := P_Again n)\<rparr>)" by (rule trun_silent)
  then show ?thesis by simp
qed

text \<open>The handler: status read and acknowledged, then, for a finished transfer, its section.\<close>

lemma handler_reads:
  assumes h: "hand x = H_Idle"
    and read: "K_READ_REG (reg_status c) ((mem x)\<lparr>rd_answers := as\<rparr>) = Inr (f, d1)"
    and fin: "f AND flushed_bit c \<noteq> 0 \<Longrightarrow> started c x \<noteq> []"
  shows "trun c P sig x [] (x\<lparr>mem := d1, hand := H_Ack f\<rparr>)"
proof -
  let ?x1 = "x\<lparr>mem := (mem x)\<lparr>rd_answers := as\<rparr>, hand := H_Read\<rparr>"
  have as: "as \<noteq> []" "hd as = f" using read by (auto simp: K_READ_REG_def split: if_splits list.splits)
  have "trun c P sig x [] ?x1"
    by (rule trun_silent [OF trun.nil tstep.raised [OF h as(1)]]) (use as fin in simp)
  moreover have "tstep c P sig ?x1 None (?x1\<lparr>mem := d1, hand := H_Ack f\<rparr>)"
    using read by (intro tstep.read) auto
  ultimately have "trun c P sig x [] (?x1\<lparr>mem := d1, hand := H_Ack f\<rparr>)" by (rule trun_silent)
  then show ?thesis by simp
qed

lemma dma_interrupt_parts:
  assumes "dma_interrupt c d = Inr (r, w, d')"
  obtains f d1 d2 where "K_READ_REG (reg_status c) d = Inr (f, d1)" "K_WRITE_REG (reg_status c) 0xFFFFFFFF d1 = Inr d2"
    "if f AND flushed_bit c = 0 then r = IRQ_NONE \<and> d' = d2 else r = IRQ_HANDLED \<and> irq_critical c d2 = Inr (w, d')"
  using assms by (auto simp: dma_interrupt_def split: sum.splits if_splits)

lemma whole_spurious:
  assumes h: "hand x = H_Idle" and res: "dma_interrupt c ((mem x)\<lparr>rd_answers := as\<rparr>) = Inr (IRQ_NONE, w, d)"
  shows "trun c P sig x [Spurious] (x\<lparr>mem := d\<rparr>)"
proof -
  obtain f d1 where f: "K_READ_REG (reg_status c) ((mem x)\<lparr>rd_answers := as\<rparr>) = Inr (f, d1)"
    "K_WRITE_REG (reg_status c) 0xFFFFFFFF d1 = Inr d" "f AND flushed_bit c = 0"
    by (rule dma_interrupt_parts [OF res]) (auto split: if_splits)
  let ?x2 = "x\<lparr>mem := d1, hand := H_Ack f\<rparr>"
  have "trun c P sig x [] ?x2" by (rule handler_reads [OF h f(1)]) (use f(3) in simp)
  moreover have "tstep c P sig ?x2 (if f AND flushed_bit c = 0 then Some Spurious else None)
      (?x2\<lparr>mem := d, hand := if f AND flushed_bit c = 0 then H_Idle else H_Enter\<rparr>)"
    using f by (intro tstep.ack) auto
  then have "tstep c P sig ?x2 (Some Spurious) (?x2\<lparr>mem := d, hand := H_Idle\<rparr>)" using f(3) by simp
  ultimately have "trun c P sig x ([] @ [Spurious]) (?x2\<lparr>mem := d, hand := H_Idle\<rparr>)" by (rule trun_label)
  moreover have "?x2\<lparr>mem := d, hand := H_Idle\<rparr> = x\<lparr>mem := d\<rparr>" using h by (cases x) simp
  ultimately show ?thesis by simp
qed

lemma whole_irq:
  assumes h: "hand x = H_Idle" "held x = None" and fin: "started c x \<noteq> []"
    and res: "dma_interrupt c ((mem x)\<lparr>rd_answers := as\<rparr>) = Inr (IRQ_HANDLED, w, d)"
  shows "trun c P sig x [Irq] (x\<lparr>mem := d, finished := Suc (finished x)\<rparr>)"
proof -
  obtain f d1 d2 where f: "K_READ_REG (reg_status c) ((mem x)\<lparr>rd_answers := as\<rparr>) = Inr (f, d1)"
    "K_WRITE_REG (reg_status c) 0xFFFFFFFF d1 = Inr d2" "f AND flushed_bit c \<noteq> 0" "irq_critical c d2 = Inr (w, d)"
    by (rule dma_interrupt_parts [OF res]) (auto split: if_splits)
  let ?x2 = "x\<lparr>mem := d1, hand := H_Ack f\<rparr>"
  let ?x3 = "?x2\<lparr>mem := d2, hand := H_Enter\<rparr>"
  let ?x4 = "?x3\<lparr>held := Some Handler, hand := H_In (irq_prog c)\<rparr>"
  let ?x5 = "?x4\<lparr>mem := d, hand := H_In (Return w)\<rparr>"
  let ?x6 = "?x5\<lparr>held := None, hand := H_Idle, finished := Suc (finished ?x5)\<rparr>"
  have "trun c P sig x [] ?x2" by (rule handler_reads [OF h(1) f(1) fin])
  moreover have "tstep c P sig ?x2 (if f AND flushed_bit c = 0 then Some Spurious else None)
      (?x2\<lparr>mem := d2, hand := if f AND flushed_bit c = 0 then H_Idle else H_Enter\<rparr>)"
    using f by (intro tstep.ack) auto
  then have "tstep c P sig ?x2 None ?x3" using f(3) by simp
  ultimately have "trun c P sig x [] ?x3" by (rule trun_silent)
  moreover have "tstep c P sig ?x3 None ?x4" using h(2) by (intro tstep.irq_enter) auto
  ultimately have "trun c P sig x [] ?x4" by (rule trun_silent)
  moreover have "psteps (irq_prog c) (mem ?x4) (Return w) d" using f(4) by (simp add: psteps_iff_runs irq_prog_runs)
  then have "trun c P sig ?x4 [] ?x5" by (intro run_irq_inside) auto
  ultimately have "trun c P sig x [] ?x5" using trun_trans by fastforce
  moreover have "tstep c P sig ?x5 (Some Irq) ?x6" by (rule tstep.irq_leave) simp
  ultimately have "trun c P sig x ([] @ [Irq]) ?x6" by (rule trun_label)
  moreover have "?x6 = x\<lparr>mem := d, finished := Suc (finished x)\<rparr>" using h by (cases x) simp
  ultimately show ?thesis by simp
qed

section \<open>Every quiet run is a schedule\<close>

text \<open>The state of the statement-level system between two sections of a coarse run.\<close>

definition between :: "nat \<Rightarrow> dma_sys \<Rightarrow> threads" where
  "between i s = \<lparr>mem = dev s, held = None,
     proc = (\<lambda>_. P_Idle)(i := case sleeper s of None \<Rightarrow> P_Idle | Some n \<Rightarrow> P_Check n),
     hand = H_Idle, finished = served s\<rparr>"

lemma between_at_rest: "between i \<lparr>dev = d, sleeper = None, served = k\<rparr> = at_rest d k"
  by (simp add: between_def at_rest_def fun_eq_iff)

lemma between_step:
  assumes i: "i \<in> P" and step: "dma_step c s l t" and l: "l \<noteq> Interrupted"
  shows "trun c P sig (between i s) [l] (between i t)"
  using step
proof cases
  case (submit n d)
  from whole_call [of i P "between i s" n c False d sig] i submit show ?thesis
    by (simp add: between_def)
next
  case (sleep n d)
  from whole_call [of i P "between i s" n c True d sig] i sleep show ?thesis
    by (simp add: between_def)
next
  case (wake n)
  let ?x = "(between i s)\<lparr>proc := (proc (between i s))(i := P_Again n)\<rparr>"
  have "trun c P sig (between i s) [] ?x" using see_room [of i P "between i s" n] i wake by (simp add: between_def)
  moreover have "trun c P sig ?x [l] (between i t)"
    using whole_resume [of i P ?x n c sig] i wake by (simp add: between_def)
  ultimately show ?thesis using trun_trans by fastforce
next
  case (interrupted n)
  with l show ?thesis by simp
next
  case (irq as w d)
  from whole_irq [of "between i s" c as w d P sig] irq show ?thesis
    by (simp add: between_def started_def in_flight_def)
next
  case (spurious as w d)
  from whole_spurious [of "between i s" c as w d P sig] spurious show ?thesis by (simp add: between_def)
qed

lemma quiet_run_between:
  assumes i: "i \<in> P" and run: "quiet_run c s ls t"
  shows "trun c P sig (between i s) ls (between i t)"
  using run
proof (induction rule: quiet_run.induct)
  case (snoc s ls t l u)
  from trun_trans [OF between_step [OF i snoc.hyps(2,3)] snoc.IH] show ?case .
qed (rule trun.nil)

section \<open>The lock\<close>

fun in_section :: "proc_state \<Rightarrow> bool" where
  "in_section (P_In n p) = True"
| "in_section (P_Back n l p) = True"
| "in_section _ = False"

fun irq_section :: "irq_state \<Rightarrow> bool" where
  "irq_section (H_In p) = True"
| "irq_section _ = False"

definition lock_inv :: "threads \<Rightarrow> bool" where
  "lock_inv x \<longleftrightarrow> (\<forall>i. in_section (proc x i) \<longleftrightarrow> held x = Some (Process i)) \<and>
     (irq_section (hand x) \<longleftrightarrow> held x = Some Handler)"

lemma lock_mem: "lock_inv (x\<lparr>mem := m\<rparr>) = lock_inv x" "lock_inv (x\<lparr>finished := k\<rparr>) = lock_inv x"
  by (simp_all add: lock_inv_def)

lemma lock_proc:
  assumes "lock_inv x" and "in_section p = in_section (proc x i)"
  shows "lock_inv (x\<lparr>proc := (proc x)(i := p)\<rparr>)" "lock_inv (x\<lparr>mem := m, proc := (proc x)(i := p)\<rparr>)"
  using assms by (simp_all add: lock_inv_def)

lemma lock_take:
  assumes "lock_inv x" and "held x = None" and "in_section p"
  shows "lock_inv (x\<lparr>held := Some (Process i), proc := (proc x)(i := p)\<rparr>)"
  using assms by (simp add: lock_inv_def)

lemma lock_release:
  assumes "lock_inv x" and "in_section (proc x i)" and "\<not> in_section p"
  shows "lock_inv (x\<lparr>held := None, proc := (proc x)(i := p)\<rparr>)"
proof -
  from assms(1,2) have "held x = Some (Process i)" by (simp add: lock_inv_def)
  with assms show ?thesis by (auto simp: lock_inv_def)
qed

lemma lock_hand:
  assumes "lock_inv x" and "irq_section h = irq_section (hand x)"
  shows "lock_inv (x\<lparr>mem := m, hand := h\<rparr>)"
  using assms by (simp add: lock_inv_def)

lemma lock_step: "tstep c P sig x l y \<Longrightarrow> lock_inv x \<Longrightarrow> lock_inv y"
proof (induction rule: tstep.induct)
  case (irq_enter x)
  then show ?case by (simp add: lock_inv_def)
next
  case (irq_leave x w)
  then have "held x = Some Handler" by (simp add: lock_inv_def)
  with irq_leave show ?case by (simp add: lock_inv_def)
qed (simp_all add: lock_proc lock_take lock_release lock_hand)

lemma lock_run:
  assumes "trun c P sig x ls y" and "lock_inv x"
  shows "lock_inv y"
  using assms by (induction rule: trun.induct) (auto intro: lock_step)

lemma lock_at_rest: "lock_inv (at_rest d k)"
  by (simp add: lock_inv_def at_rest_def)

lemma lock_excludes:
  assumes "lock_inv x"
  shows "in_section (proc x i) \<Longrightarrow> in_section (proc x j) \<Longrightarrow> i = j"
    and "in_section (proc x i) \<Longrightarrow> \<not> irq_section (hand x)"
  using assms unfolding lock_inv_def by (metis holder.inject option.inject, metis holder.distinct(1) option.inject)

lemma io_keeps_ring:
  "K_READ_REG r d = Inr (v, e) \<Longrightarrow> fill e = fill d \<and> drain e = drain d \<and> dmaBuffer e = dmaBuffer d"
  "K_WRITE_REG r w d = Inr e \<Longrightarrow> fill e = fill d \<and> drain e = drain d \<and> dmaBuffer e = dmaBuffer d"
  by (auto simp: K_READ_REG_def K_WRITE_REG_def split: if_splits list.splits)

lemma lock_changes:
  assumes step: "tstep c P sig x l y" and inv: "lock_inv x"
    and ch: "(fill (mem y), drain (mem y), dmaBuffer (mem y)) \<noteq> (fill (mem x), drain (mem x), dmaBuffer (mem x))"
  shows "held x \<noteq> None \<and> (\<forall>j. held x \<noteq> Some (Process j) \<longrightarrow> proc y j = proc x j) \<and>
    (held x \<noteq> Some Handler \<longrightarrow> hand y = hand x)"
  using step
proof cases
  case (inside i n p q m)
  then have "in_section (proc x i)" by simp
  then have "held x = Some (Process i)" using inv by (simp add: lock_inv_def)
  with inside show ?thesis by simp
next
  case (inside_again i n k p q m)
  then have "in_section (proc x i)" by simp
  then have "held x = Some (Process i)" using inv by (simp add: lock_inv_def)
  with inside_again show ?thesis by simp
next
  case (irq_inside p q m)
  then have "irq_section (hand x)" by simp
  then have "held x = Some Handler" using inv by (simp add: lock_inv_def)
  with irq_inside show ?thesis by simp
next
  case (read f m)
  with ch io_keeps_ring(1) [OF read(4)] show ?thesis by simp
next
  case (ack f m)
  with ch io_keeps_ring(2) [OF ack(4)] show ?thesis by simp
qed (use ch in auto)

section \<open>Two sleepers\<close>

lemma quiet_labels: "quiet_run c s ls t \<Longrightarrow> Interrupted \<notin> set ls"
  by (induction rule: quiet_run.induct) auto

text \<open>Fill the ring, and let two processes go to sleep on it.\<close>

lemma full_ring_two_sleepers:
  assumes c: "cfg_ok c" and inv: "sys_inv c \<lparr>dev = d, sleeper = None, served = k\<rparr>"
    and ij: "i \<noteq> j" and n: "n \<noteq> 0" "m \<noteq> 0"
  shows "\<exists>ls t. trun c {i, j} False (at_rest d k) (ls @ [Sleep n, Sleep m])
      ((at_rest (dev t) (served t))\<lparr>proc := (\<lambda>_. P_Idle)(i := P_Check n, j := P_Check m)\<rparr>) \<and>
    Interrupted \<notin> set ls \<and> sys_inv c t \<and> occ (nbuf c) (dev t) = nbuf c"
proof -
  obtain ls t where t: "prompt_run c \<lparr>dev = d, sleeper = None, served = k\<rparr> ls t" "sleeper t = None"
    "occ (nbuf c) (dev t) = nbuf c" using fill_up [OF c inv] by auto
  note q = prompt_run_quiet [OF t(1)]
  have it: "sys_inv c t" by (rule prompt_run_inv [OF c t(1) inv])
  then have full: "initiateTransfer c n (dev t) = Inr (True, dev t)" if "n \<noteq> 0" for n
    using initiateTransfer_cases [OF c _ _ that] t(3) by (auto simp: sys_inv_def)
  let ?a = "at_rest (dev t) (served t)"
  let ?b = "?a\<lparr>proc := (\<lambda>_. P_Idle)(i := P_Check n)\<rparr>"
  let ?e = "?a\<lparr>proc := (\<lambda>_. P_Idle)(i := P_Check n, j := P_Check m)\<rparr>"
  have "t = \<lparr>dev = dev t, sleeper = None, served = served t\<rparr>" using t(2) by (cases t) simp
  then have "between i t = ?a" using between_at_rest by metis
  then have "trun c {i, j} False (at_rest d k) ls ?a"
    using quiet_run_between [OF _ q, of i "{i, j}" False] by (simp add: between_at_rest)
  moreover have "trun c {i, j} False ?a [Sleep n] ?b"
    using whole_call [of i "{i, j}" ?a n c True "dev t" False] full [OF n(1)] n by (simp add: at_rest_def)
  moreover have "trun c {i, j} False ?b [Sleep m] ?e"
    using whole_call [of j "{i, j}" ?b m c True "dev t" False] full [OF n(2)] n ij by (simp add: at_rest_def)
  ultimately have "trun c {i, j} False (at_rest d k) ((ls @ [Sleep n]) @ [Sleep m]) ?e"
    by (blast intro: trun_trans)
  then have "trun c {i, j} False (at_rest d k) (ls @ [Sleep n, Sleep m]) ?e" by simp
  with it t(3) quiet_labels [OF q] show ?thesis by blast
qed

text \<open>One completion wakes both.\<close>

lemma both_wake:
  assumes c: "cfg_ok c" and inv: "sys_inv c t" and full: "occ (nbuf c) (dev t) = nbuf c" and ij: "i \<noteq> j"
  shows "\<exists>u. trun c {i, j} False
      ((at_rest (dev t) (served t))\<lparr>proc := (\<lambda>_. P_Idle)(i := P_Check n, j := P_Check m)\<rparr>) [Irq, Wake]
      ((at_rest (dev u) (served u))\<lparr>proc := (\<lambda>_. P_Idle)(j := P_Again m)\<rparr>) \<and>
    sys_inv c u \<and> sleeper u = None \<and> occ (nbuf c) (dev u) = nbuf c"
proof -
  let ?N = "nbuf c" and ?a = "(at_rest (dev t) (served t))\<lparr>proc := (\<lambda>_. P_Idle)(i := P_Check n, j := P_Check m)\<rparr>"
  have N: "1 < ?N" using c by (simp add: cfg_ok_def)
  then have "0 < occ ?N (dev t)" using full by simp
  then obtain u where u: "dma_step c t Irq u" "occ ?N (dev u) = ?N - 1" using irq_exists [OF c inv] full by auto
  have iu: "sys_inv c u" by (rule sys_inv_step [OF c u(1) inv]) (simp add: prompt_def)
  then have w: "wait_condition (dev u)" using u(2) N iu wait_condition_iff [of "nbuf c" "dev u"] by (simp add: sys_inv_def)
  let ?b = "(at_rest (dev u) (served u))\<lparr>proc := (\<lambda>_. P_Idle)(i := P_Check n, j := P_Check m)\<rparr>"
  have irq: "trun c {i, j} False ?a [Irq] ?b"
    using u(1)
  proof (rule irqE)
    fix as v d'
    assume "u = t\<lparr>dev := d', served := Suc (served t)\<rparr>" "in_flight c t \<noteq> []"
      "dma_interrupt c ((dev t)\<lparr>rd_answers := as\<rparr>) = Inr (IRQ_HANDLED, v, d')"
    with whole_irq [of ?a c as v d' "{i, j}" False] show ?thesis
      by (simp add: at_rest_def started_def in_flight_def)
  qed
  let ?b1 = "?b\<lparr>proc := (proc ?b)(i := P_Again n)\<rparr>"
  let ?b2 = "?b1\<lparr>proc := (proc ?b1)(j := P_Again m)\<rparr>"
  have "trun c {i, j} False ?b [] ?b1" using ij w by (intro see_room) (auto simp: at_rest_def)
  with irq have "trun c {i, j} False ?a [Irq] ?b1" using trun_trans by fastforce
  moreover have "trun c {i, j} False ?b1 [] ?b2" using ij w by (intro see_room) (auto simp: at_rest_def)
  ultimately have "trun c {i, j} False ?a [Irq] ?b2" using trun_trans by fastforce
  moreover have "trun c {i, j} False ?b2 [Wake]
      (?b2\<lparr>mem := initiateTransfer_resume c n (dev u), proc := (proc ?b2)(i := P_Idle)\<rparr>)"
    using whole_resume [of i "{i, j}" ?b2 n c False] ij w by (simp add: at_rest_def)
  ultimately have run: "trun c {i, j} False ?a ([Irq] @ [Wake])
      (?b2\<lparr>mem := initiateTransfer_resume c n (dev u), proc := (proc ?b2)(i := P_Idle)\<rparr>)"
    by (rule trun_trans [rotated])
  let ?u = "u\<lparr>dev := initiateTransfer_resume c n (dev u), sleeper := None\<rparr>"
  have "?b2\<lparr>mem := initiateTransfer_resume c n (dev u), proc := (proc ?b2)(i := P_Idle)\<rparr> =
      (at_rest (dev ?u) (served ?u))\<lparr>proc := (\<lambda>_. P_Idle)(j := P_Again m)\<rparr>"
    using ij by (auto simp: at_rest_def fun_eq_iff)
  with run have "trun c {i, j} False ?a [Irq, Wake]
      ((at_rest (dev ?u) (served ?u))\<lparr>proc := (\<lambda>_. P_Idle)(j := P_Again m)\<rparr>)" by simp
  moreover have "sys_inv c ?u" using wake_effect [OF iu] u(2) N w by simp
  moreover have "ring_inv ?N (dev u)" using iu by (simp add: sys_inv_def)
  then have "occ ?N (dev ?u) = ?N" using occ_queue u(2) N by (simp add: initiateTransfer_resume_def)
  ultimately show ?thesis by (intro exI [of _ ?u]) simp
qed

text \<open>The second sleeper takes the lock with the ring full again.\<close>

lemma second_sleeper_overwrites:
  assumes c: "cfg_ok c" and inv: "sys_inv c u" and sl: "sleeper u = None" and full: "occ (nbuf c) (dev u) = nbuf c"
  shows "\<exists>d. trun c {i, j} False ((at_rest (dev u) (served u))\<lparr>proc := (\<lambda>_. P_Idle)(j := P_Again m)\<rparr>) [Interrupted]
      (at_rest d (served u)) \<and> occ (nbuf c) d = 1 \<and> drain d = drain (dev u) \<and> count (dmaBuffer d ! drain d) = m"
proof -
  let ?s = "u\<lparr>sleeper := Some m\<rparr>" and ?d = "initiateTransfer_resume c m (dev u)"
  let ?x = "(at_rest (dev u) (served u))\<lparr>proc := (\<lambda>_. P_Idle)(j := P_Again m)\<rparr>"
  have inv': "sys_inv c ?s" using inv by (simp add: sys_inv_def in_flight_def)
  have step: "dma_step c ?s Interrupted (?s\<lparr>dev := ?d, sleeper := None\<rparr>)"
    using dma_step.interrupted [of ?s m c] by simp
  note o = interrupted_full [OF c inv' step]
  have "\<not> wait_condition (dev u)" using inv full wait_condition_iff [of "nbuf c" "dev u"] by (simp add: sys_inv_def)
  then have "trun c {i, j} False ?x [Interrupted] (?x\<lparr>mem := ?d, proc := (proc ?x)(j := P_Idle)\<rparr>)"
    using whole_resume [of j "{i, j}" ?x m c False] by (simp add: at_rest_def)
  moreover have "?x\<lparr>mem := ?d, proc := (proc ?x)(j := P_Idle)\<rparr> = at_rest ?d (served u)"
    by (simp add: at_rest_def fun_eq_iff)
  ultimately show ?thesis using o full by (intro exI [of _ ?d]) simp
qed

end
