(* ===== verification/Thread_Properties.thy ===== *)
theory Thread_Properties
  imports Dma_Schedules Kyouko2_Properties
begin

text \<open>
  The properties of the DMA ring with the spinlock and the statements of the sections made
  explicit: what one process sees is what \<open>Dma_Steps\<close> says, the ring changes only under the lock,
  and what a second process does to the wake-up.
\<close>

lemma sample_call:
  "trun kyouko2_cfg {0} sig (at_rest sample_dev 0) [Submit 1]
     (at_rest ((queue_request 8 1 sample_dev)\<lparr>bus := kick_events kyouko2_cfg (dma_handle sample_dev ! 0, 1)\<rparr>) 0)"
proof -
  let ?d = "(queue_request 8 1 sample_dev)\<lparr>bus := kick_events kyouko2_cfg (dma_handle sample_dev ! 0, 1)\<rparr>"
  have e: "fill sample_dev = 0" "bus sample_dev = []" by (simp_all add: sample_dev_def)
  have "initiateTransfer kyouko2_cfg 1 sample_dev = Inr (False, ?d)"
    using initiateTransfer_cases [OF kyouko2_cfg_ok, of sample_dev 1] sample_ring sample_live sample_occ e
    by (simp add: nbuf_kyouko2)
  with whole_call [of 0 "{0}" "at_rest sample_dev 0" 1 kyouko2_cfg False ?d sig]
  show ?thesis by (simp add: at_rest_def fun_upd_idem)
qed

text \<open>A process about to set \<open>isFull\<close> in the buffer it queues.\<close>

lemma sample_section:
  "\<exists>x y. trun kyouko2_cfg {0} False (at_rest sample_dev 0) [] x \<and> tstep kyouko2_cfg {0} False x None y \<and>
     mem x = sample_dev \<and> mem y = set_isFull_fill sample_dev \<and> held x = Some (Process 0)"
proof -
  let ?x0 = "at_rest sample_dev 0"
  let ?x1 = "?x0\<lparr>proc := (proc ?x0)(0 := P_Enter 1)\<rparr>"
  let ?x2 = "?x1\<lparr>held := Some (Process 0), proc := (proc ?x1)(0 := P_In 1 (transfer_prog kyouko2_cfg 1))\<rparr>"
  have "\<exists>q. psteps (transfer_prog kyouko2_cfg 1) sample_dev (Stmt (Inr \<circ> set_isFull_fill) q) sample_dev"
  proof -
    have e: "fill sample_dev = drain sample_dev" "isFull (dmaBuffer sample_dev ! fill sample_dev) \<noteq> 1"
      by (simp_all add: sample_dev_def)
    show ?thesis unfolding transfer_prog_def
      by (rule exI, rule psteps.extend [OF psteps_step [OF pstep.test]], simp only: e(1) if_True)
         (use e in simp)
  qed
  then obtain q where q: "psteps (transfer_prog kyouko2_cfg 1) sample_dev (Stmt (Inr \<circ> set_isFull_fill) q) sample_dev" ..
  let ?x3 = "?x2\<lparr>mem := sample_dev, proc := (proc ?x2)(0 := P_In 1 (Stmt (Inr \<circ> set_isFull_fill) q))\<rparr>"
  have "trun kyouko2_cfg {0} False ?x0 [] ?x1"
    by (rule trun_silent [OF trun.nil tstep.call]) (simp_all add: at_rest_def)
  moreover have "tstep kyouko2_cfg {0} False ?x1 None ?x2" by (rule tstep.enter) (simp_all add: at_rest_def)
  ultimately have "trun kyouko2_cfg {0} False ?x0 [] ?x2" by (rule trun_silent)
  moreover have "trun kyouko2_cfg {0} False ?x2 [] ?x3" by (rule run_inside) (use q in \<open>simp_all add: at_rest_def\<close>)
  ultimately have "trun kyouko2_cfg {0} False ?x0 [] ?x3" using trun_trans by fastforce
  moreover have "tstep kyouko2_cfg {0} False ?x3 None
      (?x3\<lparr>mem := set_isFull_fill sample_dev, proc := (proc ?x3)(0 := P_In 1 q)\<rparr>)"
    by (rule tstep.inside [OF _ _ pstep.stmt]) (simp_all add: comp_def)
  ultimately show ?thesis
    by (intro exI [of _ ?x3] exI [of _ "?x3\<lparr>mem := set_isFull_fill sample_dev, proc := (proc ?x3)(0 := P_In 1 q)\<rparr>"])
       simp
qed

text \<open>C3: The statement-level system with one process: its sections, interleaved with the register
  accesses of the handler, are a run of the steps of \<open>Dma_Steps\<close> with the same labels, and whenever the
  lock is free the ring and the transfers started are those of the coarse state.\<close>

theorem interleavings_are_runs:
  assumes "cfg_ok c" and "live d" and "trun c {i} sig (at_rest d k) ls x"
  shows "\<exists>s. dma_run c \<lparr>dev = d, sleeper = None, served = k\<rparr> ls s \<and> served s = finished x \<and>
    (held x = None \<longrightarrow> requests (nbuf c) (mem x) = requests (nbuf c) (dev s) \<and>
       kicks c 0 (bus (mem x)) = kicks c 0 (bus (dev s)))"
proof -
  obtain s where "dma_run c \<lparr>dev = d, sleeper = None, served = k\<rparr> ls s" and "sim c i s x"
    using sim_run [OF assms(1,3) sim_at_rest [OF assms(2)]] by blast
  with sim_free [OF assms(1) \<open>sim c i s x\<close>] show ?thesis
    by (intro exI [of _ s]) (simp add: sim_def)
qed

theorem interleavings_are_runs_witness:
  "\<exists>s. dma_run kyouko2_cfg \<lparr>dev = sample_dev, sleeper = None, served = 0\<rparr> [Submit 1] s \<and> served s = 0"
  using interleavings_are_runs [OF kyouko2_cfg_ok sample_live sample_call] by (auto simp: at_rest_def)

text \<open>C4: Without signals, the statement-level system with one process and \<open>Dma_Steps\<close> have the same runs,
  wherever the statements of the process, of the handler and of the card fall.\<close>

theorem quiet_traces_same:
  assumes "cfg_ok c" and "sys_inv c \<lparr>dev = d, sleeper = None, served = k\<rparr>"
  shows "(\<exists>x. trun c {i} False (at_rest d k) ls x) \<longleftrightarrow>
     (\<exists>s. quiet_run c \<lparr>dev = d, sleeper = None, served = k\<rparr> ls s)"
proof
  assume "\<exists>x. trun c {i} False (at_rest d k) ls x"
  then obtain x where x: "trun c {i} False (at_rest d k) ls x" by blast
  have "live d" using assms(2) by (simp add: sys_inv_def)
  from calm_run [OF assms(1) x sim_at_rest [OF this]] assms(2)
  show "\<exists>s. quiet_run c \<lparr>dev = d, sleeper = None, served = k\<rparr> ls s"
    by (auto simp: alert_def at_rest_def)
next
  assume "\<exists>s. quiet_run c \<lparr>dev = d, sleeper = None, served = k\<rparr> ls s"
  then obtain s where "quiet_run c \<lparr>dev = d, sleeper = None, served = k\<rparr> ls s" by blast
  from quiet_run_between [OF _ this, of i "{i}" False]
  show "\<exists>x. trun c {i} False (at_rest d k) ls x" by (auto simp: between_at_rest)
qed

theorem quiet_traces_same_witness:
  "\<exists>s. quiet_run kyouko2_cfg sample_sys [Submit 1] s"
  using quiet_traces_same [OF kyouko2_cfg_ok, of sample_dev 0 0 "[Submit 1]"] sample_sys_inv sample_call [of False]
  unfolding sample_sys_def by blast

text \<open>C5: With any number of processes, and signals or not: two processes are never in a section at once,
  nor a process and the handler, and a statement that changes \<open>fill\<close>, \<open>drain\<close> or a buffer's state runs
  under the lock, while everybody but the holder of the lock stands still.\<close>

theorem ring_changes_under_lock:
  assumes "trun c P sig (at_rest d k) ls x" and "tstep c P sig x l y"
    and "(fill (mem y), drain (mem y), dmaBuffer (mem y)) \<noteq> (fill (mem x), drain (mem x), dmaBuffer (mem x))"
  shows "(\<forall>i j. in_section (proc x i) \<and> in_section (proc x j) \<longrightarrow> i = j) \<and>
    (\<forall>i. in_section (proc x i) \<longrightarrow> \<not> irq_section (hand x)) \<and> held x \<noteq> None \<and>
    (\<forall>j. held x \<noteq> Some (Process j) \<longrightarrow> proc y j = proc x j) \<and>
    (held x \<noteq> Some Handler \<longrightarrow> hand y = hand x)"
proof -
  have inv: "lock_inv x" by (rule lock_run [OF assms(1) lock_at_rest])
  show ?thesis using lock_excludes [OF inv] lock_changes [OF assms(2) inv assms(3)] by blast
qed

theorem ring_changes_under_lock_witness:
  "\<exists>x y. trun kyouko2_cfg {0} False (at_rest sample_dev 0) [] x \<and> tstep kyouko2_cfg {0} False x None y \<and>
     mem y \<noteq> mem x \<and> held x = Some (Process 0) \<and> hand y = hand x"
proof -
  obtain x y where xy: "trun kyouko2_cfg {0} False (at_rest sample_dev 0) [] x" "tstep kyouko2_cfg {0} False x None y"
    "mem x = sample_dev" "mem y = set_isFull_fill sample_dev" "held x = Some (Process 0)"
    using sample_section by blast
  have "isFull (dmaBuffer (mem y) ! 0) \<noteq> isFull (dmaBuffer (mem x) ! 0)"
    unfolding xy(3,4) by (simp add: set_isFull_fill_def sample_dev_def)
  then have "dmaBuffer (mem y) \<noteq> dmaBuffer (mem x)" by auto
  then have "mem y \<noteq> mem x" "hand y = hand x"
    using ring_changes_under_lock [OF xy(1,2)] xy(5) by auto
  with xy show ?thesis by blast
qed

text \<open>C6: Two processes asleep on a full ring are both woken by one completion; each queues its request
  without testing again. The first fills the ring, the second overwrites the request the card is
  working on and the ring then counts one request instead of all of them. No signal is needed.\<close>

theorem two_sleepers_lose_requests:
  assumes c: "cfg_ok c" and inv: "sys_inv c \<lparr>dev = d, sleeper = None, served = k\<rparr>"
    and ij: "i \<noteq> j" and n: "n \<noteq> 0" "m \<noteq> 0"
  shows "\<exists>ls x y. trun c {i, j} False (at_rest d k) (ls @ [Sleep n, Sleep m, Irq, Wake]) x \<and>
    Interrupted \<notin> set ls \<and> occ (nbuf c) (mem x) = nbuf c \<and> trun c {i, j} False x [Interrupted] y \<and> held y = None \<and>
    occ (nbuf c) (mem y) = 1 \<and> drain (mem y) = drain (mem x) \<and>
    count (dmaBuffer (mem y) ! drain (mem y)) = m"
proof -
  obtain ls t where t: "trun c {i, j} False (at_rest d k) (ls @ [Sleep n, Sleep m])
      ((at_rest (dev t) (served t))\<lparr>proc := (\<lambda>_. P_Idle)(i := P_Check n, j := P_Check m)\<rparr>)"
    "Interrupted \<notin> set ls" "sys_inv c t" "occ (nbuf c) (dev t) = nbuf c"
    using full_ring_two_sleepers [OF c inv ij n] by blast
  obtain u where u: "trun c {i, j} False
      ((at_rest (dev t) (served t))\<lparr>proc := (\<lambda>_. P_Idle)(i := P_Check n, j := P_Check m)\<rparr>) [Irq, Wake]
      ((at_rest (dev u) (served u))\<lparr>proc := (\<lambda>_. P_Idle)(j := P_Again m)\<rparr>)"
    "sys_inv c u" "sleeper u = None" "occ (nbuf c) (dev u) = nbuf c"
    using both_wake [OF c t(3,4) ij] by blast
  let ?x = "(at_rest (dev u) (served u))\<lparr>proc := (\<lambda>_. P_Idle)(j := P_Again m)\<rparr>"
  obtain e where e: "trun c {i, j} False ?x [Interrupted] (at_rest e (served u))"
    "occ (nbuf c) e = 1" "drain e = drain (dev u)" "count (dmaBuffer e ! drain e) = m"
    using second_sleeper_overwrites [OF c u(2-4), of i j m] by blast
  have run: "trun c {i, j} False (at_rest d k) (ls @ [Sleep n, Sleep m, Irq, Wake]) ?x"
    using trun_trans [OF u(1) t(1)] by simp
  show ?thesis
    by (rule exI [of _ ls], rule exI [of _ ?x], rule exI [of _ "at_rest e (served u)"])
       (use run t(2) e u(4) in \<open>simp add: at_rest_def\<close>)
qed

theorem two_sleepers_lose_requests_witness:
  "\<exists>ls x y. trun kyouko2_cfg {1, 2} False (at_rest sample_dev 0) (ls @ [Sleep 4, Sleep 5, Irq, Wake]) x \<and> occ 8 (mem x) = 8 \<and>
     trun kyouko2_cfg {1, 2} False x [Interrupted] y \<and> occ 8 (mem y) = 1"
  using two_sleepers_lose_requests [OF kyouko2_cfg_ok, of sample_dev 0 1 2 4 5] sample_sys_inv
  unfolding sample_sys_def nbuf_kyouko2 by (simp del: One_nat_def) blast

end
