(* ===== verification/File_Ops.thy ===== *)
theory File_Ops
  imports User_Programs
begin

text \<open>
  The device file: the \<open>file_operations\<close> table of each module as the kernel calls through it,
  and the test programs run against the modules. Registers a program has mapped are on the same
  bus as the driver's accesses.
\<close>

section \<open>Tables\<close>

text \<open>A missing \<open>unlocked_ioctl\<close> or \<open>mmap\<close> is \<open>None\<close>.\<close>

record ('s, 'c, 'r) file_operations =
  fop_open :: "'s \<Rightarrow> fault + int \<times> 's"
  fop_release :: "'s \<Rightarrow> fault + int \<times> 's"
  fop_ioctl :: "('c \<Rightarrow> u64 \<Rightarrow> 's \<Rightarrow> fault + 'r \<times> 's) option"
  fop_mmap :: "(vma \<Rightarrow> 's \<Rightarrow> int) option"

definition launch_fops :: "(kyouko2, unit, int) file_operations" where
  "launch_fops = \<lparr>fop_open = (\<lambda>d. Inr (launch_open d)), fop_release = (\<lambda>d. Inr (launch_release d)),
     fop_ioctl = None, fop_mmap = None\<rparr>"

definition contact_fops :: "kservices \<Rightarrow> (kyouko2, unit, int) file_operations" where
  "contact_fops K = \<lparr>fop_open = (\<lambda>d. Inr (contact_open K d)), fop_release = contact_release,
     fop_ioctl = None, fop_mmap = Some (contact_mmap K)\<rparr>"

definition draw_fops :: "kservices \<Rightarrow> (kyouko2, draw_cmd, int) file_operations" where
  "draw_fops K = \<lparr>fop_open = draw_open K, fop_release = draw_release,
     fop_ioctl = Some draw_ioctl, fop_mmap = Some (draw_mmap K)\<rparr>"

definition dma_fops :: "kservices \<Rightarrow> (ring_dev, dma_cmd, ioctl_result) file_operations" where
  "dma_fops K = \<lparr>fop_open = (\<lambda>d. Inr (kyouko2_open K d)), fop_release = kyouko2_release,
     fop_ioctl = Some (kyouko2_ioctl K), fop_mmap = Some (kyouko2_mmap K)\<rparr>"

text \<open>\<open>irqs\<close>: the interrupts that arrive while \<open>ioctl\<close> spins.\<close>

definition f_fops :: "dataTypes \<Rightarrow> kservices \<Rightarrow> u32 list list \<Rightarrow> (f_state, f_cmd, ioctl_result) file_operations" where
  "f_fops D K irqs = \<lparr>fop_open = (\<lambda>s. Inr (f_open K s)), fop_release = f_release D,
     fop_ioctl = Some (f_ioctl D K irqs), fop_mmap = Some (f_mmap K)\<rparr>"

section \<open>Programs\<close>

text \<open>
  What a program sees: a kernel fault ends everything, an access through a failed mapping only the
  program. The program's registers are usable once a \<open>mmap\<close> has succeeded.
\<close>

datatype user_stop = Kernel_Oops fault | Segfault

record 's session =
  device :: 's
  regs_mapped :: bool

abbreviation (input) "ENOTTY \<equiv> 25 :: int"
abbreviation (input) "ENODEV \<equiv> 19 :: int"

definition file_call :: "fault + 'r \<times> 's \<Rightarrow> 's session \<Rightarrow> user_stop + 's session" where
  "file_call r u = (case r of Inl e \<Rightarrow> Inl (Kernel_Oops e) | Inr (ret, d) \<Rightarrow> Inr (u\<lparr>device := d\<rparr>))"

definition file_mmap :: "('s, 'c, 'r) file_operations \<Rightarrow> vma \<Rightarrow> 's \<Rightarrow> int" where
  "file_mmap F v d = (case fop_mmap F of None \<Rightarrow> - ENODEV | Some f \<Rightarrow> f v d)"

text \<open>One step of a program on the device; the card answers the reads of mapped registers too.\<close>

fun user_step :: "('a kyouko2_scheme, 'c, 'r) file_operations \<Rightarrow> 'c user_event \<Rightarrow> 'a kyouko2_scheme session
    \<Rightarrow> user_stop + 'a kyouko2_scheme session" where
  "user_step F U_Open u = file_call (fop_open F (device u)) u"
| "user_step F U_Close u = file_call (fop_release F (device u)) u"
| "user_step F (U_Sleep n) u = Inr u"
| "user_step F (U_Mmap len off) u =
     Inr (u\<lparr>regs_mapped := (file_mmap F \<lparr>vm_pgoff = drop_bit PAGE_SHIFT off, vm_start = 0, vm_end = len\<rparr> (device u) = 0)\<rparr>)"
| "user_step F (U_Read i) u =
     (if \<not> regs_mapped u then Inl Segfault
      else case rd_answers (device u) of
             [] \<Rightarrow> Inl (Kernel_Oops Still_Polling)
           | v # rest \<Rightarrow> Inr (u\<lparr>device := (device u)\<lparr>rd_answers := rest, bus := bus (device u) @ [Rd i v]\<rparr>\<rparr>))"
| "user_step F (U_Write i v) u =
     (if \<not> regs_mapped u then Inl Segfault
      else Inr (u\<lparr>device := (device u)\<lparr>bus := bus (device u) @ [Wr i v]\<rparr>\<rparr>))"
| "user_step F (U_Frame i v) u = (if \<not> regs_mapped u then Inl Segfault else Inr u)"
| "user_step F (U_Store a v) u = Inr u"
| "user_step F (U_Ioctl c a) u =
     (case fop_ioctl F of None \<Rightarrow> Inr u | Some f \<Rightarrow> file_call (f c a (device u)) u)"

fun run_program :: "('a kyouko2_scheme, 'c, 'r) file_operations \<Rightarrow> 'c user_event list \<Rightarrow> 'a kyouko2_scheme session
    \<Rightarrow> user_stop + 'a kyouko2_scheme session" where
  "run_program F [] u = Inr u"
| "run_program F (e # es) u = (case user_step F e u of Inl x \<Rightarrow> Inl x | Inr u \<Rightarrow> run_program F es u)"

text \<open>\<open>testlaunchModule.c\<close> and \<open>testcontactWithGraphicCard.c\<close>.\<close>

definition launch_main :: "unit user_event list" where
  "launch_main = [U_Open, U_Close]"

definition contact_main :: "unit user_event list" where
  "contact_main = [U_Open, U_Mmap 65536 0, U_Read (reg_index 0x0020), U_Close]"

text \<open>A program in user space before its first call.\<close>

definition fresh :: "'s \<Rightarrow> 's session" where
  "fresh d = \<lparr>device = d, regs_mapped = False\<rparr>"

section \<open>Lemmas\<close>

lemma contact_session:
  assumes io: "ioremap_nocache K (p_control_base d) = c" "ioremap_nocache K (p_card_ram_base d) = r"
    and nz: "c \<noteq> 0" "r \<noteq> 0" "c \<noteq> r" and m: "iomaps d = []" and mm: "\<forall>p n. io_remap_pfn_range K p n = 0"
    and a: "rd_answers d = ram # rest"
  shows "\<exists>u. run_program (contact_fops K) contact_main (fresh d) = Inr u \<and> iomaps (device u) = [] \<and>
    rd_answers (device u) = rest \<and> bus (device u) = bus d @ [Rd 8 ram, Wr 0x400 1]"
  using assms
  by (simp add: contact_main_def contact_fops_def fresh_def contact_open_def file_call_def ioremap_as_def call_def
      Let_def file_mmap_def contact_mmap_def contact_release_def contact_write_reg_def live_def iounmap_def reg_index_def)

lemma draw_open_faults: "\<not> live d \<Longrightarrow> run_program (draw_fops K) (draw_main ram) (fresh d) = Inl (Kernel_Oops (Wild_Access 0x20))"
  by (simp add: draw_main_def draw_fops_def fresh_def draw_open_def file_call_def K_READ_REG_def)

end
