(* ===== verification/Module_Cycle.thy ===== *)
theory Module_Cycle
  imports File_Ops
begin

text \<open>
  Loading and unloading. What each module registers with the kernel (its device file and its PCI driver),
  what the module loader does with the result of its init function, and what is left registered
  afterwards. The locale \<open>clean_module\<close> states when a module cleans up after itself.
\<close>

section \<open>PCI drivers\<close>

text \<open>\<open>PCI_DEVICE(vendor, device)\<close>; a table ends with an entry of zeroes.\<close>

type_synonym pci_id = "u32 \<times> u32"

record 's pci_driver =
  drv_name :: string
  drv_ids :: "pci_id list"
  drv_probe :: "nat \<Rightarrow> 's \<Rightarrow> 's"
  drv_remove :: "nat \<Rightarrow> 's \<Rightarrow> 's"

definition kyouko2_dev_ids :: "pci_id list" where
  "kyouko2_dev_ids = [(PCI_VENDOR_ID_CCORSI, PCI_DEVICE_ID_KYOUKO2), (0, 0)]"

definition kyouko2_remove :: "nat \<Rightarrow> 's \<Rightarrow> 's" where
  "kyouko2_remove pci_dev d = d"

definition dma_pci_driver :: "kservices \<Rightarrow> ring_dev pci_driver" where
  "dma_pci_driver K = \<lparr>drv_name = ''kyouko2_pci_driver'', drv_ids = kyouko2_dev_ids,
     drv_probe = kyouko2_probe K, drv_remove = kyouko2_remove\<rparr>"

definition draw_ids :: "pci_id list" where
  "draw_ids = [(0x1234, 0x1113), (0, 0)]"

definition draw_remove :: "nat \<Rightarrow> 's \<Rightarrow> 's" where
  "draw_remove pci_dev d = d"

definition draw_pci_driver :: "kservices \<Rightarrow> kyouko2 pci_driver" where
  "draw_pci_driver K = \<lparr>drv_name = ''kyouko2_pci_driver'', drv_ids = draw_ids,
     drv_probe = draw_probe K, drv_remove = draw_remove\<rparr>"

definition contact_ids :: "pci_id list" where
  "contact_ids = [(0x1234, 0x1113), (0, 0)]"

definition contact_remove :: "nat \<Rightarrow> 's \<Rightarrow> 's" where
  "contact_remove pci_dev d = d"

definition contact_pci_driver :: "kservices \<Rightarrow> kyouko2 pci_driver" where
  "contact_pci_driver K = \<lparr>drv_name = ''kyouko2_pci_driver'', drv_ids = contact_ids,
     drv_probe = contact_probe K, drv_remove = contact_remove\<rparr>"

text \<open>\<open>driver.c\<close> takes its table from the missing \<open>dataTypes.h\<close>.\<close>

definition f_remove :: "nat \<Rightarrow> 's \<Rightarrow> 's" where
  "f_remove pci s = s"

definition f_pci_driver :: "pci_id list \<Rightarrow> kservices \<Rightarrow> ring_dev pci_driver" where
  "f_pci_driver ids K = \<lparr>drv_name = ''kyouko2_Driver'', drv_ids = ids, drv_probe = f_probe K, drv_remove = f_remove\<rparr>"

section \<open>Modules and the loader\<close>

text \<open>
  A module as the kernel sees it. \<open>mod_fresh\<close> gives its variables the values in the file;
  \<open>mod_regs\<close> says whether its device file and its PCI driver are registered.
\<close>

record ('s, 'c, 'r) kernel_module =
  mod_init :: "'s \<Rightarrow> fault + int \<times> 's"
  mod_exit :: "'s \<Rightarrow> fault + 's"
  mod_fops :: "('s, 'c, 'r) file_operations"
  mod_irq :: "'s \<Rightarrow> fault + irqreturn \<times> bool \<times> 's"
  mod_fresh :: "'s \<Rightarrow> 's"
  mod_regs :: "'s \<Rightarrow> bool \<times> bool"

definition regs :: "'a kyouko2_scheme \<Rightarrow> bool \<times> bool" where
  "regs d = (cdev_added d, pci_registered d)"

text \<open>Static data starts as zeroes; what is on the bus and in the kernel's tables stays.\<close>

definition fresh_dev :: "'a kyouko2_scheme \<Rightarrow> 'a kyouko2_scheme" where
  "fresh_dev d = d\<lparr>p_control_base := 0, p_card_ram_base := 0, k_control_base := 0, k_card_ram_base := 0, p_pci_dev := None\<rparr>"

definition fresh_ring :: "nat \<Rightarrow> ring_dev \<Rightarrow> ring_dev" where
  "fresh_ring n d = (fresh_dev d)\<lparr>dmaBuffer := replicate n \<lparr>buffer = 0, count = 0, isFull = 0\<rparr>, userVirtAddr := replicate n 0,
     dma_handle := replicate n 0, fill := 0, drain := 0, user_size := 0\<rparr>"

definition no_irq :: "'s \<Rightarrow> fault + irqreturn \<times> bool \<times> 's" where
  "no_irq d = Inr (IRQ_NONE, False, d)"

definition launch_module :: "kservices \<Rightarrow> (kyouko2, unit, int) kernel_module" where
  "launch_module K = \<lparr>mod_init = (\<lambda>d. Inr (launchModule_init K d)), mod_exit = (\<lambda>d. Inr (launchModule_exit d)),
     mod_fops = launch_fops, mod_irq = no_irq, mod_fresh = fresh_dev, mod_regs = (\<lambda>d. (cdev_added d, False))\<rparr>"

definition contact_module :: "kservices \<Rightarrow> (kyouko2, unit, int) kernel_module" where
  "contact_module K = \<lparr>mod_init = contact_init K, mod_exit = contact_exit, mod_fops = contact_fops K, mod_irq = no_irq,
     mod_fresh = fresh_dev, mod_regs = regs\<rparr>"

definition draw_module :: "kservices \<Rightarrow> (kyouko2, draw_cmd, int) kernel_module" where
  "draw_module K = \<lparr>mod_init = draw_init K, mod_exit = (\<lambda>d. Inr (draw_exit d)), mod_fops = draw_fops K, mod_irq = no_irq,
     mod_fresh = fresh_dev, mod_regs = regs\<rparr>"

definition dma_module :: "kservices \<Rightarrow> (ring_dev, dma_cmd, ioctl_result) kernel_module" where
  "dma_module K = \<lparr>mod_init = dmaBuffer_init K, mod_exit = (\<lambda>d. Inr (dmaBuffer_exit d)), mod_fops = dma_fops K,
     mod_irq = dma_interrupt kyouko2_cfg, mod_fresh = fresh_ring BUFFERS, mod_regs = regs\<rparr>"

definition f_module :: "dataTypes \<Rightarrow> kservices \<Rightarrow> u32 list list \<Rightarrow> (f_state, f_cmd, ioctl_result) kernel_module" where
  "f_module D K irqs = \<lparr>mod_init = my_init_function K, mod_exit = (\<lambda>s. Inr (my_exit_function s)), mod_fops = f_fops D K irqs,
     mod_irq = (\<lambda>s. case f_dma_interrupt D (ring s) of Inl e \<Rightarrow> Inl e | Inr (h, w, d) \<Rightarrow> Inr (h, w, s\<lparr>ring := d\<rparr>)),
     mod_fresh = (\<lambda>s. \<lparr>ring = fresh_ring (dt_NUM_BUFS D) (ring s), graphics_on = 0, dma_mapped = 0\<rparr>),
     mod_regs = (\<lambda>s. regs (ring s))\<rparr>"

text \<open>
  The loader keeps the code of a module in memory unless its init function returns a negative
  error. \<open>.owner = THIS_MODULE\<close>: the module stays while a file of it is open.
\<close>

record 's loader =
  present :: bool
  files :: nat
  image :: 's

inductive mod_step :: "('s, 'c, 'r) kernel_module \<Rightarrow> 's loader \<Rightarrow> 's loader \<Rightarrow> bool" for M where
  load: "\<not> present s \<Longrightarrow> mod_init M (mod_fresh M (image s)) = Inr (r, d) \<Longrightarrow> mod_step M s (s\<lparr>present := (0 \<le> r), image := d\<rparr>)"
| unload: "present s \<Longrightarrow> files s = 0 \<Longrightarrow> mod_exit M (image s) = Inr d \<Longrightarrow> mod_step M s (s\<lparr>present := False, image := d\<rparr>)"
| opened: "present s \<Longrightarrow> fst (mod_regs M (image s)) \<Longrightarrow> fop_open (mod_fops M) (image s) = Inr (r, d) \<Longrightarrow>
     mod_step M s (s\<lparr>files := (if r = 0 then Suc (files s) else files s), image := d\<rparr>)"
| closed: "present s \<Longrightarrow> 0 < files s \<Longrightarrow> fop_release (mod_fops M) (image s) = Inr (r, d) \<Longrightarrow>
     mod_step M s (s\<lparr>files := files s - 1, image := d\<rparr>)"
| command: "present s \<Longrightarrow> 0 < files s \<Longrightarrow> fop_ioctl (mod_fops M) = Some f \<Longrightarrow> f c a (image s) = Inr (ret, d) \<Longrightarrow>
     mod_step M s (s\<lparr>image := d\<rparr>)"
| interrupt: "present s \<Longrightarrow> mod_irq M (image s) = Inr (h, w, d) \<Longrightarrow> mod_step M s (s\<lparr>image := d\<rparr>)"

inductive mod_run :: "('s, 'c, 'r) kernel_module \<Rightarrow> 's loader \<Rightarrow> 's loader \<Rightarrow> bool" for M where
  start: "mod_run M s s"
| step: "mod_run M s t \<Longrightarrow> mod_step M t u \<Longrightarrow> mod_run M s u"

text \<open>The code is gone, but the kernel would still call it; a file is open on code that is gone.\<close>

definition dangling :: "('s, 'c, 'r) kernel_module \<Rightarrow> 's loader \<Rightarrow> bool" where
  "dangling M s \<longleftrightarrow> \<not> present s \<and> (mod_regs M (image s) \<noteq> (False, False) \<or> files s \<noteq> 0)"

section \<open>Modules that clean up\<close>

locale clean_module =
  fixes M :: "('s, 'c, 'r) kernel_module" and fine :: bool
  assumes fresh_keeps: "mod_regs M (mod_fresh M d) = mod_regs M d"
    and init_fails_clean: "fine \<Longrightarrow> mod_init M d = Inr (r, d') \<Longrightarrow> mod_regs M d = (False, False) \<Longrightarrow> r < 0 \<Longrightarrow> mod_regs M d' = (False, False)"
    and exit_clears: "mod_exit M d = Inr d' \<Longrightarrow> mod_regs M d' = (False, False)"
begin

lemma stays_clean: "fine \<Longrightarrow> mod_step M s t \<Longrightarrow> \<not> dangling M s \<Longrightarrow> \<not> dangling M t"
  by (erule mod_step.cases) (auto simp: dangling_def fresh_keeps not_le dest: init_fails_clean exit_clears)

lemma run_clean: "mod_run M s t \<Longrightarrow> fine \<Longrightarrow> \<not> dangling M s \<Longrightarrow> \<not> dangling M t"
  by (induction rule: mod_run.induct) (auto dest: stays_clean)

end

text \<open>Either the device file cannot be registered, or everything after that succeeds.\<close>

definition pci_works :: "kservices \<Rightarrow> bool" where
  "pci_works K \<longleftrightarrow> cdev_add K \<noteq> 0 \<or> fst (pci_register_driver K) = 0 \<and> (\<forall>p. pci_enable_device K p = 0)"

lemma regs_sel [simp]:
  "regs (fresh_dev d) = regs d" "regs (call k d) = regs d" "regs (fresh_ring n r) = regs r"
  "regs (d\<lparr>p_control_base := a, p_card_ram_base := b, p_pci_dev := c\<rparr>) = regs d"
  by (simp_all add: regs_def fresh_dev_def fresh_ring_def call_def)

lemma regs_add: "add_cdev K d = (r, d') \<Longrightarrow> r = cdev_add K \<and> regs d' = (cdev_add K = 0, snd (regs d)) \<and> p_pci_dev d' = p_pci_dev d"
  by (auto simp: add_cdev_def regs_def call_def)

lemma regs_register:
  assumes "register_driver K probe d = (r, d')" and "\<And>p d. regs (probe p d) = regs d"
  shows "r = fst (pci_register_driver K) \<and> regs d' = (fst (regs d), if r = 0 then True else snd (regs d))"
  using assms(1) assms(2) [of _ "call Pci_Register d"]
  by (auto simp: register_driver_def regs_def call_def Let_def split: prod.splits if_splits option.splits)

lemma regs_enable: "enable_device K d = Inr (r, d') \<Longrightarrow> regs d' = regs d \<and> (\<exists>p. p_pci_dev d = Some p \<and> r = pci_enable_device K p)"
  by (auto simp: enable_device_def with_pci_dev_def Let_def split: option.splits if_splits)

lemma regs_probe [simp]:
  "regs (contact_probe K p d) = regs d" "regs (draw_probe K p d) = regs d" "regs (kyouko2_probe K p d) = regs d"
  "regs (f_probe K p r) = regs r"
  by (simp_all add: contact_probe_def draw_probe_def kyouko2_probe_def f_probe_def)

text \<open>The common shape of the init functions: what is registered when they return.\<close>

lemma init_regs:
  assumes "(let (flag, d1) = add_cdev K d in if flag \<noteq> 0 then Inr (flag, d1)
      else let (flag, d2) = register_driver K probe d1 in if go flag then enable_device K d2 else Inr (flag, d2)) = Inr (r, d')"
    and "\<And>p d. regs (probe p d) = regs d" and "\<And>f. f = 0 \<Longrightarrow> go f" and "regs d = (False, False)" and "pci_works K"
  shows "r = 0 \<or> regs d' = (False, False)"
proof -
  obtain f1 d1 where a: "add_cdev K d = (f1, d1)" by fastforce
  note ra = regs_add [OF a]
  obtain f2 d2 where b: "register_driver K probe d1 = (f2, d2)" by fastforce
  note rb = regs_register [OF b assms(2)]
  show ?thesis
  proof (cases "cdev_add K = 0")
    case False
    then show ?thesis using assms(1,4) a ra by (auto simp: Let_def)
  next
    case True
    with assms(5) have "f2 = 0" "\<forall>p. pci_enable_device K p = 0" using rb by (auto simp: pci_works_def)
    then show ?thesis using assms(1,3) a b ra True regs_enable [of K d2 r d'] by (auto simp: Let_def)
  qed
qed

lemma exit_regs: "regs (del_cdev (unregister_driver d)) = (False, False)"
  by (simp add: regs_def del_cdev_def unregister_driver_def call_def)

interpretation launch_m: clean_module "launch_module K" True for K
  by unfold_locales (auto simp: launch_module_def fresh_dev_def launchModule_init_def launchModule_exit_def add_cdev_def
      del_cdev_def call_def)

text \<open>So three of the modules meet the contract by the shape of their init function alone.\<close>

lemma pci_module_clean:
  assumes "mod_regs M = regs" and "\<And>d. regs (mod_fresh M d) = regs d"
    and "\<And>d. mod_init M d = (let (flag, d1) = add_cdev K d in if flag \<noteq> 0 then Inr (flag, d1)
      else let (flag, d2) = register_driver K probe d1 in if go flag then enable_device K d2 else Inr (flag, d2))"
    and "\<And>p d. regs (probe p d) = regs d" and "\<And>f. f = 0 \<Longrightarrow> go f"
    and "\<And>d d'. mod_exit M d = Inr d' \<Longrightarrow> regs d' = (False, False)"
  shows "clean_module M (pci_works K)"
proof
  show "mod_regs M (mod_fresh M d) = mod_regs M d" for d using assms(1,2) by simp
  show "mod_regs M d' = (False, False)"
    if "pci_works K" "mod_init M d = Inr (r, d')" "mod_regs M d = (False, False)" "r < 0" for d r d'
    using that init_regs [where K = K and d = d and probe = probe and go = go and r = r and d' = d'] assms(1,3,4,5) by auto
  show "mod_exit M d = Inr d' \<Longrightarrow> mod_regs M d' = (False, False)" for d d' using assms(1,6) by simp
qed

interpretation contact_m: clean_module "contact_module K" "pci_works K" for K
  by (rule pci_module_clean [where probe = "contact_probe K" and go = "\<lambda>f. f = 0"])
     (auto simp: contact_module_def contact_init_def contact_exit_def exit_regs split: sum.splits)

interpretation draw_m: clean_module "draw_module K" "pci_works K" for K
  by (rule pci_module_clean [where probe = "draw_probe K" and go = "\<lambda>f. f \<le> 0"])
     (auto simp: draw_module_def draw_init_def draw_exit_def exit_regs)

interpretation dma_m: clean_module "dma_module K" "pci_works K" for K
  by (rule pci_module_clean [where probe = "kyouko2_probe K" and go = "\<lambda>f. f \<le> 0"])
     (auto simp: dma_module_def dmaBuffer_init_def dmaBuffer_exit_def exit_regs)

lemma my_init_regs:
  assumes i: "my_init_function K s = Inr (r, s')" and c: "regs (ring s) = (False, False)" and w: "pci_works K"
  shows "r = 0 \<or> regs (ring s') = (False, False)"
proof -
  obtain f1 d1 where a: "add_cdev K (ring s) = (f1, d1)" by fastforce
  note ra = regs_add [OF a]
  obtain f2 d2 where b: "register_driver K (f_probe K) d1 = (f2, d2)" by fastforce
  note rb = regs_register [OF b regs_probe(4)]
  show ?thesis
  proof (cases "cdev_add K = 0")
    case False
    then show ?thesis using i c a ra by (auto simp: my_init_function_def)
  next
    case True
    with w have "f2 = 0" "\<forall>p. pci_enable_device K p = 0" using rb by (auto simp: pci_works_def)
    then show ?thesis using i a b ra True by (auto simp: my_init_function_def with_pci_dev_def Let_def split: option.splits)
  qed
qed

interpretation f_m: clean_module "f_module D K irqs" "pci_works K" for D K irqs
proof
  show "mod_regs (f_module D K irqs) (mod_fresh (f_module D K irqs) s) = mod_regs (f_module D K irqs) s" for s
    by (simp add: f_module_def)
  show "mod_regs (f_module D K irqs) s' = (False, False)"
    if "pci_works K" "mod_init (f_module D K irqs) s = Inr (r, s')" "mod_regs (f_module D K irqs) s = (False, False)" "r < 0" for s r s'
    using that my_init_regs [of K s r s'] by (auto simp: f_module_def)
  show "mod_exit (f_module D K irqs) s = Inr s' \<Longrightarrow> mod_regs (f_module D K irqs) s' = (False, False)" for s s'
    by (auto simp: f_module_def my_exit_function_def exit_regs)
qed

section \<open>Modules that do not\<close>

text \<open>
  When enabling the device fails, no init function takes back what it has registered. It returns
  the error, and the loader frees the code.
\<close>

lemma failed_enable:
  assumes K: "cdev_add K = 0" "pci_register_driver K = (0, Some p)" "pci_enable_device K p = e"
  shows "\<exists>d'. contact_init K c = Inr (e, d') \<and> regs d' = (True, True)"
    and "\<exists>d'. draw_init K c = Inr (e, d') \<and> regs d' = (True, True)"
    and "\<exists>d'. dmaBuffer_init K d = Inr (e, d') \<and> regs d' = (True, True)"
    and "\<exists>s'. my_init_function K s = Inr (e, s') \<and> regs (ring s') = (True, True)"
  using K by (auto simp: contact_init_def draw_init_def dmaBuffer_init_def my_init_function_def add_cdev_def register_driver_def
      enable_device_def with_pci_dev_def call_def contact_probe_def draw_probe_def kyouko2_probe_def f_probe_def regs_def Let_def)

lemma load_dangles:
  assumes "mod_init M (mod_fresh M (image s)) = Inr (r, d)" and "r < 0" and "mod_regs M d \<noteq> (False, False)" and "\<not> present s"
  shows "\<exists>t. mod_step M s t \<and> dangling M t"
  using mod_step.load [OF assms(4,1)] assms(2,3) by (intro exI) (auto simp: dangling_def)

lemma failed_enable_dangles:
  assumes K: "cdev_add K = 0" "pci_register_driver K = (0, Some p)" "pci_enable_device K p = e" and e: "e < 0"
  shows "\<not> present c \<Longrightarrow> \<exists>t. mod_step (contact_module K) c t \<and> dangling (contact_module K) t"
    and "\<not> present w \<Longrightarrow> \<exists>t. mod_step (draw_module K) w t \<and> dangling (draw_module K) t"
    and "\<not> present d \<Longrightarrow> \<exists>t. mod_step (dma_module K) d t \<and> dangling (dma_module K) t"
    and "\<not> present s \<Longrightarrow> \<exists>t. mod_step (f_module D K irqs) s t \<and> dangling (f_module D K irqs) t"
proof -
  show "\<not> present c \<Longrightarrow> \<exists>t. mod_step (contact_module K) c t \<and> dangling (contact_module K) t"
    using load_dangles [OF _ e, of "contact_module K" c] failed_enable(1) [OF K, of "fresh_dev (image c)"]
    by (auto simp: contact_module_def)
  show "\<not> present w \<Longrightarrow> \<exists>t. mod_step (draw_module K) w t \<and> dangling (draw_module K) t"
    using load_dangles [OF _ e, of "draw_module K" w] failed_enable(2) [OF K, of "fresh_dev (image w)"]
    by (auto simp: draw_module_def)
  show "\<not> present d \<Longrightarrow> \<exists>t. mod_step (dma_module K) d t \<and> dangling (dma_module K) t"
    using load_dangles [OF _ e, of "dma_module K" d] failed_enable(3) [OF K, of "fresh_ring BUFFERS (image d)"]
    by (auto simp: dma_module_def)
  show "\<not> present s \<Longrightarrow> \<exists>t. mod_step (f_module D K irqs) s t \<and> dangling (f_module D K irqs) t"
    using load_dangles [OF _ e, of "f_module D K irqs" s] failed_enable(4) [OF K, of "mod_fresh (f_module D K irqs) (image s)"]
    by (auto simp: f_module_def)
qed

text \<open>
  Two drivers at a time. As documented, a second driver of the same name is refused with \<open>-EBUSY\<close>,
  and a card that has a driver is not offered to another one.
\<close>

abbreviation (input) "EBUSY \<equiv> 16 :: int"

definition card_taken :: "string \<Rightarrow> 's pci_driver \<Rightarrow> kservices \<Rightarrow> kservices" where
  "card_taken first drv K = K\<lparr>pci_register_driver := (if drv_name drv = first then (- EBUSY, None) else (0, None))\<rparr>"

lemma second_driver:
  assumes c: "cdev_add K = 0"
  shows "dmaBuffer_init (card_taken first (dma_pci_driver K) K) (fresh_ring n d) = Inl Null_Device"
    and "draw_init (card_taken first (draw_pci_driver K) K) (fresh_dev e) = Inl Null_Device"
    and "my_init_function (card_taken first (f_pci_driver ids K) K)
      (s\<lparr>ring := fresh_ring n d\<rparr>) = Inl Null_Device"
    and "first = ''kyouko2_pci_driver'' \<Longrightarrow>
      \<exists>e'. contact_init (card_taken first (contact_pci_driver K) K) (fresh_dev e) = Inr (- EBUSY, e') \<and> cdev_added e'"
  using c by (auto simp: dmaBuffer_init_def draw_init_def contact_init_def my_init_function_def card_taken_def add_cdev_def
      register_driver_def enable_device_def with_pci_dev_def call_def fresh_ring_def fresh_dev_def
      dma_pci_driver_def draw_pci_driver_def contact_pci_driver_def f_pci_driver_def Let_def)

end
