(* ===== verification/Module_Properties.thy ===== *)
theory Module_Properties
  imports Module_Cycle Kyouko2_Properties
begin

text \<open>
  Properties of the modules as loaded, used and unloaded: when they clean up after themselves, and
  what happens when a step of their init function fails.
\<close>



text \<open>The sample device before its module is loaded.\<close>

definition sample_loader :: "ring_dev loader" where
  "sample_loader = \<lparr>present = False, files = 0, image = sample_dev\<lparr>cdev_added := False, pci_registered := False\<rparr>\<rparr>"



text \<open>C19: when loading fails it leaves a mess. If enabling the device fails, every PCI module returns the error with its
  device file and its driver still registered, so the loader frees code the kernel goes on calling. And while
  another of the drivers has the card, \<open>dmaBuffer.c\<close>, \<open>drawLineTriangle.c\<close> and \<open>driver.c\<close> use a NULL device; the first
  two even take the refusal for success.\<close>

theorem failed_loads:
  assumes c: "cdev_add K = 0"
  shows "(pci_register_driver K = (0, Some p) \<and> pci_enable_device K p = e \<and> e < 0 \<longrightarrow>
      (\<forall>s. \<not> present s \<longrightarrow> (\<exists>t. mod_step (dma_module K) s t \<and> dangling (dma_module K) t)) \<and>
      (\<forall>s. \<not> present s \<longrightarrow> (\<exists>t. mod_step (draw_module K) s t \<and> dangling (draw_module K) t)) \<and>
      (\<forall>s. \<not> present s \<longrightarrow> (\<exists>t. mod_step (contact_module K) s t \<and> dangling (contact_module K) t)) \<and>
      (\<forall>s. \<not> present s \<longrightarrow> (\<exists>t. mod_step (f_module D K irqs) s t \<and> dangling (f_module D K irqs) t))) \<and>
    dmaBuffer_init (card_taken first (dma_pci_driver K) K) (fresh_ring n d) = Inl Null_Device \<and>
    draw_init (card_taken first (draw_pci_driver K) K) (fresh_dev d') = Inl Null_Device \<and>
    my_init_function (card_taken first (f_pci_driver ids K) K) (f\<lparr>ring := fresh_ring n d\<rparr>) = Inl Null_Device"
  by (intro conjI impI allI; (elim conjE)?) (rule failed_enable_dangles [OF c] second_driver [OF c]; assumption?)+

theorem failed_loads_witness:
  "\<exists>t. mod_step (dma_module (sample_kernel\<lparr>pci_enable_device := \<lambda>_. - 22\<rparr>)) sample_loader t \<and>
    dangling (dma_module (sample_kernel\<lparr>pci_enable_device := \<lambda>_. - 22\<rparr>)) t"
proof -
  let ?K = "sample_kernel\<lparr>pci_enable_device := \<lambda>_. - 22\<rparr>"
  have k: "cdev_add ?K = 0" "\<exists>p. pci_register_driver ?K = (0, Some p)" "pci_enable_device ?K p = - 22" for p
    by (simp_all add: sample_kernel_def)
  then obtain p where "pci_register_driver ?K = (0, Some p)" by blast
  with failed_loads [OF k(1), of p "- 22"] k(3) show ?thesis by (auto simp: sample_loader_def)
qed

end
