(* ===== verification/Sig_Abi.thy ===== *)
theory Sig_Abi
  imports Kernel_Prelude
begin

text \<open>
  The signal ABI of x86-64 Linux that \<open>signal.c\<close> and the added system calls are written
  against: signal numbers and default actions (signal(7)), signal sets of one 64-bit word
  (\<open>_NSIG_WORDS = 1\<close>) with the operations of sigsetops(3), the \<open>siginfo\<close> codes of
  sigaction(2) and the error numbers of errno(3). A signal number is an \<open>int\<close>, as in the C code.
\<close>

section \<open>Signal numbers\<close>

abbreviation (input) "SIGHUP \<equiv> 1 :: int"
abbreviation (input) "SIGINT \<equiv> 2 :: int"
abbreviation (input) "SIGQUIT \<equiv> 3 :: int"
abbreviation (input) "SIGILL \<equiv> 4 :: int"
abbreviation (input) "SIGTRAP \<equiv> 5 :: int"
abbreviation (input) "SIGABRT \<equiv> 6 :: int"
abbreviation (input) "SIGBUS \<equiv> 7 :: int"
abbreviation (input) "SIGFPE \<equiv> 8 :: int"
abbreviation (input) "SIGKILL \<equiv> 9 :: int"
abbreviation (input) "SIGUSR1 \<equiv> 10 :: int"
abbreviation (input) "SIGSEGV \<equiv> 11 :: int"
abbreviation (input) "SIGALRM \<equiv> 14 :: int"
abbreviation (input) "SIGCHLD \<equiv> 17 :: int"
abbreviation (input) "SIGCONT \<equiv> 18 :: int"
abbreviation (input) "SIGSTOP \<equiv> 19 :: int"
abbreviation (input) "SIGTSTP \<equiv> 20 :: int"
abbreviation (input) "SIGTTIN \<equiv> 21 :: int"
abbreviation (input) "SIGTTOU \<equiv> 22 :: int"
abbreviation (input) "SIGURG \<equiv> 23 :: int"
abbreviation (input) "SIGXCPU \<equiv> 24 :: int"
abbreviation (input) "SIGXFSZ \<equiv> 25 :: int"
abbreviation (input) "SIGWINCH \<equiv> 28 :: int"
abbreviation (input) "SIGSYS \<equiv> 31 :: int"
abbreviation (input) "SIGRTMIN \<equiv> 32 :: int"
abbreviation (input) "NSIG \<equiv> 64 :: int"

text \<open>\<open>valid_signal\<close> takes an unsigned long: a negative number is out of range.\<close>

definition valid_signal :: "int \<Rightarrow> bool" where
  "valid_signal sig \<longleftrightarrow> 0 \<le> sig \<and> sig \<le> NSIG"

section \<open>Signal sets\<close>

type_synonym sigset = u64

definition sigidx :: "int \<Rightarrow> nat" where
  "sigidx sig = nat (sig - 1)"

definition sigmask :: "int \<Rightarrow> sigset" where
  "sigmask sig = push_bit (sigidx sig) 1"

definition sigismember :: "sigset \<Rightarrow> int \<Rightarrow> bool" where
  "sigismember S sig = bit S (sigidx sig)"

definition sigaddset :: "int \<Rightarrow> sigset \<Rightarrow> sigset" where
  "sigaddset sig S = set_bit (sigidx sig) S"

definition sigdelset :: "int \<Rightarrow> sigset \<Rightarrow> sigset" where
  "sigdelset sig S = unset_bit (sigidx sig) S"

definition sigsubset :: "sigset \<Rightarrow> sigset \<Rightarrow> bool" where
  "sigsubset A B \<longleftrightarrow> A AND NOT B = 0"

section \<open>Default actions (signal(7))\<close>

definition SIG_KERNEL_ONLY_MASK :: sigset where
  "SIG_KERNEL_ONLY_MASK = sigmask SIGKILL OR sigmask SIGSTOP"

definition SIG_KERNEL_STOP_MASK :: sigset where
  "SIG_KERNEL_STOP_MASK = sigmask SIGSTOP OR sigmask SIGTSTP OR sigmask SIGTTIN OR sigmask SIGTTOU"

definition SIG_KERNEL_COREDUMP_MASK :: sigset where
  "SIG_KERNEL_COREDUMP_MASK = sigmask SIGQUIT OR sigmask SIGILL OR sigmask SIGTRAP OR sigmask SIGABRT OR
     sigmask SIGFPE OR sigmask SIGSEGV OR sigmask SIGBUS OR sigmask SIGSYS OR sigmask SIGXCPU OR sigmask SIGXFSZ"

definition SIG_KERNEL_IGNORE_MASK :: sigset where
  "SIG_KERNEL_IGNORE_MASK = sigmask SIGCONT OR sigmask SIGCHLD OR sigmask SIGWINCH OR sigmask SIGURG"

definition siginmask :: "int \<Rightarrow> sigset \<Rightarrow> bool" where
  "siginmask sig m \<longleftrightarrow> sig < SIGRTMIN \<and> sigmask sig AND m \<noteq> 0"

definition sig_kernel_only :: "int \<Rightarrow> bool" where "sig_kernel_only sig = siginmask sig SIG_KERNEL_ONLY_MASK"
definition sig_kernel_stop :: "int \<Rightarrow> bool" where "sig_kernel_stop sig = siginmask sig SIG_KERNEL_STOP_MASK"
definition sig_kernel_coredump :: "int \<Rightarrow> bool" where "sig_kernel_coredump sig = siginmask sig SIG_KERNEL_COREDUMP_MASK"
definition sig_kernel_ignore :: "int \<Rightarrow> bool" where "sig_kernel_ignore sig = siginmask sig SIG_KERNEL_IGNORE_MASK"

section \<open>Codes and errors\<close>

abbreviation (input) "SI_USER \<equiv> 0 :: int"
abbreviation (input) "SI_KERNEL \<equiv> 128 :: int"
abbreviation (input) "SI_QUEUE \<equiv> -1 :: int"
abbreviation (input) "SI_TKILL \<equiv> -6 :: int"
abbreviation (input) "CLD_EXITED \<equiv> 1 :: int"
abbreviation (input) "CLD_KILLED \<equiv> 2 :: int"
abbreviation (input) "CLD_DUMPED \<equiv> 3 :: int"
abbreviation (input) "CLD_TRAPPED \<equiv> 4 :: int"
abbreviation (input) "CLD_STOPPED \<equiv> 5 :: int"
abbreviation (input) "CLD_CONTINUED \<equiv> 6 :: int"

abbreviation (input) "EPERM \<equiv> 1 :: int"
abbreviation (input) "ESRCH \<equiv> 3 :: int"
abbreviation (input) "EINTR \<equiv> 4 :: int"
abbreviation (input) "EAGAIN \<equiv> 11 :: int"
abbreviation (input) "ENOMEM \<equiv> 12 :: int"
abbreviation (input) "EFAULT \<equiv> 14 :: int"
abbreviation (input) "EINVAL \<equiv> 22 :: int"

section \<open>Laws of signal sets\<close>

text \<open>The numbers a set can hold.\<close>

definition signo :: "int \<Rightarrow> bool" where
  "signo sig \<longleftrightarrow> 1 \<le> sig \<and> sig \<le> NSIG"

lemma sigidx_less [simp]: "signo sig \<Longrightarrow> sigidx sig < 64"
  by (auto simp: signo_def sigidx_def nat_less_iff)

lemma sigidx_eq [simp]: "signo a \<Longrightarrow> signo b \<Longrightarrow> sigidx a = sigidx b \<longleftrightarrow> a = b"
  by (auto simp: signo_def sigidx_def)

lemma sigidx_Suc: "n < 64 \<Longrightarrow> sigidx (int n + 1) = n"
  by (simp add: sigidx_def)

lemma sigismember_add [simp, sig_simps]:
  "signo a \<Longrightarrow> signo b \<Longrightarrow> sigismember (sigaddset a S) b \<longleftrightarrow> a = b \<or> sigismember S b"
  by (auto simp: sigismember_def sigaddset_def bit_simps)

lemma sigismember_del [simp, sig_simps]:
  "signo a \<Longrightarrow> signo b \<Longrightarrow> sigismember (sigdelset a S) b \<longleftrightarrow> a \<noteq> b \<and> sigismember S b"
  by (auto simp: sigismember_def sigdelset_def bit_simps)

lemma sigismember_or [simp, sig_simps]: "sigismember (A OR B) a \<longleftrightarrow> sigismember A a \<or> sigismember B a"
  and sigismember_and [simp, sig_simps]: "sigismember (A AND B) a \<longleftrightarrow> sigismember A a \<and> sigismember B a"
  by (auto simp: sigismember_def bit_simps)

lemma sigismember_not [simp, sig_simps]: "signo a \<Longrightarrow> sigismember (NOT A) a \<longleftrightarrow> \<not> sigismember A a"
  by (simp add: sigismember_def bit_simps)

lemma sigismember_empty [simp, sig_simps]: "\<not> sigismember 0 a"
  by (simp add: sigismember_def)

lemma sigismember_mask [simp, sig_simps]: "signo a \<Longrightarrow> signo b \<Longrightarrow> sigismember (sigmask a) b \<longleftrightarrow> a = b"
  by (auto simp: sigismember_def sigmask_def bit_simps)

lemma sigset_eqI:
  assumes "\<And>a. signo a \<Longrightarrow> sigismember A a = sigismember B a"
  shows "A = B"
proof (rule bit_word_eqI)
  fix n assume "n < LENGTH(64)"
  then have "n < 64" by simp
  then have "signo (int n + 1)" by (simp add: signo_def)
  from assms [OF this] show "bit A n = bit B n" by (simp add: sigismember_def sigidx_Suc \<open>n < 64\<close>)
qed

lemma sigset_empty_iff: "S = 0 \<longleftrightarrow> (\<forall>a. signo a \<longrightarrow> \<not> sigismember S a)"
  using sigset_eqI [of S 0] by auto

lemma mask_and_iff: "signo a \<Longrightarrow> sigmask a AND S \<noteq> 0 \<longleftrightarrow> sigismember S a"
  by (subst sigset_empty_iff) auto

lemma siginmask_iff: "signo sig \<Longrightarrow> siginmask sig m \<longleftrightarrow> sig < SIGRTMIN \<and> sigismember m sig"
  using mask_and_iff [of sig m] by (simp add: siginmask_def)

lemma signo_numeral [simp]:
  "signo 9" "signo 19" "signo 18" "signo 17" "signo 20" "signo 21" "signo 22" "signo 11" "signo 5" "signo 4"
  "signo 7" "signo 8" "signo 10" "signo 14" "signo 28" "signo 3" "signo 2" "signo 1" "signo 15"
  "signo 6" "signo 31" "signo 24" "signo 25" "signo 23"
  by (simp_all add: signo_def)

lemma signo_valid: "signo sig \<longleftrightarrow> valid_signal sig \<and> sig \<noteq> 0"
  by (auto simp: signo_def valid_signal_def)

lemma stop_mask_member: "signo a \<Longrightarrow> sigismember SIG_KERNEL_STOP_MASK a \<longleftrightarrow> a \<in> {19, 20, 21, 22}"
  by (auto simp: SIG_KERNEL_STOP_MASK_def)

lemma sig_kernel_stop_iff: "signo a \<Longrightarrow> sig_kernel_stop a \<longleftrightarrow> a \<in> {19, 20, 21, 22}"
  by (auto simp: sig_kernel_stop_def siginmask_iff stop_mask_member)

lemma sig_kernel_only_iff: "signo a \<Longrightarrow> sig_kernel_only a \<longleftrightarrow> a \<in> {9, 19}"
  by (auto simp: sig_kernel_only_def siginmask_iff SIG_KERNEL_ONLY_MASK_def)

lemma sig_kernel_ignore_iff: "signo a \<Longrightarrow> sig_kernel_ignore a \<longleftrightarrow> a \<in> {17, 18, 23, 28}"
  by (auto simp: sig_kernel_ignore_def siginmask_iff SIG_KERNEL_IGNORE_MASK_def)

lemma sig_kernel_coredump_iff:
  "signo a \<Longrightarrow> sig_kernel_coredump a \<longleftrightarrow> a \<in> {3, 4, 5, 6, 7, 8, 11, 24, 25, 31}"
  by (auto simp: sig_kernel_coredump_def siginmask_iff SIG_KERNEL_COREDUMP_MASK_def)

end
