(* ===== verification/Sched_Task.thy ===== *)
theory Sched_Task
  imports Sig_Abi
begin

text \<open>
  The part of \<open>sched.h\<close> the signal code works on: task, signal and sighand structures (with
  the added \<open>counters\<close> array), the queue elements, the flag words, and the accessors.
  Structures are reached by number: a task by its thread id, a signal structure, a sighand
  structure and a queue element by an identifier each, in the kernel state \<open>kstate\<close>. A list
  head is the list of its elements in order; the circular list of a thread group is the list
  \<open>s_threads\<close>. What the signal code calls outside the repository is the parameter \<open>kenv\<close>.
\<close>

section \<open>Constants\<close>

definition TASK_RUNNING :: u64 where "TASK_RUNNING = 0"
definition TASK_INTERRUPTIBLE :: u64 where "TASK_INTERRUPTIBLE = 1"
definition TASK_UNINTERRUPTIBLE :: u64 where "TASK_UNINTERRUPTIBLE = 2"
definition T_STOPPED :: u64 where "T_STOPPED = 4"
definition T_TRACED :: u64 where "T_TRACED = 8"
definition EXIT_ZOMBIE :: u32 where "EXIT_ZOMBIE = 16"
definition EXIT_DEAD :: u32 where "EXIT_DEAD = 32"
definition TASK_WAKEKILL :: u64 where "TASK_WAKEKILL = 128"
definition TASK_STOPPED :: u64 where "TASK_STOPPED = TASK_WAKEKILL OR T_STOPPED"
definition TASK_TRACED :: u64 where "TASK_TRACED = TASK_WAKEKILL OR T_TRACED"
definition TASK_NORMAL :: u64 where "TASK_NORMAL = TASK_INTERRUPTIBLE OR TASK_UNINTERRUPTIBLE"
definition TASK_ALL :: u64 where "TASK_ALL = TASK_NORMAL OR T_STOPPED OR T_TRACED"

definition SIGNAL_STOP_STOPPED :: u32 where "SIGNAL_STOP_STOPPED = 0x00000001"
definition SIGNAL_STOP_CONTINUED :: u32 where "SIGNAL_STOP_CONTINUED = 0x00000002"
definition SIGNAL_GROUP_EXIT :: u32 where "SIGNAL_GROUP_EXIT = 0x00000004"
definition SIGNAL_CLD_STOPPED :: u32 where "SIGNAL_CLD_STOPPED = 0x00000010"
definition SIGNAL_CLD_CONTINUED :: u32 where "SIGNAL_CLD_CONTINUED = 0x00000020"
definition SIGNAL_CLD_MASK :: u32 where "SIGNAL_CLD_MASK = SIGNAL_CLD_STOPPED OR SIGNAL_CLD_CONTINUED"
definition SIGNAL_UNKILLABLE :: u32 where "SIGNAL_UNKILLABLE = 0x00000040"

definition PF_EXITING :: u32 where "PF_EXITING = 0x00000004"
definition PF_SIGNALED :: u32 where "PF_SIGNALED = 0x00000400"

definition JOBCTL_STOP_SIGMASK :: u32 where "JOBCTL_STOP_SIGMASK = 0xffff"
definition JOBCTL_STOP_DEQUEUED :: u32 where "JOBCTL_STOP_DEQUEUED = push_bit 16 1"
definition JOBCTL_STOP_PENDING :: u32 where "JOBCTL_STOP_PENDING = push_bit 17 1"
definition JOBCTL_STOP_CONSUME :: u32 where "JOBCTL_STOP_CONSUME = push_bit 18 1"
definition JOBCTL_TRAP_STOP :: u32 where "JOBCTL_TRAP_STOP = push_bit 19 1"
definition JOBCTL_TRAP_NOTIFY :: u32 where "JOBCTL_TRAP_NOTIFY = push_bit 20 1"
definition JOBCTL_TRAPPING :: u32 where "JOBCTL_TRAPPING = push_bit 21 1"
definition JOBCTL_LISTENING :: u32 where "JOBCTL_LISTENING = push_bit 22 1"
definition JOBCTL_TRAP_MASK :: u32 where "JOBCTL_TRAP_MASK = JOBCTL_TRAP_STOP OR JOBCTL_TRAP_NOTIFY"
definition JOBCTL_PENDING_MASK :: u32 where "JOBCTL_PENDING_MASK = JOBCTL_STOP_PENDING OR JOBCTL_TRAP_MASK"

lemmas task_state_defs = TASK_RUNNING_def TASK_INTERRUPTIBLE_def TASK_UNINTERRUPTIBLE_def T_STOPPED_def
  T_TRACED_def TASK_WAKEKILL_def TASK_STOPPED_def TASK_TRACED_def TASK_NORMAL_def TASK_ALL_def

lemmas exit_state_defs = EXIT_ZOMBIE_def EXIT_DEAD_def

lemmas signal_flag_defs = SIGNAL_STOP_STOPPED_def SIGNAL_STOP_CONTINUED_def SIGNAL_GROUP_EXIT_def
  SIGNAL_CLD_STOPPED_def SIGNAL_CLD_CONTINUED_def SIGNAL_CLD_MASK_def SIGNAL_UNKILLABLE_def

lemmas jobctl_defs = JOBCTL_STOP_SIGMASK_def JOBCTL_STOP_DEQUEUED_def JOBCTL_STOP_PENDING_def
  JOBCTL_STOP_CONSUME_def JOBCTL_TRAP_STOP_def JOBCTL_TRAP_NOTIFY_def JOBCTL_TRAPPING_def
  JOBCTL_LISTENING_def JOBCTL_TRAP_MASK_def JOBCTL_PENDING_MASK_def

section \<open>Structures\<close>

record siginfo =
  si_signo :: int
  si_errno :: int
  si_code :: int
  si_pid :: int
  si_uid :: u32
  si_status :: int
  si_overrun :: int
  si_sys_private :: int
  si_value :: u64
  si_utime :: int
  si_stime :: int

text \<open>\<open>q_linked\<close> says that \<open>q->list\<close> is on some list (\<open>!list_empty(&q->list)\<close>).
  The \<open>struct siginfo *\<close> argument of the send functions: three special values, or a pointer.\<close>

datatype sig_arg = SEND_SIG_NOINFO | SEND_SIG_PRIV | SEND_SIG_FORCED | Info siginfo

definition SIGQUEUE_PREALLOC :: u32 where "SIGQUEUE_PREALLOC = 1"

record sigqueue =
  q_flags :: u32
  q_info :: siginfo
  q_user :: nat
  q_linked :: bool

record sigpending =
  plist :: "nat list"
  psignal :: sigset

datatype handler = SIG_DFL | SIG_IGN | Handler u64

record k_sigaction =
  sa_handler :: handler
  sa_flags :: u64
  sa_restorer :: u64
  sa_mask :: sigset

record sighand_struct =
  action :: "k_sigaction list"
  counters :: "u32 list"

record cred =
  c_uid :: u32
  c_euid :: u32
  c_suid :: u32
  c_user :: nat
  c_user_ns :: nat

record signal_struct =
  s_curr_target :: nat
  s_shared_pending :: sigpending
  s_group_exit_code :: int
  s_group_exit_task :: "nat option"
  s_group_stop_count :: int
  s_flags :: u32
  s_it_real_incr :: int
  s_timer_queued :: bool
  s_rlim_sigpending :: int
  s_threads :: "nat list"
  s_utime :: u64
  s_stime :: u64

text \<open>\<open>t_notifier\<close>: the mask of a registered notifier and the answer its routine gives.
  \<open>t_tif_sigpending\<close> is the thread flag \<open>TIF_SIGPENDING\<close>.\<close>

record task_struct =
  t_state :: u64
  t_flags :: u32
  t_ptrace :: u32
  t_exit_state :: u32
  t_exit_code :: int
  t_jobctl :: u32
  t_tgid :: nat
  t_group_leader :: nat
  t_real_parent :: nat
  t_parent :: nat
  t_session :: "nat option"
  t_signal :: nat
  t_sighand :: "nat option"
  t_cred :: cred
  t_blocked :: sigset
  t_real_blocked :: sigset
  t_saved_sigmask :: sigset
  t_pending :: sigpending
  t_tif_sigpending :: bool
  t_restore_sigmask :: bool
  t_sas_ss_sp :: u64
  t_sas_ss_size :: u64
  t_notifier :: "(sigset \<times> bool) option"
  t_last_siginfo :: "siginfo option"
  t_mm :: nat
  t_parent_exec_id :: u32
  t_self_exec_id :: u32
  t_utime :: u64
  t_stime :: u64

text \<open>What the code does to the world outside the structures, and where it runs into a
  \<open>BUG_ON\<close>, a warning, or past the end of the counters.\<close>

datatype kevent =
    Ev_Wake nat u64 | Ev_Kick nat | Ev_Wake_Bit nat | Ev_Signalfd nat int | Ev_Wake_Parent nat nat
  | Ev_Coredump int | Ev_Hrtimer_Restart nat | Ev_Schedule_Timer | Ev_Dropped int | Ev_Release nat
  | Ev_Bug | Ev_Warn | Ev_Overrun nat int

record kstate =
  cur :: nat
  tasks :: "nat \<Rightarrow> task_struct"
  signals :: "nat \<Rightarrow> signal_struct"
  sighands :: "nat \<Rightarrow> sighand_struct"
  sqs :: "nat \<Rightarrow> sigqueue"
  next_sq :: nat
  user_sigpending :: "nat \<Rightarrow> int"
  klog :: "kevent list"

text \<open>
  Calls that leave the repository. \<open>wake_up\<close>: from a task's state and the mask of
  \<open>wake_up_state\<close>, whether the task was woken and its new state. \<open>kmem_ok q\<close>: the
  allocation of queue element \<open>q\<close> succeeds. \<open>tgid_nr a b\<close>, \<open>pid_nr a b\<close>: the numbers of
  task \<open>a\<close> in the pid namespace of \<open>b\<close>, 0 when it has none there; \<open>nsproxy_pid\<close>: the same for the
  namespace of \<open>b\<close>'s \<open>nsproxy\<close>. \<open>stack_info\<close>: what an uninitialised \<open>siginfo\<close> on the kernel stack
  holds. \<open>core_state m\<close>: a core dump of the memory map \<open>m\<close> is under way. \<open>PTRACE_EVENT_STOP\<close>,
  \<open>PT_SEIZED\<close>, \<open>SI_TIMER\<close>
  and \<open>is_timer_code\<close> (\<open>(si_code & __SI_MASK) == __SI_TIMER\<close>) are kernel-internal encodings of
  headers outside the repository.
\<close>

record kenv =
  wake_up :: "u64 \<Rightarrow> u64 \<Rightarrow> bool \<times> u64"
  task_curr :: "nat \<Rightarrow> bool"
  freezing :: bool
  kmem_ok :: "nat \<Rightarrow> bool"
  audit_signal_info :: "int \<Rightarrow> nat \<Rightarrow> int"
  security_task_kill :: "nat \<Rightarrow> sig_arg \<Rightarrow> int \<Rightarrow> int"
  ns_capable :: "nat \<Rightarrow> bool"
  tgid_nr :: "nat \<Rightarrow> nat \<Rightarrow> int"
  pid_nr :: "nat \<Rightarrow> nat \<Rightarrow> int"
  nsproxy_pid :: "nat \<Rightarrow> nat \<Rightarrow> int"
  cputime_to_clock_t :: "u64 \<Rightarrow> int"
  stack_info :: siginfo
  core_state :: "nat \<Rightarrow> bool"
  timespec_valid :: "int \<times> int \<Rightarrow> bool"
  timespec_to_jiffies :: "int \<times> int \<Rightarrow> int"
  ptrace_reparented :: "nat \<Rightarrow> bool"
  arch_ptrace_stop_needed :: "int \<Rightarrow> siginfo option \<Rightarrow> bool"
  is_current_pgrp_orphaned :: "nat \<Rightarrow> bool"
  PTRACE_EVENT_STOP :: int
  PT_SEIZED :: u32
  SI_TIMER :: int
  is_timer_code :: "int \<Rightarrow> bool"

section \<open>Access to the structures\<close>

definition upd_task :: "nat \<Rightarrow> (task_struct \<Rightarrow> task_struct) \<Rightarrow> kstate \<Rightarrow> kstate" where
  "upd_task t f ks = ks\<lparr>tasks := (tasks ks)(t := f (tasks ks t))\<rparr>"

definition upd_signal :: "nat \<Rightarrow> (signal_struct \<Rightarrow> signal_struct) \<Rightarrow> kstate \<Rightarrow> kstate" where
  "upd_signal g f ks = ks\<lparr>signals := (signals ks)(g := f (signals ks g))\<rparr>"

definition upd_sighand :: "nat \<Rightarrow> (sighand_struct \<Rightarrow> sighand_struct) \<Rightarrow> kstate \<Rightarrow> kstate" where
  "upd_sighand h f ks = ks\<lparr>sighands := (sighands ks)(h := f (sighands ks h))\<rparr>"

definition ev :: "kevent \<Rightarrow> kstate \<Rightarrow> kstate" where
  "ev e ks = ks\<lparr>klog := klog ks @ [e]\<rparr>"

text \<open>\<open>t->signal\<close> and \<open>t->sighand\<close>, the latter for a task that still has one.\<close>

definition sig_of :: "kstate \<Rightarrow> nat \<Rightarrow> signal_struct" where
  "sig_of ks t = signals ks (t_signal (tasks ks t))"

definition hand_of :: "kstate \<Rightarrow> nat \<Rightarrow> sighand_struct" where
  "hand_of ks t = sighands ks (the (t_sighand (tasks ks t)))"

text \<open>\<open>&t->pending\<close> and \<open>&t->signal->shared_pending\<close> as places a \<open>struct sigpending *\<close> can point to.\<close>

datatype pend_loc = Private nat | Shared nat

fun pending_at :: "kstate \<Rightarrow> pend_loc \<Rightarrow> sigpending" where
  "pending_at ks (Private t) = t_pending (tasks ks t)"
| "pending_at ks (Shared g) = s_shared_pending (signals ks g)"

fun upd_pending :: "pend_loc \<Rightarrow> (sigpending \<Rightarrow> sigpending) \<Rightarrow> kstate \<Rightarrow> kstate" where
  "upd_pending (Private t) f ks = upd_task t (\<lambda>k. k\<lparr>t_pending := f (t_pending k)\<rparr>) ks"
| "upd_pending (Shared g) f ks = upd_signal g (\<lambda>s. s\<lparr>s_shared_pending := f (s_shared_pending s)\<rparr>) ks"

section \<open>Inline functions of \<open>sched.h\<close>\<close>

definition task_is_stopped :: "task_struct \<Rightarrow> bool" where
  "task_is_stopped t \<longleftrightarrow> t_state t AND T_STOPPED \<noteq> 0"

definition task_is_traced :: "task_struct \<Rightarrow> bool" where
  "task_is_traced t \<longleftrightarrow> t_state t AND T_TRACED \<noteq> 0"

definition task_is_stopped_or_traced :: "task_struct \<Rightarrow> bool" where
  "task_is_stopped_or_traced t \<longleftrightarrow> t_state t AND (T_STOPPED OR T_TRACED) \<noteq> 0"

definition signal_group_exit :: "signal_struct \<Rightarrow> bool" where
  "signal_group_exit s \<longleftrightarrow> s_flags s AND SIGNAL_GROUP_EXIT \<noteq> 0 \<or> s_group_exit_task s \<noteq> None"

definition signal_pending :: "task_struct \<Rightarrow> bool" where
  "signal_pending t = t_tif_sigpending t"

definition fatal_signal_pending_raw :: "task_struct \<Rightarrow> bool" where
  "fatal_signal_pending_raw t = sigismember (psignal (t_pending t)) SIGKILL"

definition fatal_signal_pending :: "task_struct \<Rightarrow> bool" where
  "fatal_signal_pending t \<longleftrightarrow> signal_pending t \<and> fatal_signal_pending_raw t"

definition signal_pending_state :: "u64 \<Rightarrow> task_struct \<Rightarrow> bool" where
  "signal_pending_state st t =
     (if st AND (TASK_INTERRUPTIBLE OR TASK_WAKEKILL) = 0 then False
      else if \<not> signal_pending t then False
      else st AND TASK_INTERRUPTIBLE \<noteq> 0 \<or> fatal_signal_pending_raw t)"

text \<open>\<open>tsk->pid\<close> is the number of the task.\<close>

definition is_global_init :: "nat \<Rightarrow> bool" where
  "is_global_init t \<longleftrightarrow> t = 1"

definition same_thread_group :: "task_struct \<Rightarrow> task_struct \<Rightarrow> bool" where
  "same_thread_group a b \<longleftrightarrow> t_tgid a = t_tgid b"

definition thread_group_empty :: "kstate \<Rightarrow> nat \<Rightarrow> bool" where
  "thread_group_empty ks t \<longleftrightarrow> s_threads (sig_of ks t) = [t]"

text \<open>The circular list of a thread group read from one of its members.\<close>

definition ring_from :: "'a \<Rightarrow> 'a list \<Rightarrow> 'a list" where
  "ring_from p xs = dropWhile (\<lambda>x. x \<noteq> p) xs @ takeWhile (\<lambda>x. x \<noteq> p) xs"

definition group_from :: "kstate \<Rightarrow> nat \<Rightarrow> nat list" where
  "group_from ks p = ring_from p (s_threads (sig_of ks p))"

definition next_thread :: "kstate \<Rightarrow> nat \<Rightarrow> nat" where
  "next_thread ks t = hd (tl (group_from ks t) @ [t])"

definition on_sig_stack :: "task_struct \<Rightarrow> u64 \<Rightarrow> bool" where
  "on_sig_stack t sp \<longleftrightarrow> t_sas_ss_sp t < sp \<and> sp - t_sas_ss_sp t \<le> t_sas_ss_size t"

abbreviation (input) "SS_ONSTACK \<equiv> 1 :: int"
abbreviation (input) "SS_DISABLE \<equiv> 2 :: int"

definition sas_ss_flags :: "task_struct \<Rightarrow> u64 \<Rightarrow> int" where
  "sas_ss_flags t sp = (if t_sas_ss_size t = 0 then SS_DISABLE
     else if on_sig_stack t sp then SS_ONSTACK else 0)"

text \<open>\<open>while_each_thread\<close>: run the body on every thread of \<open>p\<close>'s group, \<open>p\<close> first.\<close>

definition each_thread :: "(nat \<Rightarrow> kstate \<Rightarrow> kstate) \<Rightarrow> nat \<Rightarrow> kstate \<Rightarrow> kstate" where
  "each_thread body p ks = fold body (group_from ks p) ks"

section \<open>Lemmas\<close>

lemma upd_task_sel [simp]:
  "tasks (upd_task t f ks) u = (if u = t then f (tasks ks t) else tasks ks u)"
  "signals (upd_task t f ks) = signals ks" "sighands (upd_task t f ks) = sighands ks"
  "sqs (upd_task t f ks) = sqs ks" "next_sq (upd_task t f ks) = next_sq ks"
  "user_sigpending (upd_task t f ks) = user_sigpending ks" "klog (upd_task t f ks) = klog ks"
  "cur (upd_task t f ks) = cur ks"
  by (simp_all add: upd_task_def)

lemma upd_signal_sel [simp]:
  "signals (upd_signal g f ks) h = (if h = g then f (signals ks g) else signals ks h)"
  "tasks (upd_signal g f ks) = tasks ks" "sighands (upd_signal g f ks) = sighands ks"
  "sqs (upd_signal g f ks) = sqs ks" "next_sq (upd_signal g f ks) = next_sq ks"
  "user_sigpending (upd_signal g f ks) = user_sigpending ks" "klog (upd_signal g f ks) = klog ks"
  "cur (upd_signal g f ks) = cur ks"
  by (simp_all add: upd_signal_def)

lemma upd_sighand_sel [simp]:
  "sighands (upd_sighand g f ks) h = (if h = g then f (sighands ks g) else sighands ks h)"
  "tasks (upd_sighand g f ks) = tasks ks" "signals (upd_sighand g f ks) = signals ks"
  "sqs (upd_sighand g f ks) = sqs ks" "next_sq (upd_sighand g f ks) = next_sq ks"
  "user_sigpending (upd_sighand g f ks) = user_sigpending ks" "klog (upd_sighand g f ks) = klog ks"
  "cur (upd_sighand g f ks) = cur ks"
  by (simp_all add: upd_sighand_def)

lemma ev_sel [simp]:
  "tasks (ev e ks) = tasks ks" "signals (ev e ks) = signals ks" "sighands (ev e ks) = sighands ks"
  "sqs (ev e ks) = sqs ks" "next_sq (ev e ks) = next_sq ks" "user_sigpending (ev e ks) = user_sigpending ks"
  "klog (ev e ks) = klog ks @ [e]" "cur (ev e ks) = cur ks"
  by (simp_all add: ev_def)

lemma upd_pending_sel [simp]:
  "pending_at (upd_pending l f ks) m = (if m = l then f (pending_at ks l) else pending_at ks m)"
  "sighands (upd_pending l f ks) = sighands ks" "sqs (upd_pending l f ks) = sqs ks"
  "next_sq (upd_pending l f ks) = next_sq ks" "user_sigpending (upd_pending l f ks) = user_sigpending ks"
  "klog (upd_pending l f ks) = klog ks" "cur (upd_pending l f ks) = cur ks"
  by (cases l; cases m; simp)+

lemma pending_at_ev [simp]: "pending_at (ev e ks) l = pending_at ks l"
  by (cases l) simp_all

text \<open>The ring read from \<open>p\<close> is a rotation of the list.\<close>

lemma ring_from_split: "\<exists>ys zs. xs = ys @ zs \<and> ring_from p xs = zs @ ys"
  unfolding ring_from_def by (metis takeWhile_dropWhile_id)

lemma ring_from_set [simp]: "set (ring_from p xs) = set xs"
  using ring_from_split [of xs p] by auto

lemma ring_from_length [simp]: "length (ring_from p xs) = length xs"
  using ring_from_split [of xs p] by auto

lemma ring_from_distinct [simp]: "distinct (ring_from p xs) = distinct xs"
  using ring_from_split [of xs p] by auto

lemma ring_from_Cons: "p \<in> set xs \<Longrightarrow> \<exists>ys. ring_from p xs = p # ys"
proof -
  assume "p \<in> set xs"
  then have "dropWhile (\<lambda>x. x \<noteq> p) xs \<noteq> []" by (auto simp: dropWhile_eq_Nil_conv)
  then obtain z zs where z: "dropWhile (\<lambda>x. x \<noteq> p) xs = z # zs" by (cases "dropWhile (\<lambda>x. x \<noteq> p) xs") auto
  with hd_dropWhile [of "\<lambda>x. x \<noteq> p" xs] have "z = p" by auto
  with z show ?thesis by (auto simp: ring_from_def)
qed

end
