(* ===== verification/Sig_Pending.thy ===== *)
theory Sig_Pending
  imports Sched_Task
begin

text \<open>
  Pending signals (\<open>signal.c\<close> up to the wake-up functions): which signal is next, the
  queue elements, collecting, dequeueing, flushing and removing signals, and the
  \<open>TIF_SIGPENDING\<close> flag. The switches over \<open>_NSIG_WORDS\<close> are modelled for every number of
  words; the rest of the development uses the one-word case of x86-64.
\<close>

section \<open>Ignored signals\<close>

definition sig_handler :: "kstate \<Rightarrow> nat \<Rightarrow> int \<Rightarrow> handler" where
  "sig_handler ks t sig = sa_handler (action (hand_of ks t) ! sigidx sig)"

definition sig_handler_ignored :: "handler \<Rightarrow> int \<Rightarrow> bool" where
  "sig_handler_ignored h sig \<longleftrightarrow> h = SIG_IGN \<or> h = SIG_DFL \<and> sig_kernel_ignore sig"

definition sig_task_ignored :: "kstate \<Rightarrow> nat \<Rightarrow> int \<Rightarrow> bool \<Rightarrow> bool" where
  "sig_task_ignored ks t sig from_ancestor_ns =
     (let h = sig_handler ks t sig in
      if s_flags (sig_of ks t) AND SIGNAL_UNKILLABLE \<noteq> 0 \<and> h = SIG_DFL \<and> \<not> from_ancestor_ns then True
      else sig_handler_ignored h sig)"

definition sig_ignored :: "kstate \<Rightarrow> nat \<Rightarrow> int \<Rightarrow> bool \<Rightarrow> bool" where
  "sig_ignored ks t sig from_ancestor_ns =
     (if sigismember (t_blocked (tasks ks t)) sig \<or> sigismember (t_real_blocked (tasks ks t)) sig then False
      else if \<not> sig_task_ignored ks t sig from_ancestor_ns then False
      else t_ptrace (tasks ks t) = 0)"

section \<open>The next signal\<close>

definition ffz :: "u64 \<Rightarrow> nat" where
  "ffz w = length (takeWhile (bit w) [0..<64])"

definition SYNCHRONOUS_MASK :: sigset where
  "SYNCHRONOUS_MASK = sigmask SIGSEGV OR sigmask SIGBUS OR sigmask SIGILL OR sigmask SIGTRAP OR sigmask SIGFPE"

text \<open>The switch of \<open>has_pending_signals\<close>: the loop of the default case, and the cases 4, 2, 1.\<close>

fun ready_loop :: "nat \<Rightarrow> u64 list \<Rightarrow> u64 list \<Rightarrow> u64 \<Rightarrow> u64" where
  "ready_loop 0 s b ready = ready"
| "ready_loop (Suc i) s b ready = ready_loop i s b (ready OR (s ! i AND NOT (b ! i)))"

definition has_pending_words :: "nat \<Rightarrow> u64 list \<Rightarrow> u64 list \<Rightarrow> bool" where
  "has_pending_words nsig_words s b =
     (let ready =
        (if nsig_words = 4 then
           (s ! 3 AND NOT (b ! 3)) OR (s ! 2 AND NOT (b ! 2)) OR (s ! 1 AND NOT (b ! 1)) OR (s ! 0 AND NOT (b ! 0))
         else if nsig_words = 2 then (s ! 1 AND NOT (b ! 1)) OR (s ! 0 AND NOT (b ! 0))
         else if nsig_words = 1 then s ! 0 AND NOT (b ! 0)
         else ready_loop nsig_words s b 0) in
      ready \<noteq> 0)"

text \<open>The loop over the words after the first.\<close>

fun later_word :: "nat \<Rightarrow> u64 list \<Rightarrow> u64 list \<Rightarrow> int" where
  "later_word i (x # xs) (m # ms) =
     (if x AND NOT m = 0 then later_word (Suc i) xs ms else int (ffz (NOT (x AND NOT m)) + i * 64 + 1))"
| "later_word i _ _ = 0"

definition next_signal_words :: "nat \<Rightarrow> u64 list \<Rightarrow> u64 list \<Rightarrow> int" where
  "next_signal_words nsig_words s m =
     (let x = s ! 0 AND NOT (m ! 0) in
      if x \<noteq> 0 then
        (let y = (if x AND SYNCHRONOUS_MASK \<noteq> 0 then x AND SYNCHRONOUS_MASK else x)
         in int (ffz (NOT y) + 1))
      else if nsig_words = 1 then 0
      else if nsig_words = 2 then
        (let z = s ! 1 AND NOT (m ! 1) in if z = 0 then 0 else int (ffz (NOT z) + 64 + 1))
      else later_word 1 (tl s) (tl m))"

definition has_pending_signals :: "sigset \<Rightarrow> sigset \<Rightarrow> bool" where
  "has_pending_signals s b = has_pending_words 1 [s] [b]"

definition next_signal :: "sigpending \<Rightarrow> sigset \<Rightarrow> int" where
  "next_signal p msk = next_signal_words 1 [psignal p] [msk]"

section \<open>\<open>TIF_SIGPENDING\<close> and wake-ups\<close>

definition set_tif_sigpending :: "bool \<Rightarrow> nat \<Rightarrow> kstate \<Rightarrow> kstate" where
  "set_tif_sigpending b t = upd_task t (\<lambda>k. k\<lparr>t_tif_sigpending := b\<rparr>)"

definition recalc_sigpending_tsk :: "nat \<Rightarrow> kstate \<Rightarrow> bool \<times> kstate" where
  "recalc_sigpending_tsk t ks =
     (if t_jobctl (tasks ks t) AND JOBCTL_PENDING_MASK \<noteq> 0
         \<or> has_pending_signals (psignal (t_pending (tasks ks t))) (t_blocked (tasks ks t))
         \<or> has_pending_signals (psignal (s_shared_pending (sig_of ks t))) (t_blocked (tasks ks t))
      then (True, set_tif_sigpending True t ks)
      else (False, ks))"

definition wake_up_state :: "kenv \<Rightarrow> nat \<Rightarrow> u64 \<Rightarrow> kstate \<Rightarrow> bool \<times> kstate" where
  "wake_up_state E t msk ks =
     (let (woken, st) = wake_up E (t_state (tasks ks t)) msk in
      (woken, upd_task t (\<lambda>k. k\<lparr>t_state := st\<rparr>) (ev (Ev_Wake t msk) ks)))"

definition signal_wake_up_state :: "kenv \<Rightarrow> nat \<Rightarrow> u64 \<Rightarrow> kstate \<Rightarrow> kstate" where
  "signal_wake_up_state E t st ks =
     (let (woken, k) = wake_up_state E t (st OR TASK_INTERRUPTIBLE) (set_tif_sigpending True t ks) in
      if woken then k else ev (Ev_Kick t) k)"

definition signal_wake_up :: "kenv \<Rightarrow> nat \<Rightarrow> bool \<Rightarrow> kstate \<Rightarrow> kstate" where
  "signal_wake_up E t resume = signal_wake_up_state E t (if resume then TASK_WAKEKILL else 0)"

definition ptrace_signal_wake_up :: "kenv \<Rightarrow> nat \<Rightarrow> bool \<Rightarrow> kstate \<Rightarrow> kstate" where
  "ptrace_signal_wake_up E t resume = signal_wake_up_state E t (if resume then T_TRACED else 0)"

definition recalc_sigpending_and_wake :: "kenv \<Rightarrow> nat \<Rightarrow> kstate \<Rightarrow> kstate" where
  "recalc_sigpending_and_wake E t ks =
     (case recalc_sigpending_tsk t ks of (True, k) \<Rightarrow> signal_wake_up E t False k | (False, k) \<Rightarrow> k)"

definition recalc_sigpending :: "kenv \<Rightarrow> kstate \<Rightarrow> kstate" where
  "recalc_sigpending E ks =
     (let (r, k) = recalc_sigpending_tsk (cur ks) ks in
      if \<not> r \<and> \<not> freezing E then set_tif_sigpending False (cur ks) k else k)"

section \<open>Queue elements\<close>

definition list_add_tail :: "nat \<Rightarrow> pend_loc \<Rightarrow> kstate \<Rightarrow> kstate" where
  "list_add_tail q l ks = upd_pending l (\<lambda>p. p\<lparr>plist := plist p @ [q]\<rparr>)
     (ks\<lparr>sqs := (sqs ks)(q := (sqs ks q)\<lparr>q_linked := True\<rparr>)\<rparr>)"

definition list_del_init :: "nat \<Rightarrow> pend_loc \<Rightarrow> kstate \<Rightarrow> kstate" where
  "list_del_init q l ks = upd_pending l (\<lambda>p. p\<lparr>plist := remove1 q (plist p)\<rparr>)
     (ks\<lparr>sqs := (sqs ks)(q := (sqs ks q)\<lparr>q_linked := False\<rparr>)\<rparr>)"

text \<open>\<open>__sigqueue_alloc\<close>: the user's count goes up first, and down again when there is no element.\<close>

definition sigqueue_alloc_raw :: "kenv \<Rightarrow> int \<Rightarrow> nat \<Rightarrow> bool \<Rightarrow> kstate \<Rightarrow> nat option \<times> kstate" where
  "sigqueue_alloc_raw E sig t override_rlimit ks =
     (let u = c_user (t_cred (tasks ks t));
          k1 = ks\<lparr>user_sigpending := (user_sigpending ks)(u := user_sigpending ks u + 1)\<rparr>;
          (q, k2) = (if override_rlimit \<or> user_sigpending k1 u \<le> s_rlim_sigpending (sig_of k1 t)
                     then (if kmem_ok E (next_sq k1) then Some (next_sq k1) else None,
                           k1\<lparr>next_sq := Suc (next_sq k1)\<rparr>)
                     else (None, ev (Ev_Dropped sig) k1))
      in case q of
           None \<Rightarrow> (None, k2\<lparr>user_sigpending := (user_sigpending k2)(u := user_sigpending k2 u - 1)\<rparr>)
         | Some q \<Rightarrow> (Some q, k2\<lparr>sqs := (sqs k2)(q := (sqs k2 q)\<lparr>q_flags := 0, q_user := u, q_linked := False\<rparr>)\<rparr>))"

definition sigqueue_free_raw :: "nat \<Rightarrow> kstate \<Rightarrow> kstate" where
  "sigqueue_free_raw q ks =
     (if q_flags (sqs ks q) AND SIGQUEUE_PREALLOC \<noteq> 0 then ks
      else let u = q_user (sqs ks q) in
           ks\<lparr>user_sigpending := (user_sigpending ks)(u := user_sigpending ks u - 1)\<rparr>)"

text \<open>Unlink an element and give it back.\<close>

definition drop_entry :: "pend_loc \<Rightarrow> nat \<Rightarrow> kstate \<Rightarrow> kstate" where
  "drop_entry l q ks = sigqueue_free_raw q (list_del_init q l ks)"

definition set_psignal :: "(sigset \<Rightarrow> sigset) \<Rightarrow> pend_loc \<Rightarrow> kstate \<Rightarrow> kstate" where
  "set_psignal f l = upd_pending l (\<lambda>p. p\<lparr>psignal := f (psignal p)\<rparr>)"

section \<open>Flushing\<close>

definition flush_sigqueue :: "pend_loc \<Rightarrow> kstate \<Rightarrow> kstate" where
  "flush_sigqueue l ks =
     (let k = set_psignal (\<lambda>_. 0) l ks in fold (drop_entry l) (plist (pending_at k l)) k)"

definition flush_signals_raw :: "nat \<Rightarrow> kstate \<Rightarrow> kstate" where
  "flush_signals_raw t ks =
     flush_sigqueue (Shared (t_signal (tasks ks t))) (flush_sigqueue (Private t) (set_tif_sigpending False t ks))"

definition flush_signals :: "nat \<Rightarrow> kstate \<Rightarrow> kstate" where
  "flush_signals t ks = flush_signals_raw t ks"

text \<open>One step of the list walk of \<open>__flush_itimer_signals\<close>, over (signal, retain, state).\<close>

definition flush_itimer_entry ::
  "kenv \<Rightarrow> pend_loc \<Rightarrow> nat \<Rightarrow> sigset \<times> sigset \<times> kstate \<Rightarrow> sigset \<times> sigset \<times> kstate" where
  "flush_itimer_entry E l q = (\<lambda>(signal, retain, ks).
     let i = q_info (sqs ks q) in
     if si_code i \<noteq> SI_TIMER E then (signal, sigaddset (si_signo i) retain, ks)
     else (sigdelset (si_signo i) signal, retain, drop_entry l q ks))"

definition flush_itimer_signals_raw :: "kenv \<Rightarrow> pend_loc \<Rightarrow> kstate \<Rightarrow> kstate" where
  "flush_itimer_signals_raw E l ks =
     (let p = pending_at ks l;
          (signal, retain, k) = fold (flush_itimer_entry E l) (plist p) (psignal p, 0, ks)
      in set_psignal (\<lambda>_. signal OR retain) l k)"

definition flush_itimer_signals :: "kenv \<Rightarrow> kstate \<Rightarrow> kstate" where
  "flush_itimer_signals E ks =
     flush_itimer_signals_raw E (Shared (t_signal (tasks ks (cur ks))))
       (flush_itimer_signals_raw E (Private (cur ks)) ks)"

definition upd_hand :: "nat \<Rightarrow> (sighand_struct \<Rightarrow> sighand_struct) \<Rightarrow> kstate \<Rightarrow> kstate" where
  "upd_hand t f ks = upd_sighand (the (t_sighand (tasks ks t))) f ks"

definition ignore_signals :: "nat \<Rightarrow> kstate \<Rightarrow> kstate" where
  "ignore_signals t ks = flush_signals t
     (upd_hand t (\<lambda>h. h\<lparr>action := map (\<lambda>a. a\<lparr>sa_handler := SIG_IGN\<rparr>) (action h)\<rparr>) ks)"

definition reset_action :: "bool \<Rightarrow> k_sigaction \<Rightarrow> k_sigaction" where
  "reset_action force_default a =
     (if force_default \<or> sa_handler a \<noteq> SIG_IGN then a\<lparr>sa_handler := SIG_DFL\<rparr> else a)
       \<lparr>sa_flags := 0, sa_restorer := 0, sa_mask := 0\<rparr>"

definition flush_signal_handlers :: "nat \<Rightarrow> bool \<Rightarrow> kstate \<Rightarrow> kstate" where
  "flush_signal_handlers t force_default =
     upd_hand t (\<lambda>h. h\<lparr>action := map (reset_action force_default) (action h)\<rparr>)"

definition unhandled_signal :: "kenv \<Rightarrow> nat \<Rightarrow> int \<Rightarrow> kstate \<Rightarrow> bool" where
  "unhandled_signal E t sig ks =
     (let h = sig_handler ks t sig in
      if is_global_init t then True
      else if h \<noteq> SIG_IGN \<and> h \<noteq> SIG_DFL then False
      else t_ptrace (tasks ks t) = 0)"

definition block_all_signals :: "bool \<Rightarrow> sigset \<Rightarrow> kstate \<Rightarrow> kstate" where
  "block_all_signals notifier_answer msk ks =
     upd_task (cur ks) (\<lambda>k. k\<lparr>t_notifier := Some (msk, notifier_answer)\<rparr>) ks"

definition unblock_all_signals :: "kenv \<Rightarrow> kstate \<Rightarrow> kstate" where
  "unblock_all_signals E ks = recalc_sigpending E (upd_task (cur ks) (\<lambda>k. k\<lparr>t_notifier := None\<rparr>) ks)"

section \<open>Collecting and dequeueing\<close>

definition entries_for :: "kstate \<Rightarrow> pend_loc \<Rightarrow> int \<Rightarrow> nat list" where
  "entries_for ks l sig = filter (\<lambda>q. si_signo (q_info (sqs ks q)) = sig) (plist (pending_at ks l))"

definition collect_signal :: "int \<Rightarrow> pend_loc \<Rightarrow> siginfo \<Rightarrow> kstate \<Rightarrow> siginfo \<times> kstate" where
  "collect_signal sig l info ks =
     (case entries_for ks l sig of
        [] \<Rightarrow> (info\<lparr>si_signo := sig, si_errno := 0, si_code := SI_USER, si_pid := 0, si_uid := 0\<rparr>,
               set_psignal (sigdelset sig) l ks)
      | first # rest \<Rightarrow>
          (q_info (sqs ks first),
           drop_entry l first (if rest = [] then set_psignal (sigdelset sig) l ks else ks)))"

text \<open>\<open>__dequeue_signal\<close>\<close>

definition dequeue_signal_raw ::
  "pend_loc \<Rightarrow> sigset \<Rightarrow> siginfo \<Rightarrow> kstate \<Rightarrow> int \<times> siginfo \<times> kstate" where
  "dequeue_signal_raw l msk info ks =
     (let sig = next_signal (pending_at ks l) msk in
      if sig \<noteq> 0 then
        (case t_notifier (tasks ks (cur ks)) of
           Some (nmask, answer) \<Rightarrow>
             if sigismember nmask sig \<and> \<not> answer then (0, info, set_tif_sigpending False (cur ks) ks)
             else (case collect_signal sig l info ks of (i, k) \<Rightarrow> (sig, i, k))
         | None \<Rightarrow> (case collect_signal sig l info ks of (i, k) \<Rightarrow> (sig, i, k)))
      else (sig, info, ks))"

definition dequeue_signal ::
  "kenv \<Rightarrow> nat \<Rightarrow> sigset \<Rightarrow> siginfo \<Rightarrow> kstate \<Rightarrow> int \<times> siginfo \<times> kstate" where
  "dequeue_signal E t msk info ks =
     (let (signr, i, k) = dequeue_signal_raw (Private t) msk info ks;
          (signr, i, k) =
            (if signr = 0 then
               (let g = t_signal (tasks k t);
                    (sg, i2, k2) = dequeue_signal_raw (Shared g) msk i k in
                (sg, i2,
                 if sg = SIGALRM \<and> \<not> s_timer_queued (signals k2 g) \<and> s_it_real_incr (signals k2 g) \<noteq> 0
                 then ev (Ev_Hrtimer_Restart g) (upd_signal g (\<lambda>s. s\<lparr>s_timer_queued := True\<rparr>) k2) else k2))
             else (signr, i, k));
          k = recalc_sigpending E k
      in if signr = 0 then (0, i, k)
         else let k = (if sig_kernel_stop signr
                       then upd_task (cur k) (\<lambda>c. c\<lparr>t_jobctl := t_jobctl c OR JOBCTL_STOP_DEQUEUED\<rparr>) k else k);
                  k = (if is_timer_code E (si_code i) \<and> si_sys_private i \<noteq> 0 then ev Ev_Schedule_Timer k else k)
              in (signr, i, k))"

section \<open>Removing\<close>

definition rm_from_queue_full :: "sigset \<Rightarrow> pend_loc \<Rightarrow> kstate \<Rightarrow> bool \<times> kstate" where
  "rm_from_queue_full msk l ks =
     (let p = pending_at ks l in
      if msk AND psignal p = 0 then (False, ks)
      else (True, fold (drop_entry l)
                    (filter (\<lambda>q. sigismember msk (si_signo (q_info (sqs ks q)))) (plist p))
                    (set_psignal (\<lambda>s. s AND NOT msk) l ks)))"

definition rm_from_queue :: "sigset \<Rightarrow> pend_loc \<Rightarrow> kstate \<Rightarrow> bool \<times> kstate" where
  "rm_from_queue msk l ks =
     (let p = pending_at ks l in
      if psignal p AND msk = 0 then (False, ks)
      else (True, fold (drop_entry l)
                    (filter (\<lambda>q. let s = si_signo (q_info (sqs ks q)) in s < SIGRTMIN \<and> msk AND sigmask s \<noteq> 0) (plist p))
                    (set_psignal (\<lambda>s. s AND NOT msk) l ks)))"

end
