(* ===== verification/Sig_Pending_Facts.thy ===== *)
theory Sig_Pending_Facts
  imports Sig_Pending
begin

text \<open>
  What the pending-signal functions do: the choice of the next signal, the agreement of the
  unrolled word switches with their loops, and the refinement of the queue operations to a
  list of \<open>siginfo\<close> records with a bitmap.
\<close>

section \<open>The lowest pending bit\<close>

lemma takeWhile_upt_length:
  assumes "k < n" and "\<not> P k" and "\<forall>m < k. P m"
  shows "length (takeWhile P [0..<n]) = k"
proof -
  have "[0..<n] = [0..<k] @ [k..<n]" using assms(1) by (metis le_add_diff_inverse less_imp_le upt_add_eq_append zero_le)
  moreover have "[k..<n] = k # [Suc k..<n]" using assms(1) by (simp add: upt_conv_Cons)
  ultimately have "takeWhile P [0..<n] = takeWhile P ([0..<k] @ k # [Suc k..<n])" by simp
  also have "\<dots> = [0..<k]" using assms(2,3) by (subst takeWhile_append2) auto
  finally show ?thesis by simp
qed

lemma ffz_lowest:
  assumes "x \<noteq> 0"
  shows "ffz (NOT x) < 64 \<and> bit x (ffz (NOT x)) \<and> (\<forall>m < ffz (NOT x). \<not> bit x m)"
proof -
  obtain n where n: "n < 64" "bit x n" using assms by (auto simp: word_eq_0_bit)
  define k where "k = (LEAST n. bit x n)"
  have k: "bit x k" "\<forall>m < k. \<not> bit x m" "k \<le> n"
    using n(2) by (auto simp: k_def intro: LeastI Least_le dest: not_less_Least)
  then have "k < 64" using n by simp
  moreover have "ffz (NOT x) = k"
    unfolding ffz_def using \<open>k < 64\<close> k by (intro takeWhile_upt_length) (auto simp: bit_simps)
  ultimately show ?thesis using k by simp
qed

lemma sigidx_ffz: "x \<noteq> 0 \<Longrightarrow> sigidx (int (ffz (NOT x) + 1)) = ffz (NOT x)"
  by (simp add: sigidx_def)

text \<open>The first signal of a nonempty set.\<close>

lemma ffz_signal:
  assumes "x \<noteq> 0"
  shows "signo (int (ffz (NOT x) + 1))" and "sigismember x (int (ffz (NOT x) + 1))"
    and "sigismember x a \<Longrightarrow> signo a \<Longrightarrow> int (ffz (NOT x) + 1) \<le> a"
proof -
  note f = ffz_lowest [OF assms]
  show "signo (int (ffz (NOT x) + 1))" using f by (simp add: signo_def)
  show "sigismember x (int (ffz (NOT x) + 1))" using f by (simp add: sigismember_def sigidx_def)
  assume "sigismember x a" "signo a"
  then have "ffz (NOT x) \<le> sigidx a" using f unfolding sigismember_def by (metis not_le)
  then show "int (ffz (NOT x) + 1) \<le> a" using \<open>signo a\<close> by (auto simp: sigidx_def signo_def)
qed

section \<open>The word switches\<close>

lemma ready_loop_bits:
  "ready_loop n s b r = r OR ready_loop n s b 0"
proof (induction n arbitrary: r)
  case (Suc n)
  from Suc [of "r OR (s ! n AND NOT (b ! n))"] Suc [of "s ! n AND NOT (b ! n)"]
  show ?case by (simp add: or.assoc)
qed simp

lemma word_or_eq_0: "a OR b = 0 \<longleftrightarrow> a = 0 \<and> b = (0 :: 'a::len word)"
  by (auto simp: bit_eq_iff bit_simps)

lemma ready_loop_nonzero: "ready_loop n s b 0 \<noteq> 0 \<longleftrightarrow> (\<exists>i < n. s ! i AND NOT (b ! i) \<noteq> 0)"
proof (induction n)
  case (Suc n)
  have "ready_loop (Suc n) s b 0 = (s ! n AND NOT (b ! n)) OR ready_loop n s b 0"
    using ready_loop_bits [of n s b "s ! n AND NOT (b ! n)"] by simp
  with Suc show ?case by (auto simp: word_or_eq_0 less_Suc_eq)
qed simp

text \<open>Every case of the switch finds a signal exactly when some word has one.\<close>

lemma has_pending_words_iff:
  "has_pending_words n s b \<longleftrightarrow> (\<exists>i < n. s ! i AND NOT (b ! i) \<noteq> 0)"
proof -
  consider "n = 4" | "n = 2" | "n = 1" | "n \<noteq> 4" "n \<noteq> 2" "n \<noteq> 1" by blast
  then show ?thesis
    by cases (auto simp: has_pending_words_def word_or_eq_0 ready_loop_nonzero numeral_eq_Suc less_Suc_eq)
qed

lemma has_pending_signals_iff: "has_pending_signals s b \<longleftrightarrow> s AND NOT b \<noteq> 0"
  by (simp add: has_pending_signals_def has_pending_words_iff)

text \<open>The unrolled cases of \<open>next_signal\<close> agree with its loop.\<close>

lemma next_signal_words_loop:
  assumes "length s = n" and "length m = n" and "0 < n"
  shows "next_signal_words n s m =
    (let x = s ! 0 AND NOT (m ! 0) in
     if x \<noteq> 0 then (let y = (if x AND SYNCHRONOUS_MASK \<noteq> 0 then x AND SYNCHRONOUS_MASK else x) in int (ffz (NOT y) + 1))
     else later_word 1 (tl s) (tl m))"
proof -
  consider "n = 1" | "n = 2" | "n \<noteq> 1" "n \<noteq> 2" by blast
  then show ?thesis
  proof cases
    case 1
    with assms have "tl s = []" "tl m = []" by (cases s; cases m; simp)+
    with 1 show ?thesis by (simp add: next_signal_words_def Let_def)
  next
    case 2
    with assms obtain a b c d where "s = [a, b]" "m = [c, d]"
      by (auto simp: length_Suc_conv numeral_2_eq_2)
    with 2 show ?thesis by (simp add: next_signal_words_def Let_def)
  next
    case 3
    then show ?thesis by (simp add: next_signal_words_def Let_def)
  qed
qed

section \<open>The next signal\<close>

lemma next_signal_eq:
  "next_signal p m =
    (let x = psignal p AND NOT m in
     if x = 0 then 0
     else int (ffz (NOT (if x AND SYNCHRONOUS_MASK \<noteq> 0 then x AND SYNCHRONOUS_MASK else x)) + 1))"
  by (simp add: next_signal_def next_signal_words_def Let_def)

lemma next_signal_zero: "next_signal p m = 0 \<longleftrightarrow> psignal p AND NOT m = 0"
  by (simp add: next_signal_eq Let_def)

lemma next_signal_props:
  assumes "next_signal p m \<noteq> 0"
  shows "signo (next_signal p m)" and "sigismember (psignal p) (next_signal p m)"
    and "\<not> sigismember m (next_signal p m)"
    and "signo a \<Longrightarrow> sigismember (psignal p) a \<Longrightarrow> \<not> sigismember m a \<Longrightarrow>
           sigismember SYNCHRONOUS_MASK a \<Longrightarrow> sigismember SYNCHRONOUS_MASK (next_signal p m) \<and> next_signal p m \<le> a"
    and "signo a \<Longrightarrow> sigismember (psignal p) a \<Longrightarrow> \<not> sigismember m a \<Longrightarrow>
           sigismember SYNCHRONOUS_MASK (next_signal p m) \<or> next_signal p m \<le> a"
proof -
  let ?x = "psignal p AND NOT m"
  let ?y = "if ?x AND SYNCHRONOUS_MASK \<noteq> 0 then ?x AND SYNCHRONOUS_MASK else ?x"
  have x: "?x \<noteq> 0" using assms by (simp add: next_signal_zero)
  then have y: "?y \<noteq> 0" by simp
  have eq: "next_signal p m = int (ffz (NOT ?y) + 1)" using x unfolding next_signal_eq Let_def by simp
  note f = ffz_signal [OF y, folded eq]
  show s: "signo (next_signal p m)" by (rule f(1))
  have m: "sigismember ?x (next_signal p m)" using f(2) by (auto split: if_splits)
  show "sigismember (psignal p) (next_signal p m)" "\<not> sigismember m (next_signal p m)" using m s by auto
  have member: "sigismember ?y a \<longleftrightarrow> sigismember ?x a \<and> (?x AND SYNCHRONOUS_MASK \<noteq> 0 \<longrightarrow> sigismember SYNCHRONOUS_MASK a)" for a
    by auto
  {
    assume a: "signo a" "sigismember (psignal p) a" "\<not> sigismember m a" "sigismember SYNCHRONOUS_MASK a"
    then have "sigismember (?x AND SYNCHRONOUS_MASK) a" by simp
    then have "?x AND SYNCHRONOUS_MASK \<noteq> 0" by (metis sigismember_empty)
    then show "sigismember SYNCHRONOUS_MASK (next_signal p m) \<and> next_signal p m \<le> a"
      using f(2) f(3) [of a] a by auto
  }
  {
    assume a: "signo a" "sigismember (psignal p) a" "\<not> sigismember m a"
    show "sigismember SYNCHRONOUS_MASK (next_signal p m) \<or> next_signal p m \<le> a"
    proof (cases "?x AND SYNCHRONOUS_MASK = 0")
      case True
      with f(3) [of a] a show ?thesis by simp
    next
      case False
      with f(2) show ?thesis by auto
    qed
  }
qed

lemma has_pending_next: "has_pending_signals (psignal p) m \<longleftrightarrow> next_signal p m \<noteq> 0"
  by (simp add: has_pending_signals_iff next_signal_zero)

section \<open>Frames: operations that touch only the pending queues\<close>

definition pend_frame :: "kstate \<Rightarrow> kstate \<Rightarrow> bool" where
  "pend_frame k k' \<longleftrightarrow>
     (\<forall>t. tasks k' t = (tasks k t)\<lparr>t_pending := t_pending (tasks k' t)\<rparr>) \<and>
     (\<forall>g. signals k' g = (signals k g)\<lparr>s_shared_pending := s_shared_pending (signals k' g)\<rparr>) \<and>
     sighands k' = sighands k \<and> cur k' = cur k \<and> next_sq k' = next_sq k \<and> klog k' = klog k \<and>
     (\<forall>q. q_info (sqs k' q) = q_info (sqs k q))"

lemma pend_frame_refl [simp]: "pend_frame k k"
  by (simp add: pend_frame_def)

lemma pend_frame_trans:
  assumes "pend_frame k1 k2" and "pend_frame k2 k3"
  shows "pend_frame k1 k3"
proof -
  have "tasks k3 t = (tasks k1 t)\<lparr>t_pending := t_pending (tasks k3 t)\<rparr>" for t
    using assms unfolding pend_frame_def by (metis task_struct.update_convs(18) task_struct.surjective)
  moreover have "signals k3 g = (signals k1 g)\<lparr>s_shared_pending := s_shared_pending (signals k3 g)\<rparr>" for g
    using assms unfolding pend_frame_def by (metis signal_struct.update_convs(2) signal_struct.surjective)
  ultimately show ?thesis using assms by (simp add: pend_frame_def)
qed

text \<open>The fields a frame keeps.\<close>

lemma pend_frame_task:
  assumes "pend_frame k k'"
  shows "t_state (tasks k' t) = t_state (tasks k t)" "t_flags (tasks k' t) = t_flags (tasks k t)"
    "t_ptrace (tasks k' t) = t_ptrace (tasks k t)" "t_jobctl (tasks k' t) = t_jobctl (tasks k t)"
    "t_exit_state (tasks k' t) = t_exit_state (tasks k t)"
    "t_blocked (tasks k' t) = t_blocked (tasks k t)" "t_real_blocked (tasks k' t) = t_real_blocked (tasks k t)"
    "t_signal (tasks k' t) = t_signal (tasks k t)" "t_sighand (tasks k' t) = t_sighand (tasks k t)"
    "t_cred (tasks k' t) = t_cred (tasks k t)" "t_tgid (tasks k' t) = t_tgid (tasks k t)"
    "t_tif_sigpending (tasks k' t) = t_tif_sigpending (tasks k t)"
    "t_notifier (tasks k' t) = t_notifier (tasks k t)"
  using assms unfolding pend_frame_def by (metis task_struct.ext_inject task_struct.surjective task_struct.update_convs(18))+

lemma pend_frame_signal:
  assumes "pend_frame k k'"
  shows "s_flags (signals k' g) = s_flags (signals k g)" "s_threads (signals k' g) = s_threads (signals k g)"
    "s_group_stop_count (signals k' g) = s_group_stop_count (signals k g)"
    "s_group_exit_code (signals k' g) = s_group_exit_code (signals k g)"
    "s_group_exit_task (signals k' g) = s_group_exit_task (signals k g)"
    "s_curr_target (signals k' g) = s_curr_target (signals k g)"
    "s_rlim_sigpending (signals k' g) = s_rlim_sigpending (signals k g)"
  using assms unfolding pend_frame_def by (metis signal_struct.ext_inject signal_struct.surjective signal_struct.update_convs(2))+

lemma pend_frame_more:
  assumes "pend_frame k k'"
  shows "sighands k' = sighands k" "cur k' = cur k" "klog k' = klog k" "next_sq k' = next_sq k"
    "q_info (sqs k' q) = q_info (sqs k q)" "hand_of k' t = hand_of k t" "group_from k' t = group_from k t"
    "sig_ignored k' t sig ns = sig_ignored k t sig ns"
  using assms pend_frame_task [OF assms] pend_frame_signal [OF assms]
  by (auto simp: pend_frame_def hand_of_def group_from_def sig_of_def sig_ignored_def sig_task_ignored_def
      sig_handler_def Let_def)

lemma pend_frame_upd [intro]: "pend_frame ks (upd_pending l f ks)"
  by (cases l) (simp_all add: pend_frame_def)

lemma pend_frame_set [intro]: "pend_frame ks (set_psignal f l ks)"
  unfolding set_psignal_def by blast

lemma pend_frame_sqs: "(\<And>q. q_info (s q) = q_info (sqs ks q)) \<Longrightarrow> pend_frame ks (ks\<lparr>sqs := s\<rparr>)"
  "pend_frame ks (ks\<lparr>user_sigpending := u\<rparr>)"
  by (simp_all add: pend_frame_def)

lemma pend_frame_drop [intro]: "pend_frame ks (drop_entry l q ks)"
proof -
  let ?k1 = "ks\<lparr>sqs := (sqs ks)(q := (sqs ks q)\<lparr>q_linked := False\<rparr>)\<rparr>"
  have "pend_frame ks ?k1" by (rule pend_frame_sqs) simp
  then have 2: "pend_frame ks (list_del_init q l ks)"
    unfolding list_del_init_def by (rule pend_frame_trans) blast
  have "pend_frame (list_del_init q l ks) (drop_entry l q ks)"
    by (simp add: drop_entry_def sigqueue_free_raw_def Let_def pend_frame_sqs(2))
  with 2 show ?thesis by (rule pend_frame_trans)
qed

lemma pend_frame_fold_drop [intro]: "pend_frame ks (fold (drop_entry l) qs ks)"
proof (induction qs arbitrary: ks)
  case (Cons q qs)
  have "pend_frame ks (drop_entry l q ks)" by blast
  with Cons [of "drop_entry l q ks"] show ?case by (auto intro: pend_frame_trans)
qed simp

section \<open>The queue as a list\<close>

lemma pending_at_more [simp]:
  "pending_at (ks\<lparr>sqs := s\<rparr>) m = pending_at ks m" "pending_at (ks\<lparr>user_sigpending := u\<rparr>) m = pending_at ks m"
  "pending_at (ks\<lparr>next_sq := n\<rparr>) m = pending_at ks m"
  by (cases m; simp)+

lemma pending_at_drop:
  "pending_at (drop_entry l q ks) m =
     (if m = l then (pending_at ks l)\<lparr>plist := remove1 q (plist (pending_at ks l))\<rparr> else pending_at ks m)"
  by (simp add: drop_entry_def sigqueue_free_raw_def list_del_init_def Let_def)

lemma pending_at_set:
  "pending_at (set_psignal f l ks) m =
     (if m = l then (pending_at ks l)\<lparr>psignal := f (psignal (pending_at ks l))\<rparr> else pending_at ks m)"
  by (simp add: set_psignal_def)

lemma pending_at_fold_drop:
  assumes "distinct (plist (pending_at ks l))"
  shows "pending_at (fold (drop_entry l) qs ks) m =
     (if m = l then (pending_at ks l)\<lparr>plist := filter (\<lambda>q. q \<notin> set qs) (plist (pending_at ks l))\<rparr>
      else pending_at ks m)"
  using assms
proof (induction qs arbitrary: ks)
  case Nil
  then show ?case by simp
next
  case (Cons q qs)
  have d: "distinct (plist (pending_at (drop_entry l q ks) l))" using Cons.prems by (simp add: pending_at_drop)
  have "filter (\<lambda>x. q \<noteq> x \<and> x \<notin> set qs) xs = filter (\<lambda>x. x \<noteq> q \<and> x \<notin> set qs) xs" for xs
    by (rule filter_cong) auto
  with Cons.prems show ?case
    by (simp add: Cons.IH [OF d] pending_at_drop distinct_remove1_removeAll removeAll_filter_not_eq)
qed

text \<open>The well-formed queue: no element twice, every queued signal is a signal number set in the
  bitmap, and of the classic signals at most one element each.\<close>

definition pend_ok :: "kstate \<Rightarrow> pend_loc \<Rightarrow> bool" where
  "pend_ok ks l \<longleftrightarrow> distinct (plist (pending_at ks l)) \<and>
     (\<forall>q \<in> set (plist (pending_at ks l)). signo (si_signo (q_info (sqs ks q))) \<and>
        sigismember (psignal (pending_at ks l)) (si_signo (q_info (sqs ks q)))) \<and>
     (\<forall>sig < SIGRTMIN. length (entries_for ks l sig) \<le> 1)"

text \<open>The abstract queue: the bitmap and the records in order of arrival.\<close>

definition pview :: "kstate \<Rightarrow> pend_loc \<Rightarrow> sigset \<times> siginfo list" where
  "pview ks l = (psignal (pending_at ks l), map (\<lambda>q. q_info (sqs ks q)) (plist (pending_at ks l)))"

fun take_info :: "int \<Rightarrow> siginfo list \<Rightarrow> siginfo option \<times> siginfo list" where
  "take_info sig [] = (None, [])"
| "take_info sig (i # is) = (if si_signo i = sig then (Some i, is)
     else (case take_info sig is of (r, rest) \<Rightarrow> (r, i # rest)))"

definition collect_spec :: "int \<Rightarrow> sigset \<times> siginfo list \<Rightarrow> siginfo option \<times> sigset \<times> siginfo list" where
  "collect_spec sig = (\<lambda>(S, is). case take_info sig is of
     (r, rest) \<Rightarrow> (r, if sig \<in> si_signo ` set rest then S else sigdelset sig S, rest))"

definition remove_spec :: "sigset \<Rightarrow> sigset \<times> siginfo list \<Rightarrow> sigset \<times> siginfo list" where
  "remove_spec m = (\<lambda>(S, is). (S AND NOT m, filter (\<lambda>i. \<not> sigismember m (si_signo i)) is))"

lemma take_info_map:
  assumes "distinct qs"
  shows "take_info sig (map f qs) = (case filter (\<lambda>q. si_signo (f q) = sig) qs of
     [] \<Rightarrow> (None, map f qs) | q # _ \<Rightarrow> (Some (f q), map f (remove1 q qs)))"
  using assms
proof (induction qs)
  case (Cons p qs)
  then show ?case
    by (cases "filter (\<lambda>q. si_signo (f q) = sig) qs")
       (auto simp: filter_eq_Cons_iff split: prod.splits)
qed simp

lemma rest_has_sig:
  assumes "distinct qs" and "filter (\<lambda>q. P q) qs = a # rest"
  shows "(\<exists>q \<in> set (remove1 a qs). P q) \<longleftrightarrow> rest \<noteq> []"
proof -
  have "filter P (remove1 a qs) = remove1 a (filter P qs)"
    using assms(1) by (simp add: distinct_remove1_removeAll removeAll_filter_not_eq conj_commute)
  with assms(2) have "filter P (remove1 a qs) = rest" by simp
  then show ?thesis by (metis filter_empty_conv)
qed

lemma collect_refines:
  assumes ok: "pend_ok ks l" and c: "collect_signal sig l info ks = (i, k')"
  shows "collect_spec sig (pview ks l) =
      (if entries_for ks l sig = [] then None else Some i, pview k' l)"
    and "pend_frame ks k'" and "m \<noteq> l \<Longrightarrow> pending_at k' m = pending_at ks m"
    and "si_signo i = sig"
    and "entries_for ks l sig = [] \<Longrightarrow> si_code i = SI_USER \<and> si_pid i = 0 \<and> si_uid i = 0 \<and> si_errno i = 0"
    and "plist (pending_at k' l) = (case entries_for ks l sig of [] \<Rightarrow> plist (pending_at ks l)
           | q # _ \<Rightarrow> remove1 q (plist (pending_at ks l)))"
    and "psignal (pending_at k' l) = (if length (entries_for ks l sig) \<le> 1
           then sigdelset sig (psignal (pending_at ks l)) else psignal (pending_at ks l))"
proof -
  have d: "distinct (plist (pending_at ks l))" using ok by (simp add: pend_ok_def)
  have all: "collect_spec sig (pview ks l) = (if entries_for ks l sig = [] then None else Some i, pview k' l) \<and>
      pend_frame ks k' \<and> (m \<noteq> l \<longrightarrow> pending_at k' m = pending_at ks m) \<and> si_signo i = sig \<and>
      (entries_for ks l sig = [] \<longrightarrow> si_code i = SI_USER \<and> si_pid i = 0 \<and> si_uid i = 0 \<and> si_errno i = 0) \<and>
      plist (pending_at k' l) = (case entries_for ks l sig of [] \<Rightarrow> plist (pending_at ks l)
           | q # _ \<Rightarrow> remove1 q (plist (pending_at ks l))) \<and>
      psignal (pending_at k' l) = (if length (entries_for ks l sig) \<le> 1
           then sigdelset sig (psignal (pending_at ks l)) else psignal (pending_at ks l))" for m
  proof (cases "entries_for ks l sig")
    case Nil
    then have k: "k' = set_psignal (sigdelset sig) l ks" and i: "si_signo i = sig" "si_code i = SI_USER"
      "si_pid i = 0" "si_uid i = 0" "si_errno i = 0"
      using c by (auto simp: collect_signal_def)
    have fr: "pend_frame ks k'" unfolding k by blast
    have no: "filter (\<lambda>q. si_signo (q_info (sqs ks q)) = sig) (plist (pending_at ks l)) = []"
      using Nil by (simp add: entries_for_def)
    have "collect_spec sig (pview ks l) = (None, sigdelset sig (psignal (pending_at ks l)),
        map (\<lambda>q. q_info (sqs ks q)) (plist (pending_at ks l)))"
      using no by (auto simp: collect_spec_def pview_def take_info_map [OF d] filter_empty_conv)
    also have "\<dots> = (None, pview k' l)"
      by (simp add: pview_def k pending_at_set pend_frame_more(5) [OF fr [unfolded k]])
    finally show ?thesis using Nil i fr by (simp add: k pending_at_set)
  next
    case (Cons q rest)
    let ?k0 = "if rest = [] then set_psignal (sigdelset sig) l ks else ks"
    have k: "k' = drop_entry l q ?k0" and i: "i = q_info (sqs ks q)"
      using c Cons by (auto simp: collect_signal_def)
    have f: "filter (\<lambda>q. si_signo (q_info (sqs ks q)) = sig) (plist (pending_at ks l)) = q # rest"
      using Cons by (simp add: entries_for_def)
    then have "q \<in> set (filter (\<lambda>q. si_signo (q_info (sqs ks q)) = sig) (plist (pending_at ks l)))" by simp
    then have s: "si_signo i = sig" using i by simp
    have "pend_frame ks ?k0" by auto
    then have fr: "pend_frame ks k'" unfolding k by (rule pend_frame_trans) blast
    have p: "pending_at k' l = \<lparr>plist = remove1 q (plist (pending_at ks l)),
        psignal = (if rest = [] then sigdelset sig (psignal (pending_at ks l)) else psignal (pending_at ks l))\<rparr>"
      by (simp add: k pending_at_drop pending_at_set)
    have "collect_spec sig (pview ks l) = (Some i,
        if rest = [] then sigdelset sig (psignal (pending_at ks l)) else psignal (pending_at ks l),
        map (\<lambda>q. q_info (sqs ks q)) (remove1 q (plist (pending_at ks l))))"
      using rest_has_sig [OF d f] f i
      by (auto simp: collect_spec_def pview_def take_info_map [OF d] image_iff)
    also have "\<dots> = (Some i, pview k' l)"
      by (simp add: pview_def p pend_frame_more(5) [OF fr])
    finally show ?thesis using Cons fr s
      by (auto simp: p) (auto simp: k pending_at_drop pending_at_set)
  qed
  show "collect_spec sig (pview ks l) = (if entries_for ks l sig = [] then None else Some i, pview k' l)"
    "pend_frame ks k'" "m \<noteq> l \<Longrightarrow> pending_at k' m = pending_at ks m" "si_signo i = sig"
    "entries_for ks l sig = [] \<Longrightarrow> si_code i = SI_USER \<and> si_pid i = 0 \<and> si_uid i = 0 \<and> si_errno i = 0"
    "plist (pending_at k' l) = (case entries_for ks l sig of [] \<Rightarrow> plist (pending_at ks l)
           | q # _ \<Rightarrow> remove1 q (plist (pending_at ks l)))"
    "psignal (pending_at k' l) = (if length (entries_for ks l sig) \<le> 1
           then sigdelset sig (psignal (pending_at ks l)) else psignal (pending_at ks l))"
    using all by auto
qed

lemma pend_ok_other:
  assumes "pend_frame ks k'" and "pending_at k' m = pending_at ks m"
  shows "pend_ok k' m = pend_ok ks m"
  using assms by (simp add: pend_ok_def entries_for_def pend_frame_more(5) [OF assms(1)])

lemma pend_ok_sub:
  assumes "pend_ok ks l" and "pend_frame ks k'"
    and "plist (pending_at k' l) = filter P (plist (pending_at ks l))"
    and "\<forall>q \<in> set (plist (pending_at k' l)). sigismember (psignal (pending_at k' l)) (si_signo (q_info (sqs ks q)))"
  shows "pend_ok k' l"
proof -
  have "length (entries_for k' l sig) \<le> length (entries_for ks l sig)" for sig
  proof -
    have "entries_for k' l sig = filter P (entries_for ks l sig)"
      by (simp add: entries_for_def assms(3) pend_frame_more(5) [OF assms(2)] conj_commute)
    then show ?thesis by simp
  qed
  note le = order_trans [OF this]
  from assms(1,3,4) show ?thesis
    unfolding pend_ok_def pend_frame_more(5) [OF assms(2)] by (auto intro!: le)
qed

lemma collect_pend_ok:
  assumes ok: "pend_ok ks l" and c: "collect_signal sig l info ks = (i, k')" and s: "signo sig"
  shows "pend_ok k' l"
proof -
  note r = collect_refines [OF ok c]
  have d: "distinct (plist (pending_at ks l))" using ok by (simp add: pend_ok_def)
  define P where "P = (\<lambda>q. case entries_for ks l sig of [] \<Rightarrow> True | p # _ \<Rightarrow> q \<noteq> p)"
  have pl: "plist (pending_at k' l) = filter P (plist (pending_at ks l))"
  proof (cases "entries_for ks l sig")
    case Nil
    with r(6) show ?thesis by (simp add: P_def)
  next
    case (Cons p rest)
    with r(6) d have "plist (pending_at k' l) = filter (\<lambda>q. p \<noteq> q) (plist (pending_at ks l))"
      by (simp add: distinct_remove1_removeAll removeAll_filter_not_eq)
    also have "\<dots> = filter P (plist (pending_at ks l))"
      by (rule filter_cong) (auto simp: P_def Cons)
    finally show ?thesis .
  qed
  have "sigismember (psignal (pending_at k' l)) (si_signo (q_info (sqs ks q)))"
    if q: "q \<in> set (plist (pending_at k' l))" for q
  proof -
    have qo: "q \<in> set (plist (pending_at ks l))" "P q" using q pl by auto
    have m: "signo (si_signo (q_info (sqs ks q)))"
      "sigismember (psignal (pending_at ks l)) (si_signo (q_info (sqs ks q)))"
      using ok qo by (auto simp: pend_ok_def)
    show ?thesis
    proof (cases "si_signo (q_info (sqs ks q)) = sig")
      case False
      with m s r(7) show ?thesis by auto
    next
      case True
      then have qe: "q \<in> set (entries_for ks l sig)" using qo by (simp add: entries_for_def)
      then obtain p rest where e: "entries_for ks l sig = p # rest" by (cases "entries_for ks l sig") auto
      with qo(2) qe have "rest \<noteq> []" by (auto simp: P_def)
      with e r(7) m show ?thesis by (cases rest) auto
    qed
  qed
  with pend_ok_sub [OF ok r(2) pl] show ?thesis by blast
qed

text \<open>A mask of classic signals only, as all masks handed to \<open>rm_from_queue\<close> are.\<close>

definition classic :: "sigset \<Rightarrow> bool" where
  "classic m \<longleftrightarrow> (\<forall>a. signo a \<longrightarrow> sigismember m a \<longrightarrow> a < SIGRTMIN)"

text \<open>Both removals come down to this: the bits go, and the matching elements are dropped.\<close>

lemma drop_matching:
  assumes ok: "pend_ok ks l"
    and F: "\<And>q. q \<in> set (plist (pending_at ks l)) \<Longrightarrow> F q \<longleftrightarrow> sigismember m (si_signo (q_info (sqs ks q)))"
    and k': "k' = fold (drop_entry l) (filter F (plist (pending_at ks l))) (set_psignal (\<lambda>s. s AND NOT m) l ks)"
  shows "pview k' l = remove_spec m (pview ks l)" and "pend_frame ks k'" and "pend_ok k' l"
    and "n \<noteq> l \<Longrightarrow> pending_at k' n = pending_at ks n"
    and "psignal (pending_at k' l) = psignal (pending_at ks l) AND NOT m"
proof -
  let ?k0 = "set_psignal (\<lambda>s. s AND NOT m) l ks"
  have d: "distinct (plist (pending_at ?k0 l))" using ok by (simp add: pend_ok_def pending_at_set)
  show fr: "pend_frame ks k'"
    unfolding k' by (rule pend_frame_trans [OF pend_frame_set]) blast
  have ng: "filter (\<lambda>q. q \<in> set xs \<longrightarrow> \<not> F q) xs = filter (\<lambda>q. \<not> F q) xs" for xs
    by (rule filter_cong) auto
  have p: "pending_at k' l = \<lparr>plist = filter (\<lambda>q. \<not> F q) (plist (pending_at ks l)),
      psignal = psignal (pending_at ks l) AND NOT m\<rparr>"
    unfolding k' pending_at_fold_drop [OF d]
    by (simp add: pending_at_set ng)
  show ps: "psignal (pending_at k' l) = psignal (pending_at ks l) AND NOT m" by (simp add: p)
  show "n \<noteq> l \<Longrightarrow> pending_at k' n = pending_at ks n"
    unfolding k' pending_at_fold_drop [OF d] by (simp add: pending_at_set)
  have fc: "filter (\<lambda>q. \<not> F q) (plist (pending_at ks l)) =
      filter (\<lambda>q. \<not> sigismember m (si_signo (q_info (sqs ks q)))) (plist (pending_at ks l))"
    using F by (auto intro: filter_cong)
  show "pview k' l = remove_spec m (pview ks l)"
    by (simp add: pview_def p fc remove_spec_def filter_map comp_def pend_frame_more(5) [OF fr])
  show "pend_ok k' l"
    by (rule pend_ok_sub [OF ok fr, where P = "\<lambda>q. \<not> F q"]) (use F ok in \<open>auto simp: p pend_ok_def\<close>)
qed

lemma no_match_spec:
  assumes ok: "pend_ok ks l" and none: "psignal (pending_at ks l) AND m = 0"
  shows "pview ks l = remove_spec m (pview ks l)" and "psignal (pending_at ks l) = psignal (pending_at ks l) AND NOT m"
proof -
  have no: "\<not> sigismember m a" if "signo a" "sigismember (psignal (pending_at ks l)) a" for a
    using that none by (metis sigismember_and sigismember_empty)
  have "filter (\<lambda>i. \<not> sigismember m (si_signo i)) (map (\<lambda>q. q_info (sqs ks q)) (plist (pending_at ks l)))
      = map (\<lambda>q. q_info (sqs ks q)) (plist (pending_at ks l))"
    using ok no by (auto simp: pend_ok_def filter_map comp_def intro!: filter_True)
  moreover show s: "psignal (pending_at ks l) = psignal (pending_at ks l) AND NOT m"
    by (rule sigset_eqI) (use no in auto)
  ultimately show "pview ks l = remove_spec m (pview ks l)" by (simp add: remove_spec_def pview_def)
qed

lemma rm_from_queue_refines:
  assumes ok: "pend_ok ks l" and m: "classic m" and r: "rm_from_queue m l ks = (b, k')"
  shows "pview k' l = remove_spec m (pview ks l)" and "pend_frame ks k'" and "pend_ok k' l"
    and "n \<noteq> l \<Longrightarrow> pending_at k' n = pending_at ks n"
    and "psignal (pending_at k' l) = psignal (pending_at ks l) AND NOT m"
    and "b = (psignal (pending_at ks l) AND m \<noteq> 0)"
proof -
  let ?F = "\<lambda>q. let s = si_signo (q_info (sqs ks q)) in s < SIGRTMIN \<and> m AND sigmask s \<noteq> 0"
  have F: "?F q \<longleftrightarrow> sigismember m (si_signo (q_info (sqs ks q)))" if "q \<in> set (plist (pending_at ks l))" for q
  proof -
    have s: "signo (si_signo (q_info (sqs ks q)))" using ok that by (simp add: pend_ok_def)
    show ?thesis using mask_and_iff [OF s, of m] s m
      by (auto simp: Let_def classic_def and.commute [of m])
  qed
  show "pview k' l = remove_spec m (pview ks l)" "pend_frame ks k'" "pend_ok k' l"
    "n \<noteq> l \<Longrightarrow> pending_at k' n = pending_at ks n"
    "psignal (pending_at k' l) = psignal (pending_at ks l) AND NOT m"
    "b = (psignal (pending_at ks l) AND m \<noteq> 0)"
    using r drop_matching [OF ok F refl] no_match_spec [OF ok, of m] ok
    by (auto simp: rm_from_queue_def Let_def split: if_splits)
qed

lemma rm_from_queue_full_refines:
  assumes ok: "pend_ok ks l" and r: "rm_from_queue_full m l ks = (b, k')"
  shows "pview k' l = remove_spec m (pview ks l)" and "pend_frame ks k'" and "pend_ok k' l"
    and "n \<noteq> l \<Longrightarrow> pending_at k' n = pending_at ks n"
    and "psignal (pending_at k' l) = psignal (pending_at ks l) AND NOT m"
proof -
  show "pview k' l = remove_spec m (pview ks l)" "pend_frame ks k'" "pend_ok k' l"
    "n \<noteq> l \<Longrightarrow> pending_at k' n = pending_at ks n"
    "psignal (pending_at k' l) = psignal (pending_at ks l) AND NOT m"
    using r drop_matching [OF ok refl refl, where m = m] no_match_spec [OF ok, of m] ok
    by (auto simp: rm_from_queue_full_def Let_def and.commute [of m] split: if_splits)
qed

end
