(* ===== verification/Sig_Send.thy ===== *)
theory Sig_Send
  imports Sig_Pending_Facts
begin

text \<open>
  Job control bits and the generation of signals: \<open>prepare_signal\<close> (the immediate effects of
  stop and continue signals), \<open>complete_signal\<close> (choosing a thread and starting a group exit),
  \<open>__send_signal\<close> with its queueing rules, and the entry points above it, \<open>do_send_sig_info\<close>
  with the added per-process counters first of all. A failed \<open>BUG_ON\<close> is recorded as \<open>Ev_Bug\<close>.
\<close>

section \<open>Job control\<close>

definition task_set_jobctl_pending :: "nat \<Rightarrow> u32 \<Rightarrow> kstate \<Rightarrow> bool \<times> kstate" where
  "task_set_jobctl_pending t msk ks =
     (let ks = (if msk AND NOT (JOBCTL_PENDING_MASK OR JOBCTL_STOP_CONSUME OR JOBCTL_STOP_SIGMASK OR JOBCTL_TRAPPING) \<noteq> 0
                then ev Ev_Bug ks else ks);
          ks = (if msk AND JOBCTL_TRAPPING \<noteq> 0 \<and> msk AND JOBCTL_PENDING_MASK = 0 then ev Ev_Bug ks else ks)
      in if fatal_signal_pending (tasks ks t) \<or> t_flags (tasks ks t) AND PF_EXITING \<noteq> 0 then (False, ks)
         else let ks = (if msk AND JOBCTL_STOP_SIGMASK \<noteq> 0
                        then upd_task t (\<lambda>k. k\<lparr>t_jobctl := t_jobctl k AND NOT JOBCTL_STOP_SIGMASK\<rparr>) ks else ks)
              in (True, upd_task t (\<lambda>k. k\<lparr>t_jobctl := t_jobctl k OR msk\<rparr>) ks))"

definition task_clear_jobctl_trapping :: "nat \<Rightarrow> kstate \<Rightarrow> kstate" where
  "task_clear_jobctl_trapping t ks =
     (if t_jobctl (tasks ks t) AND JOBCTL_TRAPPING \<noteq> 0
      then ev (Ev_Wake_Bit t) (upd_task t (\<lambda>k. k\<lparr>t_jobctl := t_jobctl k AND NOT JOBCTL_TRAPPING\<rparr>) ks)
      else ks)"

definition task_clear_jobctl_pending :: "nat \<Rightarrow> u32 \<Rightarrow> kstate \<Rightarrow> kstate" where
  "task_clear_jobctl_pending t msk ks =
     (let ks = (if msk AND NOT JOBCTL_PENDING_MASK \<noteq> 0 then ev Ev_Bug ks else ks);
          msk = (if msk AND JOBCTL_STOP_PENDING \<noteq> 0 then msk OR JOBCTL_STOP_CONSUME OR JOBCTL_STOP_DEQUEUED else msk);
          ks = upd_task t (\<lambda>k. k\<lparr>t_jobctl := t_jobctl k AND NOT msk\<rparr>) ks
      in if t_jobctl (tasks ks t) AND JOBCTL_PENDING_MASK = 0 then task_clear_jobctl_trapping t ks else ks)"

definition task_participate_group_stop :: "nat \<Rightarrow> kstate \<Rightarrow> bool \<times> kstate" where
  "task_participate_group_stop t ks =
     (let g = t_signal (tasks ks t);
          consume = t_jobctl (tasks ks t) AND JOBCTL_STOP_CONSUME \<noteq> 0;
          ks = (if t_jobctl (tasks ks t) AND JOBCTL_STOP_PENDING = 0 then ev Ev_Warn ks else ks);
          ks = task_clear_jobctl_pending t JOBCTL_STOP_PENDING ks
      in if \<not> consume then (False, ks)
         else
           let ks = (if s_group_stop_count (signals ks g) = 0 then ev Ev_Warn ks
                     else upd_signal g (\<lambda>s. s\<lparr>s_group_stop_count := s_group_stop_count s - 1\<rparr>) ks)
           in if s_group_stop_count (signals ks g) = 0 \<and> s_flags (signals ks g) AND SIGNAL_STOP_STOPPED = 0
              then (True, upd_signal g (\<lambda>s. s\<lparr>s_flags := SIGNAL_STOP_STOPPED\<rparr>) ks)
              else (False, ks))"

definition ptrace_trap_notify :: "kenv \<Rightarrow> nat \<Rightarrow> kstate \<Rightarrow> kstate" where
  "ptrace_trap_notify E t ks =
     (let ks = (if t_ptrace (tasks ks t) AND PT_SEIZED E = 0 then ev Ev_Warn ks else ks);
          ks = snd (task_set_jobctl_pending t JOBCTL_TRAP_NOTIFY ks)
      in ptrace_signal_wake_up E t (t_jobctl (tasks ks t) AND JOBCTL_LISTENING \<noteq> 0) ks)"

section \<open>Stop and continue\<close>

definition stop_removes_cont :: "nat \<Rightarrow> kstate \<Rightarrow> kstate" where
  "stop_removes_cont p ks =
     each_thread (\<lambda>t k. snd (rm_from_queue (sigmask SIGCONT) (Private t) k)) p
       (snd (rm_from_queue (sigmask SIGCONT) (Shared (t_signal (tasks ks p))) ks))"

text \<open>What SIGCONT does to each thread.\<close>

definition cont_thread :: "kenv \<Rightarrow> nat \<Rightarrow> kstate \<Rightarrow> kstate" where
  "cont_thread E t ks =
     (let ks = task_clear_jobctl_pending t JOBCTL_STOP_PENDING ks;
          ks = snd (rm_from_queue SIG_KERNEL_STOP_MASK (Private t) ks)
      in if t_ptrace (tasks ks t) AND PT_SEIZED E = 0 then snd (wake_up_state E t T_STOPPED ks)
         else ptrace_trap_notify E t ks)"

definition cont_removes_stops :: "kenv \<Rightarrow> nat \<Rightarrow> kstate \<Rightarrow> kstate" where
  "cont_removes_stops E p ks =
     each_thread (cont_thread E) p
       (snd (rm_from_queue SIG_KERNEL_STOP_MASK (Shared (t_signal (tasks ks p))) ks))"

definition cont_why :: "signal_struct \<Rightarrow> u32" where
  "cont_why s = (if s_flags s AND SIGNAL_STOP_STOPPED \<noteq> 0 then SIGNAL_CLD_CONTINUED
     else if s_group_stop_count s \<noteq> 0 then SIGNAL_CLD_STOPPED else 0)"

definition note_continued :: "nat \<Rightarrow> kstate \<Rightarrow> kstate" where
  "note_continued g ks =
     (let why = cont_why (signals ks g) in
      if why \<noteq> 0
      then upd_signal g (\<lambda>s. s\<lparr>s_flags := why OR SIGNAL_STOP_CONTINUED, s_group_stop_count := 0, s_group_exit_code := 0\<rparr>) ks
      else ks)"

definition prepare_signal :: "kenv \<Rightarrow> int \<Rightarrow> nat \<Rightarrow> bool \<Rightarrow> kstate \<Rightarrow> bool \<times> kstate" where
  "prepare_signal E sig p from_ancestor_ns ks =
     (let g = t_signal (tasks ks p);
          ks = (if s_flags (signals ks g) AND SIGNAL_GROUP_EXIT \<noteq> 0 then ks
                else if sig_kernel_stop sig then stop_removes_cont p ks
                else if sig = SIGCONT then note_continued g (cont_removes_stops E p ks)
                else ks)
      in (\<not> sig_ignored ks p sig from_ancestor_ns, ks))"

section \<open>Choosing a thread\<close>

definition wants_signal :: "kenv \<Rightarrow> int \<Rightarrow> nat \<Rightarrow> kstate \<Rightarrow> bool" where
  "wants_signal E sig p ks =
     (let t = tasks ks p in
      if sigismember (t_blocked t) sig then False
      else if t_flags t AND PF_EXITING \<noteq> 0 then False
      else if sig = SIGKILL then True
      else if task_is_stopped_or_traced t then False
      else task_curr E p \<or> \<not> signal_pending t)"

definition sig_fatal :: "kstate \<Rightarrow> nat \<Rightarrow> int \<Rightarrow> bool" where
  "sig_fatal ks p sig \<longleftrightarrow>
     \<not> siginmask sig (SIG_KERNEL_IGNORE_MASK OR SIG_KERNEL_STOP_MASK) \<and> sig_handler ks p sig = SIG_DFL"

definition kill_thread :: "kenv \<Rightarrow> nat \<Rightarrow> kstate \<Rightarrow> kstate" where
  "kill_thread E t ks =
     signal_wake_up E t True
       (set_psignal (sigaddset SIGKILL) (Private t) (task_clear_jobctl_pending t JOBCTL_PENDING_MASK ks))"

definition start_group_exit :: "kenv \<Rightarrow> int \<Rightarrow> nat \<Rightarrow> kstate \<Rightarrow> kstate" where
  "start_group_exit E sig p ks =
     each_thread (kill_thread E) p
       (upd_signal (t_signal (tasks ks p))
          (\<lambda>s. s\<lparr>s_flags := SIGNAL_GROUP_EXIT, s_group_exit_code := sig, s_group_stop_count := 0\<rparr>) ks)"

text \<open>The thread to wake, and the state with \<open>curr_target\<close> moved to it; \<open>None\<close> when nobody is woken.\<close>

definition choose_thread :: "kenv \<Rightarrow> int \<Rightarrow> nat \<Rightarrow> bool \<Rightarrow> kstate \<Rightarrow> (nat \<times> kstate) option" where
  "choose_thread E sig p grp ks =
     (if wants_signal E sig p ks then Some (p, ks)
      else if \<not> grp \<or> thread_group_empty ks p then None
      else case find (\<lambda>t. wants_signal E sig t ks) (group_from ks (s_curr_target (sig_of ks p))) of
             None \<Rightarrow> None
           | Some t \<Rightarrow> Some (t, upd_signal (t_signal (tasks ks p)) (\<lambda>s. s\<lparr>s_curr_target := t\<rparr>) ks))"

definition group_fatal :: "int \<Rightarrow> nat \<Rightarrow> nat \<Rightarrow> kstate \<Rightarrow> bool" where
  "group_fatal sig p t ks \<longleftrightarrow>
     sig_fatal ks p sig \<and> s_flags (sig_of ks p) AND (SIGNAL_UNKILLABLE OR SIGNAL_GROUP_EXIT) = 0 \<and>
     \<not> sigismember (t_real_blocked (tasks ks t)) sig \<and> (sig = SIGKILL \<or> t_ptrace (tasks ks t) = 0)"

definition complete_signal :: "kenv \<Rightarrow> int \<Rightarrow> nat \<Rightarrow> bool \<Rightarrow> kstate \<Rightarrow> kstate" where
  "complete_signal E sig p grp ks =
     (case choose_thread E sig p grp ks of
        None \<Rightarrow> ks
      | Some (t, ks) \<Rightarrow>
          if group_fatal sig p t ks \<and> \<not> sig_kernel_coredump sig then start_group_exit E sig p ks
          else signal_wake_up E t (sig = SIGKILL) ks)"

section \<open>Sending\<close>

definition is_si_special :: "sig_arg \<Rightarrow> bool" where
  "is_si_special a = (case a of Info _ \<Rightarrow> False | _ \<Rightarrow> True)"

definition si_fromuser :: "sig_arg \<Rightarrow> bool" where
  "si_fromuser a = (case a of SEND_SIG_NOINFO \<Rightarrow> True | Info i \<Rightarrow> si_code i \<le> 0 | _ \<Rightarrow> False)"

definition legacy_queue :: "sigpending \<Rightarrow> int \<Rightarrow> bool" where
  "legacy_queue p sig \<longleftrightarrow> sig < SIGRTMIN \<and> sigismember (psignal p) sig"

text \<open>The record written into a new element; the fields the code does not set keep their old value.\<close>

definition fill_info :: "kenv \<Rightarrow> int \<Rightarrow> sig_arg \<Rightarrow> nat \<Rightarrow> bool \<Rightarrow> kstate \<Rightarrow> siginfo \<Rightarrow> siginfo" where
  "fill_info E sig a t from_ancestor_ns ks old =
     (case a of
        SEND_SIG_NOINFO \<Rightarrow> old\<lparr>si_signo := sig, si_errno := 0, si_code := SI_USER,
           si_pid := tgid_nr E (cur ks) t, si_uid := c_uid (t_cred (tasks ks (cur ks)))\<rparr>
      | SEND_SIG_PRIV \<Rightarrow> old\<lparr>si_signo := sig, si_errno := 0, si_code := SI_KERNEL, si_pid := 0, si_uid := 0\<rparr>
      | Info i \<Rightarrow> if from_ancestor_ns then i\<lparr>si_pid := 0\<rparr> else i
      | SEND_SIG_FORCED \<Rightarrow> old)"

definition set_q_info :: "nat \<Rightarrow> (siginfo \<Rightarrow> siginfo) \<Rightarrow> kstate \<Rightarrow> kstate" where
  "set_q_info q f ks = ks\<lparr>sqs := (sqs ks)(q := (sqs ks q)\<lparr>q_info := f (q_info (sqs ks q))\<rparr>)\<rparr>"

definition pend_target :: "kstate \<Rightarrow> nat \<Rightarrow> bool \<Rightarrow> pend_loc" where
  "pend_target ks t grp = (if grp then Shared (t_signal (tasks ks t)) else Private t)"

definition override_rlimit :: "int \<Rightarrow> sig_arg \<Rightarrow> bool" where
  "override_rlimit sig a =
     (if sig < SIGRTMIN then is_si_special a \<or> (case a of Info i \<Rightarrow> 0 \<le> si_code i | _ \<Rightarrow> False) else False)"

text \<open>Queue an element for the signal: \<open>False\<close> when the overflow must be reported with \<open>-EAGAIN\<close>.\<close>

definition queue_info ::
  "kenv \<Rightarrow> int \<Rightarrow> sig_arg \<Rightarrow> nat \<Rightarrow> pend_loc \<Rightarrow> bool \<Rightarrow> kstate \<Rightarrow> bool \<times> kstate" where
  "queue_info E sig a t l from_ancestor_ns ks =
     (case sigqueue_alloc_raw E sig t (override_rlimit sig a) ks of
        (Some q, ks) \<Rightarrow> (True, set_q_info q (fill_info E sig a t from_ancestor_ns ks) (list_add_tail q l ks))
      | (None, ks) \<Rightarrow>
          (case a of Info i \<Rightarrow> \<not> (SIGRTMIN \<le> sig \<and> si_code i \<noteq> SI_USER) | _ \<Rightarrow> True, ks))"

text \<open>The label \<open>out_set\<close>.\<close>

definition out_set :: "kenv \<Rightarrow> int \<Rightarrow> nat \<Rightarrow> bool \<Rightarrow> pend_loc \<Rightarrow> kstate \<Rightarrow> kstate" where
  "out_set E sig t grp l ks =
     complete_signal E sig t grp (set_psignal (sigaddset sig) l (ev (Ev_Signalfd t sig) ks))"

definition send_signal_raw ::
  "kenv \<Rightarrow> int \<Rightarrow> sig_arg \<Rightarrow> nat \<Rightarrow> bool \<Rightarrow> bool \<Rightarrow> kstate \<Rightarrow> int \<times> kstate" where
  "send_signal_raw E sig a t grp from_ancestor_ns ks =
     (case prepare_signal E sig t from_ancestor_ns ks of
        (False, ks) \<Rightarrow> (0, ks)
      | (True, ks) \<Rightarrow>
          (let l = pend_target ks t grp in
           if legacy_queue (pending_at ks l) sig then (0, ks)
           else if a = SEND_SIG_FORCED then (0, out_set E sig t grp l ks)
           else case queue_info E sig a t l from_ancestor_ns ks of
                  (False, ks) \<Rightarrow> (- EAGAIN, ks)
                | (True, ks) \<Rightarrow> (0, out_set E sig t grp l ks)))"

definition send_signal :: "kenv \<Rightarrow> int \<Rightarrow> sig_arg \<Rightarrow> nat \<Rightarrow> bool \<Rightarrow> kstate \<Rightarrow> int \<times> kstate" where
  "send_signal E sig a t grp ks =
     send_signal_raw E sig a t grp (si_fromuser a \<and> pid_nr E (cur ks) t = 0) ks"

definition group_send_sig_info_raw :: "kenv \<Rightarrow> int \<Rightarrow> sig_arg \<Rightarrow> nat \<Rightarrow> kstate \<Rightarrow> int \<times> kstate" where
  "group_send_sig_info_raw E sig a p ks = send_signal E sig a p True ks"

definition specific_send_sig_info :: "kenv \<Rightarrow> int \<Rightarrow> sig_arg \<Rightarrow> nat \<Rightarrow> kstate \<Rightarrow> int \<times> kstate" where
  "specific_send_sig_info E sig a t ks = send_signal E sig a t False ks"

section \<open>The counted entry point\<close>

text \<open>\<open>counters[sig]++\<close> on an array of \<open>_NSIG\<close> elements: past its end the store hits other memory.\<close>

definition bump_counter :: "nat \<Rightarrow> int \<Rightarrow> kstate \<Rightarrow> kstate" where
  "bump_counter h sig ks =
     (if 0 \<le> sig \<and> nat sig < length (counters (sighands ks h))
      then upd_sighand h (\<lambda>s. s\<lparr>counters := (counters s)[nat sig := counters s ! nat sig + 1]\<rparr>) ks
      else ev (Ev_Overrun h sig) ks)"

text \<open>\<open>__lock_task_sighand\<close> returns the task's sighand structure, or NULL.\<close>

definition lock_task_sighand :: "nat \<Rightarrow> kstate \<Rightarrow> nat option" where
  "lock_task_sighand t ks = t_sighand (tasks ks t)"

definition do_send_sig_info :: "kenv \<Rightarrow> int \<Rightarrow> sig_arg \<Rightarrow> nat \<Rightarrow> bool \<Rightarrow> kstate \<Rightarrow> int \<times> kstate" where
  "do_send_sig_info E sig a p grp ks =
     (case lock_task_sighand p ks of
        None \<Rightarrow> (- ESRCH, ks)
      | Some h \<Rightarrow>
          (case send_signal E sig a p grp ks of
             (ret, ks) \<Rightarrow> (ret, bump_counter h sig ks)))"

section \<open>Forced signals\<close>

definition set_handler :: "nat \<Rightarrow> int \<Rightarrow> handler \<Rightarrow> kstate \<Rightarrow> kstate" where
  "set_handler t sig h ks = upd_hand t (\<lambda>s. s\<lparr>action :=
     (action s)[sigidx sig := (action s ! sigidx sig)\<lparr>sa_handler := h\<rparr>]\<rparr>) ks"

definition force_sig_info :: "kenv \<Rightarrow> int \<Rightarrow> sig_arg \<Rightarrow> nat \<Rightarrow> kstate \<Rightarrow> int \<times> kstate" where
  "force_sig_info E sig a t ks =
     (let ignored = sig_handler ks t sig = SIG_IGN;
          blocked = sigismember (t_blocked (tasks ks t)) sig;
          ks = (if blocked \<or> ignored
                then let k = set_handler t sig SIG_DFL ks in
                     if blocked
                     then recalc_sigpending_and_wake E t (upd_task t (\<lambda>x. x\<lparr>t_blocked := sigdelset sig (t_blocked x)\<rparr>) k)
                     else k
                else ks);
          ks = (if sig_handler ks t sig = SIG_DFL
                then upd_signal (t_signal (tasks ks t)) (\<lambda>s. s\<lparr>s_flags := s_flags s AND NOT SIGNAL_UNKILLABLE\<rparr>) ks
                else ks)
      in specific_send_sig_info E sig a t ks)"

text \<open>\<open>zap_other_threads\<close>: every other thread, the dead ones only counted.\<close>

definition zap_thread :: "kenv \<Rightarrow> nat \<Rightarrow> int \<times> kstate \<Rightarrow> int \<times> kstate" where
  "zap_thread E t = (\<lambda>(count, ks).
     let ks = task_clear_jobctl_pending t JOBCTL_PENDING_MASK ks in
     (count + 1,
      if t_exit_state (tasks ks t) \<noteq> 0 then ks
      else signal_wake_up E t True (set_psignal (sigaddset SIGKILL) (Private t) ks)))"

definition zap_other_threads :: "kenv \<Rightarrow> nat \<Rightarrow> kstate \<Rightarrow> int \<times> kstate" where
  "zap_other_threads E p ks =
     fold (zap_thread E) (tl (group_from ks p))
       (0, upd_signal (t_signal (tasks ks p)) (\<lambda>s. s\<lparr>s_group_stop_count := 0\<rparr>) ks)"

definition send_sig_info :: "kenv \<Rightarrow> int \<Rightarrow> sig_arg \<Rightarrow> nat \<Rightarrow> kstate \<Rightarrow> int \<times> kstate" where
  "send_sig_info E sig a p ks =
     (if \<not> valid_signal sig then (- EINVAL, ks) else do_send_sig_info E sig a p False ks)"

definition si_special :: "bool \<Rightarrow> sig_arg" where
  "si_special priv = (if priv then SEND_SIG_PRIV else SEND_SIG_NOINFO)"

definition send_sig :: "kenv \<Rightarrow> int \<Rightarrow> nat \<Rightarrow> bool \<Rightarrow> kstate \<Rightarrow> int \<times> kstate" where
  "send_sig E sig p priv ks = send_sig_info E sig (si_special priv) p ks"

definition force_sig :: "kenv \<Rightarrow> int \<Rightarrow> nat \<Rightarrow> kstate \<Rightarrow> kstate" where
  "force_sig E sig p ks = snd (force_sig_info E sig SEND_SIG_PRIV p ks)"

definition force_sigsegv :: "kenv \<Rightarrow> int \<Rightarrow> nat \<Rightarrow> kstate \<Rightarrow> int \<times> kstate" where
  "force_sigsegv E sig p ks =
     (0, force_sig E SIGSEGV p (if sig = SIGSEGV then set_handler p sig SIG_DFL ks else ks))"

section \<open>Preallocated elements\<close>

definition sigqueue_alloc :: "kenv \<Rightarrow> kstate \<Rightarrow> nat option \<times> kstate" where
  "sigqueue_alloc E ks =
     (case sigqueue_alloc_raw E (-1) (cur ks) False ks of
        (Some q, ks) \<Rightarrow> (Some q, ks\<lparr>sqs := (sqs ks)(q := (sqs ks q)\<lparr>q_flags := q_flags (sqs ks q) OR SIGQUEUE_PREALLOC\<rparr>)\<rparr>)
      | (None, ks) \<Rightarrow> (None, ks))"

definition sigqueue_free :: "nat \<Rightarrow> kstate \<Rightarrow> kstate" where
  "sigqueue_free q ks =
     (let ks = (if q_flags (sqs ks q) AND SIGQUEUE_PREALLOC = 0 then ev Ev_Bug ks else ks);
          ks = ks\<lparr>sqs := (sqs ks)(q := (sqs ks q)\<lparr>q_flags := q_flags (sqs ks q) AND NOT SIGQUEUE_PREALLOC\<rparr>)\<rparr>
      in if q_linked (sqs ks q) then ks else sigqueue_free_raw q ks)"

definition send_sigqueue :: "kenv \<Rightarrow> nat \<Rightarrow> nat \<Rightarrow> bool \<Rightarrow> kstate \<Rightarrow> int \<times> kstate" where
  "send_sigqueue E q t grp ks =
     (let sig = si_signo (q_info (sqs ks q));
          ks = (if q_flags (sqs ks q) AND SIGQUEUE_PREALLOC = 0 then ev Ev_Bug ks else ks)
      in case lock_task_sighand t ks of
           None \<Rightarrow> (-1, ks)
         | Some h \<Rightarrow>
             (case prepare_signal E sig t False ks of
                (False, ks) \<Rightarrow> (1, ks)
              | (True, ks) \<Rightarrow>
                  if q_linked (sqs ks q)
                  then (0, set_q_info q (\<lambda>i. i\<lparr>si_overrun := si_overrun i + 1\<rparr>)
                             (if si_code (q_info (sqs ks q)) \<noteq> SI_TIMER E then ev Ev_Bug ks else ks))
                  else
                    (let ks = ev (Ev_Signalfd t sig) (set_q_info q (\<lambda>i. i\<lparr>si_overrun := 0\<rparr>) ks);
                         l = pend_target ks t grp
                     in (0, complete_signal E sig t grp (set_psignal (sigaddset sig) l (list_add_tail q l ks))))))"

end
