(* ===== verification/Sig_Send_Facts.thy ===== *)
theory Sig_Send_Facts
  imports Sig_Send
begin

text \<open>
  What sending leaves alone, what it does to the queues, and the exact effect of the stop and
  continue handling and of a fatal signal on every thread of the group.
\<close>

section \<open>The part of the state no send changes\<close>

text \<open>Identity, credentials, masks, tracing and actions of every task, and the thread groups.\<close>

definition skel_task :: "task_struct \<Rightarrow> _" where
  "skel_task t = (t_signal t, t_sighand t, t_blocked t, t_real_blocked t, t_ptrace t, t_cred t, t_tgid t,
     t_flags t, t_exit_state t, t_session t, t_notifier t)"

definition skel :: "kstate \<Rightarrow> _" where
  "skel ks = (sighands ks, cur ks, (\<lambda>t. skel_task (tasks ks t)),
     (\<lambda>g. (s_threads (signals ks g), s_rlim_sigpending (signals ks g))))"

lemma skel_sel:
  assumes "skel k' = skel k"
  shows "sighands k' = sighands k" "cur k' = cur k"
    "t_signal (tasks k' t) = t_signal (tasks k t)" "t_sighand (tasks k' t) = t_sighand (tasks k t)"
    "t_blocked (tasks k' t) = t_blocked (tasks k t)" "t_real_blocked (tasks k' t) = t_real_blocked (tasks k t)"
    "t_ptrace (tasks k' t) = t_ptrace (tasks k t)" "t_cred (tasks k' t) = t_cred (tasks k t)"
    "t_tgid (tasks k' t) = t_tgid (tasks k t)" "t_flags (tasks k' t) = t_flags (tasks k t)"
    "t_session (tasks k' t) = t_session (tasks k t)" "t_notifier (tasks k' t) = t_notifier (tasks k t)"
    "t_exit_state (tasks k' t) = t_exit_state (tasks k t)"
    "s_threads (signals k' g) = s_threads (signals k g)"
    "s_rlim_sigpending (signals k' g) = s_rlim_sigpending (signals k g)"
  using assms by (auto simp: skel_def skel_task_def fun_eq_iff)

lemma skel_more:
  assumes "skel k' = skel k"
  shows "group_from k' t = group_from k t" "thread_group_empty k' t = thread_group_empty k t"
    "sig_handler k' t sig = sig_handler k t sig" "hand_of k' t = hand_of k t"
    "lock_task_sighand t k' = lock_task_sighand t k" "pend_target k' t grp = pend_target k t grp"
  using skel_sel [OF assms]
  by (simp_all add: group_from_def thread_group_empty_def sig_of_def sig_handler_def hand_of_def
      lock_task_sighand_def pend_target_def)

lemma skel_frame:
  assumes "pend_frame k k'"
  shows "skel k' = skel k"
proof -
  have 1: "skel_task (t\<lparr>t_pending := p\<rparr>) = skel_task t" for t p by (simp add: skel_task_def)
  have "skel_task (tasks k' t) = skel_task (tasks k t)" for t
    using assms 1 unfolding pend_frame_def by metis
  then show ?thesis
    using pend_frame_signal(2,7) [OF assms] pend_frame_more(1,2) [OF assms] by (simp add: skel_def)
qed

lemma skel_upd_task:
  assumes "skel_task (f (tasks ks t)) = skel_task (tasks ks t)"
  shows "skel (upd_task t f ks) = skel ks"
  using assms by (auto simp: skel_def fun_eq_iff)

lemma skel_upd_signal:
  assumes "s_threads (f (signals ks g)) = s_threads (signals ks g)"
    and "s_rlim_sigpending (f (signals ks g)) = s_rlim_sigpending (signals ks g)"
  shows "skel (upd_signal g f ks) = skel ks"
  using assms by (auto simp: skel_def fun_eq_iff)

lemma skel_misc [frame_simps]:
  "skel (ev e ks) = skel ks" "skel (ks\<lparr>sqs := s\<rparr>) = skel ks" "skel (ks\<lparr>user_sigpending := u\<rparr>) = skel ks"
  "skel (ks\<lparr>next_sq := n\<rparr>) = skel ks" "skel (set_psignal f l ks) = skel ks"
  "skel (upd_pending l h ks) = skel ks" "skel (drop_entry l q ks) = skel ks"
  "skel (fold (drop_entry l) qs ks) = skel ks" "skel (set_q_info q i ks) = skel ks"
  "skel (list_add_tail q l ks) = skel ks" "skel (set_tif_sigpending b t ks) = skel ks"
proof -
  show "skel (ev e ks) = skel ks" "skel (ks\<lparr>sqs := s\<rparr>) = skel ks" "skel (ks\<lparr>user_sigpending := u\<rparr>) = skel ks"
    "skel (ks\<lparr>next_sq := n\<rparr>) = skel ks" "skel (set_q_info q i ks) = skel ks"
    by (simp_all add: skel_def set_q_info_def)
  show "skel (set_psignal f l ks) = skel ks" "skel (upd_pending l h ks) = skel ks"
    "skel (drop_entry l q ks) = skel ks" "skel (fold (drop_entry l) qs ks) = skel ks"
    by (rule skel_frame; blast)+
  show "skel (list_add_tail q l ks) = skel ks"
    unfolding list_add_tail_def
    using skel_frame [OF pend_frame_upd, of l "\<lambda>p. p\<lparr>plist := plist p @ [q]\<rparr>"
        "ks\<lparr>sqs := (sqs ks)(q := (sqs ks q)\<lparr>q_linked := True\<rparr>)\<rparr>"]
    by (simp add: skel_def)
  show "skel (set_tif_sigpending b t ks) = skel ks"
    unfolding set_tif_sigpending_def by (rule skel_upd_task) (simp add: skel_task_def)
qed

lemma skel_rm [frame_simps]: "skel (snd (rm_from_queue m l ks)) = skel ks"
  by (simp add: rm_from_queue_def Let_def frame_simps)

lemma skel_wake_up_state [frame_simps]: "skel (snd (wake_up_state E t m ks)) = skel ks"
  by (auto simp: wake_up_state_def Let_def split_beta frame_simps intro!: skel_upd_task [THEN trans])
     (simp add: skel_task_def)

lemma skel_wake [frame_simps]:
  "skel (signal_wake_up_state E t st ks) = skel ks" "skel (signal_wake_up E t r ks) = skel ks"
  "skel (ptrace_signal_wake_up E t r ks) = skel ks"
proof -
  show *: "skel (signal_wake_up_state E t st ks) = skel ks" for st
    using skel_wake_up_state [of E t "st OR TASK_INTERRUPTIBLE" "set_tif_sigpending True t ks"]
    by (auto simp: signal_wake_up_state_def Let_def split_beta frame_simps)
  show "skel (signal_wake_up E t r ks) = skel ks" "skel (ptrace_signal_wake_up E t r ks) = skel ks"
    by (simp_all add: signal_wake_up_def ptrace_signal_wake_up_def *)
qed

lemma skel_jobctl_upd [frame_simps]: "skel (upd_task t (\<lambda>k. k\<lparr>t_jobctl := j k\<rparr>) ks) = skel ks"
  by (rule skel_upd_task) (simp add: skel_task_def)

lemma skel_jobctl [frame_simps]:
  "skel (snd (task_set_jobctl_pending t m ks)) = skel ks"
  "skel (task_clear_jobctl_trapping t ks) = skel ks" "skel (task_clear_jobctl_pending t m ks) = skel ks"
  "skel (ptrace_trap_notify E t ks) = skel ks"
proof -
  show *: "skel (snd (task_set_jobctl_pending t m ks)) = skel ks" for m ks
    by (simp add: task_set_jobctl_pending_def Let_def frame_simps)
  show "skel (task_clear_jobctl_trapping t ks) = skel ks" "skel (task_clear_jobctl_pending t m ks) = skel ks"
    by (simp_all add: task_clear_jobctl_trapping_def task_clear_jobctl_pending_def Let_def frame_simps)
  show "skel (ptrace_trap_notify E t ks) = skel ks"
    by (simp add: ptrace_trap_notify_def Let_def frame_simps *)
qed

lemma skel_fold: "(\<And>x k. skel (f x k) = skel k) \<Longrightarrow> skel (fold f xs ks) = skel ks"
  by (induction xs arbitrary: ks) simp_all

lemma skel_prepare [frame_simps]: "skel (snd (prepare_signal E sig p ns ks)) = skel ks"
proof -
  have c: "skel (cont_thread E t k) = skel k" for t k
    by (simp add: cont_thread_def Let_def frame_simps)
  have n: "skel (note_continued g k) = skel k" for g k
    by (auto simp: note_continued_def Let_def intro!: skel_upd_signal)
  show ?thesis
    by (simp add: prepare_signal_def Let_def stop_removes_cont_def cont_removes_stops_def each_thread_def
        skel_fold c n frame_simps)
qed

lemma skel_complete [frame_simps]: "skel (complete_signal E sig p grp ks) = skel ks"
proof -
  have k: "skel (kill_thread E t k) = skel k" for t k
    by (simp add: kill_thread_def frame_simps)
  have s: "skel (start_group_exit E sig p k) = skel k" for k
    unfolding start_group_exit_def each_thread_def
    by (simp add: skel_fold k) (rule skel_upd_signal; simp)
  have c: "skel k' = skel ks" if "choose_thread E sig p grp ks = Some (t, k')" for t k'
    using that by (auto simp: choose_thread_def split: if_splits option.splits intro!: skel_upd_signal)
  show ?thesis
    by (auto simp: complete_signal_def s c frame_simps split: option.splits)
qed

lemma skel_alloc [frame_simps]: "skel (snd (sigqueue_alloc_raw E sig t ov ks)) = skel ks"
  by (simp add: sigqueue_alloc_raw_def Let_def split_beta frame_simps split: option.splits)

lemma skel_queue [frame_simps]: "skel (snd (queue_info E sig a t l ns ks)) = skel ks"
proof (cases "sigqueue_alloc_raw E sig t (override_rlimit sig a) ks")
  case (Pair r k)
  with skel_alloc [of E sig t "override_rlimit sig a" ks] have "skel k = skel ks" by simp
  with Pair show ?thesis by (simp add: queue_info_def frame_simps split: option.splits)
qed

lemma skel_out [frame_simps]: "skel (out_set E sig t grp l k) = skel k"
  by (simp add: out_set_def frame_simps)

lemma skel_send [frame_simps]: "skel (snd (send_signal_raw E sig a t grp ns ks)) = skel ks"
proof (cases "prepare_signal E sig t ns ks")
  case (Pair b k)
  then have k: "skel k = skel ks" using skel_prepare [of E sig t ns ks] by simp
  let ?l = "pend_target k t grp"
  obtain c k2 where q: "queue_info E sig a t ?l ns k = (c, k2)" by fastforce
  then have "skel k2 = skel k" using skel_queue [of E sig a t ?l ns k] by simp
  with k Pair q show ?thesis
    by (simp add: send_signal_raw_def Let_def frame_simps split: bool.splits)
qed

lemma skel_send_signal [frame_simps]: "skel (snd (send_signal E sig a t grp ks)) = skel ks"
  by (simp add: send_signal_def frame_simps)

section \<open>The queues\<close>

text \<open>Everything the pending queues consist of.\<close>

definition pv :: "kstate \<Rightarrow> (pend_loc \<Rightarrow> sigpending) \<times> (nat \<Rightarrow> siginfo) \<times> nat" where
  "pv ks = (pending_at ks, (\<lambda>q. q_info (sqs ks q)), next_sq ks)"

lemma pv_sel:
  assumes "pv k' = pv k"
  shows "pending_at k' l = pending_at k l" "q_info (sqs k' q) = q_info (sqs k q)" "next_sq k' = next_sq k"
    "pend_ok k' l = pend_ok k l" "pview k' l = pview k l" "entries_for k' l sig = entries_for k l sig"
  using assms by (auto simp: pv_def fun_eq_iff pend_ok_def pview_def entries_for_def)

lemma pending_at_fun: "pending_at k = (\<lambda>l. case l of Private t \<Rightarrow> t_pending (tasks k t) | Shared g \<Rightarrow> s_shared_pending (signals k g))"
  by (rule ext) (auto split: pend_loc.split)

lemma pv_upd_task: "t_pending (f (tasks ks t)) = t_pending (tasks ks t) \<Longrightarrow> pv (upd_task t f ks) = pv ks"
  by (auto simp: pv_def pending_at_fun fun_eq_iff split: pend_loc.split)

lemma pv_upd_signal:
  "s_shared_pending (f (signals ks g)) = s_shared_pending (signals ks g) \<Longrightarrow> pv (upd_signal g f ks) = pv ks"
  by (auto simp: pv_def pending_at_fun fun_eq_iff split: pend_loc.split)

lemma pv_misc [frame_simps]:
  "pv (ev e ks) = pv ks" "pv (ks\<lparr>user_sigpending := u\<rparr>) = pv ks" "pv (set_tif_sigpending b t ks) = pv ks"
  "pv (upd_task t (\<lambda>k. k\<lparr>t_jobctl := j k\<rparr>) ks) = pv ks"
proof -
  show "pv (ev e ks) = pv ks" "pv (ks\<lparr>user_sigpending := u\<rparr>) = pv ks" by (simp_all add: pv_def fun_eq_iff)
  show "pv (set_tif_sigpending b t ks) = pv ks" unfolding set_tif_sigpending_def by (rule pv_upd_task) simp
  show "pv (upd_task t (\<lambda>k. k\<lparr>t_jobctl := j k\<rparr>) ks) = pv ks" by (rule pv_upd_task) simp
qed

lemma pv_wake [frame_simps]:
  "pv (snd (wake_up_state E t m ks)) = pv ks" "pv (signal_wake_up_state E t st ks) = pv ks"
  "pv (signal_wake_up E t r ks) = pv ks" "pv (ptrace_signal_wake_up E t r ks) = pv ks"
proof -
  show w: "pv (snd (wake_up_state E t m ks)) = pv ks" for m ks
    by (simp add: wake_up_state_def split_beta pv_upd_task frame_simps)
  show s: "pv (signal_wake_up_state E t st ks) = pv ks" for st
    using w [of "st OR TASK_INTERRUPTIBLE" "set_tif_sigpending True t ks"]
    by (auto simp: signal_wake_up_state_def split_beta frame_simps)
  show "pv (signal_wake_up E t r ks) = pv ks" "pv (ptrace_signal_wake_up E t r ks) = pv ks"
    by (simp_all add: signal_wake_up_def ptrace_signal_wake_up_def s)
qed

lemma pv_jobctl [frame_simps]:
  "pv (snd (task_set_jobctl_pending t m ks)) = pv ks" "pv (task_clear_jobctl_trapping t ks) = pv ks"
  "pv (task_clear_jobctl_pending t m ks) = pv ks" "pv (ptrace_trap_notify E t ks) = pv ks"
proof -
  show s: "pv (snd (task_set_jobctl_pending t m ks)) = pv ks" for m ks
    by (simp add: task_set_jobctl_pending_def Let_def frame_simps)
  show "pv (task_clear_jobctl_trapping t ks) = pv ks" "pv (task_clear_jobctl_pending t m ks) = pv ks"
    by (simp_all add: task_clear_jobctl_trapping_def task_clear_jobctl_pending_def Let_def frame_simps)
  show "pv (ptrace_trap_notify E t ks) = pv ks"
    by (simp add: ptrace_trap_notify_def Let_def frame_simps s)
qed

text \<open>All queues well formed, and no queued element beyond the allocation counter.\<close>

definition queues_ok :: "kstate \<Rightarrow> bool" where
  "queues_ok ks \<longleftrightarrow> (\<forall>l. pend_ok ks l \<and> (\<forall>q \<in> set (plist (pending_at ks l)). q < next_sq ks))"

lemma queues_ok_pv: "pv k' = pv k \<Longrightarrow> queues_ok k' = queues_ok k"
  using pv_sel [of k' k] by (simp add: queues_ok_def)

section \<open>Removing a mask from queues\<close>

text \<open>\<open>k'\<close> is \<open>k\<close> with the signals of \<open>m\<close> removed from the queues in \<open>L\<close>, the other queues as they were.\<close>

definition removed_in :: "pend_loc set \<Rightarrow> sigset \<Rightarrow> kstate \<Rightarrow> kstate \<Rightarrow> bool" where
  "removed_in L m k k' \<longleftrightarrow>
     (\<forall>l. pview k' l = (if l \<in> L then remove_spec m (pview k l) else pview k l)) \<and>
     (queues_ok k \<longrightarrow> queues_ok k')"

lemma removed_in_pv: "pv k' = pv k \<Longrightarrow> removed_in {} m k k'"
  using pv_sel [of k' k] queues_ok_pv [of k' k] by (simp add: removed_in_def)

lemma removed_in_trans:
  assumes "removed_in A m k1 k2" and "removed_in B m k2 k3" and "A \<inter> B = {}"
  shows "removed_in (A \<union> B) m k1 k3"
  using assms by (auto simp: removed_in_def)

lemma rm_removed:
  assumes q: "queues_ok k" and m: "classic m"
  shows "removed_in {l} m k (snd (rm_from_queue m l k))"
proof -
  obtain b k' where r: "rm_from_queue m l k = (b, k')" by fastforce
  have ok: "pend_ok k l" using q by (simp add: queues_ok_def)
  note f = rm_from_queue_refines [OF ok m r]
  have same: "pview k' n = pview k n" "pend_ok k' n" if "n \<noteq> l" for n
    using f(4) [OF that] q pend_ok_other [OF f(2) f(4) [OF that]]
    by (simp_all add: pview_def pend_frame_more(5) [OF f(2)] queues_ok_def)
  have sub: "set (plist (pending_at k' n)) \<subseteq> set (plist (pending_at k n))" for n
  proof (cases "n = l")
    case False
    with f(4) show ?thesis by simp
  next
    case True
    have "distinct (plist (pending_at (set_psignal (\<lambda>s. s AND NOT m) l k) l))"
      using ok by (simp add: pend_ok_def pending_at_set)
    from pending_at_fold_drop [OF this] True r show ?thesis
      by (auto simp: rm_from_queue_def Let_def pending_at_set split: if_splits)
  qed
  have "queues_ok k'"
    unfolding queues_ok_def using same(2) f(3) sub q pend_frame_more(4) [OF f(2)]
    by (metis queues_ok_def subsetD)
  with r f(1) same(1) show ?thesis by (auto simp: removed_in_def)
qed

lemma classic_stop: "classic SIG_KERNEL_STOP_MASK"
  by (auto simp: classic_def stop_mask_member)

lemma classic_cont: "classic (sigmask SIGCONT)"
  by (auto simp: classic_def)

text \<open>A loop over threads whose body removes a mask from the thread's own queue.\<close>

lemma fold_removed:
  assumes body: "\<And>t k. queues_ok k \<Longrightarrow> removed_in {Private t} m k (f t k)"
    and "distinct ts" and "queues_ok k"
  shows "removed_in (Private ` set ts) m k (fold f ts k)"
  using assms(2,3)
proof (induction ts arbitrary: k)
  case Nil
  then show ?case by (simp add: removed_in_def)
next
  case (Cons t ts)
  have 1: "removed_in {Private t} m k (f t k)" by (rule body [OF Cons.prems(2)])
  then have "queues_ok (f t k)" using Cons.prems(2) by (simp add: removed_in_def)
  with Cons have 2: "removed_in (Private ` set ts) m (f t k) (fold f ts (f t k))" by simp
  have "{Private t} \<inter> Private ` set ts = {}" using Cons.prems(1) by auto
  from removed_in_trans [OF 1 2 this] show ?case by simp
qed

text \<open>The queues of a thread group.\<close>

definition group_locs :: "kstate \<Rightarrow> nat \<Rightarrow> pend_loc set" where
  "group_locs ks p = insert (Shared (t_signal (tasks ks p))) (Private ` set (s_threads (sig_of ks p)))"

lemma group_locs_eq: "group_locs ks p = {Shared (t_signal (tasks ks p))} \<union> Private ` set (group_from ks p)"
  by (simp add: group_locs_def group_from_def)

lemma group_from_skel: "skel k' = skel k \<Longrightarrow> group_from k' p = group_from k p"
  by (rule skel_more)

lemma stop_removes_cont_removed:
  assumes q: "queues_ok k" and d: "distinct (s_threads (sig_of k p))"
  shows "removed_in (group_locs k p) (sigmask SIGCONT) k (stop_removes_cont p k)"
proof -
  let ?g = "Shared (t_signal (tasks k p))"
  let ?k1 = "snd (rm_from_queue (sigmask SIGCONT) ?g k)"
  have 1: "removed_in {?g} (sigmask SIGCONT) k ?k1" by (rule rm_removed [OF q classic_cont])
  then have q1: "queues_ok ?k1" using q by (simp add: removed_in_def)
  have gf: "group_from ?k1 p = group_from k p" by (rule group_from_skel) (simp add: frame_simps)
  have "removed_in (Private ` set (group_from k p)) (sigmask SIGCONT) ?k1
      (fold (\<lambda>t k. snd (rm_from_queue (sigmask SIGCONT) (Private t) k)) (group_from k p) ?k1)"
    by (rule fold_removed [OF rm_removed [OF _ classic_cont] _ q1]) (use d in \<open>simp_all add: group_from_def\<close>)
  from removed_in_trans [OF 1 this] show ?thesis
    unfolding stop_removes_cont_def each_thread_def gf group_locs_eq by auto
qed

lemma cont_thread_removed:
  assumes q: "queues_ok k"
  shows "removed_in {Private t} SIG_KERNEL_STOP_MASK k (cont_thread E t k)"
proof -
  let ?k0 = "task_clear_jobctl_pending t JOBCTL_STOP_PENDING k"
  let ?k1 = "snd (rm_from_queue SIG_KERNEL_STOP_MASK (Private t) ?k0)"
  have 0: "removed_in {} SIG_KERNEL_STOP_MASK k ?k0" by (rule removed_in_pv) (simp add: frame_simps)
  then have "queues_ok ?k0" using q by (simp add: removed_in_def)
  then have 1: "removed_in {Private t} SIG_KERNEL_STOP_MASK ?k0 ?k1" by (rule rm_removed [OF _ classic_stop])
  have 2: "removed_in {} SIG_KERNEL_STOP_MASK ?k1 (cont_thread E t k)"
    by (rule removed_in_pv) (simp add: cont_thread_def Let_def frame_simps)
  from removed_in_trans [OF removed_in_trans [OF 0 1] 2] show ?thesis by simp
qed

lemma cont_removes_stops_removed:
  assumes q: "queues_ok k" and d: "distinct (s_threads (sig_of k p))"
  shows "removed_in (group_locs k p) SIG_KERNEL_STOP_MASK k (cont_removes_stops E p k)"
proof -
  let ?g = "Shared (t_signal (tasks k p))"
  let ?k1 = "snd (rm_from_queue SIG_KERNEL_STOP_MASK ?g k)"
  have 1: "removed_in {?g} SIG_KERNEL_STOP_MASK k ?k1" by (rule rm_removed [OF q classic_stop])
  then have q1: "queues_ok ?k1" using q by (simp add: removed_in_def)
  have gf: "group_from ?k1 p = group_from k p" by (rule group_from_skel) (simp add: frame_simps)
  have "removed_in (Private ` set (group_from k p)) SIG_KERNEL_STOP_MASK ?k1
      (fold (cont_thread E) (group_from k p) ?k1)"
    by (rule fold_removed [OF cont_thread_removed _ q1]) (use d in \<open>simp_all add: group_from_def\<close>)
  from removed_in_trans [OF 1 this] show ?thesis
    unfolding cont_removes_stops_def each_thread_def gf group_locs_eq by auto
qed

lemma pv_note_continued [frame_simps]: "pv (note_continued g k) = pv k"
  by (simp add: note_continued_def Let_def pv_upd_signal)

text \<open>The mask a signal removes from all queues of its group when it is generated.\<close>

definition kills_pending :: "int \<Rightarrow> sigset" where
  "kills_pending sig = (if sig_kernel_stop sig then sigmask SIGCONT
     else if sig = SIGCONT then SIG_KERNEL_STOP_MASK else 0)"

lemma remove_spec_0 [simp]: "remove_spec 0 v = v"
  by (simp add: remove_spec_def split_beta)

lemma prepare_removed:
  assumes q: "queues_ok k" and d: "distinct (s_threads (sig_of k p))"
    and alive: "s_flags (sig_of k p) AND SIGNAL_GROUP_EXIT = 0"
  shows "removed_in (group_locs k p) (kills_pending sig) k (snd (prepare_signal E sig p ns k))"
proof -
  have triv: "removed_in L 0 k k" for L by (simp add: removed_in_def)
  have n: "removed_in (group_locs k p) SIG_KERNEL_STOP_MASK k (note_continued g (cont_removes_stops E p k))" for g
    using removed_in_trans [OF cont_removes_stops_removed [OF q d] removed_in_pv [OF pv_note_continued]] by simp
  show ?thesis
    using alive stop_removes_cont_removed [OF q d] n triv
    by (simp add: prepare_signal_def Let_def kills_pending_def sig_of_def)
qed

section \<open>Adding to queues\<close>

lemma add_bit_ok:
  assumes q: "queues_ok k" and s: "signo s"
  shows "queues_ok (set_psignal (sigaddset s) l k)"
proof -
  let ?k = "set_psignal (sigaddset s) l k"
  have fr: "pend_frame k ?k" by blast
  have pl: "plist (pending_at ?k n) = plist (pending_at k n)" for n by (simp add: pending_at_set)
  have up: "sigismember (psignal (pending_at ?k n)) a" if "signo a" "sigismember (psignal (pending_at k n)) a" for n a
    using that s by (auto simp: pending_at_set)
  have "pend_ok ?k n" for n
    using q up pl unfolding queues_ok_def pend_ok_def entries_for_def pend_frame_more(5) [OF fr] by fastforce
  with q pl show ?thesis by (simp add: queues_ok_def pend_frame_more(4) [OF fr])
qed

lemma kill_thread_ok: "queues_ok k \<Longrightarrow> queues_ok (kill_thread E t k)"
  using queues_ok_pv [OF pv_jobctl(3)] queues_ok_pv [OF pv_wake(3)] add_bit_ok [of _ 9]
  by (simp add: kill_thread_def)

lemma fold_kill_ok: "queues_ok k \<Longrightarrow> queues_ok (fold (kill_thread E) ts k)"
  by (induction ts arbitrary: k) (simp_all add: kill_thread_ok)

lemma complete_signal_ok:
  assumes "queues_ok k"
  shows "queues_ok (complete_signal E sig p grp k)"
proof -
  have s: "queues_ok (start_group_exit E sig p k1)" if "queues_ok k1" for k1
    unfolding start_group_exit_def each_thread_def
    by (rule fold_kill_ok, subst queues_ok_pv [OF pv_upd_signal]) (simp_all add: that)
  have c: "queues_ok k1" if "choose_thread E sig p grp k = Some (t, k1)" for t k1
    using that assms queues_ok_pv [OF pv_upd_signal]
    by (auto simp: choose_thread_def split: if_splits option.splits)
  show ?thesis
    using assms s c queues_ok_pv [OF pv_wake(3)]
    by (auto simp: complete_signal_def split: option.splits)
qed

lemma alloc_effect:
  assumes "sigqueue_alloc_raw E sig t ov k = (r, k')"
  shows "pending_at k' = pending_at k" and "q_info (sqs k' q) = q_info (sqs k q)"
    and "next_sq k \<le> next_sq k'" and "r = Some p \<Longrightarrow> p = next_sq k \<and> next_sq k' = Suc (next_sq k)"
  using assms
  by (auto simp: sigqueue_alloc_raw_def Let_def fun_eq_iff split: if_splits option.splits prod.splits)

lemma list_add_effect:
  "pending_at (list_add_tail q l k) n =
     (if n = l then (pending_at k l)\<lparr>plist := plist (pending_at k l) @ [q]\<rparr> else pending_at k n)"
  "q_info (sqs (list_add_tail q l k) p) = q_info (sqs k p)" "next_sq (list_add_tail q l k) = next_sq k"
  by (simp_all add: list_add_tail_def)

lemma set_q_info_effect:
  "pending_at (set_q_info q f k) n = pending_at k n" "next_sq (set_q_info q f k) = next_sq k"
  "q_info (sqs (set_q_info q f k) p) = (if p = q then f (q_info (sqs k q)) else q_info (sqs k p))"
  by (simp_all add: set_q_info_def)

text \<open>The record that enters the queue has the right number when the sender filled it in.\<close>

definition arg_ok :: "int \<Rightarrow> sig_arg \<Rightarrow> bool" where
  "arg_ok sig a \<longleftrightarrow> a \<noteq> SEND_SIG_FORCED \<and> (\<forall>i. a = Info i \<longrightarrow> si_signo i = sig)"

lemma fill_info_signo: "arg_ok sig a \<Longrightarrow> si_signo (fill_info E sig a t ns k old) = sig"
  by (cases a) (auto simp: fill_info_def arg_ok_def)

text \<open>A new element at the tail of a queue, its signal set in the bitmap.\<close>

lemma enqueue_ok:
  assumes q: "queues_ok k" and s: "signo sig" and new: "sig < SIGRTMIN \<longrightarrow> \<not> sigismember (psignal (pending_at k l)) sig"
    and pl: "pending_at k' = (pending_at k)(l := \<lparr>plist = plist (pending_at k l) @ [next_sq k],
               psignal = sigaddset sig (psignal (pending_at k l))\<rparr>)"
    and inf: "\<And>q. q \<noteq> next_sq k \<Longrightarrow> q_info (sqs k' q) = q_info (sqs k q)"
    and i: "si_signo (q_info (sqs k' (next_sq k))) = sig" and nx: "next_sq k' = Suc (next_sq k)"
  shows "queues_ok k'" and "pview k' l = (sigaddset sig (fst (pview k l)), snd (pview k l) @ [q_info (sqs k' (next_sq k))])"
    and "n \<noteq> l \<Longrightarrow> pview k' n = pview k n"
proof -
  have old: "q < next_sq k" if "q \<in> set (plist (pending_at k n))" for q n
    using q that by (auto simp: queues_ok_def)
  then have oi: "q_info (sqs k' q) = q_info (sqs k q)" if "q \<in> set (plist (pending_at k n))" for q n
    using inf that by fastforce
  have ent: "filter (\<lambda>q. si_signo (q_info (sqs k' q)) = s) (plist (pending_at k n)) = entries_for k n s" for n s
    unfolding entries_for_def by (rule filter_cong) (use oi in auto)
  have okl: "pend_ok k n" for n using q by (simp add: queues_ok_def)
  have empty: "entries_for k l sig = []" if "sig < SIGRTMIN"
    using that new okl [of l] by (auto simp: entries_for_def pend_ok_def filter_empty_conv)
  have "pend_ok k' n" for n
  proof (cases "n = l")
    case False
    with okl [of n] ent [where n = n] oi show ?thesis by (simp add: pend_ok_def pl entries_for_def)
  next
    case True
    have "length (entries_for k' l s) \<le> 1" if "s < SIGRTMIN" for s
    proof -
      have "entries_for k' l s = entries_for k l s @ (if sig = s then [next_sq k] else [])"
        using ent [where n = l and s = s] i by (simp add: entries_for_def pl)
      with empty that okl [of l] show ?thesis by (auto simp: pend_ok_def)
    qed
    with True okl [of l] old oi s i show ?thesis by (auto simp: pend_ok_def pl)
  qed
  moreover have "q' < next_sq k'" if "q' \<in> set (plist (pending_at k' n))" for n q'
    using that old nx by (cases "n = l") (auto simp: pl less_Suc_eq)
  ultimately show "queues_ok k'" by (simp add: queues_ok_def)
  show "pview k' l = (sigaddset sig (fst (pview k l)), snd (pview k l) @ [q_info (sqs k' (next_sq k))])"
    using oi by (simp add: pview_def pl)
  show "n \<noteq> l \<Longrightarrow> pview k' n = pview k n" using oi by (simp add: pview_def pl)
qed

text \<open>Queueing and setting the bit: the element is the last of its queue, or there is none.\<close>

lemma queue_info_effect:
  assumes q: "queues_ok k" and s: "signo sig" and a: "arg_ok sig a"
    and new: "sig < SIGRTMIN \<longrightarrow> \<not> sigismember (psignal (pending_at k l)) sig"
    and r: "queue_info E sig a t l ns k = (b, k1)"
    and k2: "k2 = set_psignal (sigaddset sig) l (ev e k1)"
  shows "queues_ok k2 \<and> (\<forall>n. n \<noteq> l \<longrightarrow> pview k2 n = pview k n) \<and>
     fst (pview k2 l) = sigaddset sig (fst (pview k l)) \<and>
     (snd (pview k2 l) = snd (pview k l) \<or> (\<exists>i. si_signo i = sig \<and> snd (pview k2 l) = snd (pview k l) @ [i])) \<and>
     (\<not> b \<longrightarrow> queues_ok k1 \<and> (\<forall>n. pview k1 n = pview k n))"
proof -
  obtain res k0 where al: "sigqueue_alloc_raw E sig t (override_rlimit sig a) k = (res, k0)" by fastforce
  note ae = alloc_effect [OF al]
  show ?thesis
  proof (cases res)
    case None
    with r al have k1: "k1 = k0" by (simp add: queue_info_def)
    have v: "pview k0 n = pview k n" and pk: "pend_ok k0 n = pend_ok k n" for n
      using ae(1,2) by (simp_all add: pview_def pend_ok_def entries_for_def)
    have q0: "queues_ok k0" using q pk ae(1,3) unfolding queues_ok_def by (auto dest: less_le_trans)
    have "queues_ok (ev e k0)" using q0 queues_ok_pv [OF pv_misc(1)] by blast
    from add_bit_ok [OF this s] have "queues_ok k2" using k2 k1 by simp
    moreover have "pend_frame (ev e k0) k2" using k2 k1 by blast
    ultimately show ?thesis using v q0 ae(1,2)
      by (simp add: k2 k1 pview_def pending_at_set pend_frame_more(5) [OF pend_frame_set])
  next
    case (Some p)
    then have p: "p = next_sq k" "next_sq k0 = Suc (next_sq k)" using ae(4) by auto
    have k1: "k1 = set_q_info p (fill_info E sig a t ns k0) (list_add_tail p l k0)" and b: b
      using r al Some by (auto simp: queue_info_def)
    have qi: "q_info (sqs k2 x) = q_info (sqs k1 x)" for x
      by (simp add: k2 pend_frame_more(5) [OF pend_frame_set])
    have nx: "next_sq k2 = Suc (next_sq k)"
      by (simp add: k2 pend_frame_more(4) [OF pend_frame_set] k1 set_q_info_effect list_add_effect p)
    have pl: "pending_at k2 = (pending_at k)(l := \<lparr>plist = plist (pending_at k l) @ [next_sq k],
               psignal = sigaddset sig (psignal (pending_at k l))\<rparr>)"
      by (rule ext) (simp add: k2 pending_at_set k1 set_q_info_effect list_add_effect p ae(1))
    have inf: "q_info (sqs k2 x) = q_info (sqs k x)" if "x \<noteq> next_sq k" for x
      using that by (simp add: qi k1 set_q_info_effect list_add_effect p ae(2))
    have i: "si_signo (q_info (sqs k2 (next_sq k))) = sig"
      by (simp add: qi k1 set_q_info_effect p fill_info_signo [OF a])
    from enqueue_ok [OF q s new pl inf i nx] i b show ?thesis by auto
  qed
qed

text \<open>Sending keeps all queues well formed.\<close>

lemma send_queues_ok:
  assumes q: "queues_ok k" and d: "distinct (s_threads (sig_of k t))" and s: "signo sig"
    and a: "a = SEND_SIG_FORCED \<or> arg_ok sig a"
  shows "queues_ok (snd (send_signal_raw E sig a t grp ns k))"
proof -
  obtain c k1 where p: "prepare_signal E sig t ns k = (c, k1)" by fastforce
  have q1: "queues_ok k1"
  proof (cases "s_flags (sig_of k t) AND SIGNAL_GROUP_EXIT = 0")
    case True
    from prepare_removed [OF q d this, of sig E ns] p q show ?thesis by (simp add: removed_in_def)
  next
    case False
    with p q show ?thesis by (simp add: prepare_signal_def Let_def sig_of_def)
  qed
  let ?l = "pend_target k1 t grp"
  show ?thesis
  proof (cases "\<not> c \<or> legacy_queue (pending_at k1 ?l) sig")
    case True
    with p q1 show ?thesis by (cases c) (simp_all add: send_signal_raw_def Let_def)
  next
    case False
    then have c: c and new: "sig < SIGRTMIN \<longrightarrow> \<not> sigismember (psignal (pending_at k1 ?l)) sig"
      by (auto simp: legacy_queue_def)
    have out: "queues_ok (out_set E sig t grp ?l k2)"
      if "queues_ok (set_psignal (sigaddset sig) ?l (ev (Ev_Signalfd t sig) k2))" for k2
      using that by (simp add: out_set_def complete_signal_ok)
    show ?thesis
    proof (cases "a = SEND_SIG_FORCED")
      case True
      have "queues_ok (ev (Ev_Signalfd t sig) k1)" using q1 queues_ok_pv [OF pv_misc(1)] by blast
      from out [OF add_bit_ok [OF this s]] True False p c show ?thesis
        by (simp add: send_signal_raw_def Let_def)
    next
      case nf: False
      with a have a': "arg_ok sig a" by simp
      obtain b k2 where qi: "queue_info E sig a t ?l ns k1 = (b, k2)" by fastforce
      from queue_info_effect [OF q1 s a' new qi refl, of "Ev_Signalfd t sig"]
      have "queues_ok (set_psignal (sigaddset sig) ?l (ev (Ev_Signalfd t sig) k2))"
        "\<not> b \<longrightarrow> queues_ok k2" by auto
      with out [of k2] nf False p c qi show ?thesis
        by (cases b) (simp_all add: send_signal_raw_def Let_def)
    qed
  qed
qed

section \<open>A fatal signal\<close>

text \<open>A thread that has been told to die.\<close>

definition doomed :: "task_struct \<Rightarrow> bool" where
  "doomed t \<longleftrightarrow> sigismember (psignal (t_pending t)) SIGKILL \<and> t_tif_sigpending t \<and>
     t_jobctl t AND JOBCTL_PENDING_MASK = 0"

lemma trapping_clear_other: "u \<noteq> t \<Longrightarrow> tasks (task_clear_jobctl_trapping t k) u = tasks k u"
  by (simp add: task_clear_jobctl_trapping_def)

lemma word_and_not_disjoint: "t AND m = 0 \<Longrightarrow> (x AND NOT t) AND m = x AND (m :: 'a::len word)"
  by (auto simp: bit_eq_iff bit_simps)

lemma clear_pending_self:
  "t_jobctl (tasks (task_clear_jobctl_pending t JOBCTL_PENDING_MASK k) t) AND JOBCTL_PENDING_MASK = 0"
proof -
  have z: "(x AND NOT JOBCTL_PENDING_MASK AND NOT y AND NOT w) AND JOBCTL_PENDING_MASK = 0" for x y w
    by (rule bit_word_eqI) (auto simp: bit_simps)
  have n: "JOBCTL_PENDING_MASK AND JOBCTL_STOP_PENDING \<noteq> 0" by (simp add: jobctl_defs)
  have tr: "(x AND NOT JOBCTL_TRAPPING) AND JOBCTL_PENDING_MASK = x AND JOBCTL_PENDING_MASK" for x
    using word_and_not_disjoint [of JOBCTL_TRAPPING JOBCTL_PENDING_MASK] by (simp add: jobctl_defs)
  show ?thesis using n z tr
    by (simp add: task_clear_jobctl_pending_def task_clear_jobctl_trapping_def Let_def)
qed

lemma clear_pending_other: "u \<noteq> t \<Longrightarrow> tasks (task_clear_jobctl_pending t m k) u = tasks k u"
  by (simp add: task_clear_jobctl_pending_def Let_def trapping_clear_other)

lemma wake_tasks:
  "u \<noteq> t \<Longrightarrow> tasks (signal_wake_up E t r k) u = tasks k u"
  "t_tif_sigpending (tasks (signal_wake_up E t r k) t)"
  "t_jobctl (tasks (signal_wake_up E t r k) t) = t_jobctl (tasks k t)"
  "t_pending (tasks (signal_wake_up E t r k) t) = t_pending (tasks k t)"
  by (auto simp: signal_wake_up_def signal_wake_up_state_def wake_up_state_def set_tif_sigpending_def Let_def
      split: prod.splits)

lemma set_psignal_private:
  "tasks (set_psignal f (Private t) k) u = (if u = t then (tasks k t)\<lparr>t_pending := (t_pending (tasks k t))
     \<lparr>psignal := f (psignal (t_pending (tasks k t)))\<rparr>\<rparr> else tasks k u)"
  by (simp add: set_psignal_def)

lemma kill_thread_doomed: "doomed (tasks (kill_thread E t k) t)"
  using clear_pending_self [of t k]
  by (simp add: doomed_def kill_thread_def wake_tasks set_psignal_private)

lemma kill_thread_other: "u \<noteq> t \<Longrightarrow> tasks (kill_thread E t k) u = tasks k u"
  by (simp add: kill_thread_def wake_tasks set_psignal_private clear_pending_other)

lemma fold_kill_doomed:
  assumes "u \<in> set ts \<or> doomed (tasks k u)"
  shows "doomed (tasks (fold (kill_thread E) ts k) u)"
  using assms
proof (induction ts arbitrary: k)
  case (Cons t ts)
  then show ?case
    using kill_thread_doomed [of E t k] kill_thread_other [of u t E k] by (cases "u = t") auto
qed simp

lemma signals_wake: "signals (signal_wake_up E t r k) = signals k"
  by (auto simp: signal_wake_up_def signal_wake_up_state_def wake_up_state_def set_tif_sigpending_def Let_def
      split: prod.splits)

lemma signals_kill: "signals (fold (kill_thread E) ts k) = signals k"
proof (induction ts arbitrary: k)
  case (Cons t ts)
  have "signals (kill_thread E t k) = signals k"
    by (simp add: kill_thread_def signals_wake set_psignal_def task_clear_jobctl_pending_def
        task_clear_jobctl_trapping_def Let_def)
  with Cons show ?case by simp
qed simp

lemma group_exit_dooms:
  assumes "u \<in> set (s_threads (sig_of k p))"
  shows "doomed (tasks (start_group_exit E sig p k) u)"
    and "s_flags (signals (start_group_exit E sig p k) (t_signal (tasks k p))) = SIGNAL_GROUP_EXIT"
    and "s_group_exit_code (signals (start_group_exit E sig p k) (t_signal (tasks k p))) = sig"
proof -
  let ?k = "upd_signal (t_signal (tasks k p)) (\<lambda>s. s\<lparr>s_flags := SIGNAL_GROUP_EXIT, s_group_exit_code := sig, s_group_stop_count := 0\<rparr>) k"
  have "u \<in> set (group_from ?k p)" using assms by (simp add: group_from_def sig_of_def)
  then show "doomed (tasks (start_group_exit E sig p k) u)"
    by (simp add: start_group_exit_def each_thread_def fold_kill_doomed)
  show "s_flags (signals (start_group_exit E sig p k) (t_signal (tasks k p))) = SIGNAL_GROUP_EXIT"
    "s_group_exit_code (signals (start_group_exit E sig p k) (t_signal (tasks k p))) = sig"
    by (simp_all add: start_group_exit_def each_thread_def signals_kill)
qed

lemma complete_fatal:
  assumes "choose_thread E sig p grp k = Some (t, k1)" and "group_fatal sig p t k1" and "\<not> sig_kernel_coredump sig"
    and "u \<in> set (s_threads (sig_of k p))"
  shows "doomed (tasks (complete_signal E sig p grp k) u)"
    and "s_flags (signals (complete_signal E sig p grp k) (t_signal (tasks k p))) = SIGNAL_GROUP_EXIT"
    and "s_group_exit_code (signals (complete_signal E sig p grp k) (t_signal (tasks k p))) = sig"
proof -
  have "skel k1 = skel k"
    using assms(1) by (auto simp: choose_thread_def split: if_splits option.splits intro!: skel_upd_signal)
  from skel_sel [OF this] have s: "t_signal (tasks k1 p) = t_signal (tasks k p)"
    "s_threads (sig_of k1 p) = s_threads (sig_of k p)" by (simp_all add: sig_of_def)
  with group_exit_dooms [of u k1 p E sig] assms
  show "doomed (tasks (complete_signal E sig p grp k) u)"
    "s_flags (signals (complete_signal E sig p grp k) (t_signal (tasks k p))) = SIGNAL_GROUP_EXIT"
    "s_group_exit_code (signals (complete_signal E sig p grp k) (t_signal (tasks k p))) = sig"
    by (simp_all add: complete_signal_def)
qed

text \<open>A SIGKILL sent to a process that is not protected, not exiting and not already dying.\<close>

definition killable :: "kstate \<Rightarrow> nat \<Rightarrow> bool" where
  "killable k p \<longleftrightarrow> s_flags (sig_of k p) AND (SIGNAL_UNKILLABLE OR SIGNAL_GROUP_EXIT) = 0 \<and>
     sig_handler k p SIGKILL = SIG_DFL \<and> \<not> sigismember (t_blocked (tasks k p)) SIGKILL \<and>
     \<not> sigismember (t_real_blocked (tasks k p)) SIGKILL \<and> t_flags (tasks k p) AND PF_EXITING = 0 \<and>
     \<not> sigismember (psignal (s_shared_pending (sig_of k p))) SIGKILL"

lemma skel_killable:
  assumes "skel k' = skel k" and "s_flags (sig_of k' p) = s_flags (sig_of k p)"
  shows "choose_thread E SIGKILL p grp k' = (if sigismember (t_blocked (tasks k p)) SIGKILL \<or> t_flags (tasks k p) AND PF_EXITING \<noteq> 0
       then choose_thread E SIGKILL p grp k' else Some (p, k'))"
  using skel_sel [OF assms(1)] by (simp add: choose_thread_def wants_signal_def)

lemma alloc_flags:
  "s_flags (signals (snd (sigqueue_alloc_raw E sig t ov k)) g) = s_flags (signals k g)"
  by (simp add: sigqueue_alloc_raw_def Let_def split_beta split: option.splits)

lemma list_add_signals: "s_flags (signals (upd_pending l f k) g) = s_flags (signals k g)"
  by (cases l) simp_all

lemma queue_info_flags:
  assumes "queue_info E sig a t l ns k = (b, k1)"
  shows "s_flags (signals k1 g) = s_flags (signals k g)"
  using assms alloc_flags [of E sig t "override_rlimit sig a" k g]
  by (auto simp: queue_info_def set_q_info_def list_add_tail_def list_add_signals split: prod.splits option.splits)

lemma flags_split: "x AND (a OR b) = 0 \<longleftrightarrow> x AND a = 0 \<and> x AND b = (0 :: 'a::len word)"
  by (auto simp: bit_eq_iff bit_simps)

lemma sigkill_dooms:
  assumes k: "killable k p" and a: "send_signal_raw E SIGKILL a p True ns k = (r, k')"
    and u: "u \<in> set (s_threads (sig_of k p))"
  shows "r = 0 \<and> doomed (tasks k' u) \<and> s_flags (sig_of k' p) = SIGNAL_GROUP_EXIT"
proof -
  have f: "s_flags (sig_of k p) AND SIGNAL_UNKILLABLE = 0" "s_flags (sig_of k p) AND SIGNAL_GROUP_EXIT = 0"
    using k by (simp_all add: killable_def flags_split)
  have ign: "\<not> sig_ignored k p SIGKILL ns"
    using k f by (simp add: sig_ignored_def sig_task_ignored_def sig_handler_ignored_def killable_def Let_def
        sig_kernel_ignore_iff)
  have prep: "prepare_signal E SIGKILL p ns k = (True, k)"
    using f ign by (simp add: prepare_signal_def Let_def sig_kernel_stop_iff sig_of_def)
  have leg: "\<not> legacy_queue (pending_at k (pend_target k p True)) SIGKILL"
    using k by (simp add: legacy_queue_def pend_target_def killable_def sig_of_def)
  let ?l = "pend_target k p True"
  have out: "doomed (tasks (out_set E SIGKILL p True ?l k1) u) \<and> s_flags (sig_of (out_set E SIGKILL p True ?l k1) p) = SIGNAL_GROUP_EXIT"
    if k1: "skel k1 = skel k" "s_flags (sig_of k1 p) = s_flags (sig_of k p)" for k1
  proof -
    let ?k2 = "set_psignal (sigaddset SIGKILL) ?l (ev (Ev_Signalfd p SIGKILL) k1)"
    have s2: "skel ?k2 = skel k" using k1 by (simp add: frame_simps)
    note sel = skel_sel [OF s2] and more = skel_more [OF s2]
    have fl: "s_flags (sig_of ?k2 p) = s_flags (sig_of k p)"
      using k1 sel(3) [of p] skel_sel(3) [OF k1(1), of p]
      by (simp add: sig_of_def set_psignal_def list_add_signals)
    have ch: "choose_thread E SIGKILL p True ?k2 = Some (p, ?k2)"
      using skel_killable [OF s2 fl, of E True] k by (simp add: killable_def)
    have gf: "group_fatal SIGKILL p p ?k2"
      using k fl sel(6) [of p] more(3) [of p SIGKILL]
      by (simp add: group_fatal_def sig_fatal_def killable_def siginmask_iff SIG_KERNEL_IGNORE_MASK_def stop_mask_member)
    have th: "u \<in> set (s_threads (sig_of ?k2 p))" using u sel(3,14) by (simp add: sig_of_def)
    have cd: "\<not> sig_kernel_coredump SIGKILL" by (simp add: sig_kernel_coredump_iff)
    note cf = complete_fatal [OF ch gf cd th]
    have sg: "t_signal (tasks (complete_signal E SIGKILL p True ?k2) p) = t_signal (tasks ?k2 p)"
      by (rule skel_sel(3)) (simp add: frame_simps)
    from cf sg show ?thesis by (simp add: out_set_def sig_of_def)
  qed
  show ?thesis
  proof (cases "a = SEND_SIG_FORCED")
    case True
    with a prep leg out [of k] show ?thesis by (auto simp: send_signal_raw_def Let_def)
  next
    case False
    obtain b k1 where q: "queue_info E SIGKILL a p ?l ns k = (b, k1)" by fastforce
    then have b: b
      by (auto simp: queue_info_def split: prod.splits option.splits sig_arg.splits)
    have sk: "skel k1 = skel k" using skel_queue [of E SIGKILL a p ?l ns k] q by simp
    moreover have "s_flags (sig_of k1 p) = s_flags (sig_of k p)"
      using queue_info_flags [OF q] skel_sel(3) [OF sk, of p] by (simp add: sig_of_def)
    ultimately show ?thesis using a prep leg out [of k1] q b False by (auto simp: send_signal_raw_def Let_def)
  qed
qed

end
