(* ===== verification/Sig_Kill.thy ===== *)
theory Sig_Kill
  imports Sig_Send
begin

text \<open>
  The kill family: permission checks, sending to one process, to a process group and to all
  processes, and the system calls kill, tkill, tgkill, rt_sigqueueinfo and rt_tgsigqueueinfo.
  The pid tables are outside the repository and come in as the record \<open>pidenv\<close>.
\<close>

text \<open>
  \<open>lookups pid\<close>: the results of successive calls of \<open>pid_task(find_vpid(pid), PIDTYPE_PID)\<close>.
  \<open>pgrp_tasks n\<close>: the tasks of process group \<open>n\<close>; \<open>processes\<close>: what \<open>for_each_process\<close> walks.
\<close>

record pidenv =
  lookups :: "int \<Rightarrow> nat option list"
  find_task :: "int \<Rightarrow> nat option"
  pgrp_tasks :: "int \<Rightarrow> nat list"
  current_pgrp :: int
  processes :: "nat list"
  pid_vnr :: "nat \<Rightarrow> int"
  tgid_vnr :: "nat \<Rightarrow> int"

section \<open>Permission\<close>

definition kill_ok_by_cred :: "kenv \<Rightarrow> nat \<Rightarrow> kstate \<Rightarrow> bool" where
  "kill_ok_by_cred E t ks =
     (let c = t_cred (tasks ks (cur ks)); tc = t_cred (tasks ks t) in
      if c_user_ns c = c_user_ns tc \<and>
         (c_euid c = c_suid tc \<or> c_euid c = c_uid tc \<or> c_uid c = c_suid tc \<or> c_uid c = c_uid tc)
      then True else ns_capable E (c_user_ns tc))"

definition check_kill_permission :: "kenv \<Rightarrow> int \<Rightarrow> sig_arg \<Rightarrow> nat \<Rightarrow> kstate \<Rightarrow> int" where
  "check_kill_permission E sig a t ks =
     (if \<not> valid_signal sig then - EINVAL
      else if \<not> si_fromuser a then 0
      else let error = audit_signal_info E sig t in
           if error \<noteq> 0 then error
           else if \<not> same_thread_group (tasks ks (cur ks)) (tasks ks t) \<and> \<not> kill_ok_by_cred E t ks
                   \<and> \<not> (sig = SIGCONT \<and> (t_session (tasks ks t) = None
                                             \<or> t_session (tasks ks t) = t_session (tasks ks (cur ks))))
           then - EPERM
           else security_task_kill E t a sig)"

section \<open>Sending by pid\<close>

definition group_send_sig_info :: "kenv \<Rightarrow> int \<Rightarrow> sig_arg \<Rightarrow> nat \<Rightarrow> kstate \<Rightarrow> int \<times> kstate" where
  "group_send_sig_info E sig a p ks =
     (let ret = check_kill_permission E sig a p ks in
      if ret = 0 \<and> sig \<noteq> 0 then do_send_sig_info E sig a p True ks else (ret, ks))"

text \<open>\<open>__kill_pgrp_info\<close>: the loop keeps the last result and whether any send succeeded.\<close>

fun kill_tasks :: "kenv \<Rightarrow> int \<Rightarrow> sig_arg \<Rightarrow> nat list \<Rightarrow> bool \<times> int \<times> kstate \<Rightarrow> bool \<times> int \<times> kstate" where
  "kill_tasks E sig a [] st = st"
| "kill_tasks E sig a (p # ps) (success, retval, ks) =
     (case group_send_sig_info E sig a p ks of
        (err, ks) \<Rightarrow> kill_tasks E sig a ps (success \<or> err = 0, err, ks))"

definition kill_pgrp_info :: "kenv \<Rightarrow> int \<Rightarrow> sig_arg \<Rightarrow> nat list \<Rightarrow> kstate \<Rightarrow> int \<times> kstate" where
  "kill_pgrp_info E sig a ps ks =
     (case kill_tasks E sig a ps (False, - ESRCH, ks) of
        (success, retval, ks) \<Rightarrow> (if success then 0 else retval, ks))"

text \<open>\<open>kill_pid_info\<close> with its retry loop, over the results of the pid lookups; \<open>None\<close>: still retrying.\<close>

fun kill_lookups :: "kenv \<Rightarrow> int \<Rightarrow> sig_arg \<Rightarrow> nat option list \<Rightarrow> kstate \<Rightarrow> (int \<times> kstate) option" where
  "kill_lookups E sig a [] ks = None"
| "kill_lookups E sig a (None # _) ks = Some (- ESRCH, ks)"
| "kill_lookups E sig a (Some p # rest) ks =
     (case group_send_sig_info E sig a p ks of
        (err, ks) \<Rightarrow> if err = - ESRCH then kill_lookups E sig a rest ks else Some (err, ks))"

definition kill_pid_info :: "kenv \<Rightarrow> pidenv \<Rightarrow> int \<Rightarrow> sig_arg \<Rightarrow> int \<Rightarrow> kstate \<Rightarrow> (int \<times> kstate) option" where
  "kill_pid_info E P sig a pid ks = kill_lookups E sig a (lookups P pid) ks"

definition kill_proc_info :: "kenv \<Rightarrow> pidenv \<Rightarrow> int \<Rightarrow> sig_arg \<Rightarrow> int \<Rightarrow> kstate \<Rightarrow> (int \<times> kstate) option" where
  "kill_proc_info E P sig a pid ks = kill_pid_info E P sig a pid ks"

definition kill_as_cred_perm :: "cred \<Rightarrow> nat \<Rightarrow> kstate \<Rightarrow> bool" where
  "kill_as_cred_perm c t ks =
     (let pc = t_cred (tasks ks t) in
      if c_user_ns c \<noteq> c_user_ns pc then False
      else if c_euid c \<noteq> c_suid pc \<and> c_euid c \<noteq> c_uid pc \<and> c_uid c \<noteq> c_suid pc \<and> c_uid c \<noteq> c_uid pc then False
      else True)"

definition kill_pid_info_as_cred ::
  "kenv \<Rightarrow> int \<Rightarrow> sig_arg \<Rightarrow> nat option \<Rightarrow> cred \<Rightarrow> kstate \<Rightarrow> int \<times> kstate" where
  "kill_pid_info_as_cred E sig a p c ks =
     (if \<not> valid_signal sig then (- EINVAL, ks)
      else case p of
        None \<Rightarrow> (- ESRCH, ks)
      | Some p \<Rightarrow>
          if si_fromuser a \<and> \<not> kill_as_cred_perm c p ks then (- EPERM, ks)
          else let ret = security_task_kill E p a sig in
               if ret \<noteq> 0 then (ret, ks)
               else if sig \<noteq> 0 then
                 (case lock_task_sighand p ks of
                    None \<Rightarrow> (- ESRCH, ks)
                  | Some h \<Rightarrow> send_signal_raw E sig a p True False ks)
               else (ret, ks))"

text \<open>\<open>kill(-1, sig)\<close>: every process but init and the caller's own; errors other than EPERM are kept.\<close>

fun kill_all :: "kenv \<Rightarrow> pidenv \<Rightarrow> int \<Rightarrow> sig_arg \<Rightarrow> nat list \<Rightarrow> nat \<times> int \<times> kstate \<Rightarrow> nat \<times> int \<times> kstate" where
  "kill_all E P sig a [] st = st"
| "kill_all E P sig a (p # ps) (count, retval, ks) =
     (if pid_vnr P p > 1 \<and> \<not> same_thread_group (tasks ks p) (tasks ks (cur ks)) then
        (case group_send_sig_info E sig a p ks of
           (err, ks) \<Rightarrow> kill_all E P sig a ps (Suc count, if err \<noteq> - EPERM then err else retval, ks))
      else kill_all E P sig a ps (count, retval, ks))"

definition kill_something_info ::
  "kenv \<Rightarrow> pidenv \<Rightarrow> int \<Rightarrow> sig_arg \<Rightarrow> int \<Rightarrow> kstate \<Rightarrow> (int \<times> kstate) option" where
  "kill_something_info E P sig a pid ks =
     (if pid > 0 then kill_pid_info E P sig a pid ks
      else if pid \<noteq> -1 then
        Some (kill_pgrp_info E sig a (pgrp_tasks P (if pid \<noteq> 0 then - pid else current_pgrp P)) ks)
      else (case kill_all E P sig a (processes P) (0, 0, ks) of
              (count, retval, ks) \<Rightarrow> Some (if count > 0 then retval else - ESRCH, ks)))"

definition kill_pgrp :: "kenv \<Rightarrow> nat list \<Rightarrow> int \<Rightarrow> bool \<Rightarrow> kstate \<Rightarrow> int \<times> kstate" where
  "kill_pgrp E ps sig priv ks = kill_pgrp_info E sig (si_special priv) ps ks"

definition kill_pid :: "kenv \<Rightarrow> pidenv \<Rightarrow> int \<Rightarrow> int \<Rightarrow> bool \<Rightarrow> kstate \<Rightarrow> (int \<times> kstate) option" where
  "kill_pid E P pid sig priv ks = kill_pid_info E P sig (si_special priv) pid ks"

section \<open>System calls\<close>

text \<open>\<open>stack\<close> is what the uninitialised \<open>siginfo\<close> on the stack holds.\<close>

definition sys_kill :: "kenv \<Rightarrow> pidenv \<Rightarrow> siginfo \<Rightarrow> int \<Rightarrow> int \<Rightarrow> kstate \<Rightarrow> (int \<times> kstate) option" where
  "sys_kill E P stack pid sig ks =
     kill_something_info E P sig
       (Info (stack\<lparr>si_signo := sig, si_errno := 0, si_code := SI_USER,
          si_pid := tgid_vnr P (cur ks), si_uid := c_uid (t_cred (tasks ks (cur ks)))\<rparr>)) pid ks"

definition do_send_specific ::
  "kenv \<Rightarrow> pidenv \<Rightarrow> int \<Rightarrow> int \<Rightarrow> int \<Rightarrow> sig_arg \<Rightarrow> kstate \<Rightarrow> int \<times> kstate" where
  "do_send_specific E P tgid pid sig a ks =
     (case find_task P pid of
        None \<Rightarrow> (- ESRCH, ks)
      | Some p \<Rightarrow>
          if tgid \<le> 0 \<or> tgid_vnr P p = tgid then
            (let error = check_kill_permission E sig a p ks in
             if error = 0 \<and> sig \<noteq> 0 then
               (case do_send_sig_info E sig a p False ks of
                  (error, ks) \<Rightarrow> (if error = - ESRCH then 0 else error, ks))
             else (error, ks))
          else (- ESRCH, ks))"

definition zero_siginfo :: siginfo where
  "zero_siginfo = \<lparr>si_signo = 0, si_errno = 0, si_code = 0, si_pid = 0, si_uid = 0, si_status = 0,
     si_overrun = 0, si_sys_private = 0, si_value = 0, si_utime = 0, si_stime = 0\<rparr>"

definition do_tkill :: "kenv \<Rightarrow> pidenv \<Rightarrow> int \<Rightarrow> int \<Rightarrow> int \<Rightarrow> kstate \<Rightarrow> int \<times> kstate" where
  "do_tkill E P tgid pid sig ks =
     do_send_specific E P tgid pid sig
       (Info (zero_siginfo\<lparr>si_signo := sig, si_errno := 0, si_code := SI_TKILL,
          si_pid := tgid_vnr P (cur ks), si_uid := c_uid (t_cred (tasks ks (cur ks)))\<rparr>)) ks"

definition sys_tgkill :: "kenv \<Rightarrow> pidenv \<Rightarrow> int \<Rightarrow> int \<Rightarrow> int \<Rightarrow> kstate \<Rightarrow> int \<times> kstate" where
  "sys_tgkill E P tgid pid sig ks =
     (if pid \<le> 0 \<or> tgid \<le> 0 then (- EINVAL, ks) else do_tkill E P tgid pid sig ks)"

definition sys_tkill :: "kenv \<Rightarrow> pidenv \<Rightarrow> int \<Rightarrow> int \<Rightarrow> kstate \<Rightarrow> int \<times> kstate" where
  "sys_tkill E P pid sig ks = (if pid \<le> 0 then (- EINVAL, ks) else do_tkill E P 0 pid sig ks)"

text \<open>\<open>uinfo\<close> is what \<open>copy_from_user\<close> delivers, \<open>None\<close> when it fails.\<close>

definition warn_if :: "bool \<Rightarrow> kstate \<Rightarrow> kstate" where
  "warn_if b ks = (if b then ev Ev_Warn ks else ks)"

definition sys_rt_sigqueueinfo ::
  "kenv \<Rightarrow> pidenv \<Rightarrow> int \<Rightarrow> int \<Rightarrow> siginfo option \<Rightarrow> kstate \<Rightarrow> (int \<times> kstate) option" where
  "sys_rt_sigqueueinfo E P pid sig uinfo ks =
     (case uinfo of
        None \<Rightarrow> Some (- EFAULT, ks)
      | Some i \<Rightarrow>
          if si_code i \<ge> 0 \<or> si_code i = SI_TKILL then Some (- EPERM, warn_if (si_code i < 0) ks)
          else kill_proc_info E P sig (Info (i\<lparr>si_signo := sig\<rparr>)) pid ks)"

definition do_rt_tgsigqueueinfo ::
  "kenv \<Rightarrow> pidenv \<Rightarrow> int \<Rightarrow> int \<Rightarrow> int \<Rightarrow> siginfo \<Rightarrow> kstate \<Rightarrow> int \<times> kstate" where
  "do_rt_tgsigqueueinfo E P tgid pid sig i ks =
     (if pid \<le> 0 \<or> tgid \<le> 0 then (- EINVAL, ks)
      else if si_code i \<ge> 0 \<or> si_code i = SI_TKILL then (- EPERM, warn_if (si_code i < 0) ks)
      else do_send_specific E P tgid pid sig (Info (i\<lparr>si_signo := sig\<rparr>)) ks)"

definition sys_rt_tgsigqueueinfo ::
  "kenv \<Rightarrow> pidenv \<Rightarrow> int \<Rightarrow> int \<Rightarrow> int \<Rightarrow> siginfo option \<Rightarrow> kstate \<Rightarrow> int \<times> kstate" where
  "sys_rt_tgsigqueueinfo E P tgid pid sig uinfo ks =
     (case uinfo of None \<Rightarrow> (- EFAULT, ks) | Some i \<Rightarrow> do_rt_tgsigqueueinfo E P tgid pid sig i ks)"

text \<open>The debugger's entry: \<open>prev\<close> is its static variable, \<open>lock_free\<close> whether the siglock can be taken.\<close>

definition kdb_send_sig_info ::
  "kenv \<Rightarrow> bool \<Rightarrow> nat option \<Rightarrow> nat \<Rightarrow> siginfo \<Rightarrow> kstate \<Rightarrow> nat option \<times> kstate" where
  "kdb_send_sig_info E lock_free prev t i ks =
     (if \<not> lock_free then (prev, ks)
      else if t_state (tasks ks t) \<noteq> TASK_RUNNING \<and> prev \<noteq> Some t then (Some t, ks)
      else (Some t, snd (send_sig_info E (si_signo i) (Info i) t ks)))"

end
