(* ===== verification/Sig_Notify.thy ===== *)
theory Sig_Notify
  imports Sig_Send
begin

text \<open>
  What a parent or tracer is told: the death of a child (\<open>do_notify_parent\<close>) and its stops and
  continuations (\<open>do_notify_parent_cldstop\<close>).
\<close>

abbreviation (input) "SA_NOCLDSTOP \<equiv> 1 :: u64"
abbreviation (input) "SA_NOCLDWAIT \<equiv> 2 :: u64"

text \<open>The action of the parent for SIGCHLD.\<close>

definition sigchld_action :: "kstate \<Rightarrow> nat \<Rightarrow> k_sigaction" where
  "sigchld_action ks parent = action (hand_of ks parent) ! sigidx SIGCHLD"

definition wake_up_parent :: "nat \<Rightarrow> nat \<Rightarrow> kstate \<Rightarrow> kstate" where
  "wake_up_parent t parent = ev (Ev_Wake_Parent t parent)"

text \<open>The exit code taken apart: \<open>si_code\<close> and \<open>si_status\<close> of a death.\<close>

definition exit_cause :: "int \<Rightarrow> int \<times> int" where
  "exit_cause exit_code =
     (if exit_code AND 0x80 \<noteq> 0 then (CLD_DUMPED, exit_code AND 0x7f)
      else if exit_code AND 0x7f \<noteq> 0 then (CLD_KILLED, exit_code AND 0x7f)
      else (CLD_EXITED, exit_code div 256))"

definition bug_if :: "bool \<Rightarrow> kstate \<Rightarrow> kstate" where
  "bug_if b ks = (if b then ev Ev_Bug ks else ks)"

definition do_notify_parent :: "kenv \<Rightarrow> nat \<Rightarrow> int \<Rightarrow> kstate \<Rightarrow> bool \<times> kstate" where
  "do_notify_parent E t sig ks =
     (let ks = bug_if (sig = -1) ks;
          ks = bug_if (task_is_stopped_or_traced (tasks ks t)) ks;
          ks = bug_if (t_ptrace (tasks ks t) = 0 \<and>
                       (t_group_leader (tasks ks t) \<noteq> t \<or> \<not> thread_group_empty ks t)) ks;
          tsk = tasks ks t;
          parent = t_parent tsk;
          sig = (if sig \<noteq> SIGCHLD \<and> t_parent_exec_id tsk \<noteq> t_self_exec_id (tasks ks parent) then SIGCHLD else sig);
          (code, status) = exit_cause (t_exit_code tsk);
          info = (stack_info E)\<lparr>si_signo := sig, si_errno := 0,
            si_pid := nsproxy_pid E t parent, si_uid := c_uid (t_cred tsk),
            si_utime := cputime_to_clock_t E (t_utime tsk + s_utime (sig_of ks t)),
            si_stime := cputime_to_clock_t E (t_stime tsk + s_stime (sig_of ks t)),
            si_status := status, si_code := code\<rparr>;
          ka = sigchld_action ks parent;
          autoreap = (t_ptrace tsk = 0 \<and> sig = SIGCHLD \<and>
                      (sa_handler ka = SIG_IGN \<or> sa_flags ka AND SA_NOCLDWAIT \<noteq> 0));
          sig = (if autoreap \<and> sa_handler ka = SIG_IGN then 0 else sig);
          ks = (if valid_signal sig \<and> sig \<noteq> 0 then snd (group_send_sig_info_raw E sig (Info info) parent ks) else ks)
      in (autoreap, wake_up_parent t parent ks))"

text \<open>\<open>si_status\<close> by the reason; another reason is a \<open>BUG()\<close>.\<close>

definition cld_status :: "kstate \<Rightarrow> nat \<Rightarrow> int \<Rightarrow> int option" where
  "cld_status ks t why =
     (if why = CLD_CONTINUED then Some SIGCONT
      else if why = CLD_STOPPED then Some (s_group_exit_code (sig_of ks t) AND 0x7f)
      else if why = CLD_TRAPPED then Some (t_exit_code (tasks ks t) AND 0x7f)
      else None)"

definition do_notify_parent_cldstop :: "kenv \<Rightarrow> nat \<Rightarrow> bool \<Rightarrow> int \<Rightarrow> kstate \<Rightarrow> kstate" where
  "do_notify_parent_cldstop E t for_ptracer why ks =
     (let t = (if for_ptracer then t else t_group_leader (tasks ks t));
          parent = (if for_ptracer then t_parent (tasks ks t) else t_real_parent (tasks ks t));
          tsk = tasks ks t;
          info = (stack_info E)\<lparr>si_signo := SIGCHLD, si_errno := 0,
            si_pid := nsproxy_pid E t parent, si_uid := c_uid (t_cred tsk),
            si_utime := cputime_to_clock_t E (t_utime tsk), si_stime := cputime_to_clock_t E (t_stime tsk),
            si_code := why\<rparr>
      in case cld_status ks t why of
           None \<Rightarrow> ev Ev_Bug ks
         | Some status \<Rightarrow>
             (let ka = sigchld_action ks parent;
                  ks = (if sa_handler ka \<noteq> SIG_IGN \<and> sa_flags ka AND SA_NOCLDSTOP = 0
                        then snd (group_send_sig_info_raw E SIGCHLD (Info (info\<lparr>si_status := status\<rparr>)) parent ks) else ks)
              in wake_up_parent t parent ks))"

end
