(* ===== verification/Sig_Mask.thy ===== *)
theory Sig_Mask
  imports Sig_Notify
begin

text \<open>
  The system calls on masks, pending sets, actions and the alternate stack. What user space
  hands in is an \<open>option\<close> twice over: the outer one is the pointer (NULL is \<open>None\<close>), the inner
  one the copy (\<open>None\<close> when it faults). A copy out is a flag saying whether it succeeds, and
  what would be stored is part of the result.
\<close>

section \<open>Retargeting and exit\<close>

text \<open>The walk of \<open>retarget_shared_pending\<close> over the other threads, until nothing is left.\<close>

fun retarget_walk :: "kenv \<Rightarrow> nat list \<Rightarrow> sigset \<Rightarrow> kstate \<Rightarrow> kstate" where
  "retarget_walk E [] retarget ks = ks"
| "retarget_walk E (t # ts) retarget ks =
     (if t_flags (tasks ks t) AND PF_EXITING \<noteq> 0 then retarget_walk E ts retarget ks
      else if \<not> has_pending_signals retarget (t_blocked (tasks ks t)) then retarget_walk E ts retarget ks
      else let retarget = retarget AND t_blocked (tasks ks t);
               ks = (if \<not> signal_pending (tasks ks t) then signal_wake_up E t False ks else ks)
           in if retarget = 0 then ks else retarget_walk E ts retarget ks)"

definition retarget_shared_pending :: "kenv \<Rightarrow> nat \<Rightarrow> sigset \<Rightarrow> kstate \<Rightarrow> kstate" where
  "retarget_shared_pending E t which ks =
     (let retarget = psignal (s_shared_pending (sig_of ks t)) AND which in
      if retarget = 0 then ks else retarget_walk E (tl (group_from ks t)) retarget ks)"

text \<open>\<open>exit_signals\<close>: up to the unlock, with the flag \<open>group_stop\<close>; then the parent is told.\<close>

definition exit_signals_locked :: "kenv \<Rightarrow> nat \<Rightarrow> kstate \<Rightarrow> bool \<times> kstate" where
  "exit_signals_locked E t ks =
     (let exiting = upd_task t (\<lambda>k. k\<lparr>t_flags := t_flags k OR PF_EXITING\<rparr>) in
      if thread_group_empty ks t \<or> signal_group_exit (sig_of ks t) then (False, exiting ks)
      else let ks = exiting ks in
           if \<not> signal_pending (tasks ks t) then (False, ks)
           else let ks = retarget_shared_pending E t (NOT (t_blocked (tasks ks t))) ks in
                if t_jobctl (tasks ks t) AND JOBCTL_STOP_PENDING \<noteq> 0 then task_participate_group_stop t ks
                else (False, ks))"

definition exit_signals :: "kenv \<Rightarrow> nat \<Rightarrow> kstate \<Rightarrow> kstate" where
  "exit_signals E t ks =
     (case exit_signals_locked E t ks of
        (group_stop, ks) \<Rightarrow> if group_stop then do_notify_parent_cldstop E t False CLD_STOPPED ks else ks)"

section \<open>The blocked mask\<close>

definition set_task_blocked_raw :: "kenv \<Rightarrow> nat \<Rightarrow> sigset \<Rightarrow> kstate \<Rightarrow> kstate" where
  "set_task_blocked_raw E t newset ks =
     (let ks = (if signal_pending (tasks ks t) \<and> \<not> thread_group_empty ks t
                then retarget_shared_pending E t (newset AND NOT (t_blocked (tasks ks (cur ks)))) ks
                else ks)
      in recalc_sigpending E (upd_task t (\<lambda>k. k\<lparr>t_blocked := newset\<rparr>) ks))"

definition set_current_blocked :: "kenv \<Rightarrow> sigset \<Rightarrow> kstate \<Rightarrow> kstate" where
  "set_current_blocked E newset ks = set_task_blocked_raw E (cur ks) newset ks"

abbreviation (input) "SIG_BLOCK \<equiv> 0 :: int"
abbreviation (input) "SIG_UNBLOCK \<equiv> 1 :: int"
abbreviation (input) "SIG_SETMASK \<equiv> 2 :: int"

text \<open>The mask a request asks for; \<open>None\<close> for an unknown \<open>how\<close>.\<close>

definition new_mask :: "int \<Rightarrow> sigset \<Rightarrow> sigset \<Rightarrow> sigset option" where
  "new_mask how old sset =
     (if how = SIG_BLOCK then Some (old OR sset)
      else if how = SIG_UNBLOCK then Some (old AND NOT sset)
      else if how = SIG_SETMASK then Some sset
      else None)"

definition sigprocmask :: "kenv \<Rightarrow> int \<Rightarrow> sigset \<Rightarrow> kstate \<Rightarrow> int \<times> sigset \<times> kstate" where
  "sigprocmask E how sset ks =
     (let old = t_blocked (tasks ks (cur ks)) in
      case new_mask how old sset of
        None \<Rightarrow> (- EINVAL, old, ks)
      | Some m \<Rightarrow> (0, old, set_current_blocked E m ks))"

text \<open>Result: the return value, and what was stored through \<open>oset\<close>.\<close>

definition sys_rt_sigprocmask ::
  "kenv \<Rightarrow> int \<Rightarrow> sigset option option \<Rightarrow> bool option \<Rightarrow> int \<Rightarrow> kstate \<Rightarrow> int \<times> sigset option \<times> kstate" where
  "sys_rt_sigprocmask E how nset oset_copy sigsetsize ks =
     (if sigsetsize \<noteq> 8 then (- EINVAL, None, ks)
      else
        let old_set = t_blocked (tasks ks (cur ks));
            (error, ks) =
              (case nset of
                 None \<Rightarrow> (0, ks)
               | Some None \<Rightarrow> (- EFAULT, ks)
               | Some (Some new_set) \<Rightarrow>
                   (case sigprocmask E how (new_set AND NOT (sigmask SIGKILL OR sigmask SIGSTOP)) ks of
                      (e, _, ks) \<Rightarrow> (e, ks)))
        in if error \<noteq> 0 then (error, None, ks)
           else case oset_copy of
                  None \<Rightarrow> (0, None, ks)
                | Some ok \<Rightarrow> if ok then (0, Some old_set, ks) else (- EFAULT, None, ks))"

text \<open>The old call on one word; its \<open>sigmask\<close> argument is checked before the state changes.\<close>

definition sys_sigprocmask ::
  "kenv \<Rightarrow> int \<Rightarrow> sigset option option \<Rightarrow> bool option \<Rightarrow> kstate \<Rightarrow> int \<times> sigset option \<times> kstate" where
  "sys_sigprocmask E how nset oset_copy ks =
     (let old_set = t_blocked (tasks ks (cur ks));
          (error, ks) =
            (case nset of
               None \<Rightarrow> (0, ks)
             | Some None \<Rightarrow> (- EFAULT, ks)
             | Some (Some new_set) \<Rightarrow>
                 (case new_mask how old_set (new_set AND NOT (sigmask SIGKILL OR sigmask SIGSTOP)) of
                    None \<Rightarrow> (- EINVAL, ks)
                  | Some m \<Rightarrow> (0, set_current_blocked E m ks)))
      in if error \<noteq> 0 then (error, None, ks)
         else case oset_copy of
                None \<Rightarrow> (0, None, ks)
              | Some ok \<Rightarrow> if ok then (0, Some old_set, ks) else (- EFAULT, None, ks))"

definition do_sigpending :: "int \<Rightarrow> bool \<Rightarrow> kstate \<Rightarrow> int \<times> sigset option" where
  "do_sigpending sigsetsize copy_ok ks =
     (if sigsetsize > 8 then (- EINVAL, None)
      else let t = tasks ks (cur ks);
               pending = psignal (t_pending t) OR psignal (s_shared_pending (sig_of ks (cur ks)));
               pending = t_blocked t AND pending
           in if copy_ok then (0, Some pending) else (- EFAULT, None))"

definition sys_rt_sigpending :: "int \<Rightarrow> bool \<Rightarrow> kstate \<Rightarrow> int \<times> sigset option" where
  "sys_rt_sigpending sigsetsize copy_ok ks = do_sigpending sigsetsize copy_ok ks"

definition sys_sigpending :: "bool \<Rightarrow> kstate \<Rightarrow> int \<times> sigset option" where
  "sys_sigpending copy_ok ks = do_sigpending 8 copy_ok ks"

definition sys_sgetmask :: "kstate \<Rightarrow> sigset" where
  "sys_sgetmask ks = t_blocked (tasks ks (cur ks))"

text \<open>\<open>newmask\<close> is an \<open>int\<close>: it is sign-extended to the word of the set, and the result cut to \<open>int\<close>.\<close>

definition sys_ssetmask :: "kenv \<Rightarrow> u32 \<Rightarrow> kstate \<Rightarrow> u32 \<times> kstate" where
  "sys_ssetmask E newmask ks =
     (ucast (t_blocked (tasks ks (cur ks))),
      set_current_blocked E (scast newmask AND NOT (sigmask SIGKILL OR sigmask SIGSTOP)) ks)"

section \<open>Waiting\<close>

abbreviation (input) "MAX_SCHEDULE_TIMEOUT \<equiv> 2 ^ 63 - 1 :: int"

text \<open>The timeout in jiffies of a \<open>timespec\<close>, one tick more unless it is zero; \<open>None\<close> when it is invalid.\<close>

definition wait_timeout :: "kenv \<Rightarrow> (int \<times> int) option \<Rightarrow> int option" where
  "wait_timeout E ts =
     (case ts of
        None \<Rightarrow> Some MAX_SCHEDULE_TIMEOUT
      | Some t \<Rightarrow>
          if \<not> timespec_valid E t then None
          else Some (if fst t \<noteq> 0 \<or> snd t \<noteq> 0 then timespec_to_jiffies E t + 1 else timespec_to_jiffies E t))"

text \<open>
  The rest of \<open>do_sigtimedwait\<close>. \<open>asleep\<close> is what \<open>schedule_timeout_interruptible\<close> and the rest
  of the system do while the caller sleeps; it also yields the timeout that is left.
\<close>

definition timed_wait ::
  "kenv \<Rightarrow> (int \<Rightarrow> kstate \<Rightarrow> int \<times> kstate) \<Rightarrow> sigset \<Rightarrow> siginfo \<Rightarrow> int \<Rightarrow> kstate \<Rightarrow> int \<times> siginfo \<times> kstate" where
  "timed_wait E asleep which info timeout ks =
     (let t = cur ks;
          msk = NOT (which AND NOT (sigmask SIGKILL OR sigmask SIGSTOP));
          (sig, i, ks) = dequeue_signal E t msk info ks;
          (sig, i, timeout, ks) =
            (if sig = 0 \<and> timeout \<noteq> 0 then
               (let ks = recalc_sigpending E
                           (upd_task t (\<lambda>k. k\<lparr>t_real_blocked := t_blocked k, t_blocked := t_blocked k AND msk\<rparr>) ks);
                    (timeout, ks) = asleep timeout ks;
                    ks = set_task_blocked_raw E t (t_real_blocked (tasks ks t)) ks;
                    ks = upd_task t (\<lambda>k. k\<lparr>t_real_blocked := 0\<rparr>) ks;
                    (sig, i, ks) = dequeue_signal E t msk i ks
                in (sig, i, timeout, ks))
             else (sig, i, timeout, ks))
      in (if sig \<noteq> 0 then sig else if timeout \<noteq> 0 then - EINTR else - EAGAIN, i, ks))"

definition do_sigtimedwait ::
  "kenv \<Rightarrow> (int \<Rightarrow> kstate \<Rightarrow> int \<times> kstate) \<Rightarrow> sigset \<Rightarrow> siginfo \<Rightarrow> (int \<times> int) option \<Rightarrow> kstate \<Rightarrow> int \<times> siginfo \<times> kstate" where
  "do_sigtimedwait E asleep which info ts ks =
     (case wait_timeout E ts of
        None \<Rightarrow> (- EINVAL, info, ks)
      | Some timeout \<Rightarrow> timed_wait E asleep which info timeout ks)"

text \<open>\<open>uts\<close>: the pointer and the copied value; \<open>uinfo_copy\<close>: whether the result can be stored, if it is asked for.\<close>

definition sys_rt_sigtimedwait ::
  "kenv \<Rightarrow> (int \<Rightarrow> kstate \<Rightarrow> int \<times> kstate) \<Rightarrow> sigset option \<Rightarrow> bool option \<Rightarrow> (int \<times> int) option option \<Rightarrow> int
     \<Rightarrow> kstate \<Rightarrow> int \<times> siginfo option \<times> kstate" where
  "sys_rt_sigtimedwait E asleep uthese uinfo_copy uts sigsetsize ks =
     (if sigsetsize \<noteq> 8 then (- EINVAL, None, ks)
      else case uthese of
        None \<Rightarrow> (- EFAULT, None, ks)
      | Some these \<Rightarrow>
          if uts = Some None then (- EFAULT, None, ks)
          else (case do_sigtimedwait E asleep these (stack_info E) (case uts of Some (Some ts) \<Rightarrow> Some ts | _ \<Rightarrow> None) ks of
                  (ret, info, ks) \<Rightarrow>
                    if ret > 0 \<and> uinfo_copy \<noteq> None
                    then (if uinfo_copy = Some False then (- EFAULT, None, ks) else (ret, Some info, ks))
                    else (ret, None, ks)))"

definition do_no_restart_syscall :: int where
  "do_no_restart_syscall = - EINTR"

section \<open>Actions\<close>

definition next_group_threads :: "kstate \<Rightarrow> nat list" where
  "next_group_threads ks = group_from ks (cur ks)"

definition discard_ignored :: "int \<Rightarrow> kstate \<Rightarrow> kstate" where
  "discard_ignored sig ks =
     (let msk = sigaddset sig 0 in
      fold (\<lambda>t k. snd (rm_from_queue_full msk (Private t) k)) (next_group_threads ks)
        (snd (rm_from_queue_full msk (Shared (t_signal (tasks ks (cur ks)))) ks)))"

definition do_sigaction ::
  "int \<Rightarrow> k_sigaction option \<Rightarrow> bool \<Rightarrow> kstate \<Rightarrow> int \<times> k_sigaction option \<times> kstate" where
  "do_sigaction sig act oact ks =
     (if \<not> valid_signal sig \<or> sig < 1 \<or> act \<noteq> None \<and> sig_kernel_only sig then (- EINVAL, None, ks)
      else let t = cur ks;
               old = (if oact then Some (action (hand_of ks t) ! sigidx sig) else None)
           in case act of
                None \<Rightarrow> (0, old, ks)
              | Some a \<Rightarrow>
                  let a = a\<lparr>sa_mask := sa_mask a AND NOT (sigmask SIGKILL OR sigmask SIGSTOP)\<rparr>;
                      ks = upd_hand t (\<lambda>h. h\<lparr>action := (action h)[sigidx sig := a]\<rparr>) ks
                  in (0, old, if sig_handler_ignored (sig_handler ks t sig) sig then discard_ignored sig ks else ks))"

definition sys_rt_sigaction ::
  "int \<Rightarrow> k_sigaction option option \<Rightarrow> bool option \<Rightarrow> int \<Rightarrow> kstate \<Rightarrow> int \<times> k_sigaction option \<times> kstate" where
  "sys_rt_sigaction sig act oact_copy sigsetsize ks =
     (if sigsetsize \<noteq> 8 then (- EINVAL, None, ks)
      else if act = Some None then (- EFAULT, None, ks)
      else case do_sigaction sig (case act of Some (Some a) \<Rightarrow> Some a | _ \<Rightarrow> None) (oact_copy \<noteq> None) ks of
             (ret, old, ks) \<Rightarrow>
               if ret = 0 \<and> oact_copy = Some False then (- EFAULT, None, ks) else (ret, old, ks))"

abbreviation (input) "SA_ONESHOT \<equiv> 0x80000000 :: u64"
abbreviation (input) "SA_NOMASK \<equiv> 0x40000000 :: u64"

text \<open>The old \<open>signal\<close> call: the error, or the old handler.\<close>

definition sys_signal :: "siginfo \<Rightarrow> int \<Rightarrow> handler \<Rightarrow> u64 \<Rightarrow> kstate \<Rightarrow> (int + handler) \<times> kstate" where
  "sys_signal stack sig h restorer ks =
     (case do_sigaction sig (Some \<lparr>sa_handler = h, sa_flags = SA_ONESHOT OR SA_NOMASK, sa_restorer = restorer, sa_mask = 0\<rparr>) True ks of
        (ret, old, ks) \<Rightarrow> (if ret \<noteq> 0 then Inl ret else Inr (case old of Some a \<Rightarrow> sa_handler a | None \<Rightarrow> SIG_DFL), ks))"

section \<open>The alternate stack\<close>

abbreviation (input) "MINSIGSTKSZ \<equiv> 2048 :: u64"

record stack_t =
  ss_sp :: u64
  ss_size :: u64
  ss_flags :: int

text \<open>\<open>uss\<close>: the new stack; \<open>uoss\<close>: whether the old one can be stored, if it is asked for.\<close>

definition do_sigaltstack ::
  "stack_t option option \<Rightarrow> bool option \<Rightarrow> u64 \<Rightarrow> kstate \<Rightarrow> int \<times> stack_t option \<times> kstate" where
  "do_sigaltstack uss uoss sp ks =
     (let t = tasks ks (cur ks);
          oss = \<lparr>ss_sp = t_sas_ss_sp t, ss_size = t_sas_ss_size t, ss_flags = sas_ss_flags t sp\<rparr>;
          set_old = (\<lambda>ks. case uoss of None \<Rightarrow> (0, None, ks)
                          | Some ok \<Rightarrow> if ok then (0, Some oss, ks) else (- EFAULT, None, ks))
      in case uss of
           None \<Rightarrow> set_old ks
         | Some None \<Rightarrow> (- EFAULT, None, ks)
         | Some (Some n) \<Rightarrow>
             if on_sig_stack t sp then (- EPERM, None, ks)
             else if ss_flags n \<noteq> SS_DISABLE \<and> ss_flags n \<noteq> SS_ONSTACK \<and> ss_flags n \<noteq> 0 then (- EINVAL, None, ks)
             else if ss_flags n \<noteq> SS_DISABLE \<and> ss_size n < MINSIGSTKSZ then (- ENOMEM, None, ks)
             else let (nsp, nsize) = (if ss_flags n = SS_DISABLE then (0, 0) else (ss_sp n, ss_size n))
                  in set_old (upd_task (cur ks) (\<lambda>k. k\<lparr>t_sas_ss_sp := nsp, t_sas_ss_size := nsize\<rparr>) ks))"

section \<open>Pausing\<close>

abbreviation (input) "ERESTARTNOHAND \<equiv> 514 :: int"

text \<open>\<open>rt_sigsuspend\<close>: what others do while the caller sleeps is the parameter \<open>asleep\<close>.\<close>

definition sys_rt_sigsuspend ::
  "kenv \<Rightarrow> (kstate \<Rightarrow> kstate) \<Rightarrow> sigset option \<Rightarrow> int \<Rightarrow> kstate \<Rightarrow> int \<times> kstate" where
  "sys_rt_sigsuspend E asleep unewset sigsetsize ks =
     (if sigsetsize \<noteq> 8 then (- EINVAL, ks)
      else case unewset of
        None \<Rightarrow> (- EFAULT, ks)
      | Some newset \<Rightarrow>
          let t = cur ks;
              ks = upd_task t (\<lambda>k. k\<lparr>t_saved_sigmask := t_blocked k\<rparr>) ks;
              ks = set_current_blocked E (newset AND NOT (sigmask SIGKILL OR sigmask SIGSTOP)) ks;
              ks = asleep (upd_task t (\<lambda>k. k\<lparr>t_state := TASK_INTERRUPTIBLE\<rparr>) ks)
          in (- ERESTARTNOHAND, upd_task t (\<lambda>k. k\<lparr>t_restore_sigmask := True\<rparr>) ks))"

text \<open>\<open>pause\<close>: the wake-ups that end each sleep are given as a list; \<open>None\<close> when it still sleeps.\<close>

fun sys_pause :: "(kstate \<Rightarrow> kstate) list \<Rightarrow> kstate \<Rightarrow> (int \<times> kstate) option" where
  "sys_pause asleep ks =
     (if signal_pending (tasks ks (cur ks)) then Some (- ERESTARTNOHAND, ks)
      else case asleep of
             [] \<Rightarrow> None
           | f # fs \<Rightarrow> sys_pause fs (f (upd_task (cur ks) (\<lambda>k. k\<lparr>t_state := TASK_INTERRUPTIBLE\<rparr>) ks)))"

end
