(* ===== verification/Sig_Counter.thy ===== *)
theory Sig_Counter
  imports Sig_Send_Facts Sig_Kill Sig_Mask
begin

text \<open>
  The system calls added to the kernel (312 to 316): \<open>goober\<close>, \<open>init_sigcounter\<close>,
  \<open>get_sigcounter\<close>, \<open>deepsleep\<close> and \<open>smunch\<close> in its two versions, with what the test programs
  do with them.
\<close>

text \<open>A NULL pointer the code follows.\<close>

datatype kfault = Null_Task | Null_Sighand

section \<open>Counters\<close>

text \<open>\<open>counters[i] = v\<close> on the array of \<open>_NSIG\<close> elements at the end of \<open>sighand_struct\<close>.\<close>

definition store_counter :: "nat \<Rightarrow> u32 \<Rightarrow> nat \<Rightarrow> kstate \<Rightarrow> kstate" where
  "store_counter h v i ks =
     (if i < length (counters (sighands ks h))
      then upd_sighand h (\<lambda>s. s\<lparr>counters := (counters s)[i := v]\<rparr>) ks
      else ev (Ev_Overrun h (int i)) ks)"

text \<open>Neither the task nor the lock result is checked.\<close>

definition init_sigcounter :: "pidenv \<Rightarrow> int \<Rightarrow> kstate \<Rightarrow> kfault + int \<times> kstate" where
  "init_sigcounter P pid ks =
     (case find_task P pid of
        None \<Rightarrow> Inl Null_Task
      | Some p \<Rightarrow>
          (case t_sighand (tasks ks p) of
             None \<Rightarrow> Inl Null_Sighand
           | Some h \<Rightarrow> Inr (0, fold (store_counter h 0) [0..<66] ks)))"

text \<open>A read past the array returns what lies behind it, \<open>stray\<close>. The counter is returned as an \<open>int\<close>.\<close>

definition get_sigcounter :: "(int \<Rightarrow> u32) \<Rightarrow> int \<Rightarrow> kstate \<Rightarrow> kfault + int" where
  "get_sigcounter stray signumber ks =
     (case t_sighand (tasks ks (cur ks)) of
        None \<Rightarrow> Inl Null_Sighand
      | Some h \<Rightarrow>
          let c = counters (sighands ks h) in
          Inr (sint (if 0 \<le> signumber \<and> nat signumber < length c then c ! nat signumber else stray signumber)))"

section \<open>smunch\<close>

definition zombie_or_dead :: "task_struct \<Rightarrow> bool" where
  "zombie_or_dead t \<longleftrightarrow> t_exit_state t AND (EXIT_ZOMBIE OR EXIT_DEAD) \<noteq> 0"

definition has_sigkill :: "u64 \<Rightarrow> bool" where
  "has_sigkill bit_pattern \<longleftrightarrow> bit_pattern AND push_bit 8 1 \<noteq> 0"

definition wake_up_process :: "kenv \<Rightarrow> nat \<Rightarrow> kstate \<Rightarrow> kstate" where
  "wake_up_process E t ks = snd (wake_up_state E t TASK_ALL ks)"

text \<open>\<open>RW/smunch.c\<close>, the version built into the kernel: the second branch repeats the condition of the first.\<close>

definition smunch :: "kenv \<Rightarrow> pidenv \<Rightarrow> int \<Rightarrow> u64 \<Rightarrow> kstate \<Rightarrow> int \<times> kstate" where
  "smunch E P pid bit_pattern ks =
     (case find_task P pid of
        None \<Rightarrow> (-1, ks)
      | Some t \<Rightarrow>
          (case lock_task_sighand t ks of
             None \<Rightarrow> (-1, ks)
           | Some h \<Rightarrow>
               if \<not> thread_group_empty ks t then (-1, ks)
               else if zombie_or_dead (tasks ks t) \<and> has_sigkill bit_pattern then (0, ev (Ev_Release t) ks)
               else if zombie_or_dead (tasks ks t) \<and> has_sigkill bit_pattern then (0, ks)
               else if \<not> zombie_or_dead (tasks ks t) \<and> has_sigkill bit_pattern
               then (0, wake_up_process E t (set_psignal (sigaddset SIGKILL) (Private t) ks))
               else (0, signal_wake_up E t False (set_psignal (\<lambda>s. s OR bit_pattern) (Private t) ks))))"

text \<open>\<open>systemCall/deepSmunch/driverCode/smunch.c\<close>: the second branch tests for no SIGKILL.\<close>

definition smunch_driver :: "kenv \<Rightarrow> pidenv \<Rightarrow> int \<Rightarrow> u64 \<Rightarrow> kstate \<Rightarrow> int \<times> kstate" where
  "smunch_driver E P pid bit_pattern ks =
     (case find_task P pid of
        None \<Rightarrow> (-1, ks)
      | Some t \<Rightarrow>
          (case lock_task_sighand t ks of
             None \<Rightarrow> (-1, ks)
           | Some h \<Rightarrow>
               if \<not> thread_group_empty ks t then (-1, ks)
               else if zombie_or_dead (tasks ks t) \<and> has_sigkill bit_pattern then (0, ev (Ev_Release t) ks)
               else if zombie_or_dead (tasks ks t) \<and> \<not> has_sigkill bit_pattern then (0, ks)
               else if \<not> zombie_or_dead (tasks ks t) \<and> has_sigkill bit_pattern
               then (0, wake_up_process E t (set_psignal (sigaddset SIGKILL) (Private t) ks))
               else (0, signal_wake_up E t False (set_psignal (\<lambda>s. s OR bit_pattern) (Private t) ks))))"

text \<open>\<open>testkill.c\<close>: the pattern it sends, SIGKILL and SIGQUIT.\<close>

definition testkill_pattern :: u64 where
  "testkill_pattern = push_bit 8 1 OR push_bit 2 1"

section \<open>deepsleep and goober\<close>

text \<open>\<open>sleep_on(&gone)\<close>: an uninterruptible sleep on a queue nobody ever wakes.\<close>

definition deepsleep :: "kstate \<Rightarrow> kstate" where
  "deepsleep ks = upd_task (cur ks) (\<lambda>t. t\<lparr>t_state := TASK_UNINTERRUPTIBLE\<rparr>) ks"

text \<open>The nanoseconds of \<open>current_kernel_time\<close>, stored at the user's pointer when the copy succeeds.\<close>

definition goober :: "int \<Rightarrow> bool \<Rightarrow> int \<times> int option" where
  "goober now_nsec copy_ok = (0, if copy_ok then Some now_nsec else None)"

section \<open>The counter test program\<close>

text \<open>One round of the parent in \<open>testsignal.c\<close>: SIGUSR1, SIGSTOP, SIGCONT, SIGWINCH to the child.\<close>

definition test_round :: "int list" where
  "test_round = [SIGUSR1, SIGSTOP, SIGCONT, SIGWINCH]"

fun send_all :: "kenv \<Rightarrow> sig_arg \<Rightarrow> nat \<Rightarrow> int list \<Rightarrow> kstate \<Rightarrow> int list \<times> kstate" where
  "send_all E a p [] ks = ([], ks)"
| "send_all E a p (sig # sigs) ks =
     (case do_send_sig_info E sig a p True ks of
        (r, ks) \<Rightarrow> (case send_all E a p sigs ks of (rs, ks) \<Rightarrow> (r # rs, ks)))"

section \<open>Lemmas\<close>

lemma do_send_counts:
  assumes h: "t_sighand (tasks ks p) = Some h" and i: "0 \<le> sig" "nat sig < length (counters (sighands ks h))"
    and r: "do_send_sig_info E sig a p grp ks = (ret, ks')"
  shows "sighands ks' = (sighands ks)(h := (sighands ks h)\<lparr>counters := (counters (sighands ks h))
       [nat sig := counters (sighands ks h) ! nat sig + 1]\<rparr>)"
    and "t_sighand (tasks ks' t) = t_sighand (tasks ks t)" and "cur ks' = cur ks"
    and "ret = fst (send_signal E sig a p grp ks)"
proof -
  obtain q k1 where s: "send_signal E sig a p grp ks = (q, k1)" by fastforce
  have sk: "skel k1 = skel ks" using skel_send_signal [of E sig a p grp ks] s by simp
  have ks': "ks' = bump_counter h sig k1" "ret = q"
    using r h s by (simp_all add: do_send_sig_info_def lock_task_sighand_def)
  show "sighands ks' = (sighands ks)(h := (sighands ks h)\<lparr>counters := (counters (sighands ks h))
       [nat sig := counters (sighands ks h) ! nat sig + 1]\<rparr>)"
    "t_sighand (tasks ks' t) = t_sighand (tasks ks t)" "cur ks' = cur ks"
    "ret = fst (send_signal E sig a p grp ks)"
    using skel_sel [OF sk] i s ks' by (auto simp: bump_counter_def fun_eq_iff)
qed

lemma do_send_overruns:
  assumes h: "t_sighand (tasks ks p) = Some h" and i: "\<not> (0 \<le> sig \<and> nat sig < length (counters (sighands ks h)))"
    and r: "do_send_sig_info E sig a p grp ks = (ret, ks')"
  shows "sighands ks' = sighands ks" and "Ev_Overrun h sig \<in> set (klog ks')"
proof -
  obtain q k1 where s: "send_signal E sig a p grp ks = (q, k1)" by fastforce
  have sk: "skel k1 = skel ks" using skel_send_signal [of E sig a p grp ks] s by simp
  have "ks' = bump_counter h sig k1"
    using r h s by (simp add: do_send_sig_info_def lock_task_sighand_def)
  with i skel_sel(1) [OF sk] show "sighands ks' = sighands ks" "Ev_Overrun h sig \<in> set (klog ks')"
    by (auto simp: bump_counter_def)
qed

lemma count_list_le: "count_list xs x \<le> length xs"
  by (induction xs) auto

text \<open>After any sequence of sends each counter has grown by the number of its signals.\<close>

lemma send_all_counts:
  assumes h: "t_sighand (tasks ks p) = Some h" and len: "length (counters (sighands ks h)) = 64"
    and sigs: "\<forall>sig \<in> set sigs. 0 \<le> sig \<and> sig < 64" and r: "send_all E a p sigs ks = (rs, ks')"
    and i: "0 \<le> i" "i < 64"
  shows "counters (sighands ks' h) ! nat i = counters (sighands ks h) ! nat i + of_nat (count_list sigs i)"
  using h len sigs r
proof (induction sigs arbitrary: ks rs)
  case Nil
  then show ?case by simp
next
  case (Cons sig sigs)
  obtain r1 k1 where s: "do_send_sig_info E sig a p True ks = (r1, k1)" by fastforce
  obtain rs1 k2 where t: "send_all E a p sigs k1 = (rs1, k2)" by fastforce
  have t': "send_all E a p sigs k1 = (rs1, ks')" using Cons.prems(4) s t by simp
  have sig: "0 \<le> sig" "nat sig < length (counters (sighands ks h))" using Cons.prems(2,3) by auto
  note d = do_send_counts [OF Cons.prems(1) sig s]
  have h1: "t_sighand (tasks k1 p) = Some h" and len1: "length (counters (sighands k1 h)) = 64"
    using d Cons.prems(1,2) by auto
  have sg: "\<forall>sig \<in> set sigs. 0 \<le> sig \<and> sig < 64" using Cons.prems(3) by simp
  have eq: "nat sig = nat i \<longleftrightarrow> sig = i" using sig(1) i by auto
  from Cons.IH [OF h1 len1 sg t'] d(1) Cons.prems(2) sig i eq show ?case
    by (auto simp: nth_list_update)
qed

lemma fold_store_overrun:
  "length (counters (sighands ks h)) \<le> i \<Longrightarrow> store_counter h v i ks = ev (Ev_Overrun h (int i)) ks"
  by (simp add: store_counter_def)

lemma init_stores:
  assumes "length (counters (sighands ks h)) = 64" and "n \<le> 64"
  shows "fold (store_counter h 0) [0..<n] ks =
    upd_sighand h (\<lambda>s. s\<lparr>counters := replicate n 0 @ drop n (counters s)\<rparr>) ks"
  using assms(2)
proof (induction n)
  case 0
  then show ?case by (simp add: upd_sighand_def)
next
  case (Suc n)
  let ?k = "upd_sighand h (\<lambda>s. s\<lparr>counters := replicate n 0 @ drop n (counters s)\<rparr>) ks"
  have "drop n (counters (sighands ks h)) = counters (sighands ks h) ! n # drop (Suc n) (counters (sighands ks h))"
    using Suc.prems assms(1) by (simp add: Cons_nth_drop_Suc)
  then have "(replicate n (0 :: u32) @ drop n (counters (sighands ks h)))[n := 0]
      = replicate (Suc n) 0 @ drop (Suc n) (counters (sighands ks h))"
    by (simp add: list_update_append replicate_append_same [symmetric])
  with Suc assms(1) show ?case
    by (simp add: store_counter_def upd_sighand_def fun_eq_iff)
qed

lemma init_effect:
  assumes p: "find_task P pid = Some p" and h: "t_sighand (tasks ks p) = Some h"
    and len: "length (counters (sighands ks h)) = 64"
  shows "init_sigcounter P pid ks = Inr (0, ev (Ev_Overrun h 65) (ev (Ev_Overrun h 64)
     (upd_sighand h (\<lambda>s. s\<lparr>counters := replicate 64 0\<rparr>) ks)))"
proof -
  have "[0..<66] = [0..<64] @ [64, 65]" by (simp add: upt_rec)
  then have "fold (store_counter h 0) [0..<66] ks =
      store_counter h 0 65 (store_counter h 0 64 (fold (store_counter h 0) [0..<64] ks))" by simp
  also have "fold (store_counter h 0) [0..<64] ks = upd_sighand h (\<lambda>s. s\<lparr>counters := replicate 64 0 @ drop 64 (counters s)\<rparr>) ks"
    by (rule init_stores [OF len]) simp
  also have "\<dots> = upd_sighand h (\<lambda>s. s\<lparr>counters := replicate 64 0\<rparr>) ks"
    using len by (simp add: upd_sighand_def)
  finally show ?thesis using p h len by (simp add: init_sigcounter_def fold_store_overrun)
qed

end
