(* ===== verification/Sig_Counter_Facts.thy ===== *)
theory Sig_Counter_Facts
  imports Sig_Counter
begin

text \<open>
  The counters over sequences of sends, sleepers no signal can wake, and the effect of \<open>smunch\<close>.
\<close>

lemma bump_counter_tasks [simp]:
  "tasks (bump_counter h sig k) = tasks k" "signals (bump_counter h sig k) = signals k"
  "sqs (bump_counter h sig k) = sqs k" "next_sq (bump_counter h sig k) = next_sq k" "cur (bump_counter h sig k) = cur k"
  by (auto simp: bump_counter_def)

lemma do_send_frame:
  assumes "do_send_sig_info E sig a p grp k = (r, k')"
  shows "t_sighand (tasks k' t) = t_sighand (tasks k t)" and "cur k' = cur k"
    and "length (counters (sighands k' g)) = length (counters (sighands k g))"
    and "action (sighands k' g) = action (sighands k g)"
proof -
  obtain q k1 where s: "send_signal E sig a p grp k = (q, k1)" by fastforce
  have "skel k1 = skel k" using skel_send_signal [of E sig a p grp k] s by simp
  note sel = skel_sel [OF this]
  show "t_sighand (tasks k' t) = t_sighand (tasks k t)" "cur k' = cur k"
    "length (counters (sighands k' g)) = length (counters (sighands k g))"
    "action (sighands k' g) = action (sighands k g)"
    using assms s sel by (auto simp: do_send_sig_info_def bump_counter_def split: option.splits if_splits)
qed

lemma send_all_frame:
  assumes "send_all E a p sigs k = (rs, k')"
  shows "t_sighand (tasks k' t) = t_sighand (tasks k t)" and "cur k' = cur k"
    and "length (counters (sighands k' g)) = length (counters (sighands k g))"
proof -
  have "t_sighand (tasks k' t) = t_sighand (tasks k t) \<and> cur k' = cur k \<and>
      length (counters (sighands k' g)) = length (counters (sighands k g))"
    using assms
  proof (induction sigs arbitrary: k rs)
    case (Cons sig sigs)
    obtain r1 k1 where 1: "do_send_sig_info E sig a p True k = (r1, k1)" by fastforce
    obtain rs1 where 2: "send_all E a p sigs k1 = (rs1, k')" using Cons.prems 1 by (auto split: prod.splits)
    from Cons.IH [OF 2] do_send_frame(1,2,3) [OF 1] show ?case by simp
  qed simp
  then show "t_sighand (tasks k' t) = t_sighand (tasks k t)" "cur k' = cur k"
    "length (counters (sighands k' g)) = length (counters (sighands k g))" by auto
qed

section \<open>Uninterruptible sleep\<close>

text \<open>\<open>wake_up_state\<close> as documented: a task is woken when its state is in the mask, and is then runnable.\<close>

definition wakes_by_mask :: "kenv \<Rightarrow> bool" where
  "wakes_by_mask E \<longleftrightarrow> (\<forall>st m. wake_up E st m = (if st AND m \<noteq> 0 then (True, TASK_RUNNING) else (False, st)))"

definition in_deep_sleep :: "nat \<Rightarrow> kstate \<Rightarrow> bool" where
  "in_deep_sleep t k \<longleftrightarrow> t_state (tasks k t) = TASK_UNINTERRUPTIBLE"

lemma deep_upd [simp]:
  "(\<And>x. t_state (f x) = t_state x) \<Longrightarrow> in_deep_sleep t (upd_task u f k) = in_deep_sleep t k"
  "in_deep_sleep t (upd_signal g h k) = in_deep_sleep t k"
  "in_deep_sleep t (ev e k) = in_deep_sleep t k"
  "in_deep_sleep t (set_tif_sigpending b u k) = in_deep_sleep t k"
  by (simp_all add: in_deep_sleep_def set_tif_sigpending_def)

lemma deep_frame: "pend_frame k k' \<Longrightarrow> in_deep_sleep t k' = in_deep_sleep t k"
  by (simp add: in_deep_sleep_def pend_frame_task)

lemma deep_wake:
  assumes "wakes_by_mask E" and "m AND TASK_UNINTERRUPTIBLE = 0" and "in_deep_sleep t k"
  shows "in_deep_sleep t (snd (wake_up_state E u m k))"
  using assms by (auto simp: wake_up_state_def Let_def wakes_by_mask_def in_deep_sleep_def and.commute split: prod.splits)

lemma deep_signal_wake:
  assumes "wakes_by_mask E" and "st AND TASK_UNINTERRUPTIBLE = 0" and "in_deep_sleep t k"
  shows "in_deep_sleep t (signal_wake_up_state E u st k)"
proof -
  have "(st OR TASK_INTERRUPTIBLE) AND TASK_UNINTERRUPTIBLE = 0"
    using assms(2) by (simp add: task_state_defs word_bw_comms bit.conj_disj_distrib2)
  from deep_wake [OF assms(1) this, of t "set_tif_sigpending True u k" u] assms(3)
  show ?thesis by (auto simp: signal_wake_up_state_def Let_def split: prod.splits)
qed

lemma deep_wakes:
  assumes "wakes_by_mask E" and "in_deep_sleep t k"
  shows "in_deep_sleep t (signal_wake_up E u r k)" "in_deep_sleep t (ptrace_signal_wake_up E u r k)"
  using assms deep_signal_wake [OF assms(1) _ assms(2)]
  by (simp_all add: signal_wake_up_def ptrace_signal_wake_up_def task_state_defs)

lemma deep_jobctl [simp]:
  "in_deep_sleep t (snd (task_set_jobctl_pending u m k)) = in_deep_sleep t k"
  "in_deep_sleep t (task_clear_jobctl_trapping u k) = in_deep_sleep t k"
  "in_deep_sleep t (task_clear_jobctl_pending u m k) = in_deep_sleep t k"
  by (simp_all add: task_set_jobctl_pending_def task_clear_jobctl_trapping_def task_clear_jobctl_pending_def Let_def)

lemma deep_rm [simp]: "in_deep_sleep t (snd (rm_from_queue m l k)) = in_deep_sleep t k"
  by (rule deep_frame) (auto simp: rm_from_queue_def Let_def intro: pend_frame_trans [OF pend_frame_set pend_frame_fold_drop])

lemma deep_set [simp]: "in_deep_sleep t (set_psignal f l k) = in_deep_sleep t k"
  by (rule deep_frame) blast

lemma fold_keeps: "(\<And>x k. P k \<Longrightarrow> P (f x k)) \<Longrightarrow> P k \<Longrightarrow> P (fold f xs k)"
  by (induction xs arbitrary: k) auto

lemma deep_cont:
  assumes w: "wakes_by_mask E" and d: "in_deep_sleep t k"
  shows "in_deep_sleep t (cont_thread E u k)"
  using d deep_wake [OF w, of T_STOPPED] deep_wakes(2) [OF w]
  by (simp add: cont_thread_def ptrace_trap_notify_def Let_def task_state_defs)

lemma deep_prepare:
  assumes w: "wakes_by_mask E" and d: "in_deep_sleep t k"
  shows "in_deep_sleep t (snd (prepare_signal E sig p ns k))"
proof -
  have "in_deep_sleep t (stop_removes_cont p k)"
    unfolding stop_removes_cont_def each_thread_def by (rule fold_keeps) (simp_all add: d)
  moreover have "in_deep_sleep t (cont_removes_stops E p k)"
    unfolding cont_removes_stops_def each_thread_def by (rule fold_keeps) (simp_all add: d deep_cont [OF w])
  ultimately show ?thesis using d
    by (simp add: prepare_signal_def Let_def note_continued_def)
qed

lemma deep_complete:
  assumes w: "wakes_by_mask E" and d: "in_deep_sleep t k"
  shows "in_deep_sleep t (complete_signal E sig p grp k)"
proof (cases "choose_thread E sig p grp k")
  case None
  then show ?thesis using d by (simp add: complete_signal_def)
next
  case (Some uk)
  then obtain u k1 where u: "uk = (u, k1)" by (cases uk)
  have k1: "in_deep_sleep t k1" using Some d unfolding u by (auto simp: choose_thread_def split: if_splits option.splits)
  have "in_deep_sleep t (start_group_exit E sig p k1)"
    unfolding start_group_exit_def each_thread_def
    by (rule fold_keeps) (simp_all add: kill_thread_def deep_wakes [OF w] k1)
  then show ?thesis using Some u k1 by (simp add: complete_signal_def deep_wakes [OF w])
qed

lemma deep_alloc: "in_deep_sleep t (snd (sigqueue_alloc_raw E sig u ov k)) = in_deep_sleep t k"
  by (simp add: sigqueue_alloc_raw_def Let_def split_beta in_deep_sleep_def split: option.splits)

lemma deep_queue: "in_deep_sleep t (snd (queue_info E sig a u l ns k)) = in_deep_sleep t k"
proof -
  have "in_deep_sleep t (list_add_tail q l x) = in_deep_sleep t x" for q x
    by (cases l) (simp_all add: list_add_tail_def in_deep_sleep_def)
  then show ?thesis using deep_alloc [of t E sig u "override_rlimit sig a" k]
    by (auto simp: queue_info_def set_q_info_def in_deep_sleep_def split: prod.splits option.splits)
qed

lemma deep_send:
  assumes w: "wakes_by_mask E" and d: "in_deep_sleep t k"
  shows "in_deep_sleep t (snd (send_signal_raw E sig a p grp ns k))"
proof -
  obtain c k1 where p: "prepare_signal E sig p ns k = (c, k1)" by fastforce
  have k1: "in_deep_sleep t k1" using deep_prepare [OF w d, of sig p ns] p by simp
  let ?l = "pend_target k1 p grp"
  obtain b k2 where q: "queue_info E sig a p ?l ns k1 = (b, k2)" by fastforce
  have k2: "in_deep_sleep t k2" using deep_queue [of t E sig a p ?l ns k1] q k1 by simp
  have "in_deep_sleep t (out_set E sig p grp l x)" if "in_deep_sleep t x" for l x
    using that by (simp add: out_set_def deep_complete [OF w])
  then show ?thesis using p q k1 k2 by (auto simp: send_signal_raw_def Let_def split: bool.splits)
qed

section \<open>smunch\<close>

text \<open>The condition under which \<open>smunch\<close> gets past its checks.\<close>

definition smunch_target :: "pidenv \<Rightarrow> int \<Rightarrow> kstate \<Rightarrow> nat \<Rightarrow> bool" where
  "smunch_target P pid k t \<longleftrightarrow> find_task P pid = Some t \<and> t_sighand (tasks k t) \<noteq> None \<and> thread_group_empty k t"

text \<open>What smunch of a SIGKILL pattern by another thread does to the thread \<open>t\<close>.\<close>

definition smunched :: "kenv \<Rightarrow> pidenv \<Rightarrow> int \<Rightarrow> u64 \<Rightarrow> nat \<Rightarrow> kstate \<Rightarrow> kstate" where
  "smunched E P pid b other k = (snd (smunch E P pid b (k\<lparr>cur := other\<rparr>)))\<lparr>cur := cur k\<rparr>"

lemma psignal_private:
  "tasks (set_psignal f (Private t) k) u = (if u = t then (tasks k t)\<lparr>t_pending := (t_pending (tasks k t))
     \<lparr>psignal := f (psignal (t_pending (tasks k t)))\<rparr>\<rparr> else tasks k u)"
  by (simp add: set_psignal_def)

lemma smunched_kill:
  fixes E :: kenv and other :: nat
  assumes t: "smunch_target P pid k t" "\<not> zombie_or_dead (tasks k t)" and b: "has_sigkill b"
  defines "k' \<equiv> smunched E P pid b other k"
  shows "cur k' = cur k" and "signals k' = signals k"
    and "\<exists>st. tasks k' t = (tasks k t)\<lparr>t_pending := (t_pending (tasks k t))
           \<lparr>psignal := sigaddset SIGKILL (psignal (t_pending (tasks k t)))\<rparr>, t_state := st\<rparr>"
    and "u \<noteq> t \<Longrightarrow> tasks k' u = tasks k u"
proof -
  have "thread_group_empty (k\<lparr>cur := other\<rparr>) t = thread_group_empty k t"
    by (simp add: thread_group_empty_def sig_of_def)
  then have e: "k' = (wake_up_process E t (set_psignal (sigaddset SIGKILL) (Private t) (k\<lparr>cur := other\<rparr>)))\<lparr>cur := cur k\<rparr>"
    using t b by (auto simp: k'_def smunched_def smunch_def smunch_target_def lock_task_sighand_def)
  show "cur k' = cur k" by (simp add: e)
  show "signals k' = signals k"
    by (simp add: e wake_up_process_def wake_up_state_def Let_def split_beta set_psignal_def)
  show "\<exists>st. tasks k' t = (tasks k t)\<lparr>t_pending := (t_pending (tasks k t))
           \<lparr>psignal := sigaddset SIGKILL (psignal (t_pending (tasks k t)))\<rparr>, t_state := st\<rparr>"
    by (rule exI [of _ "snd (wake_up E (t_state (tasks k t)) TASK_ALL)"])
      (simp add: e wake_up_process_def wake_up_state_def Let_def split_beta psignal_private)
  show "u \<noteq> t \<Longrightarrow> tasks k' u = tasks k u"
    by (simp add: e wake_up_process_def wake_up_state_def Let_def split_beta psignal_private)
qed

lemma smunched_target:
  assumes "smunch_target P pid k t" "\<not> zombie_or_dead (tasks k t)" "has_sigkill b"
  shows "smunch_target P pid (smunched E P pid b other k) t" "\<not> zombie_or_dead (tasks (smunched E P pid b other k) t)"
    "t_tif_sigpending (tasks (smunched E P pid b other k) t) = t_tif_sigpending (tasks k t)"
proof -
  note e = smunched_kill [OF assms, where E = E and other = other]
  from e(3) obtain st where "tasks (smunched E P pid b other k) t = (tasks k t)\<lparr>t_pending := (t_pending (tasks k t))
           \<lparr>psignal := sigaddset SIGKILL (psignal (t_pending (tasks k t)))\<rparr>, t_state := st\<rparr>" by blast
  then show "smunch_target P pid (smunched E P pid b other k) t" "\<not> zombie_or_dead (tasks (smunched E P pid b other k) t)"
    "t_tif_sigpending (tasks (smunched E P pid b other k) t) = t_tif_sigpending (tasks k t)"
    using assms e(2) by (auto simp: smunch_target_def thread_group_empty_def sig_of_def zombie_or_dead_def)
qed

lemma smunch_target_state: "smunch_target P pid (upd_task u (\<lambda>x. x\<lparr>t_state := st\<rparr>) k) t = smunch_target P pid k t"
  by (auto simp: smunch_target_def thread_group_empty_def sig_of_def)

section \<open>Permission\<close>

definition user_info :: "siginfo \<Rightarrow> pidenv \<Rightarrow> int \<Rightarrow> kstate \<Rightarrow> sig_arg" where
  "user_info stack P sig k = Info (stack\<lparr>si_signo := sig, si_errno := 0, si_code := SI_USER,
     si_pid := tgid_vnr P (cur k), si_uid := c_uid (t_cred (tasks k (cur k)))\<rparr>)"

end
