(* ===== verification/Sig_Queue_Spec.thy ===== *)
theory Sig_Queue_Spec
  imports Sig_Send_Facts
begin

text \<open>
  Specifications of the queue operations: the set of signals ready to be taken and the choice
  among them, what dequeueing takes out of which queue, what \<open>TIF_SIGPENDING\<close> stands for, and
  the exact effect of a send on every queue.
\<close>

section \<open>The choice of the next signal\<close>

text \<open>n\<close>

definition ready_set :: "sigpending \<Rightarrow> sigset \<Rightarrow> int set" where
  "ready_set p m = {a. signo a \<and> sigismember (psignal p) a \<and> \<not> sigismember m a}"

lemma finite_ready: "finite (ready_set p m)"
  by (rule finite_subset [of _ "{1..64}"]) (auto simp: ready_set_def signo_def)

lemma synchronous_member: "signo a \<Longrightarrow> sigismember SYNCHRONOUS_MASK a \<longleftrightarrow> a \<in> {SIGILL, SIGTRAP, SIGBUS, SIGFPE, SIGSEGV}"
  by (auto simp: SYNCHRONOUS_MASK_def)

lemma later_word_spec:
  assumes "length xs = length ms" and "later_word i xs ms \<noteq> 0"
  shows "\<exists>j < length xs. \<exists>b < 64. later_word i xs ms = int ((i + j) * 64 + b + 1) \<and>
    bit (xs ! j AND NOT (ms ! j)) b \<and> (\<forall>c < b. \<not> bit (xs ! j AND NOT (ms ! j)) c) \<and>
    (\<forall>l < j. xs ! l AND NOT (ms ! l) = 0)"
  using assms
proof (induction i xs ms rule: later_word.induct)
  case (1 i x xs m ms)
  show ?case
  proof (cases "x AND NOT m = 0")
    case True
    with 1 obtain j b where "j < length xs" "b < 64"
      "later_word (Suc i) xs ms = int ((Suc i + j) * 64 + b + 1)"
      "bit (xs ! j AND NOT (ms ! j)) b" "\<forall>c < b. \<not> bit (xs ! j AND NOT (ms ! j)) c"
      "\<forall>l < j. xs ! l AND NOT (ms ! l) = 0" by auto
    with True show ?thesis
      by (intro exI [of _ "Suc j"] conjI exI [of _ b]) (auto simp: less_Suc_eq_0_disj)
  next
    case False
    with ffz_lowest [OF False] show ?thesis
      by (intro exI [of _ 0] conjI exI [of _ "ffz (NOT (x AND NOT m))"]) auto
  qed
qed auto

lemma later_word_zero:
  "length xs = length ms \<Longrightarrow> later_word i xs ms = 0 \<longleftrightarrow> (\<forall>j < length xs. xs ! j AND NOT (ms ! j) = 0)"
proof (induction i xs ms rule: later_word.induct)
  case (1 i x xs m ms)
  then show ?case by (auto simp: All_less_Suc2)
qed auto

text \<open>Bit \<open>b\<close> of word \<open>j\<close> is the signal to take: no earlier word has an unblocked signal, and no
  lower bit of the word has one, unless the word is the first and \<open>b\<close> is synchronous where the
  lower one is not.\<close>

definition lowest_ready :: "u64 list \<Rightarrow> u64 list \<Rightarrow> nat \<Rightarrow> nat \<Rightarrow> bool" where
  "lowest_ready s m j b \<longleftrightarrow>
     (let ready = (\<lambda>j. s ! j AND NOT (m ! j)) in
      j < length s \<and> b < 64 \<and> bit (ready j) b \<and> (\<forall>l < j. ready l = 0) \<and>
      (\<forall>c < b. bit (ready j) c \<longrightarrow> j = 0 \<and> bit SYNCHRONOUS_MASK b \<and> \<not> bit SYNCHRONOUS_MASK c))"

section \<open>Dequeueing\<close>

lemma pv_recalc [frame_simps]:
  "pv (snd (recalc_sigpending_tsk t k)) = pv k" "pv (recalc_sigpending E k) = pv k"
  by (simp_all add: recalc_sigpending_tsk_def recalc_sigpending_def Let_def frame_simps split: prod.splits)

text \<open>The queue \<open>dequeue_signal\<close> looks into: the thread's own, and the group's when that has nothing unblocked.\<close>

definition deq_loc :: "kstate \<Rightarrow> nat \<Rightarrow> sigset \<Rightarrow> pend_loc" where
  "deq_loc ks t msk =
     (if next_signal (pending_at ks (Private t)) msk \<noteq> 0 then Private t else Shared (t_signal (tasks ks t)))"

text \<open>\<open>k'\<close> is \<open>k\<close> with the record \<open>i\<close> of signal \<open>sig\<close> taken from queue \<open>l\<close>.\<close>

definition taken :: "int \<Rightarrow> siginfo \<Rightarrow> pend_loc \<Rightarrow> kstate \<Rightarrow> kstate \<Rightarrow> bool" where
  "taken sig i l k k' \<longleftrightarrow> si_signo i = sig \<and> (\<forall>m. m \<noteq> l \<longrightarrow> pview k' m = pview k m) \<and>
     (case collect_spec sig (pview k l) of (r, v) \<Rightarrow> pview k' l = v \<and>
        (case r of Some j \<Rightarrow> i = j
         | None \<Rightarrow> si_code i = SI_USER \<and> si_pid i = 0 \<and> si_uid i = 0 \<and> si_errno i = 0))"

lemma collect_taken:
  assumes q: "queues_ok k" and s: "signo sig" and c: "collect_signal sig l info k = (i, k')"
  shows "taken sig i l k k'" and "queues_ok k'" and "pend_frame k k'"
proof -
  have ok: "pend_ok k l" using q by (simp add: queues_ok_def)
  note r = collect_refines [OF ok c]
  show fr: "pend_frame k k'" by (rule r(2))
  have oth: "pview k' m = pview k m" if "m \<noteq> l" for m
    using r(3) [OF that] pend_frame_more(5) [OF fr] by (simp add: pview_def)
  then show "taken sig i l k k'" using r(1,4,5) by (auto simp: taken_def)
  have "pend_ok k' m" for m
  proof (cases "m = l")
    case True with collect_pend_ok [OF ok c s] show ?thesis by simp
  next
    case False
    with pend_ok_other [OF fr r(3)] q show ?thesis by (simp add: queues_ok_def)
  qed
  moreover have "set (plist (pending_at k' m)) \<subseteq> set (plist (pending_at k m))" for m
    using r(3) [of m] r(6) by (cases "m = l") (auto split: list.splits dest: notin_set_remove1 set_remove1_subset [THEN subsetD])
  ultimately show "queues_ok k'" using q pend_frame_more(4) [OF fr] by (fastforce simp: queues_ok_def)
qed

lemma dequeue_raw_taken:
  assumes q: "queues_ok k" and n: "t_notifier (tasks k (cur k)) = None"
    and d: "dequeue_signal_raw l msk info k = (sig, i, k')"
  shows "sig = next_signal (pending_at k l) msk" and "queues_ok k'" and "pend_frame k k'"
    and "sig = 0 \<Longrightarrow> k' = k \<and> i = info" and "sig \<noteq> 0 \<Longrightarrow> taken sig i l k k'"
proof -
  let ?s = "next_signal (pending_at k l) msk"
  show s: "sig = ?s" using d n by (auto simp: dequeue_signal_raw_def Let_def split: if_splits prod.splits)
  show e: "k' = k \<and> i = info" if "sig = 0"
    using d that s by (simp add: dequeue_signal_raw_def Let_def)
  have c: "collect_signal ?s l info k = (i, k')" if "sig \<noteq> 0"
    using d n s that by (simp add: dequeue_signal_raw_def Let_def split: prod.splits)
  show "taken sig i l k k'" if "sig \<noteq> 0"
    using collect_taken(1) [OF q next_signal_props(1) c] s that by simp
  show "queues_ok k'" "pend_frame k k'"
    using collect_taken(2,3) [OF q next_signal_props(1) c] e s q by (cases "sig = 0"; simp)+
qed

lemma taken_pv: "pv k2 = pv k1 \<Longrightarrow> taken sig i l k k1 = taken sig i l k k2"
  using pv_sel(5) [of k2 k1] by (simp add: taken_def)

lemma dequeue_signal_spec:
  assumes q: "queues_ok k" and n: "t_notifier (tasks k (cur k)) = None"
    and d: "dequeue_signal E t msk info k = (sig, i, k')"
  shows "sig = next_signal (pending_at k (deq_loc k t msk)) msk \<and> queues_ok k' \<and>
    (if sig = 0 then \<forall>m. pview k' m = pview k m else taken sig i (deq_loc k t msk) k k')"
proof -
  let ?g = "t_signal (tasks k t)"
  obtain s1 i1 k1 where r1: "dequeue_signal_raw (Private t) msk info k = (s1, i1, k1)" by (metis prod_cases3)
  note a = dequeue_raw_taken [OF q n r1]
  show ?thesis
  proof (cases "s1 = 0")
    case False
    then have l: "deq_loc k t msk = Private t" using a(1) by (simp add: deq_loc_def)
    have "sig = s1" "i = i1" "pv k' = pv k1"
      using d r1 False by (auto simp: dequeue_signal_def Let_def frame_simps split: if_splits)
    then show ?thesis using a False l taken_pv [of k' k1] queues_ok_pv [of k' k1] by auto
  next
    case True
    then have k1: "k1 = k" and l: "deq_loc k t msk = Shared ?g" using a(1,4) by (simp_all add: deq_loc_def)
    obtain s2 i2 k2 where r2: "dequeue_signal_raw (Shared ?g) msk i1 k = (s2, i2, k2)" by (metis prod_cases3)
    note b = dequeue_raw_taken [OF q n r2]
    have k': "sig = s2" "s2 \<noteq> 0 \<longrightarrow> i = i2" "pv k' = pv k2"
      using d r1 r2 True k1 by (auto simp: dequeue_signal_def Let_def frame_simps pv_upd_signal split: if_splits)
    then show ?thesis using b l taken_pv [of k' k2] queues_ok_pv [of k' k2] pv_sel(5) [of k' k2] by auto
  qed
qed

text \<open>What the flag \<open>TIF_SIGPENDING\<close> stands for.\<close>

definition signals_wait :: "kstate \<Rightarrow> nat \<Rightarrow> bool" where
  "signals_wait k t \<longleftrightarrow> t_jobctl (tasks k t) AND JOBCTL_PENDING_MASK \<noteq> 0 \<or>
     (\<exists>sig. signo sig \<and> \<not> sigismember (t_blocked (tasks k t)) sig \<and>
        (sigismember (psignal (t_pending (tasks k t))) sig \<or>
         sigismember (psignal (s_shared_pending (sig_of k t))) sig))"

lemma recalc_exact:
  "\<not> freezing E \<Longrightarrow> t_tif_sigpending (tasks (recalc_sigpending E k) (cur k)) = signals_wait k (cur k)"
  "signals_wait (recalc_sigpending E k) t = signals_wait k t"
  "cur (recalc_sigpending E k) = cur k"
proof -
  have h: "has_pending_signals s b \<longleftrightarrow> (\<exists>sig. signo sig \<and> \<not> sigismember b sig \<and> sigismember s sig)" for s b
    using sigset_empty_iff [of "s AND NOT b"] by (auto simp: has_pending_signals_iff)
  show "\<not> freezing E \<Longrightarrow> t_tif_sigpending (tasks (recalc_sigpending E k) (cur k)) = signals_wait k (cur k)"
    by (auto simp: recalc_sigpending_def recalc_sigpending_tsk_def Let_def set_tif_sigpending_def h signals_wait_def)
  show "signals_wait (recalc_sigpending E k) t = signals_wait k t" "cur (recalc_sigpending E k) = cur k"
    by (auto simp: recalc_sigpending_def recalc_sigpending_tsk_def Let_def set_tif_sigpending_def signals_wait_def sig_of_def)
qed

section \<open>The exact effect of a send on the queues\<close>

text \<open>\<open>v'\<close> is \<open>v\<close>, perhaps with a SIGKILL bit more.\<close>

definition grown :: "sigset \<times> siginfo list \<Rightarrow> sigset \<times> siginfo list \<Rightarrow> bool" where
  "grown v v' \<longleftrightarrow> snd v' = snd v \<and> (fst v' = fst v \<or> fst v' = sigaddset SIGKILL (fst v))"

lemma grown_refl [simp]: "grown v v" by (simp add: grown_def)

lemma sigaddset_twice [simp]: "sigaddset a (sigaddset a S) = sigaddset a S"
  by (auto simp: sigaddset_def bit_eq_iff bit_simps)

lemma grown_trans: "grown u v \<Longrightarrow> grown v w \<Longrightarrow> grown u w"
  by (auto simp: grown_def)

lemma pview_set: "pview (set_psignal f m k) l = (if l = m then (f (fst (pview k m)), snd (pview k m)) else pview k l)"
  by (simp add: pview_def pending_at_set pend_frame_more(5) [OF pend_frame_set])

lemma kill_thread_grown: "grown (pview k l) (pview (kill_thread E t k) l)"
proof -
  have "pview (kill_thread E t k) l = pview (set_psignal (sigaddset SIGKILL) (Private t) (task_clear_jobctl_pending t JOBCTL_PENDING_MASK k)) l"
    by (rule pv_sel(5)) (simp add: kill_thread_def frame_simps)
  also have "\<dots> = (if l = Private t then (sigaddset SIGKILL (fst (pview k l)), snd (pview k l)) else pview k l)"
    using pv_sel(5) [OF pv_jobctl(3)] by (simp add: pview_set)
  finally show ?thesis by (simp add: grown_def)
qed

lemma fold_kill_grown: "grown (pview k l) (pview (fold (kill_thread E) ts k) l)"
proof (induction ts arbitrary: k)
  case (Cons t ts)
  from grown_trans [OF kill_thread_grown [of k l E t] Cons.IH] show ?case by simp
qed simp

lemma complete_grown: "grown (pview k l) (pview (complete_signal E sig p grp k) l)"
proof (cases "choose_thread E sig p grp k")
  case None
  then show ?thesis by (simp add: complete_signal_def)
next
  case (Some tk)
  then obtain t k1 where tk: "tk = (t, k1)" and c: "choose_thread E sig p grp k = Some (t, k1)" by (cases tk) auto
  then have pv1: "pv k1 = pv k"
    by (auto simp: choose_thread_def split: if_splits option.splits intro!: pv_upd_signal)
  let ?k2 = "upd_signal (t_signal (tasks k1 p)) (\<lambda>s. s\<lparr>s_flags := SIGNAL_GROUP_EXIT, s_group_exit_code := sig, s_group_stop_count := 0\<rparr>) k1"
  have "pv ?k2 = pv k" by (simp add: pv_upd_signal pv1)
  note v2 = pv_sel(5) [OF this, of l]
  have "grown (pview k l) (pview (start_group_exit E sig p k1) l)"
    using fold_kill_grown [of ?k2 l E "group_from ?k2 p"] v2 by (simp add: start_group_exit_def each_thread_def)
  moreover have "pview (signal_wake_up E t r k1) l = pview k l" for r
    by (rule pv_sel(5)) (simp add: frame_simps pv1)
  ultimately show ?thesis by (simp add: complete_signal_def c)
qed

text \<open>The queues after the immediate effect of a stop or continue signal.\<close>

definition cleaned :: "kstate \<Rightarrow> nat \<Rightarrow> int \<Rightarrow> pend_loc \<Rightarrow> sigset \<times> siginfo list" where
  "cleaned k t sig l =
     (if s_flags (sig_of k t) AND SIGNAL_GROUP_EXIT = 0 \<and> l \<in> group_locs k t
      then remove_spec (kills_pending sig) (pview k l) else pview k l)"

lemma prepare_cleaned:
  assumes q: "queues_ok k" and d: "distinct (s_threads (sig_of k t))" and p: "prepare_signal E sig t ns k = (c, k1)"
  shows "pview k1 l = cleaned k t sig l" and "queues_ok k1" and "pend_target k1 t grp = pend_target k t grp"
proof -
  have "pview k1 l = cleaned k t sig l \<and> queues_ok k1"
  proof (cases "s_flags (sig_of k t) AND SIGNAL_GROUP_EXIT = 0")
    case True
    from prepare_removed [OF q d True, of sig E ns] p q show ?thesis
      by (simp add: removed_in_def cleaned_def True)
  next
    case False
    with p q show ?thesis by (simp add: cleaned_def prepare_signal_def Let_def sig_of_def)
  qed
  then show "pview k1 l = cleaned k t sig l" "queues_ok k1" by auto
  have "skel k1 = skel k" using skel_prepare [of E sig t ns k] p by simp
  from skel_more(6) [OF this] show "pend_target k1 t grp = pend_target k t grp" .
qed

text \<open>One record at most is appended, to the addressed queue, whose bit is set.\<close>

definition appended :: "int \<Rightarrow> sigset \<times> siginfo list \<Rightarrow> sigset \<times> siginfo list \<Rightarrow> bool" where
  "appended sig v v' \<longleftrightarrow>
     (\<exists>w. fst w = sigaddset sig (fst v) \<and> grown w v' \<and>
          (snd w = snd v \<or> (\<exists>i. si_signo i = sig \<and> snd w = snd v @ [i])))"

end
