(* ===== verification/Sig_Mask_Facts.thy ===== *)
theory Sig_Mask_Facts
  imports Sig_Mask Sig_Queue_Spec
begin

text \<open>
  What changing the blocked mask, \<open>rt_sigprocmask\<close> and \<open>sigaction\<close> do to masks, flags and queues.
\<close>

lemma skel_retarget [frame_simps]: "skel (retarget_walk E ts r k) = skel k"
  by (induction E ts r k rule: retarget_walk.induct) (auto simp: frame_simps Let_def)

lemma pv_retarget [frame_simps]: "pv (retarget_walk E ts r k) = pv k"
  by (induction E ts r k rule: retarget_walk.induct) (auto simp: frame_simps Let_def)

lemma retarget_frame [frame_simps]:
  "skel (retarget_shared_pending E t w k) = skel k" "pv (retarget_shared_pending E t w k) = pv k"
  by (simp_all add: retarget_shared_pending_def Let_def frame_simps)

text \<open>Two states that differ in flags, job control bits and masks only in the thread \<open>t\<close>'s blocked mask.\<close>

lemma set_task_blocked_effect:
  assumes "k' = set_task_blocked_raw E t m k"
  shows "t_blocked (tasks k' u) = (if u = t then m else t_blocked (tasks k u))"
    and "pv k' = pv k" and "cur k' = cur k" and "sighands k' = sighands k"
    and "t_signal (tasks k' u) = t_signal (tasks k u)" "t_sighand (tasks k' u) = t_sighand (tasks k u)"
    and "t_real_blocked (tasks k' u) = t_real_blocked (tasks k u)"
    and "s_threads (signals k' g) = s_threads (signals k g)"
    and "\<not> freezing E \<Longrightarrow> t_tif_sigpending (tasks k' (cur k)) = signals_wait k' (cur k)"
    and "t_notifier (tasks k' u) = t_notifier (tasks k u)" and "t_tgid (tasks k' u) = t_tgid (tasks k u)"
proof -
  define k1 where "k1 = (if signal_pending (tasks k t) \<and> \<not> thread_group_empty k t
    then retarget_shared_pending E t (m AND NOT (t_blocked (tasks k (cur k)))) k else k)"
  have s: "skel k1 = skel k" "pv k1 = pv k" by (simp_all add: k1_def frame_simps)
  note sel = skel_sel [OF s(1)]
  let ?k2 = "upd_task t (\<lambda>x. x\<lparr>t_blocked := m\<rparr>) k1"
  have k': "k' = recalc_sigpending E ?k2" using assms by (simp add: set_task_blocked_raw_def Let_def k1_def)
  have rec: "t_blocked (tasks (recalc_sigpending E x) u) = t_blocked (tasks x u)"
    "t_signal (tasks (recalc_sigpending E x) u) = t_signal (tasks x u)"
    "t_sighand (tasks (recalc_sigpending E x) u) = t_sighand (tasks x u)"
    "t_real_blocked (tasks (recalc_sigpending E x) u) = t_real_blocked (tasks x u)"
    "t_notifier (tasks (recalc_sigpending E x) u) = t_notifier (tasks x u)"
    "t_tgid (tasks (recalc_sigpending E x) u) = t_tgid (tasks x u)"
    "signals (recalc_sigpending E x) = signals x" "sighands (recalc_sigpending E x) = sighands x" for x u
    by (simp_all add: recalc_sigpending_def recalc_sigpending_tsk_def Let_def set_tif_sigpending_def)
  show "t_blocked (tasks k' u) = (if u = t then m else t_blocked (tasks k u))"
    "cur k' = cur k" "sighands k' = sighands k" "t_signal (tasks k' u) = t_signal (tasks k u)"
    "t_sighand (tasks k' u) = t_sighand (tasks k u)" "s_threads (signals k' g) = s_threads (signals k g)"
    "t_real_blocked (tasks k' u) = t_real_blocked (tasks k u)" "t_notifier (tasks k' u) = t_notifier (tasks k u)"
    "t_tgid (tasks k' u) = t_tgid (tasks k u)"
    using sel by (simp_all add: k' rec recalc_exact(3))
  have "pv ?k2 = pv k1" by (rule pv_upd_task) simp
  then show "pv k' = pv k" using s(2) by (simp add: k' frame_simps)
  have "cur ?k2 = cur k" using sel by simp
  then show "\<not> freezing E \<Longrightarrow> t_tif_sigpending (tasks k' (cur k)) = signals_wait k' (cur k)"
    using recalc_exact(1) [of E ?k2] recalc_exact(2) [of E ?k2] by (simp add: k')
qed

text \<open>What \<open>rt_sigprocmask\<close> answers, and whether a signal is blocked after it.\<close>

definition procmask_result :: "int \<Rightarrow> sigset option option \<Rightarrow> bool option \<Rightarrow> int" where
  "procmask_result how nset oset =
     (case nset of
        Some None \<Rightarrow> - EFAULT
      | Some (Some _) \<Rightarrow> if how \<notin> {SIG_BLOCK, SIG_UNBLOCK, SIG_SETMASK} then - EINVAL
                        else if oset = Some False then - EFAULT else 0
      | None \<Rightarrow> if oset = Some False then - EFAULT else 0)"

definition blocked_after :: "int \<Rightarrow> sigset option option \<Rightarrow> sigset \<Rightarrow> int \<Rightarrow> bool" where
  "blocked_after how nset old sig =
     (case nset of
        Some (Some m) \<Rightarrow>
          (let asked = sigismember m sig \<and> sig \<noteq> SIGKILL \<and> sig \<noteq> SIGSTOP in
           if how = SIG_BLOCK then sigismember old sig \<or> asked
           else if how = SIG_UNBLOCK then sigismember old sig \<and> \<not> asked
           else if how = SIG_SETMASK then asked else sigismember old sig)
      | _ \<Rightarrow> sigismember old sig)"

lemma sys_rt_sigprocmask_eq:
  "sys_rt_sigprocmask E how nset oset 8 k =
    (procmask_result how nset oset,
     if procmask_result how nset oset = 0 \<and> oset = Some True then Some (t_blocked (tasks k (cur k))) else None,
     case nset of
       Some (Some m) \<Rightarrow> (case new_mask how (t_blocked (tasks k (cur k))) (m AND NOT (sigmask SIGKILL OR sigmask SIGSTOP)) of
         Some n \<Rightarrow> set_current_blocked E n k | None \<Rightarrow> k)
     | _ \<Rightarrow> k)"
proof (cases nset)
  case None
  then show ?thesis
    by (cases oset) (simp_all add: sys_rt_sigprocmask_def procmask_result_def)
next
  case (Some s)
  show ?thesis
  proof (cases s)
    case None
    with Some show ?thesis by (simp add: sys_rt_sigprocmask_def procmask_result_def)
  next
    case m: (Some m)
    have e: "new_mask how old x = None \<longleftrightarrow> how \<notin> {0, 1, 2}" for old x by (simp add: new_mask_def)
    show ?thesis
    proof (cases "new_mask how (t_blocked (tasks k (cur k))) (m AND NOT (sigmask SIGKILL OR sigmask SIGSTOP))")
      case None
      then have "how \<notin> {0, 1, 2}" using e by blast
      with None Some m show ?thesis
        by (simp add: sys_rt_sigprocmask_def sigprocmask_def procmask_result_def)
    next
      case n: (Some n)
      then have "how \<in> {0, 1, 2}" using e by (metis option.distinct(1))
      with n Some m show ?thesis
        by (cases oset) (auto simp: sys_rt_sigprocmask_def sigprocmask_def procmask_result_def)
    qed
  qed
qed

lemma new_mask_after:
  assumes "signo sig" and "new_mask how old (m AND NOT (sigmask SIGKILL OR sigmask SIGSTOP)) = Some n"
  shows "sigismember n sig = blocked_after how (Some (Some m)) old sig"
  using assms by (auto simp: new_mask_def blocked_after_def Let_def split: if_splits)

section \<open>Actions\<close>

lemma rm_full_removed:
  assumes q: "queues_ok k"
  shows "removed_in {l} m k (snd (rm_from_queue_full m l k))"
proof -
  obtain b k' where r: "rm_from_queue_full m l k = (b, k')" by fastforce
  have ok: "pend_ok k l" using q by (simp add: queues_ok_def)
  note e = rm_from_queue_full_refines [OF ok r]
  have o: "pending_at k' n = pending_at k n" if "n \<noteq> l" for n using e(4) that by blast
  have v: "pview k' n = (if n \<in> {l} then remove_spec m (pview k n) else pview k n)" for n
    using e(1) o pend_frame_more(5) [OF e(2)] by (cases "n = l") (simp_all add: pview_def)
  have pk: "pend_ok k' n" for n
    using e(3) pend_ok_other [OF e(2) o] q by (cases "n = l") (simp_all add: queues_ok_def)
  have sub: "set (plist (pending_at k' n)) \<subseteq> set (plist (pending_at k n))" for n
  proof (cases "n = l")
    case True
    have "distinct (plist (pending_at (set_psignal f l k) l))" for f using ok by (simp add: pend_ok_def pending_at_set)
    from pending_at_fold_drop [OF this] True r show ?thesis
      by (auto simp: rm_from_queue_full_def Let_def pending_at_set split: if_splits)
  qed (simp add: o)
  have "queues_ok k'" using pk sub q pend_frame_more(4) [OF e(2)] by (fastforce simp: queues_ok_def)
  with v r show ?thesis by (simp add: removed_in_def)
qed

lemma skel_rm_full [frame_simps]: "skel (snd (rm_from_queue_full m l k)) = skel k"
  by (simp add: rm_from_queue_full_def Let_def frame_simps)

lemma discard_ignored_removed:
  assumes q: "queues_ok k" and d: "distinct (s_threads (sig_of k (cur k)))"
  shows "removed_in (group_locs k (cur k)) (sigaddset sig 0) k (discard_ignored sig k)"
proof -
  let ?g = "Shared (t_signal (tasks k (cur k)))" and ?m = "sigaddset sig 0"
  let ?k1 = "snd (rm_from_queue_full ?m ?g k)"
  have 1: "removed_in {?g} ?m k ?k1" by (rule rm_full_removed [OF q])
  have q1: "queues_ok ?k1" using 1 q by (simp add: removed_in_def)
  have "distinct (group_from k (cur k))" using d by (simp add: group_from_def)
  from fold_removed [where f = "\<lambda>t k. snd (rm_from_queue_full ?m (Private t) k)", OF rm_full_removed this q1]
  have 2: "removed_in (Private ` set (group_from k (cur k))) ?m ?k1
    (fold (\<lambda>t k. snd (rm_from_queue_full ?m (Private t) k)) (group_from k (cur k)) ?k1)" by simp
  from removed_in_trans [OF 1 2] show ?thesis
    by (auto simp: discard_ignored_def Let_def next_group_threads_def group_locs_eq)
qed

lemma removed_pv:
  assumes "removed_in L m k k'" and "pv k = pv k0"
  shows "removed_in L m k0 k'"
  using assms(1) pv_sel(5) [OF assms(2)] queues_ok_pv [OF assms(2)] by (simp add: removed_in_def)

lemma sigaddset_empty: "signo sig \<Longrightarrow> sigaddset sig 0 = sigmask sig"
  by (rule sigset_eqI) auto

lemma upd_hand_frame:
  "pv (upd_hand t f k) = pv k" "tasks (upd_hand t f k) = tasks k" "signals (upd_hand t f k) = signals k"
  "cur (upd_hand t f k) = cur k"
proof -
  have "pending_at (upd_hand t f k) l = pending_at k l" for l by (cases l) (simp_all add: upd_hand_def)
  then show "pv (upd_hand t f k) = pv k" by (simp add: pv_def upd_hand_def fun_eq_iff)
qed (simp_all add: upd_hand_def)

lemma sighands_discard: "sighands (discard_ignored sig k) = sighands k"
proof -
  have "skel (discard_ignored sig k) = skel k"
    by (simp add: discard_ignored_def Let_def skel_fold frame_simps)
  from skel_sel(1) [OF this] show ?thesis .
qed

end
