(* ===== verification/Sig_Stop_Facts.thy ===== *)
theory Sig_Stop_Facts
  imports Sig_Queue_Spec
begin

text \<open>
  Group stops and continuations: what each thread's part in a stop does to the group, and the
  flags SIGCONT leaves behind.
\<close>

section \<open>Group stops\<close>

fun participate_all :: "nat list \<Rightarrow> kstate \<Rightarrow> bool list \<times> kstate" where
  "participate_all [] k = ([], k)"
| "participate_all (t # ts) k =
     (case task_participate_group_stop t k of
        (b, k) \<Rightarrow> (case participate_all ts k of (bs, k) \<Rightarrow> (b # bs, k)))"

text \<open>A thread that still has to take part in the stop.\<close>

definition must_stop :: "kstate \<Rightarrow> nat \<Rightarrow> bool" where
  "must_stop k t \<longleftrightarrow> t_jobctl (tasks k t) AND JOBCTL_STOP_PENDING \<noteq> 0 \<and> t_jobctl (tasks k t) AND JOBCTL_STOP_CONSUME \<noteq> 0"

lemma clear_pending_frame:
  "signals (task_clear_jobctl_pending t m k) = signals k"
  "t_signal (tasks (task_clear_jobctl_pending t m k) u) = t_signal (tasks k u)"
  "u \<noteq> t \<Longrightarrow> t_jobctl (tasks (task_clear_jobctl_pending t m k) u) = t_jobctl (tasks k u)"
  by (simp_all add: task_clear_jobctl_pending_def task_clear_jobctl_trapping_def Let_def)

lemma participate_effect:
  assumes m: "must_stop k t" and g: "t_signal (tasks k t) = g" and c: "s_group_stop_count (signals k g) = int (Suc n)"
    and ns: "s_flags (signals k g) AND SIGNAL_STOP_STOPPED = 0"
    and r: "task_participate_group_stop t k = (b, k')"
  shows "b = (n = 0)" and "s_group_stop_count (signals k' g) = int n"
    and "s_flags (signals k' g) = (if n = 0 then SIGNAL_STOP_STOPPED else s_flags (signals k g))"
    and "t_signal (tasks k' u) = t_signal (tasks k u)" and "u \<noteq> t \<Longrightarrow> must_stop k' u = must_stop k u"
proof -
  define k1 where "k1 = task_clear_jobctl_pending t JOBCTL_STOP_PENDING k"
  have f: "signals k1 = signals k" "t_signal (tasks k1 v) = t_signal (tasks k v)"
    "v \<noteq> t \<Longrightarrow> t_jobctl (tasks k1 v) = t_jobctl (tasks k v)" for v
    by (simp_all add: k1_def clear_pending_frame)
  have e: "task_participate_group_stop t k =
    (let k2 = upd_signal g (\<lambda>s. s\<lparr>s_group_stop_count := s_group_stop_count s - 1\<rparr>) k1 in
     if n = 0 then (True, upd_signal g (\<lambda>s. s\<lparr>s_flags := SIGNAL_STOP_STOPPED\<rparr>) k2) else (False, k2))"
    using m g c ns by (simp add: task_participate_group_stop_def must_stop_def Let_def k1_def [symmetric] f)
  show "b = (n = 0)" "s_group_stop_count (signals k' g) = int n"
    "s_flags (signals k' g) = (if n = 0 then SIGNAL_STOP_STOPPED else s_flags (signals k g))"
    "t_signal (tasks k' u) = t_signal (tasks k u)" "u \<noteq> t \<Longrightarrow> must_stop k' u = must_stop k u"
    using r c f unfolding e by (auto simp: Let_def must_stop_def split: if_splits)
qed

section \<open>Continuing\<close>

lemma signal_flags_frame [simp]:
  "s_flags (signals (snd (rm_from_queue m l k)) g) = s_flags (signals k g)"
  "s_group_stop_count (signals (snd (rm_from_queue m l k)) g) = s_group_stop_count (signals k g)"
proof -
  have "pend_frame k (snd (rm_from_queue m l k))"
    by (auto simp: rm_from_queue_def Let_def intro: pend_frame_trans [OF pend_frame_set pend_frame_fold_drop])
  from pend_frame_signal [OF this] show
    "s_flags (signals (snd (rm_from_queue m l k)) g) = s_flags (signals k g)"
    "s_group_stop_count (signals (snd (rm_from_queue m l k)) g) = s_group_stop_count (signals k g)" by auto
qed

lemma signals_jobctl [simp]:
  "signals (task_clear_jobctl_pending t m k) = signals k" "signals (snd (task_set_jobctl_pending t m k)) = signals k"
  "signals (snd (wake_up_state E t st k)) = signals k" "signals (ptrace_trap_notify E t k) = signals k"
  by (simp_all add: task_clear_jobctl_pending_def task_clear_jobctl_trapping_def task_set_jobctl_pending_def
      wake_up_state_def ptrace_trap_notify_def ptrace_signal_wake_up_def signal_wake_up_state_def
      set_tif_sigpending_def Let_def split_beta)

lemma cont_keeps_flags:
  "s_flags (signals (cont_removes_stops E p k) g) = s_flags (signals k g) \<and>
   s_group_stop_count (signals (cont_removes_stops E p k) g) = s_group_stop_count (signals k g)"
proof -
  have "s_flags (signals (cont_thread E t k) g) = s_flags (signals k g) \<and>
    s_group_stop_count (signals (cont_thread E t k) g) = s_group_stop_count (signals k g)" for t k
    by (simp add: cont_thread_def Let_def)
  then have "s_flags (signals (fold (cont_thread E) ts k) g) = s_flags (signals k g) \<and>
    s_group_stop_count (signals (fold (cont_thread E) ts k) g) = s_group_stop_count (signals k g)" for ts k
    by (induction ts arbitrary: k) auto
  then show ?thesis by (simp add: cont_removes_stops_def each_thread_def)
qed

end
