(* ===== verification/Sig_Deliver.thy ===== *)
theory Sig_Deliver
  imports Sig_Mask Sig_Kill
begin

text \<open>
  Delivery: ptrace stops, group stops and \<open>get_signal_to_deliver\<close>. These functions drop the
  lock and sleep. What the rest of the system does in each such window is an element of the
  list \<open>world\<close>; the function takes one at each window, and its value is \<open>None\<close> when the list is
  used up, that is, while the caller still sleeps.
\<close>

type_synonym world = "(kstate \<Rightarrow> kstate) list"

fun unlocked :: "kstate \<times> world \<Rightarrow> (kstate \<times> world) option" where
  "unlocked (ks, []) = None"
| "unlocked (ks, f # w) = Some (f ks, w)"

section \<open>ptrace stops\<close>

definition may_ptrace_stop :: "kenv \<Rightarrow> kstate \<Rightarrow> bool" where
  "may_ptrace_stop E ks =
     (let t = tasks ks (cur ks) in
      if t_ptrace t = 0 then False
      else \<not> (core_state E (t_mm t) \<and> t_mm t = t_mm (tasks ks (t_parent t))))"

definition sigkill_pending :: "nat \<Rightarrow> kstate \<Rightarrow> bool" where
  "sigkill_pending t ks \<longleftrightarrow> sigismember (psignal (t_pending (tasks ks t))) SIGKILL \<or>
     sigismember (psignal (s_shared_pending (sig_of ks t))) SIGKILL"

text \<open>The bookkeeping under the lock, with the flag \<open>gstop_done\<close>.\<close>

definition enter_trap :: "kenv \<Rightarrow> int \<Rightarrow> int \<Rightarrow> siginfo option \<Rightarrow> kstate \<Rightarrow> bool \<times> kstate" where
  "enter_trap E exit_code why info ks =
     (let t = cur ks;
          ks = upd_task t (\<lambda>k. k\<lparr>t_state := TASK_TRACED, t_last_siginfo := info, t_exit_code := exit_code\<rparr>) ks;
          (gstop_done, ks) =
            (if why = CLD_STOPPED \<and> t_jobctl (tasks ks t) AND JOBCTL_STOP_PENDING \<noteq> 0
             then task_participate_group_stop t ks else (False, ks));
          ks = task_clear_jobctl_pending t JOBCTL_TRAP_STOP ks;
          ks = (case info of
                  Some i \<Rightarrow> if si_code i div 256 = PTRACE_EVENT_STOP E
                            then task_clear_jobctl_pending t JOBCTL_TRAP_NOTIFY ks else ks
                | None \<Rightarrow> ks)
      in (gstop_done, task_clear_jobctl_trapping t ks))"

text \<open>Telling the parents, up to the sleep.\<close>

definition notify_trap :: "kenv \<Rightarrow> int \<Rightarrow> bool \<Rightarrow> bool \<Rightarrow> kstate \<Rightarrow> kstate" where
  "notify_trap E why clear_code gstop_done ks =
     (let t = cur ks in
      if may_ptrace_stop E ks
      then let ks = do_notify_parent_cldstop E t True why ks in
           if gstop_done \<and> ptrace_reparented E t then do_notify_parent_cldstop E t False why ks else ks
      else let ks = (if gstop_done then do_notify_parent_cldstop E t False why ks else ks)
           in upd_task t (\<lambda>k. k\<lparr>t_state := TASK_RUNNING,
                                t_exit_code := if clear_code then 0 else t_exit_code k\<rparr>) ks)"

definition leave_trap :: "kstate \<Rightarrow> kstate" where
  "leave_trap ks =
     snd (recalc_sigpending_tsk (cur ks)
       (upd_task (cur ks) (\<lambda>k. k\<lparr>t_last_siginfo := None, t_jobctl := t_jobctl k AND NOT JOBCTL_LISTENING\<rparr>) ks))"

text \<open>
  Three windows: the arch hook, before the tasklist lock, and the sleep. The tracer can rewrite
  \<open>*info\<close> through \<open>last_siginfo\<close> during the sleep: what it holds then is the first result.
\<close>

definition ptrace_stop ::
  "kenv \<Rightarrow> int \<Rightarrow> int \<Rightarrow> bool \<Rightarrow> siginfo option \<Rightarrow> kstate \<times> world \<Rightarrow> (siginfo option \<times> kstate \<times> world) option" where
  "ptrace_stop E exit_code why clear_code info kw =
     (let stop = (\<lambda>(ks, w).
            case enter_trap E exit_code why info ks of
              (gstop_done, ks) \<Rightarrow>
                (case unlocked (ks, w) of
                   None \<Rightarrow> None
                 | Some (ks, w) \<Rightarrow>
                     (case unlocked (notify_trap E why clear_code gstop_done ks, w) of
                        None \<Rightarrow> None
                      | Some (ks, w) \<Rightarrow> Some (t_last_siginfo (tasks ks (cur ks)), leave_trap ks, w))))
      in if arch_ptrace_stop_needed E exit_code info
         then (case unlocked kw of
                 None \<Rightarrow> None
               | Some (ks, w) \<Rightarrow> if sigkill_pending (cur ks) ks then Some (info, ks, w) else stop (ks, w))
         else stop kw)"

text \<open>The caller's own copy of \<open>siginfo\<close> ends with the call.\<close>

definition ptrace_do_notify :: "kenv \<Rightarrow> int \<Rightarrow> int \<Rightarrow> int \<Rightarrow> kstate \<times> world \<Rightarrow> (kstate \<times> world) option" where
  "ptrace_do_notify E signr exit_code why kw =
     (case kw of (ks, w) \<Rightarrow>
        (case ptrace_stop E exit_code why True
            (Some (zero_siginfo\<lparr>si_signo := signr, si_code := exit_code,
               si_pid := pid_nr E (cur ks) (cur ks), si_uid := c_uid (t_cred (tasks ks (cur ks)))\<rparr>)) (ks, w) of
           None \<Rightarrow> None
         | Some (_, ks, w) \<Rightarrow> Some (ks, w)))"

definition ptrace_notify :: "kenv \<Rightarrow> int \<Rightarrow> kstate \<times> world \<Rightarrow> (kstate \<times> world) option" where
  "ptrace_notify E exit_code kw =
     (case kw of (ks, w) \<Rightarrow>
        ptrace_do_notify E SIGTRAP exit_code CLD_TRAPPED
          (bug_if (exit_code AND (0x7f OR NOT 0xffff) \<noteq> SIGTRAP) ks, w))"

section \<open>Group stops\<close>

text \<open>The other threads of the group are asked to stop.\<close>

definition ask_to_stop :: "kenv \<Rightarrow> u32 \<Rightarrow> nat \<Rightarrow> nat \<Rightarrow> kstate \<Rightarrow> kstate" where
  "ask_to_stop E msk g t ks =
     (if task_is_stopped (tasks ks t) then ks
      else case task_set_jobctl_pending t msk ks of
             (False, ks) \<Rightarrow> ks
           | (True, ks) \<Rightarrow>
               (let ks = upd_signal g (\<lambda>s. s\<lparr>s_group_stop_count := s_group_stop_count s + 1\<rparr>) ks
                in if t_ptrace (tasks ks t) AND PT_SEIZED E = 0 then signal_wake_up E t False ks
                   else ptrace_trap_notify E t ks))"

text \<open>Start a group stop: \<open>False\<close> when it is not to be started.\<close>

definition initiate_stop :: "kenv \<Rightarrow> int \<Rightarrow> kstate \<Rightarrow> bool \<times> kstate" where
  "initiate_stop E signr ks =
     (let t = cur ks; g = t_signal (tasks ks t);
          ks = (if signr AND NOT 0xffff \<noteq> 0 then ev Ev_Warn ks else ks)
      in if t_jobctl (tasks ks t) AND JOBCTL_STOP_DEQUEUED = 0 \<or> signal_group_exit (signals ks g) then (False, ks)
         else
           let msk = word_of_int signr OR JOBCTL_STOP_PENDING OR JOBCTL_STOP_CONSUME;
               ks = (if s_flags (signals ks g) AND SIGNAL_STOP_STOPPED = 0
                     then upd_signal g (\<lambda>s. s\<lparr>s_group_exit_code := signr\<rparr>) ks else ks);
               ks = upd_signal g (\<lambda>s. s\<lparr>s_group_stop_count := 0\<rparr>) ks;
               ks = (case task_set_jobctl_pending t msk ks of
                       (b, ks) \<Rightarrow> if b then upd_signal g (\<lambda>s. s\<lparr>s_group_stop_count := s_group_stop_count s + 1\<rparr>) ks else ks)
           in (True, fold (ask_to_stop E msk g) (tl (group_from ks t)) ks))"

text \<open>Take part in the stop and sleep until SIGCONT or SIGKILL; windows: the unlock and the sleep.\<close>

definition stop_and_sleep :: "kenv \<Rightarrow> kstate \<times> world \<Rightarrow> (kstate \<times> world) option" where
  "stop_and_sleep E kw =
     (case kw of (ks, w) \<Rightarrow>
        (case task_participate_group_stop (cur ks) ks of
           (last_one, ks) \<Rightarrow>
             (case unlocked (upd_task (cur ks) (\<lambda>k. k\<lparr>t_state := TASK_STOPPED\<rparr>) ks, w) of
                None \<Rightarrow> None
              | Some (ks, w) \<Rightarrow>
                  unlocked (if last_one then do_notify_parent_cldstop E (cur ks) False CLD_STOPPED ks else ks, w))))"

definition do_signal_stop :: "kenv \<Rightarrow> int \<Rightarrow> kstate \<times> world \<Rightarrow> (bool \<times> kstate \<times> world) option" where
  "do_signal_stop E signr kw =
     (case kw of (ks, w) \<Rightarrow>
        (case (if t_jobctl (tasks ks (cur ks)) AND JOBCTL_STOP_PENDING = 0 then initiate_stop E signr ks else (True, ks)) of
           (False, ks) \<Rightarrow> Some (False, ks, w)
         | (True, ks) \<Rightarrow>
             if t_ptrace (tasks ks (cur ks)) = 0
             then (case stop_and_sleep E (ks, w) of None \<Rightarrow> None | Some (ks, w) \<Rightarrow> Some (True, ks, w))
             else Some (False, snd (task_set_jobctl_pending (cur ks) JOBCTL_TRAP_STOP ks), w)))"

definition do_jobctl_trap :: "kenv \<Rightarrow> kstate \<times> world \<Rightarrow> (kstate \<times> world) option" where
  "do_jobctl_trap E kw =
     (case kw of (ks, w) \<Rightarrow>
        (let t = tasks ks (cur ks); s = sig_of ks (cur ks);
             signr = uint (t_jobctl t AND JOBCTL_STOP_SIGMASK)
         in if t_ptrace t AND PT_SEIZED E \<noteq> 0
            then let signr = (if s_group_stop_count s = 0 \<and> s_flags s AND SIGNAL_STOP_STOPPED = 0 then SIGTRAP else signr)
                 in ptrace_do_notify E signr (signr OR PTRACE_EVENT_STOP E * 256) CLD_STOPPED (warn_if (signr = 0) ks, w)
            else (case ptrace_stop E signr CLD_STOPPED False None (warn_if (signr = 0) ks, w) of
                    None \<Rightarrow> None
                  | Some (_, ks, w) \<Rightarrow> Some (upd_task (cur ks) (\<lambda>k. k\<lparr>t_exit_code := 0\<rparr>) ks, w))))"

text \<open>The tracer may change or cancel the signal. It answers through \<open>exit_code\<close>, and may have replaced \<open>*info\<close>.\<close>

definition ptrace_signal ::
  "kenv \<Rightarrow> int \<Rightarrow> siginfo \<Rightarrow> kstate \<times> world \<Rightarrow> (int \<times> siginfo \<times> kstate \<times> world) option" where
  "ptrace_signal E signr info kw =
     (case kw of (ks, w) \<Rightarrow>
        (case ptrace_stop E signr CLD_TRAPPED False (Some info)
                (upd_task (cur ks) (\<lambda>k. k\<lparr>t_jobctl := t_jobctl k OR JOBCTL_STOP_DEQUEUED\<rparr>) ks, w) of
           None \<Rightarrow> None
         | Some (i, ks, w) \<Rightarrow>
             (let t = cur ks; signr = t_exit_code (tasks ks t); info = (case i of Some i \<Rightarrow> i | None \<Rightarrow> info) in
              if signr = 0 then Some (0, info, ks, w)
              else
                let ks = upd_task t (\<lambda>k. k\<lparr>t_exit_code := 0\<rparr>) ks;
                    parent = t_parent (tasks ks t);
                    info = (if signr \<noteq> si_signo info
                            then info\<lparr>si_signo := signr, si_errno := 0, si_code := SI_USER,
                                   si_pid := pid_nr E parent t, si_uid := c_uid (t_cred (tasks ks parent))\<rparr>
                            else info)
                in if sigismember (t_blocked (tasks ks t)) signr
                   then Some (0, info, snd (specific_send_sig_info E signr (Info info) t ks), w)
                   else Some (signr, info, ks, w))))"

section \<open>\<open>get_signal_to_deliver\<close>\<close>

datatype delivery = Run_Handler int siginfo k_sigaction | No_Signal | Do_Group_Exit int

text \<open>How a piece of the function ends: at the label \<open>relock\<close>, at the loop head, or for good.\<close>

datatype jump = Relock | Again | Finish delivery

text \<open>From \<open>relock\<close> to the loop: a continued or completed stop is reported first.\<close>

definition report_cld :: "kenv \<Rightarrow> kstate \<times> world \<Rightarrow> (jump \<times> kstate \<times> world) option" where
  "report_cld E kw =
     (case unlocked kw of
        None \<Rightarrow> None
      | Some (ks, w) \<Rightarrow>
          (let t = cur ks; g = t_signal (tasks ks t) in
           if s_flags (signals ks g) AND SIGNAL_CLD_MASK \<noteq> 0 then
             (let why = (if s_flags (signals ks g) AND SIGNAL_CLD_CONTINUED \<noteq> 0 then CLD_CONTINUED else CLD_STOPPED);
                  ks = upd_signal g (\<lambda>s. s\<lparr>s_flags := s_flags s AND NOT SIGNAL_CLD_MASK\<rparr>) ks;
                  ks = do_notify_parent_cldstop E t False why ks;
                  leader = t_group_leader (tasks ks t);
                  ks = (if ptrace_reparented E leader then do_notify_parent_cldstop E leader True why ks else ks)
              in Some (Relock, ks, w))
           else Some (Again, ks, w)))"

text \<open>The default action of a stop signal; the check for an orphaned group drops the lock.\<close>

definition default_stop :: "kenv \<Rightarrow> int \<Rightarrow> siginfo \<Rightarrow> kstate \<times> world \<Rightarrow> (jump \<times> kstate \<times> world) option" where
  "default_stop E signr info kw =
     (let stop = (\<lambda>kw. case do_signal_stop E (si_signo info) kw of
            None \<Rightarrow> None
          | Some (b, ks, w) \<Rightarrow> Some (if b then Relock else Again, ks, w))
      in if signr \<noteq> SIGSTOP
         then (case unlocked kw of
                 None \<Rightarrow> None
               | Some (ks, w) \<Rightarrow>
                   if is_current_pgrp_orphaned E (cur ks) then Some (Relock, ks, w) else stop (ks, w))
         else stop kw)"

text \<open>What is done with a dequeued signal.\<close>

definition act_on :: "kenv \<Rightarrow> int \<Rightarrow> siginfo \<Rightarrow> kstate \<times> world \<Rightarrow> (jump \<times> kstate \<times> world) option" where
  "act_on E signr info kw =
     (case kw of (ks, w) \<Rightarrow>
        (let t = cur ks; ka = action (hand_of ks t) ! sigidx signr in
         if sa_handler ka = SIG_IGN then Some (Again, ks, w)
         else if sa_handler ka \<noteq> SIG_DFL then
           Some (Finish (Run_Handler signr info ka),
                 if sa_flags ka AND SA_ONESHOT \<noteq> 0 then set_handler t signr SIG_DFL ks else ks, w)
         else if sig_kernel_ignore signr then Some (Again, ks, w)
         else if s_flags (sig_of ks t) AND SIGNAL_UNKILLABLE \<noteq> 0 \<and> \<not> sig_kernel_only signr then Some (Again, ks, w)
         else if sig_kernel_stop signr then default_stop E signr info (ks, w)
         else
           let ks = upd_task t (\<lambda>k. k\<lparr>t_flags := t_flags k OR PF_SIGNALED\<rparr>) ks;
               ks = (if sig_kernel_coredump signr then ev (Ev_Coredump (si_signo info)) ks else ks)
           in Some (Finish (Do_Group_Exit (si_signo info)), ks, w)))"

text \<open>One iteration of the loop, with the new contents of \<open>*info\<close>.\<close>

definition loop_body :: "kenv \<Rightarrow> siginfo \<Rightarrow> kstate \<times> world \<Rightarrow> (siginfo \<times> jump \<times> kstate \<times> world) option" where
  "loop_body E info kw =
     (case kw of (ks, w) \<Rightarrow>
        (case (if t_jobctl (tasks ks (cur ks)) AND JOBCTL_STOP_PENDING \<noteq> 0 then do_signal_stop E 0 (ks, w)
               else Some (False, ks, w)) of
           None \<Rightarrow> None
         | Some (True, ks, w) \<Rightarrow> Some (info, Relock, ks, w)
         | Some (False, ks, w) \<Rightarrow>
             if t_jobctl (tasks ks (cur ks)) AND JOBCTL_TRAP_MASK \<noteq> 0
             then (case do_jobctl_trap E (ks, w) of None \<Rightarrow> None | Some (ks, w) \<Rightarrow> Some (info, Relock, ks, w))
             else
               (case dequeue_signal E (cur ks) (t_blocked (tasks ks (cur ks))) info ks of
                  (signr, info, ks) \<Rightarrow>
                    if signr = 0 then Some (info, Finish No_Signal, ks, w)
                    else
                      (case (if t_ptrace (tasks ks (cur ks)) \<noteq> 0 \<and> signr \<noteq> SIGKILL
                             then ptrace_signal E signr info (ks, w) else Some (signr, info, ks, w)) of
                         None \<Rightarrow> None
                       | Some (signr, info, ks, w) \<Rightarrow>
                           if signr = 0 then Some (info, Again, ks, w)
                           else (case act_on E signr info (ks, w) of
                                   None \<Rightarrow> None | Some (j, kw) \<Rightarrow> Some (info, j, kw))))))"

text \<open>The whole function, each piece one unit of fuel; it starts at \<open>relock\<close>.\<close>

fun deliver :: "nat \<Rightarrow> kenv \<Rightarrow> jump \<Rightarrow> siginfo \<Rightarrow> kstate \<times> world \<Rightarrow> (delivery \<times> siginfo \<times> kstate \<times> world) option" where
  "deliver n E (Finish d) info kw = Some (d, info, kw)"
| "deliver 0 E j info kw = None"
| "deliver (Suc n) E Relock info kw =
     (case report_cld E kw of None \<Rightarrow> None | Some (j, kw) \<Rightarrow> deliver n E j info kw)"
| "deliver (Suc n) E Again info kw =
     (case loop_body E info kw of None \<Rightarrow> None | Some (info, j, kw) \<Rightarrow> deliver n E j info kw)"

definition get_signal_to_deliver ::
  "nat \<Rightarrow> kenv \<Rightarrow> siginfo \<Rightarrow> kstate \<times> world \<Rightarrow> (delivery \<times> siginfo \<times> kstate \<times> world) option" where
  "get_signal_to_deliver fuel E info kw = deliver fuel E Relock info kw"

end
