(* ===== verification/Signal_Sample.thy ===== *)
theory Signal_Sample
  imports Sig_Counter_Facts Sig_Mask_Facts Sig_Stop_Facts Sig_Deliver
begin

text \<open>
  A small concrete system to instantiate the properties of the signal code with: an ordinary
  user's process (task 5), a process of two threads (tasks 2 and 3) and a single-threaded one
  (task 4), with empty queues and default actions.
\<close>

definition smp_pend :: sigpending where
  "smp_pend = \<lparr>plist = [], psignal = 0\<rparr>"

definition smp_action :: k_sigaction where
  "smp_action = \<lparr>sa_handler = SIG_DFL, sa_flags = 0, sa_restorer = 0, sa_mask = 0\<rparr>"

definition smp_hand :: sighand_struct where
  "smp_hand = \<lparr>action = replicate 64 smp_action, counters = replicate 64 7\<rparr>"

definition smp_task :: "nat \<Rightarrow> u32 \<Rightarrow> task_struct" where
  "smp_task g uid = \<lparr>t_state = TASK_RUNNING, t_flags = 0, t_ptrace = 0, t_exit_state = 0, t_exit_code = 0, t_jobctl = 0,
     t_tgid = g, t_group_leader = g, t_real_parent = 5, t_parent = 5, t_session = Some g, t_signal = g,
     t_sighand = Some g, t_cred = \<lparr>c_uid = uid, c_euid = uid, c_suid = uid, c_user = unat uid, c_user_ns = 0\<rparr>,
     t_blocked = 0, t_real_blocked = 0, t_saved_sigmask = 0, t_pending = smp_pend, t_tif_sigpending = False,
     t_restore_sigmask = False, t_sas_ss_sp = 0, t_sas_ss_size = 0, t_notifier = None, t_last_siginfo = None,
     t_mm = g, t_parent_exec_id = 0, t_self_exec_id = 0, t_utime = 0, t_stime = 0\<rparr>"

definition smp_signal :: "nat \<Rightarrow> nat list \<Rightarrow> signal_struct" where
  "smp_signal t ts = \<lparr>s_curr_target = t, s_shared_pending = smp_pend, s_group_exit_code = 0, s_group_exit_task = None,
     s_group_stop_count = 0, s_flags = 0, s_it_real_incr = 0, s_timer_queued = False, s_rlim_sigpending = 1,
     s_threads = ts, s_utime = 0, s_stime = 0\<rparr>"

definition smp_state :: kstate where
  "smp_state = \<lparr>cur = 5,
     tasks = (\<lambda>t. if t = 5 then smp_task 5 1000 else if t = 2 \<or> t = 3 then smp_task 2 0 else smp_task t 0),
     signals = (\<lambda>g. if g = 2 then smp_signal 2 [2, 3] else smp_signal g (if g = 3 then [] else [g])),
     sighands = (\<lambda>_. smp_hand), sqs = (\<lambda>_. \<lparr>q_flags = 0, q_info = zero_siginfo, q_user = 0, q_linked = False\<rparr>),
     next_sq = 0, user_sigpending = (\<lambda>_. 0), klog = []\<rparr>"

text \<open>No privileges; a task is woken when its state is in the mask.\<close>

definition smp_env :: kenv where
  "smp_env = \<lparr>wake_up = (\<lambda>st m. if st AND m \<noteq> 0 then (True, TASK_RUNNING) else (False, st)),
     task_curr = (\<lambda>_. False), freezing = False, kmem_ok = (\<lambda>_. True), audit_signal_info = (\<lambda>_ _. 0),
     security_task_kill = (\<lambda>_ _ _. 0), ns_capable = (\<lambda>_. False), tgid_nr = (\<lambda>t _. int t), pid_nr = (\<lambda>t _. int t),
     nsproxy_pid = (\<lambda>t _. int t), cputime_to_clock_t = uint, stack_info = zero_siginfo,
     core_state = (\<lambda>_. False), timespec_valid = (\<lambda>_. True), timespec_to_jiffies = fst, ptrace_reparented = (\<lambda>_. False),
     arch_ptrace_stop_needed = (\<lambda>_ _. False), is_current_pgrp_orphaned = (\<lambda>_. False), PTRACE_EVENT_STOP = 7,
     PT_SEIZED = 0x10000, SI_TIMER = -2, is_timer_code = (\<lambda>_. False)\<rparr>"

definition smp_pids :: pidenv where
  "smp_pids = \<lparr>lookups = (\<lambda>pid. [Some (nat pid), None]), find_task = (\<lambda>pid. if 0 < pid then Some (nat pid) else None),
     pgrp_tasks = (\<lambda>_. [1, 2, 4]), current_pgrp = 5, processes = [5, 2, 4], pid_vnr = int, tgid_vnr = int\<rparr>"

lemmas smp_defs = smp_state_def smp_task_def smp_signal_def smp_hand_def smp_action_def smp_pend_def

lemma smp_pending [simp]: "pending_at smp_state l = smp_pend"
  by (cases l) (simp_all add: smp_defs)

lemma smp_queues_ok: "queues_ok smp_state"
  by (simp add: queues_ok_def pend_ok_def entries_for_def smp_pend_def)

lemma smp_view [simp]: "pview smp_state l = (0, [])"
  by (simp add: pview_def smp_pend_def)

lemma smp_threads: "s_threads (sig_of smp_state 2) = [2, 3]" "s_threads (sig_of smp_state 4) = [4]"
    "s_threads (sig_of smp_state 5) = [5]"
  by (simp_all add: sig_of_def smp_defs)

lemma smp_fields [simp]:
  "cur smp_state = 5" "sighands smp_state h = smp_hand" "t_sighand (tasks smp_state 5) = Some 5"
  "t_sighand (tasks smp_state 2) = Some 2" "t_sighand (tasks smp_state 4) = Some 4"
  "t_notifier (tasks smp_state t) = None" "t_blocked (tasks smp_state t) = 0" "t_real_blocked (tasks smp_state t) = 0"
  "t_jobctl (tasks smp_state t) = 0" "t_tif_sigpending (tasks smp_state t) = False"
  "t_exit_state (tasks smp_state t) = 0" "s_flags (signals smp_state g) = 0" "t_flags (tasks smp_state t) = 0"
  "t_ptrace (tasks smp_state t) = 0"
  by (simp_all add: smp_defs)

lemma smp_counters [simp]: "length (counters smp_hand) = 64" "length (action smp_hand) = 64"
  by (simp_all add: smp_hand_def)

lemma smp_handler: "signo sig \<Longrightarrow> sig_handler smp_state t sig = SIG_DFL"
  using sigidx_less [of sig] by (simp add: sig_handler_def hand_of_def smp_hand_def smp_action_def)

lemma smp_killable: "killable smp_state 2"
  by (simp add: killable_def sig_of_def smp_handler) (simp add: smp_defs)

lemma smp_target: "smunch_target smp_pids 4 smp_state 4"
  by (simp add: smunch_target_def smp_pids_def thread_group_empty_def smp_threads)

lemma smp_wakes: "wakes_by_mask smp_env"
  by (simp add: wakes_by_mask_def smp_env_def)

end
