(* ===== verification/Struct_Layout.thy ===== *)
theory Struct_Layout
  imports Kernel_Prelude
begin

text \<open>
  The layout of a C structure in memory, as the compiler of the kernel chooses it on x86-64 (LP64,
  System V). A type is a datatype, a structure the list of its fields in order; sizes and alignments
  of the types that the repository does not define are parameters. The lemmas say what every layout
  promises: fields lie at multiples of their alignment, in order, apart from each other and inside
  the structure. \<open>Sched_Structs\<close> holds the structures of \<open>sched.h\<close>.
\<close>

section \<open>Types and the application binary interface\<close>

datatype ctype =
    c_char | c_short | c_int | c_long | c_ptr
  | Ext string
  | Arr nat ctype
  | Struct "(string \<times> ctype) list"
  | Union "(string \<times> ctype) list"
  | Bits "(string \<times> nat) list"

type_synonym fields = "(string \<times> ctype) list"

text \<open>An alignment is a power of two: the record has its exponent.\<close>

record abi =
  ext_size :: "string \<Rightarrow> nat"
  ext_log :: "string \<Rightarrow> nat"

definition round_up :: "nat \<Rightarrow> nat \<Rightarrow> nat" where
  "round_up e n = (n + 2 ^ e - 1) div 2 ^ e * 2 ^ e"

primrec align_log :: "abi \<Rightarrow> ctype \<Rightarrow> nat"
  and aligns_log :: "abi \<Rightarrow> fields \<Rightarrow> nat"
  and align_field :: "abi \<Rightarrow> string \<times> ctype \<Rightarrow> nat" where
  "align_log a c_char = 0"
| "align_log a c_short = 1"
| "align_log a c_int = 2"
| "align_log a c_long = 3"
| "align_log a c_ptr = 3"
| "align_log a (Ext x) = ext_log a x"
| "align_log a (Arr n t) = align_log a t"
| "align_log a (Struct fs) = aligns_log a fs"
| "align_log a (Union fs) = aligns_log a fs"
| "align_log a (Bits bs) = 2"
| "aligns_log a [] = 0"
| "aligns_log a (f # fs) = max (align_field a f) (aligns_log a fs)"
| "align_field a (f, t) = align_log a t"

text \<open>\<open>end_of\<close> is where the fields end when the first of them is placed from byte \<open>n\<close> on. Bit
  fields take the bytes that their bits need.\<close>

primrec size_of :: "abi \<Rightarrow> ctype \<Rightarrow> nat"
  and end_of :: "abi \<Rightarrow> fields \<Rightarrow> nat \<Rightarrow> nat"
  and widest :: "abi \<Rightarrow> fields \<Rightarrow> nat"
  and size_field :: "abi \<Rightarrow> string \<times> ctype \<Rightarrow> nat" where
  "size_of a c_char = 1"
| "size_of a c_short = 2"
| "size_of a c_int = 4"
| "size_of a c_long = 8"
| "size_of a c_ptr = 8"
| "size_of a (Ext x) = ext_size a x"
| "size_of a (Arr n t) = n * size_of a t"
| "size_of a (Struct fs) = round_up (aligns_log a fs) (end_of a fs 0)"
| "size_of a (Union fs) = round_up (aligns_log a fs) (widest a fs)"
| "size_of a (Bits bs) = (sum_list (map snd bs) + 7) div 8"
| "end_of a [] n = n"
| "end_of a (f # fs) n = end_of a fs (round_up (align_field a f) n + size_field a f)"
| "widest a [] = 0"
| "widest a (f # fs) = max (size_field a f) (widest a fs)"
| "size_field a (f, t) = size_of a t"

text \<open>Where the fields lie, when the first of them is placed from byte \<open>n\<close> on.\<close>

primrec place :: "abi \<Rightarrow> fields \<Rightarrow> nat \<Rightarrow> (string \<times> nat \<times> ctype) list" where
  "place a [] n = []"
| "place a (f # fs) n =
     (let at = round_up (align_field a f) n
      in (fst f, at, snd f) # place a fs (at + size_field a f))"

definition offset_of :: "abi \<Rightarrow> fields \<Rightarrow> string \<Rightarrow> nat option" where
  "offset_of a fs x = map_of (map (\<lambda>(x, at, t). (x, at)) (place a fs 0)) x"

section \<open>Rounding\<close>

lemma round_up_ge: "n \<le> round_up e n"
  using div_mult_mod_eq [of "n + 2 ^ e - 1" "2 ^ e"] mod_less_divisor [of "2 ^ e" "n + 2 ^ e - 1"]
  unfolding round_up_def by (simp add: Suc_le_eq [symmetric])

lemma round_up_dvd: "2 ^ e dvd round_up e n"
  by (simp add: round_up_def)

lemma round_up_less: "round_up e n < n + 2 ^ e"
proof -
  have "round_up e n \<le> n + 2 ^ e - 1" by (simp add: round_up_def)
  moreover have "0 < (2::nat) ^ e" by simp
  ultimately show ?thesis by linarith
qed

lemma round_up_id:
  assumes "2 ^ e dvd n"
  shows "round_up e n = n"
proof -
  have "2 ^ e dvd round_up e n - n" using assms round_up_dvd by (rule dvd_diff_nat [rotated])
  moreover have "round_up e n - n < 2 ^ e" using round_up_less [of e n] round_up_ge [of n e] by linarith
  ultimately have "round_up e n - n = 0" by (metis dvd_imp_le not_less zero_less_iff_neq_zero)
  with round_up_ge [of n e] show ?thesis by simp
qed

section \<open>What a layout promises\<close>

lemma align_field [simp]: "align_field a f = align_log a (snd f)"
  by (cases f) simp

lemma size_field [simp]: "size_field a f = size_of a (snd f)"
  by (cases f) simp

lemma aligns_append [simp]: "aligns_log a (fs @ gs) = max (aligns_log a fs) (aligns_log a gs)"
  by (induction fs) auto

lemma end_of_append [simp]: "end_of a (fs @ gs) n = end_of a gs (end_of a fs n)"
  by (induction fs arbitrary: n) auto

lemma place_append [simp]: "place a (fs @ gs) n = place a fs n @ place a gs (end_of a fs n)"
  by (induction fs arbitrary: n) (auto simp: Let_def)

lemma place_names [simp]: "map fst (place a fs n) = map fst fs"
  by (induction fs arbitrary: n) (auto simp: Let_def)

lemma end_of_ge: "n \<le> end_of a fs n"
proof (induction fs arbitrary: n)
  case (Cons f fs)
  show ?case using Cons [of "round_up (align_field a f) n + size_field a f"] round_up_ge [of n "align_field a f"] by simp
qed simp

lemma place_bounds:
  assumes "(x, at, t) \<in> set (place a fs n)"
  shows "n \<le> at \<and> 2 ^ align_log a t dvd at \<and> at + size_of a t \<le> end_of a fs n \<and>
    align_log a t \<le> aligns_log a fs"
  using assms
proof (induction fs arbitrary: n)
  case (Cons f fs)
  let ?o = "round_up (align_field a f) n"
  from Cons.prems consider "(x, at, t) = (fst f, ?o, snd f)" | "(x, at, t) \<in> set (place a fs (?o + size_field a f))"
    by (auto simp: Let_def)
  then show ?case
  proof cases
    case 1
    then show ?thesis using round_up_ge [of n] round_up_dvd [of "align_log a t" n]
        end_of_ge [of "?o + size_field a f" a fs] by auto
  next
    case 2
    from Cons.IH [OF 2] show ?thesis using round_up_ge [of n "align_field a f"] by auto
  qed
qed simp

definition apart :: "abi \<Rightarrow> string \<times> nat \<times> ctype \<Rightarrow> string \<times> nat \<times> ctype \<Rightarrow> bool" where
  "apart a = (\<lambda>(x, at, t) (y, at', t'). at + size_of a t \<le> at')"

lemma place_sorted: "sorted_wrt (apart a) (place a fs n)"
proof (induction fs arbitrary: n)
  case (Cons f fs)
  then show ?case using place_bounds [of _ _ _ a fs] by (fastforce simp: Let_def apart_def)
qed simp

text \<open>A structure is laid out soundly when its fields are aligned, apart and inside it, and its
  size keeps the next element of an array aligned.\<close>

definition sits_in :: "abi \<Rightarrow> fields \<Rightarrow> string \<times> nat \<times> ctype \<Rightarrow> bool" where
  "sits_in a fs = (\<lambda>(x, at, t). 2 ^ align_log a t dvd at \<and> at + size_of a t \<le> size_of a (Struct fs) \<and>
     2 ^ align_log a t dvd size_of a (Struct fs))"

definition laid_out :: "abi \<Rightarrow> fields \<Rightarrow> bool" where
  "laid_out a fs \<longleftrightarrow> list_all (sits_in a fs) (place a fs 0) \<and> sorted_wrt (apart a) (place a fs 0)"

lemma place_inside:
  assumes "(x, at, t) \<in> set (place a fs 0)"
  shows "2 ^ align_log a t dvd at" "at + size_of a t \<le> size_of a (Struct fs)"
    "2 ^ align_log a t dvd size_of a (Struct fs)"
proof -
  note b = place_bounds [OF assms]
  show "2 ^ align_log a t dvd at" using b by simp
  show "at + size_of a t \<le> size_of a (Struct fs)"
    using b round_up_ge [of "end_of a fs 0" "aligns_log a fs"] by simp
  have "(2::nat) ^ align_log a t dvd 2 ^ aligns_log a fs" using b by (simp add: le_imp_power_dvd)
  then show "2 ^ align_log a t dvd size_of a (Struct fs)"
    using round_up_dvd [of "aligns_log a fs" "end_of a fs 0"] by (simp only: size_of.simps) (rule dvd_trans)
qed

lemma every_layout: "laid_out a fs"
  using place_inside [of _ _ _ a fs] place_sorted [of a fs 0]
  by (auto simp: laid_out_def list_all_iff sits_in_def simp del: size_of.simps)

text \<open>The last field: where it lies, and how much may follow it.\<close>

lemma last_field:
  assumes "x \<notin> fst ` set fs"
  shows "offset_of a (fs @ [(x, t)]) x = Some (round_up (align_log a t) (end_of a fs 0))"
proof -
  have "map fst (map (\<lambda>(x, at, t). (x, at)) (place a fs 0)) = map fst (place a fs 0)"
    by (simp only: map_map comp_def case_prod_unfold fst_conv)
  then have "map_of (map (\<lambda>(x, at, t). (x, at)) (place a fs 0)) x = None"
    using assms unfolding map_of_eq_None_iff set_map [symmetric] by (simp only: place_names not_False_eq_True)
  then show ?thesis by (simp add: offset_of_def map_add_def Let_def)
qed

lemma size_last:
  "size_of a (Struct (fs @ [(x, t)])) =
     round_up (max (aligns_log a fs) (align_log a t)) (round_up (align_log a t) (end_of a fs 0) + size_of a t)"
  by simp

lemma place_last:
  "place a (fs @ [(x, t)]) 0 = place a fs 0 @ [(x, round_up (align_log a t) (end_of a fs 0), t)]"
  by (simp add: Let_def)

lemma field_before_last:
  assumes "(y, at, u) \<in> set (place a (fs @ [(x, t)]) 0)"
  shows "at + size_of a u \<le> round_up (align_log a t) (end_of a fs 0) + size_of a t"
proof (cases "(y, at, u) \<in> set (place a fs 0)")
  case True
  from place_bounds [OF this] round_up_ge [of "end_of a fs 0" "align_log a t"] show ?thesis by linarith
next
  case False
  with assms show ?thesis unfolding place_last by auto
qed

lemma words_between: "4 dvd b \<Longrightarrow> 4 dvd s \<Longrightarrow> s < b + 8 \<Longrightarrow> s \<le> b + (4::nat)"
  by presburger

text \<open>A structure that ends with an array of words and needs no more than 8-byte alignment: the
  first element past the array hits no field, the second lies behind the structure.\<close>

definition runs_out :: "abi \<Rightarrow> fields \<Rightarrow> string \<Rightarrow> nat \<Rightarrow> bool" where
  "runs_out a fs x n \<longleftrightarrow>
     (\<exists>base. offset_of a fs x = Some base \<and>
        list_all (\<lambda>(y, at, t). at + size_of a t \<le> base + 4 * n) (place a fs 0) \<and>
        size_of a (Struct fs) \<le> base + 4 * (n + 1))"

lemma word_array_at_end:
  assumes "x \<notin> fst ` set fs" and al: "aligns_log a fs \<le> 3"
  shows "runs_out a (fs @ [(x, Arr n c_int)]) x n"
proof -
  let ?b = "round_up 2 (end_of a fs 0)" and ?m = "max (aligns_log a fs) 2"
  have off: "offset_of a (fs @ [(x, Arr n c_int)]) x = Some ?b"
    using last_field [OF assms(1), of a "Arr n c_int"] by simp
  have size: "size_of a (Struct (fs @ [(x, Arr n c_int)])) = round_up ?m (?b + 4 * n)"
    unfolding size_last by (simp add: mult.commute)
  have fields: "at + size_of a t \<le> ?b + 4 * n" if "(y, at, t) \<in> set (place a (fs @ [(x, Arr n c_int)]) 0)" for y at t
    using field_before_last [OF that] by (simp add: mult.commute)
  have "4 dvd ?b" using round_up_dvd [of 2 "end_of a fs 0"] by simp
  then have b: "4 dvd ?b + 4 * n" by (rule dvd_add) simp
  have "(2::nat) ^ 2 dvd 2 ^ ?m" by (rule le_imp_power_dvd) simp
  then have s: "4 dvd round_up ?m (?b + 4 * n)" using round_up_dvd [of ?m "?b + 4 * n"] by (auto elim: dvd_trans)
  have "(2::nat) ^ ?m \<le> 2 ^ 3" using al by (intro power_increasing) auto
  also have "\<dots> = 8" by simp
  finally have "(2::nat) ^ ?m \<le> 8" .
  with round_up_less [of ?m "?b + 4 * n"] have "round_up ?m (?b + 4 * n) < ?b + 4 * n + 8" by linarith
  from words_between [OF b s this] have "round_up ?m (?b + 4 * n) \<le> ?b + 4 * (n + 1)" by simp
  then have "size_of a (Struct (fs @ [(x, Arr n c_int)])) \<le> ?b + 4 * (n + 1)" unfolding size .
  with off fields show ?thesis unfolding runs_out_def list_all_iff by blast
qed

text \<open>An array of length 0 at the end, of elements that need the alignment of the structure, begins
  where the structure ends: it takes exactly the space attached to the structure.\<close>

lemma attached_array:
  assumes "x \<notin> fst ` set fs" and al: "aligns_log a fs \<le> align_log a t"
  shows "offset_of a (fs @ [(x, Arr 0 t)]) x = Some (size_of a (Struct (fs @ [(x, Arr 0 t)])))"
proof -
  let ?b = "round_up (align_log a t) (end_of a fs 0)"
  have "size_of a (Struct (fs @ [(x, Arr 0 t)])) = round_up (align_log a t) ?b"
    unfolding size_last using al by (simp add: max_def)
  also have "\<dots> = ?b" by (rule round_up_id [OF round_up_dvd])
  finally show ?thesis using last_field [OF assms(1), of a "Arr 0 t"] by simp
qed

end
