(* ===== verification/Sched_Structs.thy ===== *)
theory Sched_Structs
  imports Struct_Layout
begin

text \<open>
  The structures of \<open>sched.h\<close> field by field, under every configuration of the kernel, and what
  their layout means for the code: where an element past the end of the signal counters lies, and
  where the CPU masks of the scheduling domains begin.
\<close>

text \<open>\<open>opt\<close> tells which \<open>CONFIG_\<close> symbols are set, \<open>bound\<close> gives the array bounds that other
  headers define. \<open>_NSIG\<close> is 64, \<open>PIDTYPE_MAX\<close> and \<open>CPU_MAX_IDLE_TYPES\<close> are 3, \<open>TASK_COMM_LEN\<close>
  is 16, \<open>perf_nr_task_contexts\<close> 2 and \<open>MAX_LOCK_DEPTH\<close> 48.\<close>

record config =
  opt :: "string \<Rightarrow> bool"
  bound :: "string \<Rightarrow> nat"

definition given :: "bool \<Rightarrow> fields \<Rightarrow> fields" where
  "given b fs = (if b then fs else [])"

section \<open>The structures\<close>

text \<open>Parameters of a scheduling policy.\<close>

definition sched_param_fields :: "config \<Rightarrow> fields" where
  "sched_param_fields c =
     [(''sched_priority'', c_int)]"

text \<open>The shared signal handlers of a thread group, with the counters that the repository adds.\<close>

definition sighand_struct_fields :: "config \<Rightarrow> fields" where
  "sighand_struct_fields c =
     [(''count'', Ext ''atomic_t''), (''action'', Arr 64 (Ext ''struct k_sigaction'')),
      (''siglock'', Ext ''spinlock_t''), (''signalfd_wqh'', Ext ''wait_queue_head_t''),
      (''counters'', Arr 64 c_int)]"

text \<open>Process accounting, interval timers and CPU times.\<close>

definition pacct_struct_fields :: "config \<Rightarrow> fields" where
  "pacct_struct_fields c =
     [(''ac_flag'', c_int), (''ac_exitcode'', c_long), (''ac_mem'', c_long),
      (''ac_utime'', Ext ''cputime_t''), (''ac_stime'', Ext ''cputime_t''),
      (''ac_minflt'', c_long), (''ac_majflt'', c_long)]"

definition cpu_itimer_fields :: "config \<Rightarrow> fields" where
  "cpu_itimer_fields c =
     [(''expires'', Ext ''cputime_t''), (''incr'', Ext ''cputime_t''), (''error'', c_int),
      (''incr_error'', c_int)]"

definition task_cputime_fields :: "config \<Rightarrow> fields" where
  "task_cputime_fields c =
     [(''utime'', Ext ''cputime_t''), (''stime'', Ext ''cputime_t''),
      (''sum_exec_runtime'', c_long)]"

definition thread_group_cputimer_fields :: "config \<Rightarrow> fields" where
  "thread_group_cputimer_fields c =
     [(''cputime'', Struct (task_cputime_fields c)), (''running'', c_int),
      (''lock'', Ext ''raw_spinlock_t'')]"

text \<open>What the threads of a group share.\<close>

definition signal_struct_fields :: "config \<Rightarrow> fields" where
  "signal_struct_fields c =
     [(''sigcnt'', Ext ''atomic_t''), (''live'', Ext ''atomic_t''), (''nr_threads'', c_int),
      (''wait_chldexit'', Ext ''wait_queue_head_t''), (''curr_target'', c_ptr),
      (''shared_pending'', Ext ''struct sigpending''), (''group_exit_code'', c_int),
      (''notify_count'', c_int), (''group_exit_task'', c_ptr), (''group_stop_count'', c_int),
      (''flags'', c_int), (''posix_timers'', Ext ''struct list_head''),
      (''real_timer'', Ext ''struct hrtimer''), (''leader_pid'', c_ptr),
      (''it_real_incr'', Ext ''ktime_t''), (''it'', Arr 2 (Struct (cpu_itimer_fields c))),
      (''cputimer'', Struct (thread_group_cputimer_fields c)),
      (''cputime_expires'', Struct (task_cputime_fields c)),
      (''cpu_timers'', Arr 3 (Ext ''struct list_head'')), (''tty_old_pgrp'', c_ptr),
      (''leader'', c_int), (''tty'', c_ptr)] @
     given (opt c ''CONFIG_SCHED_AUTOGROUP'')
         [(''autogroup'', c_ptr)] @
     [(''utime'', Ext ''cputime_t''), (''stime'', Ext ''cputime_t''),
      (''cutime'', Ext ''cputime_t''), (''cstime'', Ext ''cputime_t''),
      (''gtime'', Ext ''cputime_t''), (''cgtime'', Ext ''cputime_t'')] @
     given (\<not> opt c ''CONFIG_VIRT_CPU_ACCOUNTING'')
         [(''prev_utime'', Ext ''cputime_t''), (''prev_stime'', Ext ''cputime_t'')] @
     [(''nvcsw'', c_long), (''nivcsw'', c_long), (''cnvcsw'', c_long), (''cnivcsw'', c_long),
      (''min_flt'', c_long), (''maj_flt'', c_long), (''cmin_flt'', c_long), (''cmaj_flt'', c_long),
      (''inblock'', c_long), (''oublock'', c_long), (''cinblock'', c_long), (''coublock'', c_long),
      (''maxrss'', c_long), (''cmaxrss'', c_long), (''ioac'', Ext ''struct task_io_accounting''),
      (''sum_sched_runtime'', c_long),
      (''rlim'', Arr (bound c ''RLIM_NLIMITS'') (Ext ''struct rlimit''))] @
     given (opt c ''CONFIG_BSD_PROCESS_ACCT'')
         [(''pacct'', Struct (pacct_struct_fields c))] @
     given (opt c ''CONFIG_TASKSTATS'')
         [(''stats'', c_ptr)] @
     given (opt c ''CONFIG_AUDIT'')
         [(''audit_tty'', c_int), (''tty_audit_buf'', c_ptr)] @
     given (opt c ''CONFIG_CGROUPS'')
         [(''threadgroup_fork_lock'', Ext ''struct rw_semaphore'')] @
     [(''oom_adj'', c_int), (''oom_score_adj'', c_int), (''oom_score_adj_min'', c_int),
      (''cred_guard_mutex'', Ext ''struct mutex'')]"

text \<open>What the processes of a user share.\<close>

definition user_struct_fields :: "config \<Rightarrow> fields" where
  "user_struct_fields c =
     [(''__count'', Ext ''atomic_t''), (''processes'', Ext ''atomic_t''),
      (''files'', Ext ''atomic_t''), (''sigpending'', Ext ''atomic_t'')] @
     given (opt c ''CONFIG_INOTIFY_USER'')
         [(''inotify_watches'', Ext ''atomic_t''), (''inotify_devs'', Ext ''atomic_t'')] @
     given (opt c ''CONFIG_FANOTIFY'')
         [(''fanotify_listeners'', Ext ''atomic_t'')] @
     given (opt c ''CONFIG_EPOLL'')
         [(''epoll_watches'', Ext ''atomic_long_t'')] @
     given (opt c ''CONFIG_POSIX_MQUEUE'')
         [(''mq_bytes'', c_long)] @
     [(''locked_shm'', c_long)] @
     given (opt c ''CONFIG_KEYS'')
         [(''uid_keyring'', c_ptr), (''session_keyring'', c_ptr)] @
     [(''uidhash_node'', Ext ''struct hlist_node''), (''uid'', Ext ''uid_t''),
      (''user_ns'', c_ptr)] @
     given (opt c ''CONFIG_PERF_EVENTS'')
         [(''locked_vm'', Ext ''atomic_long_t'')]"

text \<open>Scheduling statistics of a task.\<close>

definition sched_info_fields :: "config \<Rightarrow> fields" where
  "sched_info_fields c =
     [(''pcount'', c_long), (''run_delay'', c_long), (''last_arrival'', c_long),
      (''last_queued'', c_long)]"

definition task_delay_info_fields :: "config \<Rightarrow> fields" where
  "task_delay_info_fields c =
     [(''lock'', Ext ''spinlock_t''), (''flags'', c_int),
      (''blkio_start'', Ext ''struct timespec''), (''blkio_end'', Ext ''struct timespec''),
      (''blkio_delay'', c_long), (''swapin_delay'', c_long), (''blkio_count'', c_int),
      (''swapin_count'', c_int), (''freepages_start'', Ext ''struct timespec''),
      (''freepages_end'', Ext ''struct timespec''), (''freepages_delay'', c_long),
      (''freepages_count'', c_int)]"

text \<open>Scheduling domains. The masks at the end of \<open>sched_group\<close> and \<open>sched_domain\<close> are arrays
  of length 0: whoever allocates the structure attaches the space behind it.\<close>

definition sched_group_power_fields :: "config \<Rightarrow> fields" where
  "sched_group_power_fields c =
     [(''ref'', Ext ''atomic_t''), (''power'', c_int), (''power_orig'', c_int)]"

definition sched_group_fields :: "config \<Rightarrow> fields" where
  "sched_group_fields c =
     [(''next'', c_ptr), (''ref'', Ext ''atomic_t''), (''group_weight'', c_int), (''sgp'', c_ptr),
      (''cpumask'', Arr 0 c_long)]"

definition sched_domain_attr_fields :: "config \<Rightarrow> fields" where
  "sched_domain_attr_fields c =
     [(''relax_domain_level'', c_int)]"

definition sched_domain_fields :: "config \<Rightarrow> fields" where
  "sched_domain_fields c =
     [(''parent'', c_ptr), (''child'', c_ptr), (''groups'', c_ptr), (''min_interval'', c_long),
      (''max_interval'', c_long), (''busy_factor'', c_int), (''imbalance_pct'', c_int),
      (''cache_nice_tries'', c_int), (''busy_idx'', c_int), (''idle_idx'', c_int),
      (''newidle_idx'', c_int), (''wake_idx'', c_int), (''forkexec_idx'', c_int),
      (''smt_gain'', c_int), (''flags'', c_int), (''level'', c_int), (''last_balance'', c_long),
      (''balance_interval'', c_int), (''nr_balance_failed'', c_int), (''last_update'', c_long)] @
     given (opt c ''CONFIG_SCHEDSTATS'')
         [(''lb_count'', Arr 3 c_int), (''lb_failed'', Arr 3 c_int),
          (''lb_balanced'', Arr 3 c_int), (''lb_imbalance'', Arr 3 c_int),
          (''lb_gained'', Arr 3 c_int), (''lb_hot_gained'', Arr 3 c_int),
          (''lb_nobusyg'', Arr 3 c_int), (''lb_nobusyq'', Arr 3 c_int), (''alb_count'', c_int),
          (''alb_failed'', c_int), (''alb_pushed'', c_int), (''sbe_count'', c_int),
          (''sbe_balanced'', c_int), (''sbe_pushed'', c_int), (''sbf_count'', c_int),
          (''sbf_balanced'', c_int), (''sbf_pushed'', c_int), (''ttwu_wake_remote'', c_int),
          (''ttwu_move_affine'', c_int), (''ttwu_move_balance'', c_int)] @
     given (opt c ''CONFIG_SCHED_DEBUG'')
         [(''name'', c_ptr)] @
     [(''u'', Union ([(''private'', c_ptr), (''rcu'', Ext ''struct rcu_head'')])),
      (''span_weight'', c_int), (''span'', Arr 0 c_long)]"

text \<open>A scheduling class: a table of functions.\<close>

definition sched_class_fields :: "config \<Rightarrow> fields" where
  "sched_class_fields c =
     [(''next'', c_ptr), (''enqueue_task'', c_ptr), (''dequeue_task'', c_ptr),
      (''yield_task'', c_ptr), (''yield_to_task'', c_ptr), (''check_preempt_curr'', c_ptr),
      (''pick_next_task'', c_ptr), (''put_prev_task'', c_ptr)] @
     given (opt c ''CONFIG_SMP'')
         [(''select_task_rq'', c_ptr), (''pre_schedule'', c_ptr), (''post_schedule'', c_ptr),
          (''task_waking'', c_ptr), (''task_woken'', c_ptr), (''set_cpus_allowed'', c_ptr),
          (''rq_online'', c_ptr), (''rq_offline'', c_ptr)] @
     [(''set_curr_task'', c_ptr), (''task_tick'', c_ptr), (''task_fork'', c_ptr),
      (''switched_from'', c_ptr), (''switched_to'', c_ptr), (''prio_changed'', c_ptr),
      (''get_rr_interval'', c_ptr)] @
     given (opt c ''CONFIG_FAIR_GROUP_SCHED'')
         [(''task_move_group'', c_ptr)]"

text \<open>What the fair and the real-time class keep in a task.\<close>

definition load_weight_fields :: "config \<Rightarrow> fields" where
  "load_weight_fields c =
     [(''weight'', c_long), (''inv_weight'', c_long)]"

definition sched_statistics_fields :: "config \<Rightarrow> fields" where
  "sched_statistics_fields c =
     [(''wait_start'', c_long), (''wait_max'', c_long), (''wait_count'', c_long),
      (''wait_sum'', c_long), (''iowait_count'', c_long), (''iowait_sum'', c_long),
      (''sleep_start'', c_long), (''sleep_max'', c_long), (''sum_sleep_runtime'', c_long),
      (''block_start'', c_long), (''block_max'', c_long), (''exec_max'', c_long),
      (''slice_max'', c_long), (''nr_migrations_cold'', c_long),
      (''nr_failed_migrations_affine'', c_long), (''nr_failed_migrations_running'', c_long),
      (''nr_failed_migrations_hot'', c_long), (''nr_forced_migrations'', c_long),
      (''nr_wakeups'', c_long), (''nr_wakeups_sync'', c_long), (''nr_wakeups_migrate'', c_long),
      (''nr_wakeups_local'', c_long), (''nr_wakeups_remote'', c_long),
      (''nr_wakeups_affine'', c_long), (''nr_wakeups_affine_attempts'', c_long),
      (''nr_wakeups_passive'', c_long), (''nr_wakeups_idle'', c_long)]"

definition sched_entity_fields :: "config \<Rightarrow> fields" where
  "sched_entity_fields c =
     [(''load'', Struct (load_weight_fields c)), (''run_node'', Ext ''struct rb_node''),
      (''group_node'', Ext ''struct list_head''), (''on_rq'', c_int), (''exec_start'', c_long),
      (''sum_exec_runtime'', c_long), (''vruntime'', c_long), (''prev_sum_exec_runtime'', c_long),
      (''nr_migrations'', c_long)] @
     given (opt c ''CONFIG_SCHEDSTATS'')
         [(''statistics'', Struct (sched_statistics_fields c))] @
     given (opt c ''CONFIG_FAIR_GROUP_SCHED'')
         [(''parent'', c_ptr), (''cfs_rq'', c_ptr), (''my_q'', c_ptr)]"

definition sched_rt_entity_fields :: "config \<Rightarrow> fields" where
  "sched_rt_entity_fields c =
     [(''run_list'', Ext ''struct list_head''), (''timeout'', c_long), (''time_slice'', c_int),
      (''nr_cpus_allowed'', c_int), (''back'', c_ptr)] @
     given (opt c ''CONFIG_RT_GROUP_SCHED'')
         [(''parent'', c_ptr), (''rt_rq'', c_ptr), (''my_q'', c_ptr)]"

text \<open>A task, in three parts: what the scheduler uses, the family of the task up to its
  audit data, and locks and resources.\<close>

definition task_run_fields :: "config \<Rightarrow> fields" where
  "task_run_fields c =
     [(''state'', c_long), (''stack'', c_ptr), (''usage'', Ext ''atomic_t''), (''flags'', c_int),
      (''ptrace'', c_int)] @
     given (opt c ''CONFIG_SMP'')
         [(''wake_entry'', Ext ''struct llist_node''), (''on_cpu'', c_int)] @
     [(''on_rq'', c_int), (''prio'', c_int), (''static_prio'', c_int), (''normal_prio'', c_int),
      (''rt_priority'', c_int), (''sched_class'', c_ptr), (''se'', Struct (sched_entity_fields c)),
      (''rt'', Struct (sched_rt_entity_fields c))] @
     given (opt c ''CONFIG_CGROUP_SCHED'')
         [(''sched_task_group'', c_ptr)] @
     given (opt c ''CONFIG_PREEMPT_NOTIFIERS'')
         [(''preempt_notifiers'', Ext ''struct hlist_head'')] @
     [(''fpu_counter'', c_char)] @
     given (opt c ''CONFIG_BLK_DEV_IO_TRACE'')
         [(''btrace_seq'', c_int)] @
     [(''policy'', c_int), (''cpus_allowed'', Ext ''cpumask_t'')] @
     given (opt c ''CONFIG_PREEMPT_RCU'')
         [(''rcu_read_lock_nesting'', c_int), (''rcu_read_unlock_special'', c_char),
          (''rcu_node_entry'', Ext ''struct list_head'')] @
     given (opt c ''CONFIG_TREE_PREEMPT_RCU'')
         [(''rcu_blocked_node'', c_ptr)] @
     given (opt c ''CONFIG_RCU_BOOST'')
         [(''rcu_boost_mutex'', c_ptr)] @
     given (opt c ''CONFIG_SCHEDSTATS'' \<or> opt c ''CONFIG_TASK_DELAY_ACCT'')
         [(''sched_info'', Struct (sched_info_fields c))] @
     [(''tasks'', Ext ''struct list_head'')] @
     given (opt c ''CONFIG_SMP'')
         [(''pushable_tasks'', Ext ''struct plist_node'')] @
     [(''mm'', c_ptr), (''active_mm'', c_ptr)] @
     given (opt c ''CONFIG_COMPAT_BRK'')
         [(''bits_brk_randomized'', Bits [(''brk_randomized'', 1)])] @
     given (opt c ''SPLIT_RSS_COUNTING'')
         [(''rss_stat'', Ext ''struct task_rss_stat'')] @
     [(''exit_state'', c_int), (''exit_code'', c_int), (''exit_signal'', c_int),
      (''pdeath_signal'', c_int), (''jobctl'', c_int), (''personality'', c_int),
      (''bits_did_exec'', Bits
        [(''did_exec'', 1), (''in_execve'', 1), (''in_iowait'', 1), (''sched_reset_on_fork'', 1),
         (''sched_contributes_to_load'', 1)]),
      (''pid'', Ext ''pid_t''), (''tgid'', Ext ''pid_t'')] @
     given (opt c ''CONFIG_CC_STACKPROTECTOR'')
         [(''stack_canary'', c_long)] @
     [(''real_parent'', c_ptr), (''parent'', c_ptr), (''children'', Ext ''struct list_head''),
      (''sibling'', Ext ''struct list_head''), (''group_leader'', c_ptr),
      (''ptraced'', Ext ''struct list_head''), (''ptrace_entry'', Ext ''struct list_head'')]"

definition task_family_fields :: "config \<Rightarrow> fields" where
  "task_family_fields c =
     [(''pids'', Arr 3 (Ext ''struct pid_link'')), (''thread_group'', Ext ''struct list_head''),
      (''vfork_done'', c_ptr), (''set_child_tid'', c_ptr), (''clear_child_tid'', c_ptr),
      (''utime'', Ext ''cputime_t''), (''stime'', Ext ''cputime_t''),
      (''utimescaled'', Ext ''cputime_t''), (''stimescaled'', Ext ''cputime_t''),
      (''gtime'', Ext ''cputime_t'')] @
     given (\<not> opt c ''CONFIG_VIRT_CPU_ACCOUNTING'')
         [(''prev_utime'', Ext ''cputime_t''), (''prev_stime'', Ext ''cputime_t'')] @
     [(''nvcsw'', c_long), (''nivcsw'', c_long), (''start_time'', Ext ''struct timespec''),
      (''real_start_time'', Ext ''struct timespec''), (''min_flt'', c_long), (''maj_flt'', c_long),
      (''cputime_expires'', Struct (task_cputime_fields c)),
      (''cpu_timers'', Arr 3 (Ext ''struct list_head'')), (''real_cred'', c_ptr),
      (''cred'', c_ptr), (''replacement_session_keyring'', c_ptr), (''comm'', Arr 16 c_char),
      (''link_count'', c_int), (''total_link_count'', c_int)] @
     given (opt c ''CONFIG_SYSVIPC'')
         [(''sysvsem'', Ext ''struct sysv_sem'')] @
     given (opt c ''CONFIG_DETECT_HUNG_TASK'')
         [(''last_switch_count'', c_long)] @
     [(''thread'', Ext ''struct thread_struct''), (''fs'', c_ptr), (''files'', c_ptr),
      (''nsproxy'', c_ptr), (''signal'', c_ptr), (''sighand'', c_ptr),
      (''blocked'', Ext ''sigset_t''), (''real_blocked'', Ext ''sigset_t''),
      (''saved_sigmask'', Ext ''sigset_t''), (''pending'', Ext ''struct sigpending''),
      (''sas_ss_sp'', c_long), (''sas_ss_size'', Ext ''size_t''), (''notifier'', c_ptr),
      (''notifier_data'', c_ptr), (''notifier_mask'', c_ptr), (''audit_context'', c_ptr)] @
     given (opt c ''CONFIG_AUDITSYSCALL'')
         [(''loginuid'', Ext ''uid_t''), (''sessionid'', c_int)] @
     [(''seccomp'', Ext ''seccomp_t''), (''parent_exec_id'', c_int), (''self_exec_id'', c_int),
      (''alloc_lock'', Ext ''spinlock_t'')] @
     given (opt c ''CONFIG_GENERIC_HARDIRQS'')
         [(''irqaction'', c_ptr)] @
     [(''pi_lock'', Ext ''raw_spinlock_t'')] @
     given (opt c ''CONFIG_RT_MUTEXES'')
         [(''pi_waiters'', Ext ''struct plist_head''), (''pi_blocked_on'', c_ptr)]"

definition task_resource_fields :: "config \<Rightarrow> fields" where
  "task_resource_fields c =
     given (opt c ''CONFIG_DEBUG_MUTEXES'')
         [(''blocked_on'', c_ptr)] @
     given (opt c ''CONFIG_TRACE_IRQFLAGS'')
         [(''irq_events'', c_int), (''hardirq_enable_ip'', c_long),
          (''hardirq_disable_ip'', c_long), (''hardirq_enable_event'', c_int),
          (''hardirq_disable_event'', c_int), (''hardirqs_enabled'', c_int),
          (''hardirq_context'', c_int), (''softirq_disable_ip'', c_long),
          (''softirq_enable_ip'', c_long), (''softirq_disable_event'', c_int),
          (''softirq_enable_event'', c_int), (''softirqs_enabled'', c_int),
          (''softirq_context'', c_int)] @
     given (opt c ''CONFIG_LOCKDEP'')
         [(''curr_chain_key'', c_long), (''lockdep_depth'', c_int), (''lockdep_recursion'', c_int),
          (''held_locks'', Arr 48 (Ext ''struct held_lock'')),
          (''lockdep_reclaim_gfp'', Ext ''gfp_t'')] @
     [(''journal_info'', c_ptr), (''bio_list'', c_ptr)] @
     given (opt c ''CONFIG_BLOCK'')
         [(''plug'', c_ptr)] @
     [(''reclaim_state'', c_ptr), (''backing_dev_info'', c_ptr), (''io_context'', c_ptr),
      (''ptrace_message'', c_long), (''last_siginfo'', c_ptr),
      (''ioac'', Ext ''struct task_io_accounting'')] @
     given (opt c ''CONFIG_TASK_XACCT'')
         [(''acct_rss_mem1'', c_long), (''acct_vm_mem1'', c_long),
          (''acct_timexpd'', Ext ''cputime_t'')] @
     given (opt c ''CONFIG_CPUSETS'')
         [(''mems_allowed'', Ext ''nodemask_t''), (''mems_allowed_seq'', Ext ''seqcount_t''),
          (''cpuset_mem_spread_rotor'', c_int), (''cpuset_slab_spread_rotor'', c_int)] @
     given (opt c ''CONFIG_CGROUPS'')
         [(''cgroups'', c_ptr), (''cg_list'', Ext ''struct list_head'')] @
     given (opt c ''CONFIG_FUTEX'')
         ([(''robust_list'', c_ptr)] @
         given (opt c ''CONFIG_COMPAT'')
             [(''compat_robust_list'', c_ptr)] @
         [(''pi_state_list'', Ext ''struct list_head''), (''pi_state_cache'', c_ptr)]) @
     given (opt c ''CONFIG_PERF_EVENTS'')
         [(''perf_event_ctxp'', Arr 2 c_ptr), (''perf_event_mutex'', Ext ''struct mutex''),
          (''perf_event_list'', Ext ''struct list_head'')] @
     given (opt c ''CONFIG_NUMA'')
         [(''mempolicy'', c_ptr), (''il_next'', c_short), (''pref_node_fork'', c_short)] @
     [(''rcu'', Ext ''struct rcu_head''), (''splice_pipe'', c_ptr)] @
     given (opt c ''CONFIG_TASK_DELAY_ACCT'')
         [(''delays'', c_ptr)] @
     given (opt c ''CONFIG_FAULT_INJECTION'')
         [(''make_it_fail'', c_int)] @
     [(''nr_dirtied'', c_int), (''nr_dirtied_pause'', c_int)] @
     given (opt c ''CONFIG_LATENCYTOP'')
         [(''latency_record_count'', c_int),
          (''latency_record'', Arr (bound c ''LT_SAVECOUNT'') (Ext ''struct latency_record''))] @
     [(''timer_slack_ns'', c_long), (''default_timer_slack_ns'', c_long),
      (''scm_work_list'', c_ptr)] @
     given (opt c ''CONFIG_FUNCTION_GRAPH_TRACER'')
         [(''curr_ret_stack'', c_int), (''ret_stack'', c_ptr), (''ftrace_timestamp'', c_long),
          (''trace_overrun'', Ext ''atomic_t''), (''tracing_graph_pause'', Ext ''atomic_t'')] @
     given (opt c ''CONFIG_TRACING'')
         [(''trace'', c_long), (''trace_recursion'', c_long)] @
     given (opt c ''CONFIG_CGROUP_MEM_RES_CTLR'')
         [(''memcg_batch'', Struct ([(''do_batch'', c_int), (''memcg'', c_ptr), (''nr_pages'', c_long),
      (''memsw_nr_pages'', c_long)]))] @
     given (opt c ''CONFIG_HAVE_HW_BREAKPOINT'')
         [(''ptrace_bp_refcnt'', Ext ''atomic_t'')]"

definition task_struct_fields :: "config \<Rightarrow> fields" where
  "task_struct_fields c = task_run_fields c @ task_family_fields c @ task_resource_fields c"

text \<open>The kernel stack of a task: \<open>thread_info\<close> lies at its low end.\<close>

definition thread_union :: "config \<Rightarrow> ctype" where
  "thread_union c =
     Union [(''thread_info'', Ext ''struct thread_info''),
            (''stack'', Arr (bound c ''THREAD_SIZE'' div 8) c_long)]"

text \<open>The structures by name.\<close>

definition sched_structs :: "config \<Rightarrow> (string \<times> fields) list" where
  "sched_structs c =
    [(''sched_param'', sched_param_fields c),
     (''sighand_struct'', sighand_struct_fields c),
     (''pacct_struct'', pacct_struct_fields c),
     (''cpu_itimer'', cpu_itimer_fields c),
     (''task_cputime'', task_cputime_fields c),
     (''thread_group_cputimer'', thread_group_cputimer_fields c),
     (''signal_struct'', signal_struct_fields c),
     (''user_struct'', user_struct_fields c),
     (''sched_info'', sched_info_fields c),
     (''task_delay_info'', task_delay_info_fields c),
     (''sched_group_power'', sched_group_power_fields c),
     (''sched_group'', sched_group_fields c),
     (''sched_domain_attr'', sched_domain_attr_fields c),
     (''sched_domain'', sched_domain_fields c),
     (''sched_class'', sched_class_fields c),
     (''load_weight'', load_weight_fields c),
     (''sched_statistics'', sched_statistics_fields c),
     (''sched_entity'', sched_entity_fields c),
     (''sched_rt_entity'', sched_rt_entity_fields c),
     (''task_struct'', task_struct_fields c)]"

theorem structures_laid_out: "list_all (\<lambda>(x, fs). laid_out a fs) (sched_structs c)"
  by (simp add: list_all_iff every_layout split_beta)

section \<open>Where the counters and the masks lie\<close>

abbreviation word_aligned :: "abi \<Rightarrow> string list \<Rightarrow> bool" where
  "word_aligned a xs \<equiv> list_all (\<lambda>x. ext_log a x \<le> 3) xs"

definition sighand_types :: "string list" where
  "sighand_types = [''atomic_t'', ''struct k_sigaction'', ''spinlock_t'', ''wait_queue_head_t'']"

lemma sighand_split:
  "sighand_struct_fields c =
     [(''count'', Ext ''atomic_t''), (''action'', Arr 64 (Ext ''struct k_sigaction'')),
      (''siglock'', Ext ''spinlock_t''), (''signalfd_wqh'', Ext ''wait_queue_head_t'')] @
     [(''counters'', Arr 64 c_int)]"
  by (simp add: sighand_struct_fields_def)

text \<open>The counters are the last field: element 64 begins where the last field ends, and element 65
  begins behind the structure.\<close>

lemma counters_end:
  assumes "word_aligned a sighand_types"
  shows "runs_out a (sighand_struct_fields c) ''counters'' 64"
  unfolding sighand_split by (rule word_array_at_end) (use assms in \<open>auto simp: sighand_types_def\<close>)

text \<open>The masks of a scheduling group and of a domain begin exactly where the structure ends, which
  is where the space attached to it begins.\<close>

lemma names_given [simp]: "fst ` set (given b fs) = (if b then fst ` set fs else {})"
  by (simp add: given_def)

lemma aligns_given [simp]: "aligns_log a (given b fs) = (if b then aligns_log a fs else 0)"
  by (simp add: given_def)

lemma group_split: "sched_group_fields c = butlast (sched_group_fields c) @ [(''cpumask'', Arr 0 c_long)]"
  by (simp add: sched_group_fields_def)

lemma domain_split: "sched_domain_fields c = butlast (sched_domain_fields c) @ [(''span'', Arr 0 c_long)]"
  by (simp add: sched_domain_fields_def butlast_append)

theorem masks_follow_structures:
  assumes "word_aligned a [''atomic_t'', ''struct rcu_head'']"
  shows "offset_of a (sched_group_fields c) ''cpumask'' = Some (size_of a (Struct (sched_group_fields c)))"
    and "offset_of a (sched_domain_fields c) ''span'' = Some (size_of a (Struct (sched_domain_fields c)))"
proof -
  have "''cpumask'' \<notin> fst ` set (butlast (sched_group_fields c))"
    "aligns_log a (butlast (sched_group_fields c)) \<le> align_log a c_long"
    using assms by (simp_all add: sched_group_fields_def)
  from attached_array [OF this, folded group_split]
  show "offset_of a (sched_group_fields c) ''cpumask'' = Some (size_of a (Struct (sched_group_fields c)))" .
  have "''span'' \<notin> fst ` set (butlast (sched_domain_fields c))"
    by (simp add: sched_domain_fields_def butlast_append image_Un)
  moreover have "aligns_log a (butlast (sched_domain_fields c)) \<le> align_log a c_long"
    using assms by (simp add: sched_domain_fields_def butlast_append)
  ultimately have "offset_of a (butlast (sched_domain_fields c) @ [(''span'', Arr 0 c_long)]) ''span'' =
      Some (size_of a (Struct (butlast (sched_domain_fields c) @ [(''span'', Arr 0 c_long)])))"
    by (rule attached_array)
  then show "offset_of a (sched_domain_fields c) ''span'' = Some (size_of a (Struct (sched_domain_fields c)))"
    using domain_split [of c] by argo
qed

text \<open>The types of \<open>sighand_struct\<close> on x86-64, in a kernel without lock debugging.\<close>

definition amd64_abi :: abi where
  "amd64_abi =
     \<lparr>ext_size = (\<lambda>x. if x = ''atomic_t'' \<or> x = ''spinlock_t'' then 4
                      else if x = ''struct k_sigaction'' then 32
                      else if x = ''wait_queue_head_t'' then 24 else 8),
      ext_log = (\<lambda>x. if x = ''atomic_t'' \<or> x = ''spinlock_t'' then 2 else 3)\<rparr>"

lemma amd64_counters:
  "offset_of amd64_abi (sighand_struct_fields c) ''counters'' = Some 2088"
  "size_of amd64_abi (Struct (sighand_struct_fields c)) = 2344"
  by (simp_all add: offset_of_def sighand_struct_fields_def amd64_abi_def round_up_def)

end
