(* ===== verification/Signal_Properties.thy ===== *)
theory Signal_Properties
  imports Signal_Sample Sched_Structs
begin

text \<open>
  What the signal code promises: which signal is taken next and from which queue, what a send
  does to the queues, fatal, stop and continue signals, masks and actions, and the added
  counters and calls \<open>smunch\<close> and \<open>deepsleep\<close>.
\<close>

text \<open>The next signal to take is the lowest unblocked synchronous one, else the lowest unblocked one,
  and there is one exactly when something unblocked is pending.\<close>

theorem next_signal_choice:
  "(has_pending_signals (psignal p) m \<longleftrightarrow> next_signal p m \<noteq> 0) \<and>
   next_signal p m =
    (let ready = ready_set p m; urgent = ready \<inter> {SIGILL, SIGTRAP, SIGBUS, SIGFPE, SIGSEGV}
     in if ready = {} then 0 else if urgent \<noteq> {} then Min urgent else Min ready)"
proof -
  let ?r = "ready_set p m" and ?s = "next_signal p m"
  let ?u = "?r \<inter> {SIGILL, SIGTRAP, SIGBUS, SIGFPE, SIGSEGV}"
  have sync: "a \<in> ?u \<longleftrightarrow> a \<in> ?r \<and> sigismember SYNCHRONOUS_MASK a" for a
    using synchronous_member [of a] by (auto simp: ready_set_def)
  have z: "?r = {} \<longleftrightarrow> ?s = 0"
    using sigset_empty_iff [of "psignal p AND NOT m"] by (auto simp: next_signal_zero ready_set_def)
  have s: "?s \<in> ?r" if "?s \<noteq> 0" using next_signal_props [OF that] by (simp add: ready_set_def)
  have u: "Min ?u = ?s" if n: "?s \<noteq> 0" and ne: "?u \<noteq> {}"
  proof (rule Min_eqI)
    obtain b where "b \<in> ?u" using ne by blast
    then show "?s \<in> ?u" using next_signal_props(4) [OF n, of b] s [OF n] sync by (auto simp: ready_set_def)
    show "?s \<le> a" if "a \<in> ?u" for a
      using next_signal_props(4) [OF n, of a] that sync [of a] by (auto simp: ready_set_def)
  qed (simp add: finite_ready)
  have r: "Min ?r = ?s" if n: "?s \<noteq> 0" and e: "?u = {}"
  proof (rule Min_eqI)
    show "?s \<le> a" if "a \<in> ?r" for a
      using next_signal_props(5) [OF n, of a] that s [OF n] sync [of ?s] e by (auto simp: ready_set_def)
  qed (use s [OF n] in \<open>simp_all add: finite_ready\<close>)
  show ?thesis using has_pending_next [of p m] z u r by (simp add: Let_def)
qed

text \<open>For every number of words per set, the unrolled switches agree: a signal is found exactly when
  some word has an unblocked one, and it is the lowest of the first such word (synchronous ones first
  in word 0).\<close>

theorem next_signal_words_lowest:
  assumes l: "length s = n" "length m = n" "0 < n"
  shows "if has_pending_words n s m
    then \<exists>j < n. \<exists>b < 64. next_signal_words n s m = int (j * 64 + b + 1) \<and> lowest_ready s m j b
    else next_signal_words n s m = 0"
proof -
  obtain x xs where s: "s = x # xs" using l by (cases s) auto
  obtain y ys where m: "m = y # ys" using l by (cases m) auto
  let ?x = "x AND NOT y"
  let ?y = "if ?x AND SYNCHRONOUS_MASK \<noteq> 0 then ?x AND SYNCHRONOUS_MASK else ?x"
  have len: "length xs = length ys" using l s m by simp
  have n: "next_signal_words n s m = (if ?x \<noteq> 0 then int (ffz (NOT ?y) + 1) else later_word 1 xs ys)"
    using next_signal_words_loop [OF l] by (simp add: s m Let_def)
  have pend: "has_pending_words n s m \<longleftrightarrow> next_signal_words n s m \<noteq> 0"
    unfolding n has_pending_words_iff using later_word_zero [OF len, of 1] l
    by (auto simp: s m Ex_less_Suc2 less_Suc_eq_0_disj)
  have "\<exists>j b. next_signal_words n s m = int (j * 64 + b + 1) \<and> lowest_ready s m j b"
    if nz: "next_signal_words n s m \<noteq> 0"
  proof (cases "?x = 0")
    case True
    with nz n later_word_spec [OF len, of 1] obtain j b where j: "j < length xs" "b < 64"
      "later_word 1 xs ys = int ((1 + j) * 64 + b + 1)" "bit (xs ! j AND NOT (ys ! j)) b"
      "\<forall>c < b. \<not> bit (xs ! j AND NOT (ys ! j)) c" "\<forall>l < j. xs ! l AND NOT (ys ! l) = 0" by auto
    then have "lowest_ready s m (Suc j) b" using True
      by (auto simp: lowest_ready_def s m less_Suc_eq_0_disj)
    moreover have "next_signal_words n s m = int (Suc j * 64 + b + 1)" using True j(3) by (simp add: n)
    ultimately show ?thesis by blast
  next
    case False
    then have "?y \<noteq> 0" by simp
    from ffz_lowest [OF this] have "lowest_ready s m 0 (ffz (NOT ?y))"
      by (auto simp: lowest_ready_def s m bit_simps split: if_splits)
    moreover have "next_signal_words n s m = int (0 * 64 + ffz (NOT ?y) + 1)" using False by (simp add: n)
    ultimately show ?thesis by blast
  qed
  then show ?thesis using pend l by (auto simp: lowest_ready_def Let_def)
qed

theorem next_signal_words_lowest_witness:
  "\<exists>j < 2. \<exists>b < 64. next_signal_words 2 [0, 4] [0, 0] = int (j * 64 + b + 1) \<and> lowest_ready [0, 4] [0, 0] j b"
  using next_signal_words_lowest [of "[0, 4]" 2 "[0, 0]"] by (simp add: has_pending_words_def)









text \<open>SIGCONT to a stopped or stopping group replaces all group flags: a process marked
  \<open>SIGNAL_UNKILLABLE\<close> loses the mark.\<close>

theorem continue_unprotects_init:
  assumes alive: "s_flags (sig_of k p) AND SIGNAL_GROUP_EXIT = 0"
    and stop: "s_flags (sig_of k p) AND SIGNAL_STOP_STOPPED \<noteq> 0 \<or> s_group_stop_count (sig_of k p) \<noteq> 0"
    and r: "prepare_signal E SIGCONT p ns k = (c, k')"
  shows "s_flags (sig_of k' p) AND SIGNAL_UNKILLABLE = 0 \<and> s_flags (sig_of k' p) AND SIGNAL_STOP_CONTINUED \<noteq> 0 \<and>
    s_flags (sig_of k' p) AND SIGNAL_CLD_MASK = cont_why (sig_of k p) \<and> s_group_stop_count (sig_of k' p) = 0"
proof -
  let ?g = "t_signal (tasks k p)"
  let ?k1 = "cont_removes_stops E p k"
  have k': "k' = note_continued ?g ?k1" using r alive by (simp add: prepare_signal_def Let_def sig_kernel_stop_iff sig_of_def)
  have "skel k' = skel k" using skel_prepare [of E SIGCONT p ns k] r by simp
  then have g: "t_signal (tasks k' p) = ?g" by (rule skel_sel)
  have w: "cont_why (signals ?k1 ?g) = cont_why (sig_of k p)"
    using cont_keeps_flags [of E p k ?g] by (simp add: cont_why_def sig_of_def)
  have "cont_why (sig_of k p) \<in> {SIGNAL_CLD_CONTINUED, SIGNAL_CLD_STOPPED}" using stop by (auto simp: cont_why_def)
  then show ?thesis using g w
    by (auto simp: k' note_continued_def Let_def sig_of_def signal_flag_defs)
qed

theorem continue_unprotects_init_witness:
  "let k = upd_signal 2 (\<lambda>s. s\<lparr>s_flags := SIGNAL_STOP_STOPPED OR SIGNAL_UNKILLABLE\<rparr>) smp_state in
    s_flags (sig_of (snd (prepare_signal smp_env SIGCONT 2 True k)) 2) AND SIGNAL_UNKILLABLE = 0"
proof -
  let ?k = "upd_signal 2 (\<lambda>s. s\<lparr>s_flags := SIGNAL_STOP_STOPPED OR SIGNAL_UNKILLABLE\<rparr>) smp_state"
  have "t_signal (tasks ?k 2) = 2" by (simp add: smp_defs)
  then have f: "s_flags (sig_of ?k 2) = SIGNAL_STOP_STOPPED OR SIGNAL_UNKILLABLE" by (simp add: sig_of_def)
  show ?thesis
    using continue_unprotects_init [OF _ _ surjective_pairing, of ?k 2 smp_env True] by (simp add: f) (simp add: signal_flag_defs Let_def)
qed

text \<open>C34: when the threads of a group that is to stop take their part, in any order, exactly the last one
  completes the stop, and the group is then marked stopped with nobody left to wait for.\<close>

theorem group_stop_completes:
  assumes "distinct ts" and "\<forall>t \<in> set ts. must_stop k t \<and> t_signal (tasks k t) = g"
    and "s_group_stop_count (signals k g) = int (length ts)"
    and "s_flags (signals k g) AND SIGNAL_STOP_STOPPED = 0" and "ts \<noteq> []"
  shows "\<exists>k'. participate_all ts k = (replicate (length ts - 1) False @ [True], k') \<and>
    s_group_stop_count (signals k' g) = 0 \<and> s_flags (signals k' g) = SIGNAL_STOP_STOPPED"
  using assms
proof (induction ts arbitrary: k)
  case (Cons t ts)
  obtain b k1 where r: "task_participate_group_stop t k = (b, k1)" by fastforce
  have m: "must_stop k t" "t_signal (tasks k t) = g" using Cons.prems(2) by auto
  have c: "s_group_stop_count (signals k g) = int (Suc (length ts))" using Cons.prems(3) by simp
  note e = participate_effect [OF m c Cons.prems(4) r]
  show ?case
  proof (cases "ts = []")
    case True
    with r e show ?thesis by simp
  next
    case False
    have "\<forall>u \<in> set ts. must_stop k1 u \<and> t_signal (tasks k1 u) = g"
      using Cons.prems(1,2) e(4,5) by (metis distinct.simps(2) list.set_intros(2))
    from Cons.IH [OF _ this _ _ False] Cons.prems(1,4) e(2,3) False obtain k' where
      k': "participate_all ts k1 = (replicate (length ts - 1) False @ [True], k')"
      "s_group_stop_count (signals k' g) = 0" "s_flags (signals k' g) = SIGNAL_STOP_STOPPED" by auto
    have "replicate (length ts) False = False # replicate (length ts - 1) False"
      using False by (metis Suc_diff_1 length_greater_0_conv replicate_Suc)
    with k' r e(1) False show ?thesis by simp
  qed
qed simp

theorem group_stop_completes_witness:
  "let k = upd_signal 2 (\<lambda>s. s\<lparr>s_group_stop_count := 2\<rparr>) (upd_task 2 (\<lambda>t. t\<lparr>t_jobctl := JOBCTL_STOP_PENDING OR JOBCTL_STOP_CONSUME\<rparr>)
      (upd_task 3 (\<lambda>t. t\<lparr>t_jobctl := JOBCTL_STOP_PENDING OR JOBCTL_STOP_CONSUME\<rparr>) smp_state)) in
    fst (participate_all [3, 2] k) = [False, True] \<and> s_flags (signals (snd (participate_all [3, 2] k)) 2) = SIGNAL_STOP_STOPPED"
proof -
  let ?j = "upd_task 2 (\<lambda>t. t\<lparr>t_jobctl := JOBCTL_STOP_PENDING OR JOBCTL_STOP_CONSUME\<rparr>)
      (upd_task 3 (\<lambda>t. t\<lparr>t_jobctl := JOBCTL_STOP_PENDING OR JOBCTL_STOP_CONSUME\<rparr>) smp_state)"
  let ?k = "upd_signal 2 (\<lambda>s. s\<lparr>s_group_stop_count := 2\<rparr>) ?j"
  have "\<forall>t \<in> set [3, 2]. must_stop ?k t \<and> t_signal (tasks ?k t) = 2"
    by (simp add: must_stop_def jobctl_defs) (simp add: smp_defs)
  from group_stop_completes [OF _ this] show ?thesis by (force simp: Let_def)
qed

text \<open>C35: \<open>do_sigaction\<close> refuses SIGKILL, SIGSTOP and numbers out of range without a change;
  otherwise it installs the action with SIGKILL and SIGSTOP taken out of its mask and, when the signal
  is ignored from now on, discards it from all queues of the group and nothing else.\<close>

theorem sigaction_effect:
  assumes q: "queues_ok k" and d: "distinct (s_threads (sig_of k (cur k)))"
    and h: "t_sighand (tasks k (cur k)) = Some h" and len: "length (action (sighands k h)) = 64"
    and r: "do_sigaction sig act oact k = (ret, old, k')"
  shows "ret = (if signo sig \<and> (act = None \<or> sig \<notin> {SIGKILL, SIGSTOP}) then 0 else - EINVAL) \<and>
    old = (if ret = 0 \<and> oact then Some (action (sighands k h) ! nat (sig - 1)) else None) \<and> queues_ok k' \<and>
    (case act of
       Some a \<Rightarrow> if ret = 0
         then action (sighands k' h) = (action (sighands k h))
                [nat (sig - 1) := a\<lparr>sa_mask := sa_mask a AND NOT (sigmask SIGKILL OR sigmask SIGSTOP)\<rparr>] \<and>
              (\<forall>l. pview k' l = (if sig_handler_ignored (sa_handler a) sig \<and> l \<in> group_locs k (cur k)
                                  then remove_spec (sigmask sig) (pview k l) else pview k l))
         else k' = k
     | None \<Rightarrow> k' = k)"
proof (cases "signo sig \<and> (act = None \<or> sig \<notin> {SIGKILL, SIGSTOP})")
  case False
  have "\<not> signo sig \<longleftrightarrow> \<not> valid_signal sig \<or> sig < 1" by (auto simp: signo_def valid_signal_def)
  with False have "\<not> valid_signal sig \<or> sig < 1 \<or> act \<noteq> None \<and> sig_kernel_only sig"
    using sig_kernel_only_iff [of sig] by auto
  with r False q show ?thesis by (auto simp: do_sigaction_def split: option.splits)
next
  case True
  then have s: "signo sig" by simp
  have g: "\<not> (\<not> valid_signal sig \<or> sig < 1 \<or> act \<noteq> None \<and> sig_kernel_only sig)"
    using True sig_kernel_only_iff [OF s] by (auto simp: signo_def valid_signal_def)
  have hand: "hand_of k (cur k) = sighands k h" using h by (simp add: hand_of_def)
  show ?thesis
  proof (cases act)
    case None
    with r g True q hand show ?thesis by (auto simp: do_sigaction_def sigidx_def)
  next
    case (Some a)
    define a' where "a' = a\<lparr>sa_mask := sa_mask a AND NOT (sigmask SIGKILL OR sigmask SIGSTOP)\<rparr>"
    define k1 where "k1 = upd_hand (cur k) (\<lambda>x. x\<lparr>action := (action x)[sigidx sig := a']\<rparr>) k"
    have "sigidx sig < 64" using s by simp
    then have hd: "sig_handler k1 (cur k) sig = sa_handler a"
      using h len by (simp add: sig_handler_def hand_of_def k1_def upd_hand_def a'_def)
    have k': "k' = (if sig_handler_ignored (sa_handler a) sig then discard_ignored sig k1 else k1)"
      and ro: "ret = 0" "old = (if oact then Some (action (sighands k h) ! nat (sig - 1)) else None)"
      using r g Some hd hand by (auto simp: do_sigaction_def Let_def k1_def a'_def sigidx_def)
    have f: "pv k1 = pv k" "tasks k1 = tasks k" "signals k1 = signals k" "cur k1 = cur k"
      by (simp_all add: k1_def upd_hand_frame)
    have gl: "group_locs k1 (cur k) = group_locs k (cur k)" "distinct (s_threads (sig_of k1 (cur k)))"
      using d by (simp_all add: group_locs_def sig_of_def f)
    have q1: "queues_ok k1" using queues_ok_pv [OF f(1)] q by simp
    have rem: "removed_in (group_locs k (cur k)) (sigmask sig) k (discard_ignored sig k1)"
      using removed_pv [OF discard_ignored_removed [of k1 sig] f(1)] q1 gl f(4) sigaddset_empty [OF s] by simp
    have act1: "action (sighands k1 h) = (action (sighands k h))[nat (sig - 1) := a']"
      using h by (simp add: k1_def upd_hand_def sigidx_def)
    show ?thesis
      unfolding Some using Some ro rem q1 q True act1 sighands_discard [of sig k1] pv_sel(5) [OF f(1)]
      by (auto simp: k' removed_in_def a'_def)
  qed
qed

theorem sigaction_effect_witness:
  "fst (do_sigaction SIGSTOP (Some smp_action) False smp_state) = - EINVAL \<and>
    queues_ok (snd (snd (do_sigaction SIGUSR1 (Some (smp_action\<lparr>sa_handler := SIG_IGN\<rparr>)) False smp_state)))"
proof -
  have d: "distinct (s_threads (sig_of smp_state (cur smp_state)))" by (simp add: smp_threads)
  have h: "t_sighand (tasks smp_state (cur smp_state)) = Some 5" "length (action (sighands smp_state 5)) = 64" by simp_all
  obtain r1 o1 k1 where 1: "do_sigaction SIGSTOP (Some smp_action) False smp_state = (r1, o1, k1)" by (metis prod_cases3)
  obtain r2 o2 k2 where 2: "do_sigaction SIGUSR1 (Some (smp_action\<lparr>sa_handler := SIG_IGN\<rparr>)) False smp_state = (r2, o2, k2)"
    by (metis prod_cases3)
  from sigaction_effect [OF smp_queues_ok d h 1] sigaction_effect [OF smp_queues_ok d h 2] 1 2 show ?thesis by simp
qed

text \<open>The answer, the old mask stored, and for every signal and thread whether it is blocked
  afterwards; SIGKILL and SIGSTOP are never added, no other thread's mask and no queue changes.\<close>

theorem rt_sigprocmask_effect:
  assumes r: "sys_rt_sigprocmask E how nset oset 8 k = (ret, out, k')" and s: "signo sig"
  shows "ret = procmask_result how nset oset \<and>
    out = (if ret = 0 \<and> oset = Some True then Some (t_blocked (tasks k (cur k))) else None) \<and>
    sigismember (t_blocked (tasks k' t)) sig =
      (if t = cur k then blocked_after how nset (t_blocked (tasks k (cur k))) sig
       else sigismember (t_blocked (tasks k t)) sig) \<and>
    (\<forall>l. pview k' l = pview k l)"
proof -
  let ?old = "t_blocked (tasks k (cur k))"
  have e: "\<forall>l. pview (set_current_blocked E m k) l = pview k l"
    "t_blocked (tasks (set_current_blocked E m k) t) = (if t = cur k then m else t_blocked (tasks k t))" for m
    using pv_sel(5) [OF set_task_blocked_effect(2) [OF refl]] set_task_blocked_effect(1) [OF refl]
    by (simp_all add: set_current_blocked_def)
  have ro: "ret = procmask_result how nset oset"
    "out = (if ret = 0 \<and> oset = Some True then Some ?old else None)"
    using r by (auto simp: sys_rt_sigprocmask_eq)
  have k': "k' = (case nset of
       Some (Some m) \<Rightarrow> (case new_mask how ?old (m AND NOT (sigmask SIGKILL OR sigmask SIGSTOP)) of
         Some n \<Rightarrow> set_current_blocked E n k | None \<Rightarrow> k)
     | _ \<Rightarrow> k)" using r by (simp add: sys_rt_sigprocmask_eq)
  have "sigismember (t_blocked (tasks k' t)) sig =
      (if t = cur k then blocked_after how nset ?old sig else sigismember (t_blocked (tasks k t)) sig)"
  proof (cases "\<exists>m. nset = Some (Some m)")
    case False
    then show ?thesis unfolding k' by (simp add: blocked_after_def split: option.splits)
  next
    case True
    then obtain m where m: "nset = Some (Some m)" by blast
    show ?thesis
    proof (cases "new_mask how ?old (m AND NOT (sigmask SIGKILL OR sigmask SIGSTOP))")
      case None
      then have "blocked_after how nset ?old sig = sigismember ?old sig"
        by (simp add: m blocked_after_def new_mask_def split: if_splits)
      then show ?thesis unfolding k' m using None by simp
    next
      case (Some n)
      then show ?thesis unfolding k' m using e(2) [of n] new_mask_after [OF s Some] by simp
    qed
  qed
  moreover have "\<forall>l. pview k' l = pview k l" unfolding k' using e(1) by (auto split: option.splits)
  ultimately show ?thesis using ro by blast
qed

theorem rt_sigprocmask_effect_witness:
  "\<not> sigismember (t_blocked (tasks (snd (snd (sys_rt_sigprocmask smp_env SIG_SETMASK (Some (Some (NOT 0))) None 8 smp_state))) 5)) SIGKILL
    \<and> sigismember (t_blocked (tasks (snd (snd (sys_rt_sigprocmask smp_env SIG_SETMASK (Some (Some (NOT 0))) None 8 smp_state))) 5)) SIGUSR1"
proof -
  obtain r out k' where r: "sys_rt_sigprocmask smp_env SIG_SETMASK (Some (Some (NOT 0))) None 8 smp_state = (r, out, k')"
    by (metis prod_cases3)
  have m: "sigismember (NOT 0) SIGUSR1" by (subst sigismember_not) simp_all
  from rt_sigprocmask_effect [OF r, of SIGKILL 5] rt_sigprocmask_effect [OF r, of SIGUSR1 5] r m
  show ?thesis by (simp add: blocked_after_def)
qed

text \<open>After the mask is set, \<open>TIF_SIGPENDING\<close> says exactly whether an unblocked signal or
  a job control request waits.\<close>

theorem set_current_blocked_flag:
  assumes "\<not> freezing E"
  shows "t_blocked (tasks (set_current_blocked E m k) (cur k)) = m \<and>
    t_tif_sigpending (tasks (set_current_blocked E m k) (cur k)) = signals_wait (set_current_blocked E m k) (cur k)"
  using set_task_blocked_effect(1,9) [OF refl] assms by (simp add: set_current_blocked_def)

theorem set_current_blocked_flag_witness:
  "t_tif_sigpending (tasks (set_current_blocked smp_env 0 smp_state) 5) = signals_wait (set_current_blocked smp_env 0 smp_state) 5"
  using set_current_blocked_flag [of smp_env 0 smp_state] by (simp add: smp_env_def)

text \<open>Every send to a process, whatever its result, adds one to the counter of that signal of that
  process and changes no other counter and no action.\<close>

theorem counting_is_exact:
  assumes h: "t_sighand (tasks k p) = Some h" and n: "0 \<le> sig" "nat sig < length (counters (sighands k h))"
    and s: "do_send_sig_info E sig a p grp k = (ret, k')"
  shows "ret = fst (send_signal E sig a p grp k) \<and> (\<forall>g. action (sighands k' g) = action (sighands k g)) \<and>
    (\<forall>g i. counters (sighands k' g) ! i = counters (sighands k g) ! i + (if g = h \<and> i = nat sig then 1 else 0))"
  using do_send_counts [OF h n s] n by (auto simp: nth_list_update)

theorem counting_is_exact_witness:
  "counters (sighands (snd (do_send_sig_info smp_env SIGUSR1 SEND_SIG_NOINFO 2 True smp_state)) 2) ! 10 = 8"
  using counting_is_exact [OF _ _ _ surjective_pairing, of smp_state 2 2 SIGUSR1 smp_env SEND_SIG_NOINFO True]
  by (simp add: smp_hand_def)

text \<open>After \<open>init_sigcounter\<close> and any sequence of fewer than \<open>2^31\<close> sends of
  signals below 64, \<open>get_sigcounter\<close> in that process returns how often the signal was
  sent.\<close>

theorem counter_roundtrip:
  assumes p: "find_task P pid = Some p" and h: "t_sighand (tasks k p) = Some h"
    and len: "length (counters (sighands k h)) = 64" and reader: "t_sighand (tasks k (cur k)) = Some h"
    and sigs: "\<forall>sig \<in> set sigs. 0 \<le> sig \<and> sig < 64" and small: "length sigs < 2 ^ 31"
    and i: "init_sigcounter P pid k = Inr (0, k1)" and s: "send_all E a p sigs k1 = (rs, k2)" and n: "0 \<le> n" "n < 64"
  shows "get_sigcounter stray n k2 = Inr (int (count_list sigs n))"
proof -
  have k1: "k1 = ev (Ev_Overrun h 65) (ev (Ev_Overrun h 64) (upd_sighand h (\<lambda>s. s\<lparr>counters := replicate 64 0\<rparr>) k))"
    using init_effect [OF p h len] i by simp
  have c1: "counters (sighands k1 h) = replicate 64 0" "t_sighand (tasks k1 t) = t_sighand (tasks k t)" "cur k1 = cur k" for t
    by (simp_all add: k1)
  have "t_sighand (tasks k1 p) = Some h" "length (counters (sighands k1 h)) = 64" using c1 h by simp_all
  from send_all_counts [OF this sigs s n]
  have c: "counters (sighands k2 h) ! nat n = of_nat (count_list sigs n)" using c1(1) n by simp
  have "length (counters (sighands k2 h)) = 64" using send_all_frame(3) [OF s] c1(1) by simp
  moreover have "count_list sigs n \<le> length sigs" by (rule count_list_le)
  then have "sint (of_nat (count_list sigs n) :: u32) = int (count_list sigs n)"
    using small by (simp add: signed_of_nat signed_take_bit_int_eq_self)
  ultimately show ?thesis
    using send_all_frame(1,2) [OF s] c1(2,3) reader n c by (simp add: get_sigcounter_def nat_less_iff)
qed

theorem counter_roundtrip_witness:
  "\<exists>k1. init_sigcounter smp_pids 5 smp_state = Inr (0, k1) \<and>
    get_sigcounter (\<lambda>_. 0) SIGUSR1 (snd (send_all smp_env SEND_SIG_NOINFO 5 [SIGUSR1, SIGWINCH, SIGUSR1] k1)) = Inr 2"
proof -
  have f: "find_task smp_pids 5 = Some 5" by (simp add: smp_pids_def)
  obtain k1 where i: "init_sigcounter smp_pids 5 smp_state = Inr (0, k1)"
    using init_effect [OF f, of smp_state 5] by simp
  from counter_roundtrip [OF f _ _ _ _ _ i surjective_pairing, of 5 "[SIGUSR1, SIGWINCH, SIGUSR1]" SIGUSR1 "\<lambda>_. 0" smp_env SEND_SIG_NOINFO] i
  show ?thesis by simp
qed

text \<open>\<open>init_sigcounter\<close> stores to elements 64 and 65 of an array of 64, and sending
  signal 64 to a process increments element 64.\<close>

theorem counters_overrun:
  assumes h: "t_sighand (tasks k p) = Some h" and len: "length (counters (sighands k h)) = 64"
    and p: "find_task P pid = Some p" and i: "init_sigcounter P pid k = Inr (r, k1)"
    and s: "do_send_sig_info E 64 a p grp k = (ret, k2)"
  shows "klog k1 = klog k @ [Ev_Overrun h 64, Ev_Overrun h 65] \<and>
    Ev_Overrun h 64 \<in> set (klog k2) \<and> sighands k2 = sighands k"
  using init_effect [OF p h len] i do_send_overruns [OF h _ s] len by auto

theorem counters_overrun_witness:
  "Ev_Overrun 5 64 \<in> set (klog (snd (do_send_sig_info smp_env 64 SEND_SIG_NOINFO 5 True smp_state)))"
proof -
  have f: "find_task smp_pids 5 = Some 5" by (simp add: smp_pids_def)
  obtain k1 where i: "init_sigcounter smp_pids 5 smp_state = Inr (0, k1)"
    using init_effect [OF f, of smp_state 5] by simp
  from counters_overrun [OF _ _ f i surjective_pairing, of 5 smp_env SEND_SIG_NOINFO True] show ?thesis by simp
qed

text \<open>C38: the elements that \<open>init_sigcounter\<close> and signal 64 reach past the end of the counters
  lie outside every field of \<open>struct sighand_struct\<close>, and element 65 outside the structure, under
  every configuration and every binary interface that aligns its types to 8 bytes at most.\<close>

theorem counters_leave_structure:
  assumes h: "t_sighand (tasks k p) = Some h" and len: "length (counters (sighands k h)) = 64"
    and p: "find_task P pid = Some p" and i: "init_sigcounter P pid k = Inr (r, k1)"
    and s: "do_send_sig_info E 64 a p grp k = (ret, k2)" and B: "word_aligned B sighand_types"
  shows "klog k1 = klog k @ [Ev_Overrun h 64, Ev_Overrun h 65] \<and> Ev_Overrun h 64 \<in> set (klog k2) \<and>
    sighands k2 = sighands k \<and>
    (\<exists>base. offset_of B (sighand_struct_fields c) ''counters'' = Some base \<and>
       list_all (\<lambda>(y, at, t). at + size_of B t \<le> base + 4 * 64) (place B (sighand_struct_fields c) 0) \<and>
       size_of B (Struct (sighand_struct_fields c)) \<le> base + 4 * (64 + 1))"
  using init_effect [OF p h len] i do_send_overruns [OF h _ s] len counters_end [OF B, of c]
  by (simp add: runs_out_def)

theorem counters_leave_structure_witness:
  "Ev_Overrun 5 64 \<in> set (klog (snd (do_send_sig_info smp_env 64 SEND_SIG_NOINFO 5 True smp_state))) \<and>
   (\<exists>base. offset_of amd64_abi (sighand_struct_fields \<lparr>opt = \<lambda>_. True, bound = \<lambda>_. 16\<rparr>) ''counters'' = Some base \<and> base = 2088 \<and>
      size_of amd64_abi (Struct (sighand_struct_fields \<lparr>opt = \<lambda>_. True, bound = \<lambda>_. 16\<rparr>)) = base + 4 * 64)"
proof -
  have f: "find_task smp_pids 5 = Some 5" by (simp add: smp_pids_def)
  have B: "word_aligned amd64_abi sighand_types" by (simp add: amd64_abi_def sighand_types_def)
  obtain k1 where i: "init_sigcounter smp_pids 5 smp_state = Inr (0, k1)"
    using init_effect [OF f, of smp_state 5] by simp
  from counters_leave_structure [OF _ _ f i surjective_pairing B, of 5 smp_env SEND_SIG_NOINFO True]
  show ?thesis unfolding amd64_counters by simp
qed

text \<open>The built-in \<open>smunch\<close> and the one under \<open>driverCode\<close> differ exactly on
  zombies and patterns without SIGKILL: the first queues the signals and wakes the zombie, the second
  does nothing.\<close>

theorem smunch_versions_differ:
  "smunch E P pid b k =
    (if \<exists>t. smunch_target P pid k t \<and> zombie_or_dead (tasks k t) \<and> \<not> has_sigkill b
     then (0, signal_wake_up E (the (find_task P pid)) False
                (set_psignal (\<lambda>s. s OR b) (Private (the (find_task P pid))) k))
     else smunch_driver E P pid b k) \<and>
   ((\<exists>t. smunch_target P pid k t \<and> zombie_or_dead (tasks k t) \<and> \<not> has_sigkill b) \<longrightarrow>
     smunch_driver E P pid b k = (0, k))"
  by (auto simp: smunch_def smunch_driver_def smunch_target_def lock_task_sighand_def split: option.splits)

theorem smunch_versions_differ_witness:
  "let k = upd_task 4 (\<lambda>t. t\<lparr>t_exit_state := EXIT_ZOMBIE\<rparr>) smp_state in
    smunch_driver smp_env smp_pids 4 2 k = (0, k) \<and>
    smunch smp_env smp_pids 4 2 k = (0, signal_wake_up smp_env 4 False (set_psignal (\<lambda>s. s OR 2) (Private 4) k))"
proof -
  let ?k = "upd_task 4 (\<lambda>t. t\<lparr>t_exit_state := EXIT_ZOMBIE\<rparr>) smp_state"
  have "smunch_target smp_pids 4 ?k 4" using smp_target
    by (simp add: smunch_target_def thread_group_empty_def sig_of_def)
  moreover have "zombie_or_dead (tasks ?k 4)" "\<not> has_sigkill 2" by (simp_all add: zombie_or_dead_def exit_state_defs has_sigkill_def)
  ultimately show ?thesis
    using smunch_versions_differ [of smp_env smp_pids 4 2 ?k] by (auto simp: Let_def smp_pids_def)
qed



text \<open>A process in \<open>pause\<close> stays there after any number of \<open>smunch\<close> calls
  with SIGKILL: the signal is pending but the thread is not told to look.\<close>

theorem pause_survives_smunch:
  assumes t: "smunch_target P pid k t" "\<not> zombie_or_dead (tasks k t)" and b: "has_sigkill b" and c: "cur k = t"
    and f: "\<not> signal_pending (tasks k t)"
  shows "sys_pause (replicate n (smunched E P pid b other)) k = None \<and>
    fatal_signal_pending_raw (tasks (smunched E P pid b other k) t) \<and>
    \<not> fatal_signal_pending (tasks (smunched E P pid b other k) t)"
proof -
  have p: "sys_pause (replicate n (smunched E P pid b other)) k = None"
    using t c f
  proof (induction n arbitrary: k)
    case (Suc n)
    let ?k = "upd_task t (\<lambda>x. x\<lparr>t_state := TASK_INTERRUPTIBLE\<rparr>) k"
    have tk: "smunch_target P pid ?k t" "\<not> zombie_or_dead (tasks ?k t)" "t_tif_sigpending (tasks ?k t) = t_tif_sigpending (tasks k t)"
      using Suc.prems by (simp_all add: smunch_target_state zombie_or_dead_def)
    from smunched_target [OF tk(1,2) b, of E other] smunched_kill(1) [OF tk(1,2) b, where E = E and other = other] Suc tk(3)
    show ?case by (simp add: signal_pending_def)
  qed (simp add: signal_pending_def)
  from smunched_kill(3) [OF t b, where E = E and other = other] obtain st where
    "tasks (smunched E P pid b other k) t = (tasks k t)\<lparr>t_pending := (t_pending (tasks k t))
           \<lparr>psignal := sigaddset SIGKILL (psignal (t_pending (tasks k t)))\<rparr>, t_state := st\<rparr>" by blast
  with p f show ?thesis by (simp add: fatal_signal_pending_raw_def fatal_signal_pending_def signal_pending_def)
qed

theorem pause_survives_smunch_witness:
  "sys_pause (replicate 3 (smunched smp_env smp_pids 4 testkill_pattern 5)) (smp_state\<lparr>cur := 4\<rparr>) = None"
proof -
  have t: "smunch_target smp_pids 4 (smp_state\<lparr>cur := 4\<rparr>) 4" using smp_target
    by (simp add: smunch_target_def thread_group_empty_def sig_of_def)
  have b: "has_sigkill testkill_pattern" by (simp add: has_sigkill_def testkill_pattern_def)
  from pause_survives_smunch [OF t _ b] show ?thesis by (simp add: zombie_or_dead_def signal_pending_def)
qed

text \<open>No signal sent by the regular functions wakes a process in \<open>deepsleep\<close>;
  \<open>smunch\<close> does exactly when its pattern holds SIGKILL.\<close>

theorem deep_sleep_needs_smunch:
  assumes w: "wakes_by_mask E" and k: "cur k0 = t" "k = (deepsleep k0)\<lparr>cur := other\<rparr>" and f: "find_task P pid = Some t"
    and h: "t_sighand (tasks k t) = Some h" and s: "thread_group_empty k t" and z: "\<not> zombie_or_dead (tasks k t)"
  shows "in_deep_sleep t (snd (do_send_sig_info E sig a p grp k)) \<and>
    in_deep_sleep t (snd (smunch E P pid b k)) = (\<not> has_sigkill b) \<and>
    (has_sigkill b \<longrightarrow> t_state (tasks (snd (smunch E P pid b k)) t) = TASK_RUNNING)"
proof -
  have d: "in_deep_sleep t k" using k by (simp add: in_deep_sleep_def deepsleep_def)
  have "in_deep_sleep t (snd (send_signal E sig a p grp k))" using deep_send [OF w d] by (simp add: send_signal_def)
  then have "in_deep_sleep t (snd (do_send_sig_info E sig a p grp k))" using d
    by (auto simp: do_send_sig_info_def bump_counter_def in_deep_sleep_def split: option.splits prod.splits)
  moreover have "t_state (tasks (wake_up_process E t (set_psignal (sigaddset SIGKILL) (Private t) k)) t) = TASK_RUNNING"
    using w d by (simp add: wake_up_process_def wake_up_state_def wakes_by_mask_def in_deep_sleep_def
        set_psignal_def task_state_defs)
  moreover have "in_deep_sleep t (signal_wake_up E t False (set_psignal (\<lambda>s. s OR b) (Private t) k))"
    using d by (simp add: deep_wakes [OF w])
  ultimately show ?thesis using f h s z
    by (auto simp: smunch_def lock_task_sighand_def in_deep_sleep_def task_state_defs)
qed

theorem deep_sleep_needs_smunch_witness:
  "let k = (deepsleep (smp_state\<lparr>cur := 4\<rparr>))\<lparr>cur := 5\<rparr> in
    in_deep_sleep 4 (snd (do_send_sig_info smp_env SIGKILL SEND_SIG_PRIV 4 True k)) \<and>
    t_state (tasks (snd (smunch smp_env smp_pids 4 testkill_pattern k)) 4) = TASK_RUNNING"
proof -
  let ?k = "(deepsleep (smp_state\<lparr>cur := 4\<rparr>))\<lparr>cur := 5\<rparr>"
  have k: "cur (smp_state\<lparr>cur := 4\<rparr>) = 4" by simp
  have f: "find_task smp_pids 4 = Some 4" by (simp add: smp_pids_def)
  have s: "t_sighand (tasks ?k 4) = Some 4" "thread_group_empty ?k 4" "\<not> zombie_or_dead (tasks ?k 4)"
    by (simp_all add: deepsleep_def thread_group_empty_def sig_of_def zombie_or_dead_def) (simp add: smp_defs)
  have b: "has_sigkill testkill_pattern" by (simp add: has_sigkill_def testkill_pattern_def)
  from deep_sleep_needs_smunch [OF smp_wakes k refl f s, of SIGKILL SEND_SIG_PRIV 4 True testkill_pattern] b
  show ?thesis by (simp add: Let_def)
qed

end
