(* ===== verification/Sig_Queue_Interface.thy ===== *)
theory Sig_Queue_Interface
  imports Sig_Queue_Spec
begin

text \<open>
  The queue of pending signals as its clients see it, a locale over taking and removing, and its
  interpretation on \<open>collect_signal\<close> and \<open>rm_from_queue_full\<close>.
\<close>

section \<open>The interface of a queue of pending signals\<close>

text \<open>
  What a client of a pending queue relies on: taking a signal returns its oldest record and
  removing a set of signals drops their bits and records, both as on the bitmap and the list.
\<close>

locale pending_queue =
  fixes ok :: "'s \<Rightarrow> bool" and view :: "'s \<Rightarrow> sigset \<times> siginfo list"
    and take_sig :: "int \<Rightarrow> 's \<Rightarrow> siginfo \<times> 's" and remove_sigs :: "sigset \<Rightarrow> 's \<Rightarrow> 's"
  assumes take_ok: "ok s \<Longrightarrow> signo sig \<Longrightarrow> take_sig sig s = (i, s') \<Longrightarrow> ok s'"
    and take_law: "ok s \<Longrightarrow> signo sig \<Longrightarrow> take_sig sig s = (i, s') \<Longrightarrow> collect_spec sig (view s) = (r, v) \<Longrightarrow>
      view s' = v \<and> (\<forall>j. r = Some j \<longrightarrow> i = j)"
    and remove_ok: "ok s \<Longrightarrow> ok (remove_sigs m s)"
    and remove_law: "ok s \<Longrightarrow> view (remove_sigs m s) = remove_spec m (view s)"

text \<open>Taking the same signal several times.\<close>

fun drain_sig :: "(int \<Rightarrow> 's \<Rightarrow> siginfo \<times> 's) \<Rightarrow> int \<Rightarrow> nat \<Rightarrow> 's \<Rightarrow> siginfo list \<times> 's" where
  "drain_sig tk sig 0 s = ([], s)"
| "drain_sig tk sig (Suc n) s =
     (case tk sig s of (i, s) \<Rightarrow> (case drain_sig tk sig n s of (is, s) \<Rightarrow> (i # is, s)))"

lemma take_info_filter:
  "take_info sig is = (case filter (\<lambda>i. si_signo i = sig) is of
     [] \<Rightarrow> (None, is) | i # _ \<Rightarrow> (Some i, takeWhile (\<lambda>i. si_signo i \<noteq> sig) is @ tl (dropWhile (\<lambda>i. si_signo i \<noteq> sig) is)))"
  by (induction "is") (auto split: list.splits)

lemma take_info_some:
  assumes "take_info sig is = (Some i, rest)"
  shows "filter (\<lambda>i. si_signo i = sig) is = i # filter (\<lambda>i. si_signo i = sig) rest"
    and "filter (\<lambda>i. si_signo i \<noteq> sig) rest = filter (\<lambda>i. si_signo i \<noteq> sig) is"
  using assms by (induction "is" arbitrary: rest) (auto split: if_splits prod.splits)

context pending_queue
begin

lemma take_step:
  assumes "ok s" and "signo sig" and "take_sig sig s = (i, s')" and "\<exists>j \<in> set (snd (view s)). si_signo j = sig"
  shows "filter (\<lambda>j. si_signo j = sig) (snd (view s)) = i # filter (\<lambda>j. si_signo j = sig) (snd (view s'))"
    and "filter (\<lambda>j. si_signo j \<noteq> sig) (snd (view s')) = filter (\<lambda>j. si_signo j \<noteq> sig) (snd (view s))"
    and "fst (view s') = (if \<exists>j \<in> set (snd (view s')). si_signo j = sig then fst (view s) else sigdelset sig (fst (view s)))"
proof -
  obtain r rest where t: "take_info sig (snd (view s)) = (r, rest)" by fastforce
  have "r \<noteq> None" using t assms(4) take_info_filter [of sig "snd (view s)"] by (auto simp: filter_empty_conv split: list.splits)
  then obtain j where r: "r = Some j" by blast
  have c: "collect_spec sig (view s) = (r, if sig \<in> si_signo ` set rest then fst (view s) else sigdelset sig (fst (view s)), rest)"
    using t by (simp add: collect_spec_def split_beta)
  from take_law [OF assms(1,2,3) c] r have v: "view s' = (if sig \<in> si_signo ` set rest then fst (view s) else sigdelset sig (fst (view s)), rest)"
    and i: "i = j" by auto
  from take_info_some [OF t [unfolded r]] v i
  show "filter (\<lambda>j. si_signo j = sig) (snd (view s)) = i # filter (\<lambda>j. si_signo j = sig) (snd (view s'))"
    "filter (\<lambda>j. si_signo j \<noteq> sig) (snd (view s')) = filter (\<lambda>j. si_signo j \<noteq> sig) (snd (view s))"
    "fst (view s') = (if \<exists>j \<in> set (snd (view s')). si_signo j = sig then fst (view s) else sigdelset sig (fst (view s)))"
    by auto
qed

lemma drain_in_order:
  assumes "ok s" and "signo sig" and "n = length (filter (\<lambda>j. si_signo j = sig) (snd (view s)))"
    and "drain_sig take_sig sig n s = (is, s')"
  shows "is = filter (\<lambda>j. si_signo j = sig) (snd (view s)) \<and>
    snd (view s') = filter (\<lambda>j. si_signo j \<noteq> sig) (snd (view s)) \<and>
    fst (view s') = (if n = 0 then fst (view s) else sigdelset sig (fst (view s))) \<and> ok s'"
  using assms
proof (induction n arbitrary: s "is")
  case 0
  then show ?case by (auto simp: filter_empty_conv intro!: filter_True [symmetric])
next
  case (Suc n)
  obtain i s1 where t: "take_sig sig s = (i, s1)" by fastforce
  obtain is1 where d: "drain_sig take_sig sig n s1 = (is1, s')" "is = i # is1"
    using Suc.prems(4) t by (auto split: prod.splits)
  have "\<exists>j \<in> set (snd (view s)). si_signo j = sig"
    using Suc.prems(3) by (metis (mono_tags, lifting) Zero_not_Suc filter_False list.size(3))
  note st = take_step [OF Suc.prems(1,2) t this]
  have n: "n = length (filter (\<lambda>j. si_signo j = sig) (snd (view s1)))" using Suc.prems(3) st(1) by simp
  note ih = Suc.IH [OF take_ok [OF Suc.prems(1,2) t] Suc.prems(2) n d(1)]
  have "(\<exists>j \<in> set (snd (view s1)). si_signo j = sig) \<longleftrightarrow> n \<noteq> 0" using n by (auto simp: filter_empty_conv)
  with st(3) have f: "fst (view s1) = (if n = 0 then sigdelset sig (fst (view s)) else fst (view s))" by auto
  from ih d(2) st(1,2) f show ?case by auto
qed

lemma removed_not_drained:
  assumes "ok s" and "sigismember m sig" and "signo sig"
  shows "filter (\<lambda>j. si_signo j = sig) (snd (view (remove_sigs m s))) = [] \<and> \<not> sigismember (fst (view (remove_sigs m s))) sig"
  using assms by (auto simp: remove_law remove_spec_def split_beta filter_empty_conv)

end

section \<open>The queues of the model\<close>

interpretation sigq: pending_queue "\<lambda>k. pend_ok k l" "\<lambda>k. pview k l"
  "\<lambda>sig k. collect_signal sig l info k" "\<lambda>m k. snd (rm_from_queue_full m l k)" for l info
proof
  fix s s' :: kstate and sig i r v m
  assume ok: "pend_ok s l"
  show "pend_ok (snd (rm_from_queue_full m l s)) l" "pview (snd (rm_from_queue_full m l s)) l = remove_spec m (pview s l)"
    using rm_from_queue_full_refines [OF ok surjective_pairing] by auto
  assume s: "signo sig" and c: "collect_signal sig l info s = (i, s')"
  show "pend_ok s' l" by (rule collect_pend_ok [OF ok c s])
  show "pview s' l = v \<and> (\<forall>j. r = Some j \<longrightarrow> i = j)" if "collect_spec sig (pview s l) = (r, v)"
    using collect_refines(1) [OF ok c] that by (auto split: if_splits)
qed

end
