(* ===== verification/Sig_Deliver_Facts.thy ===== *)
theory Sig_Deliver_Facts
  imports Sig_Deliver Sig_Mask_Facts Sig_Stop_Facts
begin

text \<open>
  Delivery: after SIGCONT no thread of the group is asked or entitled to stop, and a caller with
  nothing but signals to look at gets through its queues, each round leaving fewer of them.
\<close>

section \<open>SIGCONT cancels a stop\<close>

text \<open>Neither asked to stop nor entitled to start a stop.\<close>

definition no_stop :: "kstate \<Rightarrow> nat \<Rightarrow> bool" where
  "no_stop k t \<longleftrightarrow> t_jobctl (tasks k t) AND JOBCTL_STOP_PENDING = 0 \<and> t_jobctl (tasks k t) AND JOBCTL_STOP_DEQUEUED = 0"

lemma jobctl_rm [simp]: "t_jobctl (tasks (snd (rm_from_queue m l k)) t) = t_jobctl (tasks k t)"
proof -
  have "pend_frame k (snd (rm_from_queue m l k))"
    by (auto simp: rm_from_queue_def Let_def intro: pend_frame_trans [OF pend_frame_set pend_frame_fold_drop])
  from pend_frame_task(4) [OF this] show ?thesis .
qed

lemma jobctl_wake [simp]:
  "t_jobctl (tasks (snd (wake_up_state E t m k)) u) = t_jobctl (tasks k u)"
  "t_jobctl (tasks (signal_wake_up_state E t m k) u) = t_jobctl (tasks k u)"
  by (simp_all add: wake_up_state_def signal_wake_up_state_def set_tif_sigpending_def Let_def split_beta)

lemma or_and_disjoint: "m AND b = 0 \<Longrightarrow> (x OR m) AND b = x AND (b :: 'a::len word)"
  by (auto simp: bit_eq_iff bit_simps)

lemma not_and_disjoint: "m AND b = 0 \<Longrightarrow> (x AND NOT m) AND b = x AND (b :: 'a::len word)"
  by (auto simp: bit_eq_iff bit_simps)

text \<open>What SIGCONT does to a thread's job control bits.\<close>

lemma jobctl_notify: "no_stop k u \<Longrightarrow> no_stop (ptrace_trap_notify E t k) u"
  by (auto simp: ptrace_trap_notify_def ptrace_signal_wake_up_def task_set_jobctl_pending_def Let_def no_stop_def
      JOBCTL_STOP_PENDING_def JOBCTL_STOP_DEQUEUED_def JOBCTL_TRAP_NOTIFY_def JOBCTL_STOP_SIGMASK_def
      intro!: trans [OF or_and_disjoint])

lemma clear_no_stop: "no_stop (task_clear_jobctl_pending t JOBCTL_STOP_PENDING k) t"
proof -
  have z: "(x AND NOT JOBCTL_STOP_PENDING AND NOT JOBCTL_STOP_CONSUME AND NOT JOBCTL_STOP_DEQUEUED) AND JOBCTL_STOP_PENDING = 0"
    "(x AND NOT JOBCTL_STOP_PENDING AND NOT JOBCTL_STOP_CONSUME AND NOT JOBCTL_STOP_DEQUEUED) AND JOBCTL_STOP_DEQUEUED = 0" for x
    by (rule bit_word_eqI, auto simp: bit_simps)+
  have tr: "(x AND NOT JOBCTL_TRAPPING) AND JOBCTL_STOP_PENDING = x AND JOBCTL_STOP_PENDING"
    "(x AND NOT JOBCTL_TRAPPING) AND JOBCTL_STOP_DEQUEUED = x AND JOBCTL_STOP_DEQUEUED" for x
    by (rule not_and_disjoint, simp add: jobctl_defs)+
  have n: "JOBCTL_STOP_PENDING AND JOBCTL_STOP_PENDING \<noteq> 0" by (simp add: jobctl_defs)
  show ?thesis using z tr n
    by (simp add: no_stop_def task_clear_jobctl_pending_def task_clear_jobctl_trapping_def Let_def)
qed

lemma no_stop_wake: "no_stop (snd (wake_up_state E t m k)) u = no_stop k u"
  by (simp add: no_stop_def)

lemma cont_thread_no_stop:
  assumes "u = t \<or> no_stop k u"
  shows "no_stop (cont_thread E t k) u"
proof -
  let ?k1 = "snd (rm_from_queue SIG_KERNEL_STOP_MASK (Private t) (task_clear_jobctl_pending t JOBCTL_STOP_PENDING k))"
  have "no_stop ?k1 u"
    using assms clear_no_stop [of t k] clear_pending_frame(3) [of u t JOBCTL_STOP_PENDING k]
    by (cases "u = t") (simp_all add: no_stop_def)
  then show ?thesis using jobctl_notify [of ?k1 u E t]
    by (simp add: cont_thread_def Let_def no_stop_wake)
qed

lemma fold_cont_no_stop: "u \<in> set ts \<or> no_stop k u \<Longrightarrow> no_stop (fold (cont_thread E) ts k) u"
proof (induction ts arbitrary: k)
  case (Cons t ts)
  then show ?case using cont_thread_no_stop [of u t k E] by (cases "u = t") auto
qed simp

lemma prepare_cont_no_stop:
  assumes "s_flags (sig_of k p) AND SIGNAL_GROUP_EXIT = 0" and "prepare_signal E SIGCONT p ns k = (c, k')"
    and "u \<in> set (s_threads (sig_of k p))"
  shows "no_stop k' u"
proof -
  let ?k1 = "snd (rm_from_queue SIG_KERNEL_STOP_MASK (Shared (t_signal (tasks k p))) k)"
  have "skel ?k1 = skel k" by (simp add: frame_simps)
  then have "u \<in> set (group_from ?k1 p)" using assms(3) group_from_skel [of ?k1 k p] by (simp add: group_from_def)
  then have "no_stop (cont_removes_stops E p k) u"
    unfolding cont_removes_stops_def each_thread_def using fold_cont_no_stop by blast
  moreover have "k' = note_continued (t_signal (tasks k p)) (cont_removes_stops E p k)"
    using assms(1,2) by (simp add: prepare_signal_def Let_def sig_kernel_stop_iff sig_of_def)
  ultimately show ?thesis by (simp add: note_continued_def Let_def no_stop_def)
qed

section \<open>Delivery ends\<close>

text \<open>What a queue still holds: its signals and its records.\<close>

definition pweight :: "sigset \<times> siginfo list \<Rightarrow> nat" where
  "pweight v = card {a. signo a \<and> sigismember (fst v) a} + length (snd v)"

definition weight :: "kstate \<Rightarrow> nat" where
  "weight k = pweight (pview k (Private (cur k))) + pweight (pview k (Shared (t_signal (tasks k (cur k)))))"

definition ready :: "kstate \<Rightarrow> int \<Rightarrow> bool" where
  "ready k a \<longleftrightarrow> signo a \<and> \<not> sigismember (t_blocked (tasks k (cur k))) a \<and>
     (sigismember (fst (pview k (Private (cur k)))) a \<or>
      sigismember (fst (pview k (Shared (t_signal (tasks k (cur k)))))) a)"

lemma finite_signo: "finite {a. signo a \<and> P a}"
  by (rule finite_subset [of _ "{1..64}"]) (auto simp: signo_def)

lemma card_sigdel:
  assumes "signo a" "sigismember S a"
  shows "card {b. signo b \<and> sigismember (sigdelset a S) b} < card {b. signo b \<and> sigismember S b}"
proof (rule psubset_card_mono [OF finite_signo])
  have "a \<in> {b. signo b \<and> sigismember S b} - {b. signo b \<and> sigismember (sigdelset a S) b}" using assms by simp
  moreover have "{b. signo b \<and> sigismember (sigdelset a S) b} \<subseteq> {b. signo b \<and> sigismember S b}" using assms by auto
  ultimately show "{b. signo b \<and> sigismember (sigdelset a S) b} \<subset> {b. signo b \<and> sigismember S b}" by blast
qed

lemma take_info_length: "take_info sig is = (r, rest) \<Longrightarrow> length is = length rest + (if r = None then 0 else 1)"
  by (induction "is" arbitrary: r rest) (auto split: if_splits prod.splits)

lemma take_info_none: "take_info sig is = (None, rest) \<Longrightarrow> sig \<notin> si_signo ` set rest"
  by (induction "is" arbitrary: rest) (auto split: if_splits prod.splits)

lemma taken_weight:
  assumes t: "taken sig i l k k'" and s: "signo sig" "sigismember (fst (pview k l)) sig"
  shows "pweight (pview k' l) < pweight (pview k l)" and "m \<noteq> l \<Longrightarrow> pview k' m = pview k m"
    and "signo a \<Longrightarrow> sigismember (fst (pview k' m)) a \<Longrightarrow> sigismember (fst (pview k m)) a"
proof -
  obtain S "is" where v: "pview k l = (S, is)" by fastforce
  obtain r rest where t': "take_info sig is = (r, rest)" by fastforce
  have v': "pview k' l = (if sig \<in> si_signo ` set rest then S else sigdelset sig S, rest)"
    using t v t' by (auto simp: taken_def collect_spec_def)
  have c: "card {b. signo b \<and> sigismember (sigdelset sig S) b} < card {b. signo b \<and> sigismember S b}"
    using card_sigdel s v by simp
  show "pweight (pview k' l) < pweight (pview k l)"
    using take_info_length [OF t'] take_info_none [of sig "is" rest] t' c
    by (cases r) (auto simp: pweight_def v v')
  show o: "m \<noteq> l \<Longrightarrow> pview k' m = pview k m" for m using t by (simp add: taken_def)
  show "signo a \<Longrightarrow> sigismember (fst (pview k' m)) a \<Longrightarrow> sigismember (fst (pview k m)) a"
    using o v v' s by (cases "m = l") (auto split: if_splits)
qed

text \<open>Everything about the caller that taking a signal leaves alone.\<close>

definition caller_frame :: "kstate \<Rightarrow> kstate \<Rightarrow> bool" where
  "caller_frame k k' \<longleftrightarrow> cur k' = cur k \<and> sighands k' = sighands k \<and>
     (\<forall>t. t_signal (tasks k' t) = t_signal (tasks k t) \<and> t_sighand (tasks k' t) = t_sighand (tasks k t) \<and>
          t_blocked (tasks k' t) = t_blocked (tasks k t) \<and> t_ptrace (tasks k' t) = t_ptrace (tasks k t) \<and>
          t_notifier (tasks k' t) = t_notifier (tasks k t) \<and> t_tgid (tasks k' t) = t_tgid (tasks k t) \<and>
          t_real_blocked (tasks k' t) = t_real_blocked (tasks k t)) \<and>
     t_jobctl (tasks k' (cur k)) AND JOBCTL_PENDING_MASK = t_jobctl (tasks k (cur k)) AND JOBCTL_PENDING_MASK \<and>
     (\<forall>g. s_flags (signals k' g) = s_flags (signals k g) \<and> s_threads (signals k' g) = s_threads (signals k g))"

lemma caller_frame_trans: "caller_frame a b \<Longrightarrow> caller_frame b c \<Longrightarrow> caller_frame a c"
  by (simp add: caller_frame_def)

lemma pend_frame_caller: "pend_frame k k' \<Longrightarrow> caller_frame k k'"
  using pend_frame_task [of k k'] pend_frame_signal [of k k'] pend_frame_more [of k k']
  by (simp add: caller_frame_def)

lemma caller_frame_simps:
  "caller_frame k (recalc_sigpending E k)" "caller_frame k (ev e k)" "caller_frame k k"
  "caller_frame k (upd_signal g (\<lambda>s. s\<lparr>s_timer_queued := b\<rparr>) k)"
  by (auto simp: caller_frame_def recalc_sigpending_def recalc_sigpending_tsk_def Let_def set_tif_sigpending_def)

lemma caller_frame_dequeued: "caller_frame k (upd_task (cur k) (\<lambda>c. c\<lparr>t_jobctl := t_jobctl c OR JOBCTL_STOP_DEQUEUED\<rparr>) k)"
proof -
  have "(x OR JOBCTL_STOP_DEQUEUED) AND JOBCTL_PENDING_MASK = x AND JOBCTL_PENDING_MASK" for x
  proof -
    have "JOBCTL_STOP_DEQUEUED AND JOBCTL_PENDING_MASK = 0" by (simp add: jobctl_defs)
    then show ?thesis by (auto simp: bit_eq_iff bit_simps)
  qed
  then show ?thesis by (simp add: caller_frame_def)
qed

lemma dequeue_frame:
  assumes q: "queues_ok k" and n: "t_notifier (tasks k (cur k)) = None"
    and d: "dequeue_signal E (cur k) msk info k = (sig, i, k')"
  shows "caller_frame k k'"
proof -
  let ?g = "t_signal (tasks k (cur k))"
  obtain s1 i1 k1 where r1: "dequeue_signal_raw (Private (cur k)) msk info k = (s1, i1, k1)" by (metis prod_cases3)
  note a = dequeue_raw_taken [OF q n r1]
  have f1: "caller_frame k k1" using pend_frame_caller [OF a(3)] .
  obtain s2 i2 k2 where r2: "dequeue_signal_raw (Shared ?g) msk i1 k = (s2, i2, k2)" by (metis prod_cases3)
  note b = dequeue_raw_taken [OF q n r2]
  have f2: "caller_frame k k2" using pend_frame_caller [OF b(3)] .
  define k3 where "k3 = (if s1 \<noteq> 0 then k1
    else if s2 = SIGALRM \<and> \<not> s_timer_queued (signals k2 ?g) \<and> s_it_real_incr (signals k2 ?g) \<noteq> 0
    then ev (Ev_Hrtimer_Restart ?g) (upd_signal ?g (\<lambda>s. s\<lparr>s_timer_queued := True\<rparr>) k2) else k2)"
  have f3: "caller_frame k (recalc_sigpending E k3)"
  proof (rule caller_frame_trans [OF _ caller_frame_simps(1)])
    show "caller_frame k k3"
      unfolding k3_def using f1 f2
        caller_frame_trans [OF caller_frame_trans [OF f2 caller_frame_simps(4)] caller_frame_simps(2)] by simp
  qed
  have k': "k' = recalc_sigpending E k3 \<or>
     (let k4 = upd_task (cur k3) (\<lambda>c. c\<lparr>t_jobctl := t_jobctl c OR JOBCTL_STOP_DEQUEUED\<rparr>) (recalc_sigpending E k3) in
        k' = k4 \<or> k' = ev Ev_Schedule_Timer k4 \<or> k' = ev Ev_Schedule_Timer (recalc_sigpending E k3))"
    using d r1 r2 a(1,4) by (auto simp: dequeue_signal_def Let_def k3_def recalc_exact(3) split: if_splits)
  have c3: "cur k3 = cur (recalc_sigpending E k3)" by (simp add: recalc_exact(3))
  have f4: "caller_frame k (upd_task (cur k3) (\<lambda>c. c\<lparr>t_jobctl := t_jobctl c OR JOBCTL_STOP_DEQUEUED\<rparr>) (recalc_sigpending E k3))"
    unfolding c3 by (rule caller_frame_trans [OF f3 caller_frame_dequeued])
  from k' show ?thesis
    using f3 f4 caller_frame_simps(2) caller_frame_trans unfolding Let_def by blast
qed

text \<open>No stop, no trap, no tracer: the caller only has signals to look at.\<close>

definition quiet :: "kstate \<Rightarrow> bool" where
  "quiet k \<longleftrightarrow> queues_ok k \<and> t_notifier (tasks k (cur k)) = None \<and> t_ptrace (tasks k (cur k)) = 0 \<and>
     t_jobctl (tasks k (cur k)) AND JOBCTL_PENDING_MASK = 0 \<and>
     (\<forall>a. ready k a \<longrightarrow> sig_kernel_stop a \<longrightarrow> sig_handler k (cur k) a \<noteq> SIG_DFL)"

definition outcome_ok :: "kstate \<Rightarrow> delivery \<Rightarrow> kstate \<Rightarrow> bool" where
  "outcome_ok k d k' \<longleftrightarrow>
     (case d of
        No_Signal \<Rightarrow> \<forall>a. \<not> ready k' a
      | Run_Handler sig i ka \<Rightarrow> ready k sig \<and> si_signo i = sig \<and> ka = action (hand_of k (cur k)) ! sigidx sig \<and>
          sa_handler ka \<noteq> SIG_IGN \<and> sa_handler ka \<noteq> SIG_DFL
      | Do_Group_Exit sig \<Rightarrow> ready k sig \<and> sig_handler k (cur k) sig = SIG_DFL \<and> \<not> sig_kernel_ignore sig \<and>
          \<not> sig_kernel_stop sig \<and> (s_flags (sig_of k (cur k)) AND SIGNAL_UNKILLABLE \<noteq> 0 \<longrightarrow> sig_kernel_only sig))"

lemma caller_frame_more:
  assumes "caller_frame k k'"
  shows "cur k' = cur k" "hand_of k' (cur k) = hand_of k (cur k)" "sig_handler k' (cur k) a = sig_handler k (cur k) a"
    "s_flags (sig_of k' (cur k)) = s_flags (sig_of k (cur k))"
  using assms by (simp_all add: caller_frame_def hand_of_def sig_handler_def sig_of_def)

text \<open>Dequeueing in a quiet state.\<close>

lemma quiet_dequeue:
  assumes q: "quiet k" and d: "dequeue_signal E (cur k) (t_blocked (tasks k (cur k))) info k = (sig, i, k')"
  shows "sig = 0 \<Longrightarrow> \<forall>a. \<not> ready k' a" and "caller_frame k k'" and "quiet k'"
    and "sig \<noteq> 0 \<Longrightarrow> ready k sig \<and> si_signo i = sig \<and> weight k' < weight k" and "ready k' a \<Longrightarrow> ready k a"
proof -
  let ?msk = "t_blocked (tasks k (cur k))" and ?t = "cur k" and ?g = "t_signal (tasks k (cur k))"
  have qo: "queues_ok k" "t_notifier (tasks k (cur k)) = None" using q by (simp_all add: quiet_def)
  show fr: "caller_frame k k'" by (rule dequeue_frame [OF qo d])
  let ?l = "deq_loc k ?t ?msk"
  have D: "sig = next_signal (pending_at k ?l) ?msk" "queues_ok k'"
    "if sig = 0 then \<forall>m. pview k' m = pview k m else taken sig i ?l k k'"
    using dequeue_signal_spec [OF qo d] by auto
  have loc: "?l = Private ?t \<or> ?l = Shared ?g" by (simp add: deq_loc_def)
  have bit: "fst (pview k l) = psignal (pending_at k l)" for l by (simp add: pview_def)
  have pr: "signo sig" "sigismember (fst (pview k ?l)) sig" "\<not> sigismember ?msk sig" if "sig \<noteq> 0"
    using next_signal_props(1,2,3) [of "pending_at k ?l" ?msk] that D(1) bit by auto
  have sub: "sigismember (fst (pview k' m)) b \<Longrightarrow> signo b \<Longrightarrow> sigismember (fst (pview k m)) b" for m b
    using D(3) pr taken_weight(3) [of sig i ?l k k' b m] by (cases "sig = 0") auto
  show r: "ready k a" if "ready k' a" for a
    using that sub fr by (auto simp: ready_def caller_frame_def)
  show "quiet k'" using q D(2) fr r caller_frame_more(3) [OF fr] by (auto simp: quiet_def caller_frame_def)
  show "ready k sig \<and> si_signo i = sig \<and> weight k' < weight k" if "sig \<noteq> 0"
  proof -
    have t: "taken sig i ?l k k'" using D(3) that by simp
    note w = taken_weight(1,2) [OF t pr(1,2) [OF that]]
    have "weight k' < weight k"
      using w(1) w(2) [of "Private ?t"] w(2) [of "Shared ?g"] loc fr by (auto simp: weight_def caller_frame_def)
    with t pr that loc show ?thesis by (auto simp: ready_def taken_def)
  qed
  show "\<forall>a. \<not> ready k' a" if "sig = 0"
  proof -
    have "next_signal (pending_at k (Private ?t)) ?msk = 0" "next_signal (pending_at k (Shared ?g)) ?msk = 0"
      using D(1) that by (auto simp: deq_loc_def split: if_splits)
    then have "psignal (pending_at k (Private ?t)) AND NOT ?msk = 0" "psignal (pending_at k (Shared ?g)) AND NOT ?msk = 0"
      by (simp_all add: next_signal_zero)
    then have "\<not> ready k a" for a
      unfolding ready_def bit by (metis sigismember_and sigismember_empty sigismember_not)
    with r show ?thesis by blast
  qed
qed


text \<open>One round in a quiet state: done, or fewer signals left.\<close>

lemma outcome_ok_step:
  assumes "caller_frame k k1" and "\<And>a. ready k1 a \<Longrightarrow> ready k a" and "outcome_ok k1 d k2"
  shows "outcome_ok k d k2"
proof -
  note c = caller_frame_more [OF assms(1)]
  show ?thesis using assms(2,3)
    by (cases d) (auto simp: outcome_ok_def c)
qed

lemma quiet_body:
  assumes q: "quiet k"
  shows "\<exists>i j k'. loop_body E info (k, w) = Some (i, j, k', w) \<and>
    (case j of Relock \<Rightarrow> False
     | Again \<Rightarrow> quiet k' \<and> caller_frame k k' \<and> weight k' < weight k \<and> (\<forall>a. ready k' a \<longrightarrow> ready k a)
     | Finish d \<Rightarrow> outcome_ok k d k')"
proof -
  obtain sig i k1 where d: "dequeue_signal E (cur k) (t_blocked (tasks k (cur k))) info k = (sig, i, k1)" by (metis prod_cases3)
  note e = quiet_dequeue [OF q d]
  note c = caller_frame_more [OF e(2)]
  have j: "t_jobctl (tasks k (cur k)) AND JOBCTL_STOP_PENDING = 0" "t_jobctl (tasks k (cur k)) AND JOBCTL_TRAP_MASK = 0"
    using q by (simp_all add: quiet_def JOBCTL_PENDING_MASK_def flags_split)
  have p: "t_ptrace (tasks k1 (cur k1)) = 0" using q e(2) by (simp add: quiet_def caller_frame_def)
  show ?thesis
  proof (cases "sig = 0")
    case True
    then show ?thesis using d j e(1) by (simp add: loop_body_def outcome_ok_def)
  next
    case False
    note r = e(4) [OF False]
    have body: "loop_body E info (k, w) = (case act_on E sig i (k1, w) of None \<Rightarrow> None | Some (j, kw) \<Rightarrow> Some (i, j, kw))"
      using d j p False by (simp add: loop_body_def)
    have ns: "sig_kernel_stop sig \<Longrightarrow> sig_handler k (cur k) sig \<noteq> SIG_DFL"
      using q r by (simp add: quiet_def)
    let ?ka = "action (hand_of k (cur k)) ! sigidx sig"
    have h: "action (hand_of k1 (cur k1)) ! sigidx sig = ?ka" "sa_handler ?ka = sig_handler k (cur k) sig"
      using c(1,2) by (simp_all add: sig_handler_def)
    have fl: "s_flags (sig_of k1 (cur k1)) = s_flags (sig_of k (cur k))" using c(1,4) by simp
    show ?thesis
    proof (cases "sig_handler k (cur k) sig = SIG_IGN \<or> sig_handler k (cur k) sig = SIG_DFL \<and>
        (sig_kernel_ignore sig \<or> s_flags (sig_of k (cur k)) AND SIGNAL_UNKILLABLE \<noteq> 0 \<and> \<not> sig_kernel_only sig)")
      case True
      then have "act_on E sig i (k1, w) = Some (Again, k1, w)"
        using h fl by (auto simp: act_on_def Let_def)
      then show ?thesis using body e r by (intro exI [of _ i] exI [of _ Again] exI [of _ k1]) simp
    next
      case no: False
      show ?thesis
      proof (cases "sig_handler k (cur k) sig = SIG_DFL")
        case True
        then have "\<exists>k2. act_on E sig i (k1, w) = Some (Finish (Do_Group_Exit (si_signo i)), k2, w)"
          using h fl no ns by (auto simp: act_on_def Let_def)
        then obtain k2 where "act_on E sig i (k1, w) = Some (Finish (Do_Group_Exit (si_signo i)), k2, w)" by blast
        then show ?thesis using body True no ns r
          by (intro exI [of _ i] exI [of _ "Finish (Do_Group_Exit sig)"] exI [of _ k2]) (auto simp: outcome_ok_def)
      next
        case False
        then have "\<exists>k2. act_on E sig i (k1, w) = Some (Finish (Run_Handler sig i ?ka), k2, w)"
          using h no by (auto simp: act_on_def Let_def)
        then obtain k2 where "act_on E sig i (k1, w) = Some (Finish (Run_Handler sig i ?ka), k2, w)" by blast
        then show ?thesis using body False no r h(2)
          by (intro exI [of _ i] exI [of _ "Finish (Run_Handler sig i ?ka)"] exI [of _ k2]) (auto simp: outcome_ok_def)
      qed
    qed
  qed
qed

lemma quiet_deliver:
  assumes "quiet k" and "weight k < n"
  shows "\<exists>d i k'. deliver n E Again info (k, w) = Some (d, i, k', w) \<and> outcome_ok k d k'"
  using assms
proof (induction n arbitrary: k info)
  case (Suc n)
  obtain i j k1 where b: "loop_body E info (k, w) = Some (i, j, k1, w)" and
    j: "case j of Relock \<Rightarrow> False
     | Again \<Rightarrow> quiet k1 \<and> caller_frame k k1 \<and> weight k1 < weight k \<and> (\<forall>a. ready k1 a \<longrightarrow> ready k a)
     | Finish d \<Rightarrow> outcome_ok k d k1"
    using quiet_body [OF Suc.prems(1)] by blast
  show ?case
  proof (cases j)
    case Again
    with j have a: "quiet k1" "weight k1 < n" "caller_frame k k1" "\<And>a. ready k1 a \<Longrightarrow> ready k a"
      using Suc.prems(2) by auto
    from Suc.IH [OF a(1,2)] obtain d i2 k2 where
      "deliver n E Again i (k1, w) = Some (d, i2, k2, w)" "outcome_ok k1 d k2" by blast
    then show ?thesis using b Again outcome_ok_step [OF a(3,4)] by auto
  next
    case (Finish d)
    then show ?thesis using b j by (cases n) auto
  qed (use j in simp)
qed simp

end
