(* ===== verification/Sig_Steps.thy ===== *)
theory Sig_Steps
  imports Sig_Counter_Facts Sig_Deliver_Facts
begin

text \<open>
  The signal system as a whole: the sequences of operations any threads perform on it, each
  under the sighand lock of its target and so one step, and what stays true whatever they do.
\<close>

text \<open>A mask without the signals nobody can block.\<close>

definition mask_ok :: "sigset \<Rightarrow> bool" where
  "mask_ok m \<longleftrightarrow> \<not> sigismember m SIGKILL \<and> \<not> sigismember m SIGSTOP"

section \<open>Steps\<close>

inductive sig_step :: "kenv \<Rightarrow> kstate \<Rightarrow> kstate \<Rightarrow> bool" for E :: kenv where
  send: "signo sig \<Longrightarrow> a = SEND_SIG_FORCED \<or> arg_ok sig a \<Longrightarrow>
     do_send_sig_info E sig a p grp k = (r, k') \<Longrightarrow> sig_step E k k'"
| take: "dequeue_signal E (cur k) msk info k = (sig, i, k') \<Longrightarrow> sig_step E k k'"
| procmask: "sys_rt_sigprocmask E how nset oset sz k = (r, out, k') \<Longrightarrow> sig_step E k k'"
| sigaction: "do_sigaction sig act oact k = (r, old, k') \<Longrightarrow> sig_step E k k'"
| smunch: "smunch E P pid b k = (r, k') \<Longrightarrow> sig_step E k k'"
| init: "init_sigcounter P pid k = Inr (r, k') \<Longrightarrow> sig_step E k k'"
| retarget: "sig_step E k (retarget_shared_pending E t w k)"
| wake: "sig_step E k (signal_wake_up E t b k)"
| schedule: "sig_step E k (k\<lparr>cur := t\<rparr>)"
| block: "mask_ok m \<Longrightarrow> sig_step E k (set_task_blocked_raw E t m k)"
| sleep_open: "sig_step E k (recalc_sigpending E (upd_task t (\<lambda>x. x\<lparr>t_real_blocked := t_blocked x, t_blocked := t_blocked x AND m\<rparr>) k))"
| sleep_done: "sig_step E k (upd_task t (\<lambda>x. x\<lparr>t_real_blocked := 0\<rparr>) k)"
| save_mask: "sig_step E k (upd_task t (\<lambda>x. x\<lparr>t_saved_sigmask := t_blocked x\<rparr>) k)"
| restore_later: "sig_step E k (upd_task t (\<lambda>x. x\<lparr>t_restore_sigmask := b\<rparr>) k)"
| run_state: "sig_step E k (upd_task t (\<lambda>x. x\<lparr>t_state := st\<rparr>) k)"
| altstack: "do_sigaltstack uss uoss sp k = (r, old, k') \<Longrightarrow> sig_step E k k'"
| event: "sig_step E k (ev e k)"

inductive sig_run :: "kenv \<Rightarrow> kstate \<Rightarrow> kstate \<Rightarrow> bool" for E :: kenv where
  refl: "sig_run E k k"
| step: "sig_run E k k1 \<Longrightarrow> sig_step E k1 k2 \<Longrightarrow> sig_run E k k2"

text \<open>The threads of a group are different and share the group's structures.\<close>

definition groups_ok :: "kstate \<Rightarrow> bool" where
  "groups_ok k \<longleftrightarrow> (\<forall>g. distinct (s_threads (signals k g)) \<and>
     (\<forall>t \<in> set (s_threads (signals k g)). t_signal (tasks k t) = g \<and>
        (\<forall>u \<in> set (s_threads (signals k g)). t_sighand (tasks k u) = t_sighand (tasks k t) \<and> t_tgid (tasks k u) = t_tgid (tasks k t))))"

text \<open>All queues well formed, SIGKILL and SIGSTOP blocked by nobody, the groups consistent, and the tables whole.\<close>

definition sig_inv :: "kstate \<Rightarrow> bool" where
  "sig_inv k \<longleftrightarrow> queues_ok k \<and>
     (\<forall>t. mask_ok (t_blocked (tasks k t)) \<and> mask_ok (t_real_blocked (tasks k t))) \<and> groups_ok k \<and> (\<forall>t. t_notifier (tasks k t) = None) \<and>
     (\<forall>h. length (action (sighands k h)) = 64 \<and> length (counters (sighands k h)) = 64)"

lemma groups_ok_cong:
  assumes "\<And>g. s_threads (signals k' g) = s_threads (signals k g)" and "\<And>t. t_signal (tasks k' t) = t_signal (tasks k t)"
    and "\<And>t. t_sighand (tasks k' t) = t_sighand (tasks k t)" and "\<And>t. t_tgid (tasks k' t) = t_tgid (tasks k t)"
  shows "groups_ok k' = groups_ok k"
  unfolding groups_ok_def assms ..

lemma groups_distinct: "groups_ok k \<Longrightarrow> distinct (s_threads (signals k g))"
  by (simp add: groups_ok_def)

lemma sig_inv_frame:
  assumes "sig_inv k" and "queues_ok k'"
    and "\<And>t. t_blocked (tasks k' t) = t_blocked (tasks k t)" and "\<And>t. t_real_blocked (tasks k' t) = t_real_blocked (tasks k t)"
    and "\<And>t. t_signal (tasks k' t) = t_signal (tasks k t)" and "\<And>t. t_sighand (tasks k' t) = t_sighand (tasks k t)"
    and "\<And>t. t_tgid (tasks k' t) = t_tgid (tasks k t)" and "\<And>t. t_notifier (tasks k' t) = t_notifier (tasks k t)"
    and "\<And>g. s_threads (signals k' g) = s_threads (signals k g)"
    and "\<And>h. length (action (sighands k' h)) = length (action (sighands k h)) \<and>
             length (counters (sighands k' h)) = length (counters (sighands k h))"
  shows "sig_inv k'"
  using assms(1,2) groups_ok_cong [of k' k, OF assms(9,5-7)]
  unfolding sig_inv_def by (simp add: assms(3,4,8,10))

lemma sig_inv_skel:
  assumes "sig_inv k" and "queues_ok k'" and "skel k' = skel k"
  shows "sig_inv k'"
  using skel_sel [OF assms(3)] by (intro sig_inv_frame [OF assms(1,2)]) simp_all

lemma sig_inv_queues: "sig_inv k \<Longrightarrow> queues_ok k"
  by (simp add: sig_inv_def)

lemma inv_masks: "sig_inv k \<Longrightarrow> mask_ok (t_blocked (tasks k t))" "sig_inv k \<Longrightarrow> mask_ok (t_real_blocked (tasks k t))"
  by (simp_all add: sig_inv_def)

lemma or_bits_ok: "queues_ok k \<Longrightarrow> queues_ok (set_psignal (\<lambda>s. s OR b) l k)"
proof -
  assume q: "queues_ok k"
  have "pend_ok (set_psignal (\<lambda>s. s OR b) l k) m" for m
    using q by (auto simp: queues_ok_def pend_ok_def pending_at_set entries_for_def
        pend_frame_more(5) [OF pend_frame_set])
  then show ?thesis using q
    by (auto simp: queues_ok_def pending_at_set pend_frame_more(4) [OF pend_frame_set])
qed

lemma bump_frame: "pv (bump_counter h sig k) = pv k"
proof -
  have "pending_at (bump_counter h sig k) l = pending_at k l" for l by (cases l) simp_all
  then show ?thesis by (simp add: pv_def fun_eq_iff)
qed

lemma inv_send:
  assumes i: "sig_inv k" and s: "signo sig" and a: "a = SEND_SIG_FORCED \<or> arg_ok sig a"
    and r: "do_send_sig_info E sig a p grp k = (ret, k')"
  shows "sig_inv k'"
proof (cases "t_sighand (tasks k p)")
  case None
  with r i show ?thesis by (simp add: do_send_sig_info_def lock_task_sighand_def)
next
  case (Some h)
  have d: "distinct (s_threads (sig_of k p))" and q: "queues_ok k"
    using i by (simp_all add: sig_inv_def sig_of_def groups_distinct)
  obtain q1 k1 where sd: "send_signal E sig a p grp k = (q1, k1)" by fastforce
  have "queues_ok k1" using send_queues_ok [OF q d s a] sd by (metis send_signal_def snd_conv)
  moreover have "skel k1 = skel k" using skel_send_signal [of E sig a p grp k] sd by simp
  ultimately have i1: "sig_inv k1" using sig_inv_skel [OF i] by blast
  have "k' = bump_counter h sig k1" using r sd Some by (simp add: do_send_sig_info_def lock_task_sighand_def)
  moreover have "queues_ok (bump_counter h sig k1)" using queues_ok_pv [OF bump_frame] sig_inv_queues [OF i1] by simp
  then have "sig_inv (bump_counter h sig k1)"
    by (rule sig_inv_frame [OF i1]) (auto simp: bump_counter_def)
  ultimately show ?thesis by simp
qed

lemma mask_ok_strip [simp]: "mask_ok (m AND NOT (sigmask SIGKILL OR sigmask SIGSTOP))" "mask_ok 0"
  by (simp_all add: mask_ok_def)

lemma mask_ok_and [simp]: "mask_ok a \<Longrightarrow> mask_ok (a AND b)" "mask_ok a \<Longrightarrow> mask_ok b \<Longrightarrow> mask_ok (a OR b)"
  by (simp_all add: mask_ok_def)

lemma new_mask_ok:
  assumes "mask_ok old" and "new_mask how old (m AND NOT (sigmask SIGKILL OR sigmask SIGSTOP)) = Some n"
  shows "mask_ok n"
  using assms by (auto simp: new_mask_def split: if_splits simp del: de_Morgan_disj bit.de_Morgan_disj)

text \<open>Changing a thread's own words: its masks stay legal, its queue and its place in the group do not move.\<close>

lemma inv_own:
  assumes i: "sig_inv k"
    and "t_pending (f (tasks k t)) = t_pending (tasks k t)" and "t_notifier (f (tasks k t)) = t_notifier (tasks k t)"
    and "t_signal (f (tasks k t)) = t_signal (tasks k t)" and "t_sighand (f (tasks k t)) = t_sighand (tasks k t)"
    and "t_tgid (f (tasks k t)) = t_tgid (tasks k t)"
    and "mask_ok (t_blocked (f (tasks k t)))" and "mask_ok (t_real_blocked (f (tasks k t)))"
  shows "sig_inv (upd_task t f k)"
proof -
  have g: "groups_ok (upd_task t f k) = groups_ok k"
    by (rule groups_ok_cong) (simp_all add: assms)
  have "pending_at (upd_task t f k) l = pending_at k l" for l by (cases l) (simp_all add: assms)
  then have "pv (upd_task t f k) = pv k" by (simp add: pv_def fun_eq_iff)
  from queues_ok_pv [OF this] g i show ?thesis by (simp add: sig_inv_def assms)
qed

lemma inv_frame:
  assumes "sig_inv k" and "queues_ok k'" and "caller_frame k k'"
  shows "sig_inv k'"
  using assms(3) by (intro sig_inv_frame [OF assms(1,2)]) (simp_all add: caller_frame_def)

lemma inv_recalc: "sig_inv k \<Longrightarrow> sig_inv (recalc_sigpending E k)"
  by (rule inv_frame [OF _ _ caller_frame_simps(1)]) (simp_all add: queues_ok_pv [OF pv_recalc(2)] sig_inv_queues)

lemma inv_block:
  assumes i: "sig_inv k" and m: "mask_ok m"
  shows "sig_inv (set_task_blocked_raw E t m k)"
proof -
  note e = set_task_blocked_effect [where t = t and m = m and k = k and E = E, OF HOL.refl]
  have "groups_ok (set_task_blocked_raw E t m k) = groups_ok k"
    by (rule groups_ok_cong) (rule e)+
  then show ?thesis using i m queues_ok_pv [OF e(2)] by (simp add: sig_inv_def e)
qed

lemma inv_event: "sig_inv k \<Longrightarrow> sig_inv (ev e k)"
  by (rule sig_inv_skel) (simp_all add: queues_ok_pv [OF pv_misc(1)] sig_inv_queues frame_simps)

lemma inv_altstack: "do_sigaltstack uss uoss sp k = (r, old, k') \<Longrightarrow> sig_inv k \<Longrightarrow> sig_inv k'"
  by (auto simp: do_sigaltstack_def Let_def inv_masks split: option.splits if_splits prod.splits intro!: inv_own)

lemma inv_procmask:
  assumes i: "sig_inv k" and r: "sys_rt_sigprocmask E how nset oset sz k = (ret, out, k')"
  shows "sig_inv k'"
proof (cases "sz = 8")
  case False
  with r i show ?thesis by (simp add: sys_rt_sigprocmask_def)
next
  case True
  let ?old = "t_blocked (tasks k (cur k))"
  have ok: "sig_inv (set_current_blocked E n k)"
    if n: "new_mask how ?old (m AND NOT (sigmask SIGKILL OR sigmask SIGSTOP)) = Some n" for m n
    unfolding set_current_blocked_def by (rule inv_block [OF i new_mask_ok [OF _ n]]) (use i in \<open>simp add: sig_inv_def\<close>)
  have "k' = k \<or> (\<exists>m n. new_mask how ?old (m AND NOT (sigmask SIGKILL OR sigmask SIGSTOP)) = Some n \<and> k' = set_current_blocked E n k)"
    using r unfolding True sys_rt_sigprocmask_eq by (auto split: option.splits)
  then show ?thesis using ok i by blast
qed

lemma inv_sigaction:
  assumes i: "sig_inv k" and r: "do_sigaction sig act oact k = (ret, old, k')"
  shows "sig_inv k'"
proof -
  have base: "sig_inv (upd_hand t (\<lambda>h. h\<lparr>action := (action h)[j := a]\<rparr>) k)" for t j a
  proof -
    have "queues_ok (upd_hand t (\<lambda>h. h\<lparr>action := (action h)[j := a]\<rparr>) k)"
      using queues_ok_pv [OF upd_hand_frame(1)] sig_inv_queues [OF i] by simp
    then show ?thesis by (rule sig_inv_frame [OF i]) (simp_all add: upd_hand_def)
  qed
  have disc: "sig_inv (discard_ignored sig k1)" if "sig_inv k1" for k1
  proof (rule sig_inv_skel [OF that])
    have "queues_ok k1" "distinct (s_threads (sig_of k1 (cur k1)))"
      using that by (simp_all add: sig_inv_def sig_of_def groups_distinct)
    from discard_ignored_removed [OF this] this(1) show "queues_ok (discard_ignored sig k1)" by (simp add: removed_in_def)
    show "skel (discard_ignored sig k1) = skel k1"
      by (simp add: discard_ignored_def Let_def skel_fold frame_simps)
  qed
  show ?thesis using r i base disc [OF base]
    by (auto simp: do_sigaction_def Let_def split: if_splits option.splits)
qed

lemma inv_smunch:
  assumes i: "sig_inv k" and r: "smunch E P pid b k = (ret, k')"
  shows "sig_inv k'"
proof -
  have q: "queues_ok k" using i by (simp add: sig_inv_def)
  have pvw: "pv (wake_up_process E t x) = pv x" "skel (wake_up_process E t x) = skel x" for t x
    by (simp_all add: wake_up_process_def frame_simps)
  have 1: "sig_inv (wake_up_process E t (set_psignal (sigaddset SIGKILL) (Private t) k))" for t
    by (rule sig_inv_skel [OF i])
       (use add_bit_ok [OF q] in \<open>simp_all add: queues_ok_pv [OF pvw(1)] pvw(2) frame_simps\<close>)
  have 2: "sig_inv (signal_wake_up E t False (set_psignal (\<lambda>s. s OR b) (Private t) k))" for t
    by (rule sig_inv_skel [OF i])
       (use or_bits_ok [OF q] in \<open>simp_all add: queues_ok_pv [OF pv_wake(3)] frame_simps\<close>)
  have 3: "sig_inv (ev e k)" for e
    by (rule sig_inv_skel [OF i]) (use q in \<open>simp_all add: queues_ok_pv [OF pv_misc(1)] frame_simps\<close>)
  show ?thesis using r i 1 2 3
    by (auto simp: smunch_def split: option.splits if_splits)
qed

lemma inv_init:
  assumes i: "sig_inv k" and r: "init_sigcounter P pid k = Inr (ret, k')"
  shows "sig_inv k'"
proof -
  have st: "sig_inv (store_counter h v n k)" if "sig_inv k" for h v n k
  proof -
    have "pending_at (store_counter h v n k) l = pending_at k l" for l by (cases l) (simp_all add: store_counter_def)
    then have "pv (store_counter h v n k) = pv k" by (simp add: pv_def store_counter_def fun_eq_iff)
    from queues_ok_pv [OF this] show ?thesis
      by (intro sig_inv_frame [OF that]) (use that in \<open>auto simp: store_counter_def sig_inv_def\<close>)
  qed
  have "sig_inv (fold (store_counter h v) ns k)" for h v ns
    using i by (induction ns arbitrary: k) (simp_all add: st)
  then show ?thesis using r by (auto simp: init_sigcounter_def split: option.splits)
qed

lemma sig_step_inv:
  assumes "sig_step E k k'" and "sig_inv k"
  shows "sig_inv k'"
  using assms
proof cases
  case (send sig a p grp r)
  with assms(2) show ?thesis using inv_send by blast
next
  case (take msk info sig i)
  have q: "queues_ok k" "t_notifier (tasks k (cur k)) = None" using assms(2) by (simp_all add: sig_inv_def)
  have f: "caller_frame k k'" by (rule dequeue_frame [OF q take])
  have "queues_ok k'" using dequeue_signal_spec [OF q take] by blast
  then show ?thesis by (rule inv_frame [OF assms(2) _ f])
next
  case (procmask how nset oset sz r out)
  with assms(2) show ?thesis using inv_procmask by blast
next
  case (sigaction sig act oact r old)
  with assms(2) show ?thesis using inv_sigaction by blast
next
  case (smunch P pid b r)
  with assms(2) show ?thesis using inv_smunch by blast
next
  case (init P pid r)
  with assms(2) show ?thesis using inv_init by blast
next
  case (retarget t w)
  have "queues_ok k'" using retarget queues_ok_pv [OF retarget_frame(2)] sig_inv_queues [OF assms(2)] by simp
  then show ?thesis by (rule sig_inv_skel [OF assms(2)]) (simp add: retarget frame_simps)
next
  case (wake t b)
  have "queues_ok k'" using wake queues_ok_pv [OF pv_wake(3)] sig_inv_queues [OF assms(2)] by simp
  then show ?thesis by (rule sig_inv_skel [OF assms(2)]) (simp add: wake frame_simps)
next
  case (schedule t)
  have "pending_at (k\<lparr>cur := t\<rparr>) l = pending_at k l" for l by (cases l) simp_all
  then have "pv (k\<lparr>cur := t\<rparr>) = pv k" by (simp add: pv_def fun_eq_iff)
  from queues_ok_pv [OF this] have "queues_ok k'" using schedule sig_inv_queues [OF assms(2)] by simp
  then show ?thesis by (rule sig_inv_frame [OF assms(2)]) (simp_all add: schedule)
next
  case (block m t)
  with assms(2) show ?thesis using inv_block by blast
next
  case (sleep_open t m)
  have "sig_inv (upd_task t (\<lambda>x. x\<lparr>t_real_blocked := t_blocked x, t_blocked := t_blocked x AND m\<rparr>) k)"
    by (rule inv_own [OF assms(2)]) (use assms(2) in \<open>simp_all add: sig_inv_def\<close>)
  with sleep_open show ?thesis using inv_recalc by blast
next
  case (altstack uss uoss sp r old)
  with assms(2) show ?thesis using inv_altstack by blast
next
  case (event e)
  with assms(2) show ?thesis using inv_event by blast
qed (use assms(2) in \<open>auto simp: inv_masks intro!: inv_own\<close>)

lemma sig_run_inv: "sig_run E k k' \<Longrightarrow> sig_inv k \<Longrightarrow> sig_inv k'"
  by (induction rule: sig_run.induct) (blast intro: sig_step_inv)+

end
