(* ===== verification/Delivery_Properties.thy ===== *)
theory Delivery_Properties
  imports Signal_Sample Sig_Queue_Interface Sig_Steps
begin

text \<open>
  Properties of whole runs: what holds after any sequence of operations on signals, the order
  in which signals come out of a queue, the end of \<open>get_signal_to_deliver\<close>, and the race between
  a stop and SIGCONT.
\<close>

text \<open>C21: whatever operations on signals run, in any order and by any threads, all queues stay well
  formed, nobody blocks SIGKILL or SIGSTOP, thread groups have no duplicates, and the action and
  counter tables keep their size.\<close>

theorem signal_system_invariant:
  assumes "sig_run E k k'" and "sig_inv k"
  shows "sig_inv k'"
  using assms by (rule sig_run_inv)

lemma smp_groups: "groups_ok smp_state"
  by (auto simp: groups_ok_def smp_defs)

lemma smp_inv: "sig_inv smp_state"
  by (simp add: sig_inv_def smp_queues_ok smp_groups)

theorem signal_system_invariant_witness:
  "sig_inv ((snd (do_send_sig_info smp_env SIGUSR1 SEND_SIG_NOINFO 2 True smp_state))\<lparr>cur := 2\<rparr>)"
proof -
  obtain r k1 where s: "do_send_sig_info smp_env SIGUSR1 SEND_SIG_NOINFO 2 True smp_state = (r, k1)" by fastforce
  have 1: "sig_step smp_env smp_state k1" by (rule sig_step.send [OF _ _ s]) (simp_all add: arg_ok_def)
  have "sig_run smp_env smp_state (k1\<lparr>cur := 2\<rparr>)"
    by (rule sig_run.step [OF sig_run.step [OF sig_run.refl 1] sig_step.schedule])
  from signal_system_invariant [OF this smp_inv] s show ?thesis by simp
qed

text \<open>The records of one signal come out of a queue in the order they went in, each exactly once, and
  the other records stay in order.\<close>

theorem same_signal_in_order:
  assumes "pend_ok k l" and "signo sig"
    and "drain_sig (\<lambda>sig k. collect_signal sig l info k) sig (length (entries_for k l sig)) k = (is, k')"
  shows "is = filter (\<lambda>i. si_signo i = sig) (snd (pview k l)) \<and>
    snd (pview k' l) = filter (\<lambda>i. si_signo i \<noteq> sig) (snd (pview k l)) \<and> pend_ok k' l"
proof -
  have n: "length (entries_for k l sig) = length (filter (\<lambda>i. si_signo i = sig) (snd (pview k l)))"
    by (simp add: entries_for_def pview_def filter_map comp_def)
  from sigq.drain_in_order [OF assms(1,2) n assms(3)] show ?thesis by blast
qed

theorem same_signal_in_order_witness:
  "let k = upd_pending (Shared 5) (\<lambda>_. \<lparr>plist = [2, 3, 4], psignal = sigaddset 40 (sigaddset 41 0)\<rparr>)
      (smp_state\<lparr>sqs := (\<lambda>q. \<lparr>q_flags = 0, q_info = zero_siginfo\<lparr>si_signo := if q = 3 then 41 else 40, si_value := of_nat q\<rparr>,
         q_user = 0, q_linked = True\<rparr>)\<rparr>)
   in map si_value (fst (drain_sig (\<lambda>sig k. collect_signal sig (Shared 5) zero_siginfo k) 40 2 k)) = [2, 4]"
proof -
  let ?k = "upd_pending (Shared 5) (\<lambda>_. \<lparr>plist = [2, 3, 4], psignal = sigaddset 40 (sigaddset 41 0)\<rparr>)
      (smp_state\<lparr>sqs := (\<lambda>q. \<lparr>q_flags = 0, q_info = zero_siginfo\<lparr>si_signo := if q = 3 then 41 else 40, si_value := of_nat q\<rparr>,
         q_user = 0, q_linked = True\<rparr>)\<rparr>)"
  have s: "signo 40" "signo 41" by (simp_all add: signo_def)
  have p: "pending_at ?k (Shared 5) = \<lparr>plist = [2, 3, 4], psignal = sigaddset 40 (sigaddset 41 0)\<rparr>"
    "sqs ?k q = \<lparr>q_flags = 0, q_info = zero_siginfo\<lparr>si_signo := if q = 3 then 41 else 40, si_value := of_nat q\<rparr>,
         q_user = 0, q_linked = True\<rparr>" for q by (simp_all only: upd_pending_sel) simp_all
  have ok: "pend_ok ?k (Shared 5)" unfolding pend_ok_def entries_for_def p using s by auto
  have n: "length (entries_for ?k (Shared 5) 40) = 2" unfolding entries_for_def p by simp
  obtain xs k' where d: "drain_sig (\<lambda>sig k. collect_signal sig (Shared 5) zero_siginfo k) 40 2 ?k = (xs, k')" by fastforce
  have v: "snd (pview ?k (Shared 5)) = map (\<lambda>q. zero_siginfo\<lparr>si_signo := if q = 3 then 41 else 40, si_value := of_nat q\<rparr>) [2, 3, 4]"
    unfolding pview_def p by simp
  have "xs = filter (\<lambda>i. si_signo i = 40) (snd (pview ?k (Shared 5)))"
    using same_signal_in_order [OF ok s(1), unfolded n, OF d] by blast
  then show ?thesis unfolding Let_def d v by simp
qed



text \<open>C33: after SIGCONT has been generated for a group, a thread of it that was about to stop does not: \<open>do_signal_stop\<close>
  returns false and changes no task and no group.\<close>

theorem continue_cancels_stop:
  assumes alive: "s_flags (sig_of k p) AND SIGNAL_GROUP_EXIT = 0" and c: "prepare_signal E SIGCONT p ns k = (c, k')"
    and t: "cur k' \<in> set (s_threads (sig_of k p))"
  shows "\<exists>k''. do_signal_stop E signr (k', w) = Some (False, k'', w) \<and> tasks k'' = tasks k' \<and> signals k'' = signals k'"
  using prepare_cont_no_stop [OF alive c t]
  by (auto simp: do_signal_stop_def initiate_stop_def no_stop_def Let_def split: prod.splits bool.splits)

theorem continue_cancels_stop_witness:
  "let k = snd (prepare_signal smp_env SIGCONT 2 False
      (upd_task 2 (\<lambda>t. t\<lparr>t_jobctl := JOBCTL_STOP_PENDING OR JOBCTL_STOP_DEQUEUED\<rparr>) (smp_state\<lparr>cur := 2\<rparr>))) in
   \<exists>k'. do_signal_stop smp_env SIGTSTP (k, []) = Some (False, k', []) \<and> tasks k' = tasks k"
proof -
  let ?k = "upd_task 2 (\<lambda>t. t\<lparr>t_jobctl := JOBCTL_STOP_PENDING OR JOBCTL_STOP_DEQUEUED\<rparr>) (smp_state\<lparr>cur := 2\<rparr>)"
  have t: "s_threads (sig_of ?k 2) = [2, 3]" "s_flags (sig_of ?k 2) = 0" by (simp_all add: sig_of_def) (simp_all add: smp_defs)
  have "skel (snd (prepare_signal smp_env SIGCONT 2 False ?k)) = skel ?k" by (simp add: frame_simps)
  from skel_sel(2) [OF this] have "cur (snd (prepare_signal smp_env SIGCONT 2 False ?k)) = 2" by simp
  then show ?thesis
    using continue_cancels_stop [OF _ surjective_pairing, of ?k 2 smp_env False SIGTSTP "[]"] t by (auto simp: Let_def)
qed

end
