(* ===== verification/Sig_Ledger.thy ===== *)
theory Sig_Ledger
  imports Sig_Steps
begin

text \<open>
  The queue elements as a store of their own: which ones exist, whose they are, and which lists they
  hang on. A relation that follows the few functions that touch this store holds for all of
  \<open>signal.c\<close>: that is the locale \<open>queue_moves\<close>. Two interpretations: the count of pending signals
  of a user (\<open>user->sigpending\<close>) is exact, and nothing overtakes in a queue.
\<close>

section \<open>The store of queue elements\<close>

definition qstore :: "kstate \<Rightarrow> _" where
  "qstore k = ((\<lambda>l. plist (pending_at k l)), (\<lambda>q. (q_flags (sqs k q), q_user (sqs k q), q_linked (sqs k q))),
     next_sq k, user_sigpending k)"

lemma qstore_sel:
  assumes "qstore k' = qstore k"
  shows "plist (pending_at k' l) = plist (pending_at k l)" "q_flags (sqs k' q) = q_flags (sqs k q)"
    "q_user (sqs k' q) = q_user (sqs k q)" "q_linked (sqs k' q) = q_linked (sqs k q)"
    "next_sq k' = next_sq k" "user_sigpending k' = user_sigpending k"
  using assms by (auto simp: qstore_def fun_eq_iff)

lemma plist_fun: "(\<lambda>l. plist (pending_at k l)) =
    (\<lambda>l. case l of Private t \<Rightarrow> plist (t_pending (tasks k t)) | Shared g \<Rightarrow> plist (s_shared_pending (signals k g)))"
  by (rule ext) (auto split: pend_loc.split)

lemma qstore_upd_task: "plist (t_pending (f (tasks k t))) = plist (t_pending (tasks k t)) \<Longrightarrow> qstore (upd_task t f k) = qstore k"
  by (auto simp: qstore_def plist_fun fun_eq_iff split: pend_loc.split)

lemma qstore_upd_signal:
  "plist (s_shared_pending (f (signals k g))) = plist (s_shared_pending (signals k g)) \<Longrightarrow> qstore (upd_signal g f k) = qstore k"
  by (auto simp: qstore_def plist_fun fun_eq_iff split: pend_loc.split)

text \<open>Most of the code leaves the store alone.\<close>

lemma qstore_misc [frame_simps]:
  "qstore (ev e k) = qstore k" "qstore (set_tif_sigpending b t k) = qstore k"
  "qstore (upd_task t (\<lambda>x. x\<lparr>t_jobctl := j x\<rparr>) k) = qstore k" "qstore (set_psignal f l k) = qstore k"
  "qstore (upd_sighand h g k) = qstore k" "qstore (upd_hand t g k) = qstore k" "qstore (set_q_info q i k) = qstore k"
  "qstore (bump_counter h sig k) = qstore k" "qstore (k\<lparr>cur := c\<rparr>) = qstore k"
proof -
  show e: "qstore (ev e k) = qstore k" for e k by (simp add: qstore_def fun_eq_iff)
  show "qstore (set_tif_sigpending b t k) = qstore k" "qstore (upd_task t (\<lambda>x. x\<lparr>t_jobctl := j x\<rparr>) k) = qstore k"
    by (simp_all add: set_tif_sigpending_def qstore_upd_task)
  show "qstore (set_psignal f l k) = qstore k" by (auto simp: qstore_def set_psignal_def fun_eq_iff)
  show h: "qstore (upd_sighand h g k) = qstore k" for h g
    by (auto simp: qstore_def plist_fun fun_eq_iff split: pend_loc.split)
  then show "qstore (upd_hand t g k) = qstore k" by (simp add: upd_hand_def)
  show "qstore (set_q_info q i k) = qstore k" by (auto simp: qstore_def set_q_info_def fun_eq_iff)
  show "qstore (bump_counter h sig k) = qstore k" by (simp add: bump_counter_def h e)
  show "qstore (k\<lparr>cur := c\<rparr>) = qstore k"
    by (auto simp: qstore_def plist_fun fun_eq_iff split: pend_loc.split)
qed

lemma qstore_wake [frame_simps]:
  "qstore (snd (wake_up_state E t m k)) = qstore k" "qstore (signal_wake_up_state E t st k) = qstore k"
  "qstore (signal_wake_up E t r k) = qstore k" "qstore (ptrace_signal_wake_up E t r k) = qstore k"
  "qstore (wake_up_process E t k) = qstore k"
proof -
  show w: "qstore (snd (wake_up_state E t m k)) = qstore k" for m k
    by (simp add: wake_up_state_def split_beta qstore_upd_task frame_simps)
  show s: "qstore (signal_wake_up_state E t st k) = qstore k" for st
    using w [of "st OR TASK_INTERRUPTIBLE" "set_tif_sigpending True t k"]
    by (auto simp: signal_wake_up_state_def split_beta frame_simps)
  show "qstore (signal_wake_up E t r k) = qstore k" "qstore (ptrace_signal_wake_up E t r k) = qstore k"
    "qstore (wake_up_process E t k) = qstore k"
    by (simp_all add: signal_wake_up_def ptrace_signal_wake_up_def s wake_up_process_def w)
qed

lemma qstore_jobctl [frame_simps]:
  "qstore (snd (task_set_jobctl_pending t m k)) = qstore k" "qstore (task_clear_jobctl_trapping t k) = qstore k"
  "qstore (task_clear_jobctl_pending t m k) = qstore k" "qstore (ptrace_trap_notify E t k) = qstore k"
proof -
  show s: "qstore (snd (task_set_jobctl_pending t m k)) = qstore k" for m k
    by (simp add: task_set_jobctl_pending_def Let_def frame_simps)
  show "qstore (task_clear_jobctl_trapping t k) = qstore k" "qstore (task_clear_jobctl_pending t m k) = qstore k"
    by (simp_all add: task_clear_jobctl_trapping_def task_clear_jobctl_pending_def Let_def frame_simps)
  show "qstore (ptrace_trap_notify E t k) = qstore k"
    by (simp add: ptrace_trap_notify_def Let_def frame_simps s)
qed

lemma qstore_fold: "(\<And>x k. qstore (f x k) = qstore k) \<Longrightarrow> qstore (fold f xs k) = qstore k"
  by (induction xs arbitrary: k) simp_all

lemma qstore_recalc [frame_simps]:
  "qstore (snd (recalc_sigpending_tsk t k)) = qstore k" "qstore (recalc_sigpending E k) = qstore k"
  "qstore (recalc_sigpending_and_wake E t k) = qstore k"
  by (simp_all add: recalc_sigpending_tsk_def recalc_sigpending_def recalc_sigpending_and_wake_def Let_def frame_simps
      split: prod.splits)

lemma qstore_complete [frame_simps]: "qstore (complete_signal E sig p grp k) = qstore k"
proof -
  have kt: "qstore (kill_thread E t k) = qstore k" for t k by (simp add: kill_thread_def frame_simps)
  have s: "qstore (start_group_exit E sig p k) = qstore k" for k
    by (simp add: start_group_exit_def each_thread_def qstore_fold kt qstore_upd_signal)
  have c: "qstore k' = qstore k" if "choose_thread E sig p grp k = Some (t, k')" for t k'
    using that by (auto simp: choose_thread_def split: if_splits option.splits intro!: qstore_upd_signal)
  show ?thesis by (auto simp: complete_signal_def s c frame_simps split: option.splits)
qed

lemma qstore_retarget [frame_simps]:
  "qstore (retarget_walk E ts r k) = qstore k" "qstore (retarget_shared_pending E t w k) = qstore k"
proof -
  show w: "qstore (retarget_walk E ts r k) = qstore k" for ts r
    by (induction E ts r k rule: retarget_walk.induct) (auto simp: frame_simps Let_def)
  show "qstore (retarget_shared_pending E t w k) = qstore k"
    by (simp add: retarget_shared_pending_def Let_def w)
qed

lemma qstore_masks [frame_simps]: "qstore (set_task_blocked_raw E t m k) = qstore k"
  by (simp add: set_task_blocked_raw_def Let_def qstore_upd_task frame_simps)

section \<open>Well-formed stores\<close>

definition prealloc :: "sigqueue \<Rightarrow> bool" where
  "prealloc s \<longleftrightarrow> q_flags s AND SIGQUEUE_PREALLOC \<noteq> 0"

definition in_use :: "sigqueue \<Rightarrow> bool" where
  "in_use s \<longleftrightarrow> q_linked s \<or> prealloc s"

text \<open>Every listed element is linked and on one list only, and what was never allocated is not in use.\<close>

definition store_ok :: "kstate \<Rightarrow> bool" where
  "store_ok k \<longleftrightarrow> (\<forall>l. distinct (plist (pending_at k l)) \<and> (\<forall>q \<in> set (plist (pending_at k l)). q_linked (sqs k q))) \<and>
     (\<forall>q l m. q \<in> set (plist (pending_at k l)) \<longrightarrow> q \<in> set (plist (pending_at k m)) \<longrightarrow> l = m) \<and>
     (\<forall>q \<ge> next_sq k. \<not> in_use (sqs k q))"

lemma store_ok_cong: "qstore k' = qstore k \<Longrightarrow> store_ok k' = store_ok k"
  using qstore_sel [of k' k] by (simp add: store_ok_def in_use_def prealloc_def)

lemma store_okD:
  assumes "store_ok k"
  shows "distinct (plist (pending_at k l))" "q \<in> set (plist (pending_at k l)) \<Longrightarrow> q_linked (sqs k q)"
    "q \<in> set (plist (pending_at k l)) \<Longrightarrow> q \<in> set (plist (pending_at k m)) \<Longrightarrow> l = m"
    "in_use (sqs k q) \<Longrightarrow> q < next_sq k" "q \<in> set (plist (pending_at k l)) \<Longrightarrow> q < next_sq k"
proof -
  show 1: "q \<in> set (plist (pending_at k l)) \<Longrightarrow> q_linked (sqs k q)" for q
    using assms by (auto simp: store_ok_def)
  show 2: "in_use (sqs k q) \<Longrightarrow> q < next_sq k" for q
    using assms unfolding store_ok_def by (meson not_le)
  show "distinct (plist (pending_at k l))" "q \<in> set (plist (pending_at k l)) \<Longrightarrow> q \<in> set (plist (pending_at k m)) \<Longrightarrow> l = m"
    using assms by (auto simp: store_ok_def)
  show "q \<in> set (plist (pending_at k l)) \<Longrightarrow> q < next_sq k" using 1 2 by (auto simp: in_use_def)
qed

text \<open>The flags of the elements change only in the functions for timers and in allocation.\<close>

definition qflags :: "kstate \<Rightarrow> nat \<Rightarrow> u32" where
  "qflags k = (\<lambda>q. q_flags (sqs k q))"

lemma qflags_qstore: "qstore k' = qstore k \<Longrightarrow> qflags k' = qflags k"
  unfolding qflags_def by (rule ext) (rule qstore_sel(2))

lemma qflags_fold: "(\<And>x k. qflags (f x k) = qflags k) \<Longrightarrow> qflags (fold f xs k) = qflags k"
  by (induction xs arbitrary: k) simp_all

lemma qflags_rm: "qflags (snd (rm_from_queue m l k)) = qflags k"
proof -
  have d: "qflags (drop_entry l q k) = qflags k" for q k
    by (simp add: qflags_def drop_entry_def sigqueue_free_raw_def list_del_init_def Let_def fun_eq_iff)
  have "qflags (fold (drop_entry l) qs k1) = qflags k" if "qflags k1 = qflags k" for qs k1
    using qflags_fold [of "drop_entry l", OF d] that by simp
  then show ?thesis by (simp add: rm_from_queue_def Let_def qflags_qstore [OF qstore_misc(4)])
qed

lemma qflags_prepare: "qflags (snd (prepare_signal E sig p ns k)) = qflags k"
proof -
  have c: "qflags (cont_thread E t k) = qflags k" for t k
    using qflags_rm [of _ "Private t" "task_clear_jobctl_pending t JOBCTL_STOP_PENDING k"]
    by (simp add: cont_thread_def Let_def qflags_qstore [OF qstore_wake(1)] qflags_qstore [OF qstore_jobctl(4)]
        qflags_qstore [OF qstore_jobctl(3)])
  have n: "qflags (note_continued g k) = qflags k" for g k
    by (rule qflags_qstore) (simp add: note_continued_def Let_def qstore_upd_signal)
  show ?thesis
    by (simp add: prepare_signal_def Let_def stop_removes_cont_def cont_removes_stops_def each_thread_def
        qflags_fold c n qflags_rm)
qed

section \<open>The functions that touch the store\<close>

text \<open>
  A client relation \<open>R\<close> composes, holds when the store does not change, and holds for a refused
  allocation, for a new element hung on a list, for an element dropped from its list, and for the
  three operations on the elements of timers.
\<close>

locale queue_moves =
  fixes R :: "kstate \<Rightarrow> kstate \<Rightarrow> bool"
  assumes follow: "R k k1 \<Longrightarrow> R k1 k2 \<Longrightarrow> R k k2"
    and keeps: "R k k1 \<Longrightarrow> store_ok k \<Longrightarrow> store_ok k1"
    and quiet: "qstore k' = qstore k \<Longrightarrow> R k k'"
    and refused: "sigqueue_alloc_raw E sig t ov k = (None, k') \<Longrightarrow> store_ok k \<Longrightarrow> R k k'"
    and queued: "sigqueue_alloc_raw E sig t ov k = (Some q, k') \<Longrightarrow> store_ok k \<Longrightarrow> R k (list_add_tail q l k')"
    and dropped: "store_ok k \<Longrightarrow> q \<in> set (plist (pending_at k l)) \<Longrightarrow> R k (drop_entry l q k)"
    and timer_new: "sigqueue_alloc E k = (r, k') \<Longrightarrow> store_ok k \<Longrightarrow> R k k'"
    and timer_queued: "store_ok k \<Longrightarrow> prealloc (sqs k q) \<Longrightarrow> \<not> q_linked (sqs k q) \<Longrightarrow> R k (list_add_tail q l k)"
    and timer_gone: "store_ok k \<Longrightarrow> prealloc (sqs k q) \<Longrightarrow> R k (sigqueue_free q k)"
begin

lemma same: "R k k"
  by (rule quiet) simp

text \<open>After something that holds, something quiet; and the other way round.\<close>

lemma then_quiet: "R k k1 \<Longrightarrow> qstore k2 = qstore k1 \<Longrightarrow> R k k2"
  by (rule follow [OF _ quiet])

lemma quiet_then: "R k1 k2 \<Longrightarrow> qstore k1 = qstore k \<Longrightarrow> R k k2"
  by (rule follow [OF quiet])

lemma drops:
  assumes "store_ok k" and "distinct qs" and "set qs \<subseteq> set (plist (pending_at k l))"
  shows "R k (fold (drop_entry l) qs k)"
  using assms
proof (induction qs arbitrary: k)
  case (Cons q qs)
  have 1: "R k (drop_entry l q k)" by (rule dropped) (use Cons.prems in auto)
  have "set qs \<subseteq> set (plist (pending_at (drop_entry l q k) l))"
    using Cons.prems store_okD(1) [OF Cons.prems(1), of l] by (auto simp: pending_at_drop)
  with Cons.IH [OF keeps [OF 1 Cons.prems(1)]] Cons.prems(2) have "R (drop_entry l q k) (fold (drop_entry l) qs (drop_entry l q k))"
    by simp
  with 1 show ?case using follow by simp
qed (simp add: same)

lemma drops_after:
  assumes "store_ok k" and "qstore k1 = qstore k"
  shows "R k (fold (drop_entry l) (filter F (plist (pending_at k l))) k1)"
proof -
  have ok: "store_ok k1" using assms(1) store_ok_cong [OF assms(2)] by simp
  have "R k1 (fold (drop_entry l) (filter F (plist (pending_at k l))) k1)"
    by (rule drops [OF ok]) (use store_okD(1) [OF assms(1), of l] qstore_sel(1) [OF assms(2), of l] in auto)
  then show ?thesis using assms(2) by (rule quiet_then)
qed

lemma removes: "store_ok k \<Longrightarrow> R k (snd (rm_from_queue m l k))" "store_ok k \<Longrightarrow> R k (snd (rm_from_queue_full m l k))"
  by (simp_all add: rm_from_queue_def rm_from_queue_full_def Let_def same drops_after frame_simps)

lemma flushes: "store_ok k \<Longrightarrow> R k (flush_sigqueue l k)"
  using drops_after [of k "set_psignal (\<lambda>_. 0) l k" l "\<lambda>_. True"]
  by (simp add: flush_sigqueue_def Let_def pending_at_set frame_simps)

lemma collects:
  assumes "store_ok k"
  shows "R k (snd (collect_signal sig l info k))"
proof (cases "entries_for k l sig")
  case Nil
  then show ?thesis by (simp add: collect_signal_def quiet frame_simps)
next
  case (Cons q rest)
  let ?k = "if rest = [] then set_psignal (sigdelset sig) l k else k"
  have "q \<in> set (entries_for k l sig)" using Cons by simp
  then have "q \<in> set (plist (pending_at ?k l))" by (auto simp: entries_for_def pending_at_set)
  moreover have "store_ok ?k" "qstore ?k = qstore k" using assms store_ok_cong [of ?k k] by (auto simp: frame_simps)
  ultimately have "R k (drop_entry l q ?k)" using dropped quiet_then by blast
  with Cons show ?thesis by (simp add: collect_signal_def)
qed

lemma each:
  assumes "\<And>x k. store_ok k \<Longrightarrow> R k (f x k)" and "store_ok k"
  shows "R k (fold f xs k)"
  using assms(2)
proof (induction xs arbitrary: k)
  case (Cons x xs)
  have 1: "R k (f x k)" by (rule assms(1) [OF Cons.prems])
  with Cons.IH [OF keeps [OF 1 Cons.prems]] show ?case using follow by simp
qed (simp add: same)

lemma each_thread: "(\<And>x k. store_ok k \<Longrightarrow> R k (f x k)) \<Longrightarrow> store_ok k \<Longrightarrow> R k (each_thread f p k)"
  unfolding each_thread_def by (rule each)

lemma dequeues_raw: "store_ok k \<Longrightarrow> dequeue_signal_raw l m info k = (sig, i, k') \<Longrightarrow> R k k'"
  using collects [of k "next_signal (pending_at k l) m" l info]
  by (auto simp: dequeue_signal_raw_def Let_def same quiet frame_simps split: if_splits option.splits prod.splits)

lemma dequeues:
  assumes ok: "store_ok k" and d: "dequeue_signal E t m info k = (sig, i, k')"
  shows "R k k'"
proof -
  obtain s1 i1 k1 where d1: "dequeue_signal_raw (Private t) m info k = (s1, i1, k1)" by (cases "dequeue_signal_raw (Private t) m info k") auto
  obtain s2 i2 k2 where d2: "dequeue_signal_raw (Shared (t_signal (tasks k1 t))) m i1 k1 = (s2, i2, k2)"
    by (cases "dequeue_signal_raw (Shared (t_signal (tasks k1 t))) m i1 k1") auto
  have 1: "R k k1" by (rule dequeues_raw [OF ok d1])
  then have "R k1 k2" using keeps ok dequeues_raw [OF _ d2] by blast
  with 1 have 2: "R k k2" by (rule follow)
  have "qstore k' = qstore k1 \<or> qstore k' = qstore k2"
    using d d1 d2 by (auto simp: dequeue_signal_def Let_def frame_simps qstore_upd_signal split: if_splits)
  with then_quiet [OF 1] then_quiet [OF 2] show ?thesis by blast
qed

lemma prepares: "store_ok k \<Longrightarrow> R k (snd (prepare_signal E sig p ns k))"
proof -
  assume ok: "store_ok k"
  let ?g = "Shared (t_signal (tasks k p))"
  have s: "R k (stop_removes_cont p k)"
    unfolding stop_removes_cont_def
    by (rule follow [OF removes(1) [OF ok]], rule each_thread [OF removes(1)]) (use keeps [OF removes(1)] ok in blast)+
  have ct: "R k (cont_thread E t k)" if k: "store_ok k" for t k
  proof -
    let ?k0 = "task_clear_jobctl_pending t JOBCTL_STOP_PENDING k"
    have q: "qstore ?k0 = qstore k" by (simp add: frame_simps)
    then have "store_ok ?k0" using k store_ok_cong by blast
    then have "R k (snd (rm_from_queue SIG_KERNEL_STOP_MASK (Private t) ?k0))" using removes(1) quiet_then q by blast
    then show ?thesis by (rule then_quiet) (simp add: cont_thread_def Let_def frame_simps)
  qed
  have c: "R k (cont_removes_stops E p k)"
    unfolding cont_removes_stops_def
    by (rule follow [OF removes(1) [OF ok]], rule each_thread [OF ct]) (use keeps [OF removes(1)] ok in blast)+
  have n: "qstore (note_continued g k1) = qstore k1" for g k1
    by (simp add: note_continued_def Let_def qstore_upd_signal)
  show ?thesis
    using s c then_quiet [OF c n] by (simp add: prepare_signal_def Let_def same)
qed

lemma queues_info:
  assumes ok: "store_ok k" and r: "queue_info E sig a t l ns k = (b, k')"
  shows "R k k'"
proof -
  obtain res k0 where al: "sigqueue_alloc_raw E sig t (override_rlimit sig a) k = (res, k0)" by fastforce
  show ?thesis
  proof (cases res)
    case None
    with r al have "k' = k0" by (simp add: queue_info_def)
    with refused al None ok show ?thesis by blast
  next
    case (Some q)
    with r al have "k' = set_q_info q (fill_info E sig a t ns k0) (list_add_tail q l k0)" by (simp add: queue_info_def)
    then have "qstore k' = qstore (list_add_tail q l k0)" by (simp add: frame_simps)
    with queued al Some ok then_quiet show ?thesis by blast
  qed
qed

lemma sends_raw:
  assumes ok: "store_ok k" and r: "send_signal_raw E sig a t grp ns k = (r, k')"
  shows "R k k'"
proof -
  obtain c k1 where p: "prepare_signal E sig t ns k = (c, k1)" by fastforce
  have 1: "R k k1" using prepares [OF ok, of E sig t ns] p by simp
  have o: "qstore (out_set E sig t grp l k2) = qstore k2" for l k2 by (simp add: out_set_def frame_simps)
  let ?l = "pend_target k1 t grp"
  obtain b k2 where q: "queue_info E sig a t ?l ns k1 = (b, k2)" by fastforce
  have 2: "R k k2" using follow [OF 1 queues_info [OF keeps [OF 1 ok] q]] .
  show ?thesis using r p q 1 2 then_quiet [OF 1 o] then_quiet [OF 2 o]
    by (auto simp: send_signal_raw_def Let_def split: bool.splits if_splits)
qed

lemma sends:
  "store_ok k \<Longrightarrow> send_signal E sig a t grp k = (r, k') \<Longrightarrow> R k k'"
  "store_ok k \<Longrightarrow> do_send_sig_info E sig a t grp k = (r, k') \<Longrightarrow> R k k'"
proof -
  show s: "store_ok k \<Longrightarrow> send_signal E sig a t grp k = (r, k') \<Longrightarrow> R k k'" for k r k'
    unfolding send_signal_def by (rule sends_raw)
  show "store_ok k \<Longrightarrow> do_send_sig_info E sig a t grp k = (r, k') \<Longrightarrow> R k k'"
    using then_quiet s by (fastforce simp: do_send_sig_info_def same frame_simps split: option.splits prod.splits)
qed

lemma forces:
  assumes ok: "store_ok k" and r: "force_sig_info E sig a t k = (r, k')"
  shows "R k k'"
proof -
  define k1 where "k1 = (if sigismember (t_blocked (tasks k t)) sig \<or> sig_handler k t sig = SIG_IGN
    then let k = set_handler t sig SIG_DFL k in
         if sigismember (t_blocked (tasks k t)) sig
         then recalc_sigpending_and_wake E t (upd_task t (\<lambda>x. x\<lparr>t_blocked := sigdelset sig (t_blocked x)\<rparr>) k)
         else k
    else k)"
  define k2 where "k2 = (if sig_handler k1 t sig = SIG_DFL
    then upd_signal (t_signal (tasks k1 t)) (\<lambda>s. s\<lparr>s_flags := s_flags s AND NOT SIGNAL_UNKILLABLE\<rparr>) k1 else k1)"
  have "qstore k1 = qstore k" by (simp add: k1_def set_handler_def Let_def qstore_upd_task frame_simps)
  then have q: "qstore k2 = qstore k" by (simp add: k2_def qstore_upd_signal)
  have t: "t_blocked (tasks (set_handler t sig SIG_DFL k) t) = t_blocked (tasks k t)"
    by (simp add: set_handler_def upd_hand_def)
  have s: "send_signal E sig a t False k2 = (r, k')"
    using r by (simp only: force_sig_info_def Let_def specific_send_sig_info_def k1_def k2_def t)
  from sends(1) [OF _ s] q ok store_ok_cong [OF q] show ?thesis using quiet_then by blast
qed

lemma notifies:
  assumes "store_ok k"
  shows "R k (snd (do_notify_parent E t sig k))" and "R k (do_notify_parent_cldstop E t b why k)"
proof -
  have g: "R k (wake_up_parent t p (snd (group_send_sig_info_raw E sig a p k1)))" if "qstore k1 = qstore k" for t p sig a k1
  proof (cases "group_send_sig_info_raw E sig a p k1")
    case (Pair r k2)
    then have "send_signal E sig a p True k1 = (r, k2)" by (simp add: group_send_sig_info_raw_def)
    moreover have "store_ok k1" using assms store_ok_cong [OF that] by simp
    ultimately have "R k k2" using sends(1) quiet_then that by blast
    with Pair show ?thesis by (simp add: wake_up_parent_def then_quiet frame_simps)
  qed
  have w: "R k (wake_up_parent t p k1)" if "qstore k1 = qstore k" for t p k1
    by (rule quiet) (simp add: wake_up_parent_def that frame_simps)
  have c: "R k (wake_up_parent t p (if c then snd (group_send_sig_info_raw E sig a p k1) else k1))"
    if "qstore k1 = qstore k" for c t p sig a k1
    using g [OF that] w [OF that] by simp
  have b: "qstore (bug_if c k1) = qstore k1" for c k1 by (simp add: bug_if_def frame_simps)
  show "R k (snd (do_notify_parent E t sig k))"
    unfolding do_notify_parent_def Let_def split_beta snd_conv by (rule c) (simp only: b)
  have "R k (case x of None \<Rightarrow> ev Ev_Bug k
      | Some s \<Rightarrow> wake_up_parent t p (if c then snd (group_send_sig_info_raw E sig (a s) p k) else k))" for x t p c sig a
    using c [of k t p c sig] by (cases x) (simp_all add: quiet frame_simps)
  then show "R k (do_notify_parent_cldstop E t b why k)"
    unfolding do_notify_parent_cldstop_def Let_def split_beta .
qed

text \<open>An element of a timer is sent: hung on a list, unless it is on one.\<close>

lemma timer_sends:
  assumes ok: "store_ok k" and pre: "prealloc (sqs k q)" and r: "send_sigqueue E q t grp k = (r, k')"
  shows "R k k'"
proof -
  let ?sig = "si_signo (q_info (sqs k q))"
  have nb: "q_flags (sqs k q) AND SIGQUEUE_PREALLOC \<noteq> 0" using pre by (simp add: prealloc_def)
  obtain c k1 where p: "prepare_signal E ?sig t False k = (c, k1)" by fastforce
  have 1: "R k k1" using prepares [OF ok, of E ?sig t False] p by simp
  have pre1: "prealloc (sqs k1 q)"
    using pre qflags_prepare [of E ?sig t False k] p by (simp add: prealloc_def qflags_def fun_eq_iff)
  let ?l = "pend_target (ev (Ev_Signalfd t ?sig) (set_q_info q (\<lambda>i. i\<lparr>si_overrun := 0\<rparr>) k1)) t grp"
  have 2: "R k1 (list_add_tail q ?l (ev (Ev_Signalfd t ?sig) (set_q_info q (\<lambda>i. i\<lparr>si_overrun := 0\<rparr>) k1)))"
    if "\<not> q_linked (sqs k1 q)"
  proof -
    let ?k = "ev (Ev_Signalfd t ?sig) (set_q_info q (\<lambda>i. i\<lparr>si_overrun := 0\<rparr>) k1)"
    have q: "qstore ?k = qstore k1" by (simp add: frame_simps)
    have "store_ok ?k" using keeps [OF 1 ok] store_ok_cong [OF q] by simp
    moreover have "prealloc (sqs ?k q)" "\<not> q_linked (sqs ?k q)"
      using pre1 that qstore_sel [OF q] by (simp_all add: prealloc_def)
    ultimately show ?thesis using timer_queued quiet_then q by blast
  qed
  note 3 = follow [OF 1 2]
  show ?thesis
    using r nb p 1 then_quiet [OF 1] then_quiet [OF 3]
    by (auto simp: send_sigqueue_def Let_def same frame_simps split: option.splits bool.splits if_splits)
qed

lemma flushes_task:
  assumes "store_ok k"
  shows "R k (flush_signals t k)" and "R k (ignore_signals t k)"
proof -
  have f: "R k (flush_signals t k1)" if "qstore k1 = qstore k" for k1
  proof -
    let ?k = "set_tif_sigpending False t k1"
    have q: "qstore ?k = qstore k" by (simp add: that frame_simps)
    then have ok: "store_ok ?k" using assms store_ok_cong by blast
    have 1: "R ?k (flush_sigqueue (Private t) ?k)" by (rule flushes [OF ok])
    from follow [OF 1 flushes [OF keeps [OF 1 ok]]] q show ?thesis
      unfolding flush_signals_def flush_signals_raw_def by (rule quiet_then)
  qed
  show "R k (flush_signals t k)" "R k (ignore_signals t k)"
    by (simp_all add: f ignore_signals_def frame_simps)
qed

lemma flush_itimer_walk:
  assumes "store_ok k" and "distinct qs" and "set qs \<subseteq> set (plist (pending_at k l))"
    and "fold (flush_itimer_entry E l) qs (s, r, k) = (s', r', k')"
  shows "R k k'"
  using assms
proof (induction qs arbitrary: s r k)
  case Nil
  then show ?case by (simp add: same)
next
  case (Cons q qs)
  show ?case
  proof (cases "si_code (q_info (sqs k q)) = SI_TIMER E")
    case False
    with Cons.prems show ?thesis by (intro Cons.IH [of k]) (auto simp: flush_itimer_entry_def Let_def)
  next
    case True
    have 1: "R k (drop_entry l q k)" by (rule dropped) (use Cons.prems in auto)
    have "set qs \<subseteq> set (plist (pending_at (drop_entry l q k) l))"
      using Cons.prems store_okD(1) [OF Cons.prems(1), of l] by (auto simp: pending_at_drop)
    with True Cons.prems have "R (drop_entry l q k) k'"
      by (intro Cons.IH [OF keeps [OF 1 Cons.prems(1)]]) (auto simp: flush_itimer_entry_def Let_def)
    with 1 show ?thesis by (rule follow)
  qed
qed

lemma flush_itimer: "store_ok k \<Longrightarrow> R k (flush_itimer_signals E k)"
proof -
  have one: "R k (flush_itimer_signals_raw E l k)" if ok: "store_ok k" for l k
  proof -
    obtain s r k' where f: "fold (flush_itimer_entry E l) (plist (pending_at k l)) (psignal (pending_at k l), 0, k) = (s, r, k')"
      by (cases "fold (flush_itimer_entry E l) (plist (pending_at k l)) (psignal (pending_at k l), 0, k)") auto
    from flush_itimer_walk [OF ok store_okD(1) [OF ok] order_refl f] show ?thesis
      unfolding flush_itimer_signals_raw_def Let_def f by (simp add: then_quiet frame_simps)
  qed
  assume ok: "store_ok k"
  show ?thesis unfolding flush_itimer_signals_def
    by (rule follow [OF one [OF ok] one [OF keeps [OF one [OF ok] ok]]])
qed

lemma actions: "store_ok k \<Longrightarrow> do_sigaction sig act oact k = (r, old, k') \<Longrightarrow> R k k'"
proof -
  have d: "R k (discard_ignored s k1)" if ok: "store_ok k" and q: "qstore k1 = qstore k" for s k1
  proof -
    have ok1: "store_ok k1" using ok store_ok_cong [OF q] by simp
    note 1 = removes(2) [OF ok1, of "sigaddset s 0" "Shared (t_signal (tasks k1 (cur k1)))"]
    have "R k1 (discard_ignored s k1)"
      unfolding discard_ignored_def Let_def
      by (rule follow [OF 1]) (rule each [OF removes(2) keeps [OF 1 ok1]])
    then show ?thesis using q by (rule quiet_then)
  qed
  show "store_ok k \<Longrightarrow> do_sigaction sig act oact k = (r, old, k') \<Longrightarrow> R k k'"
    by (auto simp: do_sigaction_def Let_def same quiet d frame_simps split: if_splits option.splits)
qed

end

section \<open>All of \<open>signal.c\<close> as steps\<close>

text \<open>
  The steps of the signal system and the operations it leaves out: timers with their own elements,
  flushing, forced signals, notification of parents, group stops, exit and \<open>exec\<close>.
\<close>

inductive kernel_step :: "kenv \<Rightarrow> kstate \<Rightarrow> kstate \<Rightarrow> bool" for E :: kenv where
  signal: "sig_step E k k' \<Longrightarrow> kernel_step E k k'"
| timer_alloc: "sigqueue_alloc E k = (r, k') \<Longrightarrow> kernel_step E k k'"
| timer_send: "prealloc (sqs k q) \<Longrightarrow> send_sigqueue E q t grp k = (r, k') \<Longrightarrow> kernel_step E k k'"
| timer_free: "prealloc (sqs k q) \<Longrightarrow> kernel_step E k (sigqueue_free q k)"
| flush: "kernel_step E k (flush_signals t k)"
| flush_itimers: "kernel_step E k (flush_itimer_signals E k)"
| ignore_all: "kernel_step E k (ignore_signals t k)"
| default_all: "kernel_step E k (flush_signal_handlers t b k)"
| force: "force_sig_info E sig a t k = (r, k') \<Longrightarrow> kernel_step E k k'"
| tell_parent: "do_notify_parent E t sig k = (r, k') \<Longrightarrow> kernel_step E k k'"
| tell_stop: "kernel_step E k (do_notify_parent_cldstop E t b why k)"
| start_stop: "initiate_stop E sig k = (r, k') \<Longrightarrow> kernel_step E k k'"
| join_stop: "task_participate_group_stop t k = (r, k') \<Longrightarrow> kernel_step E k k'"
| leave: "kernel_step E k (exit_signals E t k)"
| zap: "zap_other_threads E t k = (n, k') \<Longrightarrow> kernel_step E k k'"
| jobctl: "kernel_step E k (upd_task t (\<lambda>x. x\<lparr>t_jobctl := j x\<rparr>) k)"

inductive kernel_run :: "kenv \<Rightarrow> kstate \<Rightarrow> kstate \<Rightarrow> bool" for E :: kenv where
  start: "kernel_run E k k"
| step: "kernel_run E k k1 \<Longrightarrow> kernel_step E k1 k2 \<Longrightarrow> kernel_run E k k2"

lemma sig_run_kernel: "sig_run E k k' \<Longrightarrow> kernel_run E k k'"
  by (induction rule: sig_run.induct) (blast intro: kernel_run.intros signal)+

lemma qstore_counters: "qstore (store_counter h v i k) = qstore k"
  by (simp add: store_counter_def frame_simps)

lemma qstore_init: "init_sigcounter P pid k = Inr (r, k') \<Longrightarrow> qstore k' = qstore k"
  by (auto simp: init_sigcounter_def qstore_fold qstore_counters split: option.splits)

lemma qstore_smunch: "smunch E P pid b k = (r, k') \<Longrightarrow> qstore k' = qstore k"
  by (auto simp: smunch_def frame_simps split: option.splits if_splits)

lemma qstore_altstack: "do_sigaltstack uss uoss sp k = (r, old, k') \<Longrightarrow> qstore k' = qstore k"
  by (auto simp: do_sigaltstack_def Let_def qstore_upd_task split: option.splits if_splits prod.splits)

lemma qstore_procmask: "sys_rt_sigprocmask E how nset oset sz k = (r, out, k') \<Longrightarrow> qstore k' = qstore k"
  by (cases "sz = 8") (auto simp: sys_rt_sigprocmask_eq set_current_blocked_def frame_simps split: option.splits,
      simp add: sys_rt_sigprocmask_def)

lemma qstore_participate: "qstore (snd (task_participate_group_stop t k)) = qstore k"
  by (simp add: task_participate_group_stop_def Let_def qstore_upd_signal frame_simps)

lemma qstore_zap: "zap_other_threads E t k = (n, k') \<Longrightarrow> qstore k' = qstore k"
proof -
  have "qstore (snd (fold (zap_thread E) ts (n, k))) = qstore k" for ts n k
    by (induction ts arbitrary: n k) (simp_all add: zap_thread_def Let_def frame_simps)
  from this [of _ 0] show "zap_other_threads E t k = (n, k') \<Longrightarrow> qstore k' = qstore k"
    by (metis (no_types, lifting) zap_other_threads_def qstore_upd_signal signal_struct.select_convs(2)
        signal_struct.surjective signal_struct.update_convs(5) snd_conv)
qed

lemma qstore_initiate: "initiate_stop E sig k = (r, k') \<Longrightarrow> qstore k' = qstore k"
proof -
  have a: "qstore (ask_to_stop E m g t k) = qstore k" for m g t k
  proof (cases "task_set_jobctl_pending t m k")
    case (Pair b k1)
    with qstore_jobctl(1) [of t m k] show ?thesis
      by (auto simp: ask_to_stop_def Let_def frame_simps qstore_upd_signal split: bool.splits)
  qed
  show "initiate_stop E sig k = (r, k') \<Longrightarrow> qstore k' = qstore k"
    unfolding initiate_stop_def Let_def split_beta
    by (auto simp: qstore_fold a frame_simps qstore_upd_signal split: if_splits)
qed

lemma qstore_exit: "qstore (snd (exit_signals_locked E t k)) = qstore k"
  by (simp add: exit_signals_locked_def Let_def qstore_upd_task qstore_participate frame_simps)

context queue_moves
begin

lemma signal_moves:
  assumes ok: "store_ok k" and s: "sig_step E k k'"
  shows "R k k'"
  using s
proof cases
  case (procmask how nset oset sz r out)
  with qstore_procmask quiet show ?thesis by blast
next
  case (sigaction sig act oact r old)
  with actions ok show ?thesis by blast
next
  case (smunch P pid b r)
  with qstore_smunch quiet show ?thesis by blast
next
  case (init P pid r)
  with qstore_init quiet show ?thesis by blast
next
  case (altstack uss uoss sp r old)
  with qstore_altstack quiet show ?thesis by blast
qed (use ok in \<open>auto intro: sends dequeues quiet simp: frame_simps qstore_upd_task\<close>)

lemma kernel_moves:
  assumes ok: "store_ok k" and s: "kernel_step E k k'"
  shows "R k k'"
  using s
proof cases
  case signal
  then show ?thesis by (rule signal_moves [OF ok])
next
  case (tell_parent t sig r)
  with notifies(1) [OF ok, of E t sig] show ?thesis by simp
next
  case (start_stop sig r)
  with qstore_initiate quiet show ?thesis by blast
next
  case (join_stop t r)
  with qstore_participate [of t k] quiet show ?thesis by simp
next
  case (leave t)
  have 1: "R k (snd (exit_signals_locked E t k))" by (rule quiet) (rule qstore_exit)
  with follow [OF 1 notifies(2) [OF keeps [OF 1 ok]]] show ?thesis
    by (simp add: leave exit_signals_def split_beta)
next
  case (zap t n)
  with qstore_zap quiet show ?thesis by blast
next
  case (default_all t b)
  then show ?thesis by (simp add: flush_signal_handlers_def quiet frame_simps)
qed (use ok in \<open>auto intro: timer_new timer_sends timer_gone flushes_task flush_itimer forces notifies quiet simp: frame_simps\<close>)

lemma run_moves: "kernel_run E k k' \<Longrightarrow> store_ok k \<Longrightarrow> R k k'"
proof (induction rule: kernel_run.induct)
  case (start k)
  show ?case by (rule same)
next
  case (step k k1 k2)
  then have 1: "R k k1" by blast
  from follow [OF 1 kernel_moves [OF keeps [OF 1 step.prems] step.hyps(2)]] show ?case .
qed

end

end
