(* ===== verification/Sig_Account.thy ===== *)
theory Sig_Account
  imports Sig_Ledger "HOL-Library.Sublist"
begin

text \<open>
  Two contracts of the pending queues that hold over any run of \<open>signal.c\<close>, both as interpretations of
  \<open>queue_moves\<close>: the per-user count of pending signals is exact, and what waits in a queue is never
  overtaken.
\<close>

section \<open>The count of a user\<close>

text \<open>The elements charged to a user: those on a list, and those that belong to a timer.\<close>

definition charged :: "kstate \<Rightarrow> nat \<Rightarrow> nat set" where
  "charged k u = {q. in_use (sqs k q) \<and> q_user (sqs k q) = u}"

definition ledger :: "kstate \<Rightarrow> kstate \<Rightarrow> bool" where
  "ledger k k' \<longleftrightarrow> (store_ok k \<longrightarrow> store_ok k' \<and>
     (\<forall>u. user_sigpending k' u - int (card (charged k' u)) = user_sigpending k u - int (card (charged k u))))"

lemma finite_charged: "store_ok k \<Longrightarrow> finite (charged k u)"
  by (rule finite_subset [of _ "{..<next_sq k}"]) (auto simp: charged_def intro: store_okD(4))

text \<open>When a single element changes, the number of charged elements changes by that element.\<close>

lemma charged_change:
  assumes "\<And>p. p \<noteq> q \<Longrightarrow> in_use (sqs k' p) = in_use (sqs k p) \<and> q_user (sqs k' p) = q_user (sqs k p)"
    and "finite (charged k u)"
  shows "int (card (charged k' u)) = int (card (charged k u)) - (if q \<in> charged k u then 1 else 0) + (if q \<in> charged k' u then 1 else 0)"
proof -
  have d: "charged k' u - {q} = charged k u - {q}" using assms(1) by (auto simp: charged_def)
  have "finite (charged k' u - {q})" unfolding d using assms(2) by simp
  then have f: "finite (charged k' u)" by simp
  have c: "int (card A) = int (card (A - {q})) + (if q \<in> A then 1 else 0)" if "finite A" for A :: "nat set"
    using card_Suc_Diff1 [OF that, of q] by auto
  show ?thesis using c [OF assms(2)] c [OF f] by (simp only: d)
qed

lemma ledger_one:
  assumes "store_ok k \<Longrightarrow> store_ok k'"
    and "\<And>p. store_ok k \<Longrightarrow> p \<noteq> q \<Longrightarrow> in_use (sqs k' p) = in_use (sqs k p) \<and> q_user (sqs k' p) = q_user (sqs k p)"
    and "\<And>u. store_ok k \<Longrightarrow> user_sigpending k' u =
      user_sigpending k u - (if q \<in> charged k u then 1 else 0) + (if q \<in> charged k' u then 1 else 0)"
  shows "ledger k k'"
proof -
  have "user_sigpending k' u - int (card (charged k' u)) = user_sigpending k u - int (card (charged k u))" if ok: "store_ok k" for u
    using charged_change [OF assms(2) [OF ok] finite_charged [OF ok]] assms(3) [OF ok, of u] by simp
  with assms(1) show ?thesis by (simp add: ledger_def)
qed

section \<open>What the primitives do to the store\<close>

text \<open>What allocation does to the store.\<close>

lemma alloc_store:
  assumes "sigqueue_alloc_raw E sig t ov k = (r, k')"
  shows "pending_at k' = pending_at k"
    and "r = None \<Longrightarrow> sqs k' = sqs k \<and> user_sigpending k' = user_sigpending k \<and> next_sq k \<le> next_sq k'"
    and "r = Some q \<Longrightarrow> q = next_sq k \<and> next_sq k' = Suc q \<and>
      sqs k' = (sqs k)(q := (sqs k q)\<lparr>q_flags := 0, q_user := c_user (t_cred (tasks k t)), q_linked := False\<rparr>) \<and>
      user_sigpending k' = (user_sigpending k)(c_user (t_cred (tasks k t)) := user_sigpending k (c_user (t_cred (tasks k t))) + 1)"
  using assms
  by (auto simp: sigqueue_alloc_raw_def Let_def fun_eq_iff split: if_splits option.splits prod.splits)

lemma store_ok_refused:
  assumes ok: "store_ok k" and r: "sigqueue_alloc_raw E sig t ov k = (None, k')"
  shows "store_ok k'"
  using ok alloc_store(1,2) [OF r] by (auto simp: store_ok_def)

lemma fresh: "store_ok k \<Longrightarrow> q = next_sq k \<Longrightarrow> \<not> in_use (sqs k q) \<and> q \<notin> set (plist (pending_at k l))"
  using store_okD(5) [of k q l] by (auto simp: store_ok_def)

lemma list_add_store:
  "plist (pending_at (list_add_tail q l k) m) = plist (pending_at k m) @ (if m = l then [q] else [])"
  "sqs (list_add_tail q l k) = (sqs k)(q := (sqs k q)\<lparr>q_linked := True\<rparr>)"
  "next_sq (list_add_tail q l k) = next_sq k" "user_sigpending (list_add_tail q l k) = user_sigpending k"
  by (simp_all add: list_add_tail_def)

text \<open>Hanging an element that is on no list on one keeps the store well formed.\<close>

lemma store_ok_add:
  assumes "\<And>m. distinct (plist (pending_at k m))" and "\<And>p m. p \<in> set (plist (pending_at k m)) \<Longrightarrow> q_linked (sqs k p)"
    and "\<And>p m n. p \<in> set (plist (pending_at k m)) \<Longrightarrow> p \<in> set (plist (pending_at k n)) \<Longrightarrow> m = n"
    and "\<And>p. in_use (sqs k p) \<Longrightarrow> p < next_sq k" and "\<not> q_linked (sqs k q)" and "q < next_sq k"
  shows "store_ok (list_add_tail q l k)"
proof -
  have n: "q \<notin> set (plist (pending_at k m))" for m using assms(2,5) by blast
  have f: "\<not> in_use (sqs k p)" if "next_sq k \<le> p" for p using assms(4) [of p] that by auto
  show ?thesis using assms(1-3,6) n f
    by (auto simp: store_ok_def list_add_store)
qed

lemma store_ok_queued:
  assumes ok: "store_ok k" and r: "sigqueue_alloc_raw E sig t ov k = (Some q, k')"
  shows "store_ok (list_add_tail q l k')"
proof -
  note a = alloc_store(1) [OF r] alloc_store(3) [OF r HOL.refl]
  note n = fresh [OF ok, of q]
  have "p < q" if "p \<in> set (plist (pending_at k m))" for p m using store_okD(5) [OF ok that] a(2) by simp
  then show ?thesis
    using store_okD(1-4) [OF ok] a n
    by (intro store_ok_add) (auto simp: in_use_def prealloc_def less_Suc_eq split: if_splits)
qed

lemma drop_store:
  "plist (pending_at (drop_entry l q k) m) = (if m = l then remove1 q (plist (pending_at k l)) else plist (pending_at k m))"
  "sqs (drop_entry l q k) = (sqs k)(q := (sqs k q)\<lparr>q_linked := False\<rparr>)" "next_sq (drop_entry l q k) = next_sq k"
  "user_sigpending (drop_entry l q k) = (if prealloc (sqs k q) then user_sigpending k
     else (user_sigpending k)(q_user (sqs k q) := user_sigpending k (q_user (sqs k q)) - 1))"
  by (simp_all add: pending_at_drop) (simp_all add: drop_entry_def sigqueue_free_raw_def list_del_init_def prealloc_def Let_def)

lemma store_ok_dropped:
  assumes ok: "store_ok k" and q: "q \<in> set (plist (pending_at k l))"
  shows "store_ok (drop_entry l q k)"
proof -
  have other: "q \<notin> set (plist (pending_at k m))" if "m \<noteq> l" for m using store_okD(3) [OF ok q] that by blast
  have f: "\<not> in_use (sqs k p)" if "next_sq k \<le> p" for p using store_okD(4) [OF ok, of p] that by auto
  show ?thesis
    using store_okD(1-3) [OF ok] other f
    by (auto simp: store_ok_def drop_store in_use_def prealloc_def dest: notin_set_remove1)
qed

text \<open>The three functions for timers.\<close>

lemma flag_bits: "SIGQUEUE_PREALLOC \<noteq> 0" "(f OR SIGQUEUE_PREALLOC) AND SIGQUEUE_PREALLOC \<noteq> 0"
  "f AND NOT SIGQUEUE_PREALLOC AND SIGQUEUE_PREALLOC = 0"
proof -
  have "(f OR 1) AND 1 = (1 :: u32)" "f AND NOT 1 AND 1 = (0 :: u32)" by (rule bit_word_eqI; auto simp: bit_simps)+
  then show "SIGQUEUE_PREALLOC \<noteq> 0" "(f OR SIGQUEUE_PREALLOC) AND SIGQUEUE_PREALLOC \<noteq> 0"
    "f AND NOT SIGQUEUE_PREALLOC AND SIGQUEUE_PREALLOC = 0"
    by (simp_all add: SIGQUEUE_PREALLOC_def)
qed

lemma timer_new_store:
  assumes "sigqueue_alloc E k = (r, k')"
  shows "pending_at k' = pending_at k"
    and "r = None \<Longrightarrow> sqs k' = sqs k \<and> user_sigpending k' = user_sigpending k \<and> next_sq k \<le> next_sq k'"
    and "r = Some q \<Longrightarrow> q = next_sq k \<and> next_sq k' = Suc q \<and> (\<forall>p. p \<noteq> q \<longrightarrow> sqs k' p = sqs k p) \<and>
      prealloc (sqs k' q) \<and> \<not> q_linked (sqs k' q) \<and>
      user_sigpending k' = (user_sigpending k)(q_user (sqs k' q) := user_sigpending k (q_user (sqs k' q)) + 1)"
proof -
  obtain r1 k1 where al: "sigqueue_alloc_raw E (-1) (cur k) False k = (r1, k1)" by fastforce
  note a = alloc_store [OF al]
  show "pending_at k' = pending_at k"
    using assms al a(1) by (auto simp: sigqueue_alloc_def fun_eq_iff split: option.splits)
  show "r = None \<Longrightarrow> sqs k' = sqs k \<and> user_sigpending k' = user_sigpending k \<and> next_sq k \<le> next_sq k'"
    using assms al a(2) by (auto simp: sigqueue_alloc_def split: option.splits)
  show "r = Some q \<Longrightarrow> q = next_sq k \<and> next_sq k' = Suc q \<and> (\<forall>p. p \<noteq> q \<longrightarrow> sqs k' p = sqs k p) \<and>
      prealloc (sqs k' q) \<and> \<not> q_linked (sqs k' q) \<and>
      user_sigpending k' = (user_sigpending k)(q_user (sqs k' q) := user_sigpending k (q_user (sqs k' q)) + 1)"
    using assms al a(3) [of q] flag_bits by (auto simp: sigqueue_alloc_def prealloc_def split: option.splits)
qed

lemma store_ok_timer_new:
  assumes ok: "store_ok k" and r: "sigqueue_alloc E k = (r, k')"
  shows "store_ok k'"
proof (cases r)
  case None
  with ok timer_new_store(1,2) [OF r] show ?thesis by (auto simp: store_ok_def)
next
  case (Some q)
  note a = timer_new_store(1) [OF r] timer_new_store(3) [OF r Some]
  have l: "q_linked (sqs k' p)" if "p \<in> set (plist (pending_at k m))" for p m
    using store_okD(2,5) [OF ok that] a by (metis less_irrefl)
  have f: "\<not> in_use (sqs k' p)" if "next_sq k' \<le> p" for p
    using store_okD(4) [OF ok, of p] a that by fastforce
  show ?thesis using store_okD(1,3) [OF ok] a(1) l f by (auto simp: store_ok_def)
qed

lemma timer_gone_store:
  assumes "prealloc (sqs k q)"
  shows "pending_at (sigqueue_free q k) = pending_at k" and "next_sq (sigqueue_free q k) = next_sq k"
    and "p \<noteq> q \<Longrightarrow> sqs (sigqueue_free q k) p = sqs k p"
    and "\<not> prealloc (sqs (sigqueue_free q k) q)" and "q_linked (sqs (sigqueue_free q k) q) = q_linked (sqs k q)"
    and "q_user (sqs (sigqueue_free q k) q) = q_user (sqs k q)"
    and "user_sigpending (sigqueue_free q k) = (if q_linked (sqs k q) then user_sigpending k
      else (user_sigpending k)(q_user (sqs k q) := user_sigpending k (q_user (sqs k q)) - 1))"
  using assms flag_bits by (simp_all add: sigqueue_free_def sigqueue_free_raw_def prealloc_def Let_def fun_eq_iff)

lemma store_ok_timer_gone:
  assumes ok: "store_ok k" and p: "prealloc (sqs k q)"
  shows "store_ok (sigqueue_free q k)"
proof -
  note g = timer_gone_store [OF p]
  have l: "q_linked (sqs (sigqueue_free q k) x) = q_linked (sqs k x)" for x using g(3,5) by (cases "x = q") auto
  have "q < next_sq k" using store_okD(4) [OF ok, of q] p by (simp add: in_use_def)
  then have f: "\<not> in_use (sqs (sigqueue_free q k) x)" if "next_sq k \<le> x" for x
    using store_okD(4) [OF ok, of x] g(3) [of x] that by fastforce
  show ?thesis using store_okD(1-3) [OF ok] l f by (auto simp: store_ok_def g(1,2))
qed

section \<open>The ledger\<close>

lemma ledger_trans: "ledger k k1 \<Longrightarrow> ledger k1 k2 \<Longrightarrow> ledger k k2"
  by (simp add: ledger_def)

lemma ledger_quiet: "qstore k' = qstore k \<Longrightarrow> ledger k k'"
proof -
  assume q: "qstore k' = qstore k"
  have "charged k' u = charged k u" for u
    using qstore_sel(2-4) [OF q] by (simp add: charged_def in_use_def prealloc_def)
  then show ?thesis using store_ok_cong [OF q] qstore_sel(6) [OF q] by (simp add: ledger_def)
qed

lemma ledger_queued:
  assumes r: "sigqueue_alloc_raw E sig t ov k = (Some q, k')" and ok: "store_ok k"
  shows "ledger k (list_add_tail q l k')"
proof -
  note a = alloc_store(1) [OF r] alloc_store(3) [OF r HOL.refl]
  have "\<not> in_use (sqs k q)" using fresh [OF ok, of q] a by blast
  then show ?thesis using a
    by (intro ledger_one [where q = q] store_ok_queued [OF _ r])
       (auto simp: charged_def in_use_def prealloc_def list_add_store)
qed

lemma ledger_dropped:
  assumes ok: "store_ok k" and q: "q \<in> set (plist (pending_at k l))"
  shows "ledger k (drop_entry l q k)"
proof -
  have "q_linked (sqs k q)" by (rule store_okD(2) [OF ok q])
  then show ?thesis
    by (intro ledger_one [where q = q] store_ok_dropped [OF _ q])
       (auto simp: charged_def in_use_def prealloc_def drop_store)
qed

lemma ledger_timers:
  "sigqueue_alloc E k = (r, k') \<Longrightarrow> store_ok k \<Longrightarrow> ledger k k'"
  "store_ok k \<Longrightarrow> prealloc (sqs k q) \<Longrightarrow> \<not> q_linked (sqs k q) \<Longrightarrow> ledger k (list_add_tail q l k)"
  "store_ok k \<Longrightarrow> prealloc (sqs k q) \<Longrightarrow> ledger k (sigqueue_free q k)"
proof -
  show "ledger k k'" if r: "sigqueue_alloc E k = (r, k')" and ok: "store_ok k"
  proof (cases r)
    case None
    with timer_new_store(2) [OF r] store_ok_timer_new [OF ok r] show ?thesis by (simp add: ledger_def charged_def)
  next
    case (Some q)
    have "\<not> in_use (sqs k q)" using fresh [OF ok, of q] timer_new_store(3) [OF r Some] by blast
    then show ?thesis using timer_new_store(3) [OF r Some]
      by (intro ledger_one [where q = q] store_ok_timer_new [OF _ r]) (auto simp: charged_def in_use_def)
  qed
  show "ledger k (list_add_tail q l k)" if ok: "store_ok k" and p: "prealloc (sqs k q)" and n: "\<not> q_linked (sqs k q)"
  proof -
    have "q < next_sq k" using store_okD(4) [OF ok, of q] p by (simp add: in_use_def)
    then have "store_ok (list_add_tail q l k)" using store_okD [OF ok] n by (intro store_ok_add) auto
    with p show ?thesis
      by (intro ledger_one [where q = q]) (auto simp: charged_def in_use_def prealloc_def list_add_store)
  qed
  show "ledger k (sigqueue_free q k)" if ok: "store_ok k" and p: "prealloc (sqs k q)"
    using timer_gone_store(3-7) [OF p] p
    by (intro ledger_one [where q = q] store_ok_timer_gone [OF _ p]) (auto simp: charged_def in_use_def)
qed

interpretation counts: queue_moves ledger
proof
  show "ledger k k1 \<Longrightarrow> store_ok k \<Longrightarrow> store_ok k1" for k k1 by (simp add: ledger_def)
  show "ledger k k'" if "sigqueue_alloc_raw E sig t ov k = (None, k')" and "store_ok k" for E sig t ov k k'
    using alloc_store(2) [OF that(1)] store_ok_refused [OF that(2,1)] by (simp add: ledger_def charged_def)
qed (blast intro: ledger_trans ledger_quiet ledger_queued ledger_dropped ledger_timers)+

text \<open>A state in which every user's count is the number of the user's elements.\<close>

definition exact :: "kstate \<Rightarrow> bool" where
  "exact k \<longleftrightarrow> store_ok k \<and> (\<forall>u. user_sigpending k u = int (card (charged k u)))"

lemma exact_run: "kernel_run E k k' \<Longrightarrow> exact k \<Longrightarrow> exact k'"
  using counts.run_moves [of E k k'] by (auto simp: exact_def ledger_def)

section \<open>Arrival order\<close>

text \<open>An element that exists and does not belong to a timer. Such an element is queued once.\<close>

definition settled :: "kstate \<Rightarrow> nat \<Rightarrow> bool" where
  "settled k q \<longleftrightarrow> q < next_sq k \<and> \<not> prealloc (sqs k q)"

text \<open>A queue keeps its elements in order, loses some, and gets new ones behind them.\<close>

definition keeps_order :: "kstate \<Rightarrow> kstate \<Rightarrow> bool" where
  "keeps_order k k' \<longleftrightarrow> (\<forall>l. \<exists>old new. plist (pending_at k' l) = old @ new \<and> subseq old (plist (pending_at k l)) \<and>
     (\<forall>q \<in> set new. \<not> settled k q))"

definition orderly :: "kstate \<Rightarrow> kstate \<Rightarrow> bool" where
  "orderly k k' \<longleftrightarrow> (store_ok k \<longrightarrow> store_ok k' \<and> (\<forall>q. settled k q \<longrightarrow> settled k' q) \<and> keeps_order k k')"

lemma keeps_order_trans:
  assumes "keeps_order k k1" and "keeps_order k1 k2" and s: "\<forall>q. settled k q \<longrightarrow> settled k1 q"
  shows "keeps_order k k2"
  unfolding keeps_order_def
proof
  fix l
  obtain a1 n1 where 1: "plist (pending_at k1 l) = a1 @ n1" "subseq a1 (plist (pending_at k l))" "\<forall>q \<in> set n1. \<not> settled k q"
    using assms(1) unfolding keeps_order_def by blast
  obtain a2 n2 where 2: "plist (pending_at k2 l) = a2 @ n2" "subseq a2 (a1 @ n1)" "\<forall>q \<in> set n2. \<not> settled k1 q"
    using assms(2) 1(1) unfolding keeps_order_def by metis
  from 2(2) obtain a b where ab: "a2 = a @ b" "subseq a a1" "subseq b n1" by (rule subseq_appendE)
  have "set b \<subseteq> set n1" using ab(3) by (auto elim: list_emb_set)
  then have "\<forall>q \<in> set (b @ n2). \<not> settled k q" using 1(3) 2(3) s by auto
  moreover have "subseq a (plist (pending_at k l))" using ab(2) 1(2) by (rule subseq_order.trans)
  ultimately show "\<exists>old new. plist (pending_at k2 l) = old @ new \<and> subseq old (plist (pending_at k l)) \<and> (\<forall>q \<in> set new. \<not> settled k q)"
    using 2(1) ab(1) by (intro exI [of _ a] exI [of _ "b @ n2"]) simp
qed

lemma keeps_order_same: "(\<And>l. plist (pending_at k' l) = plist (pending_at k l)) \<Longrightarrow> keeps_order k k'"
  unfolding keeps_order_def by (metis append_Nil2 empty_iff list.set(1) subseq_order.order_refl)

lemma keeps_order_add:
  assumes "pending_at k1 = pending_at k" and "\<not> settled k q"
  shows "keeps_order k (list_add_tail q l k1)"
  unfolding keeps_order_def
proof
  fix m
  show "\<exists>old new. plist (pending_at (list_add_tail q l k1) m) = old @ new \<and> subseq old (plist (pending_at k m)) \<and>
      (\<forall>q \<in> set new. \<not> settled k q)"
    by (intro exI [of _ "plist (pending_at k m)"] exI [of _ "if m = l then [q] else []"])
       (use assms in \<open>simp add: list_add_store\<close>)
qed

lemma keeps_order_drop: "keeps_order k (drop_entry l q k)"
  unfolding keeps_order_def
proof
  fix m
  have r: "subseq (remove1 x xs) xs" for x and xs :: "nat list"
    by (induction xs) (auto intro: list_emb_Cons)
  show "\<exists>old new. plist (pending_at (drop_entry l q k) m) = old @ new \<and> subseq old (plist (pending_at k m)) \<and>
      (\<forall>q \<in> set new. \<not> settled k q)"
    by (intro exI [of _ "plist (pending_at (drop_entry l q k) m)"] exI [of _ "[]"]) (simp add: drop_store r)
qed

interpretation order: queue_moves orderly
proof
  show "orderly k k2" if "orderly k k1" "orderly k1 k2" for k k1 k2
    using that keeps_order_trans [of k k1 k2] by (auto simp: orderly_def)
  show "orderly k k1 \<Longrightarrow> store_ok k \<Longrightarrow> store_ok k1" for k k1 by (simp add: orderly_def)
  show "orderly k k'" if q: "qstore k' = qstore k" for k k'
    using store_ok_cong [OF q] qstore_sel [OF q] keeps_order_same [of k' k]
    by (simp add: orderly_def settled_def prealloc_def)
  show "orderly k k'" if r: "sigqueue_alloc_raw E sig t ov k = (None, k')" and ok: "store_ok k" for E sig t ov k k'
    using alloc_store(1,2) [OF r] store_ok_refused [OF ok r] keeps_order_same [of k' k]
    by (auto simp: orderly_def settled_def)
  show "orderly k (list_add_tail q l k')" if r: "sigqueue_alloc_raw E sig t ov k = (Some q, k')" and ok: "store_ok k"
    for E sig t ov k q k' l
    using alloc_store(1) [OF r] alloc_store(3) [OF r HOL.refl] store_ok_queued [OF ok r] keeps_order_add [of k' k q l]
    by (auto simp: orderly_def settled_def prealloc_def list_add_store)
  show "orderly k (drop_entry l q k)" if "store_ok k" "q \<in> set (plist (pending_at k l))" for k q l
    using store_ok_dropped [OF that] keeps_order_drop by (auto simp: orderly_def settled_def prealloc_def drop_store)
  show "orderly k k'" if r: "sigqueue_alloc E k = (r, k')" and ok: "store_ok k" for E k r k'
    using timer_new_store [OF r] store_ok_timer_new [OF ok r] keeps_order_same [of k' k]
    by (cases r) (auto simp: orderly_def settled_def)
  show "orderly k (list_add_tail q l k)" if ok: "store_ok k" and p: "prealloc (sqs k q)" and n: "\<not> q_linked (sqs k q)" for k q l
  proof -
    have "q < next_sq k" using store_okD(4) [OF ok, of q] p by (simp add: in_use_def)
    then have "store_ok (list_add_tail q l k)" using store_okD [OF ok] n by (intro store_ok_add) auto
    moreover have "keeps_order k (list_add_tail q l k)" by (rule keeps_order_add) (use p in \<open>simp_all add: settled_def\<close>)
    ultimately show ?thesis by (auto simp: orderly_def settled_def prealloc_def list_add_store)
  qed
  show "orderly k (sigqueue_free q k)" if "store_ok k" and p: "prealloc (sqs k q)" for k q
  proof -
    have "\<not> prealloc (sqs (sigqueue_free q k) x)" if "\<not> prealloc (sqs k x)" for x
      using timer_gone_store(3) [OF p, of x] that p by (cases "x = q") auto
    then show ?thesis
      using timer_gone_store(1,2) [OF p] store_ok_timer_gone [OF that] keeps_order_same [of "sigqueue_free q k" k]
      by (simp add: orderly_def settled_def)
  qed
qed

lemma order_run: "kernel_run E k k' \<Longrightarrow> store_ok k \<Longrightarrow> keeps_order k k'"
  using order.run_moves [of E k k'] by (simp add: orderly_def)

end
