(* ===== verification/Sig_Told.thy ===== *)
theory Sig_Told
  imports Sig_Account
begin

text \<open>
  Wake-ups: whether a thread with a deliverable signal in its own queue has been told, that is, has
  \<open>TIF_SIGPENDING\<close> set. Stopped and exiting threads are not told; a stopped thread looks for itself
  when it is continued.
\<close>

section \<open>Being told\<close>

definition exiting :: "task_struct \<Rightarrow> bool" where
  "exiting x \<longleftrightarrow> t_flags x AND PF_EXITING \<noteq> 0"

definition told :: "kstate \<Rightarrow> nat \<Rightarrow> bool" where
  "told k t \<longleftrightarrow> (let x = tasks k t in
     has_pending_signals (psignal (t_pending x)) (t_blocked x) \<longrightarrow> t_tif_sigpending x \<or> exiting x)"

definition awake :: "kstate \<Rightarrow> nat \<Rightarrow> bool" where
  "awake k t \<longleftrightarrow> \<not> task_is_stopped_or_traced (tasks k t)"

definition heeds :: "nat \<Rightarrow> kstate \<Rightarrow> kstate \<Rightarrow> bool" where
  "heeds t k k' \<longleftrightarrow> (awake k t \<and> told k t \<longrightarrow> awake k' t \<and> told k' t)"

text \<open>\<open>t\<close> gets no new signal, keeps its mask and its flag, and is not stopped.\<close>

definition calm :: "nat \<Rightarrow> kstate \<Rightarrow> kstate \<Rightarrow> bool" where
  "calm t k k' \<longleftrightarrow> (let x = tasks k t; y = tasks k' t in
     (\<forall>n. bit (psignal (t_pending y)) n \<longrightarrow> bit (psignal (t_pending x)) n) \<and> t_blocked y = t_blocked x \<and>
     (t_tif_sigpending x \<longrightarrow> t_tif_sigpending y) \<and> (exiting x \<longrightarrow> exiting y) \<and>
     (task_is_stopped_or_traced y \<longrightarrow> task_is_stopped_or_traced x))"

lemma pending_bits: "has_pending_signals s b \<longleftrightarrow> (\<exists>n. bit s n \<and> \<not> bit b n)"
proof -
  have "s AND NOT b = 0 \<longleftrightarrow> (\<forall>n. \<not> (bit s n \<and> \<not> bit b n))"
    by (auto simp: bit_eq_iff bit_simps) (use bit_imp_le_length [of s] in auto)
  then show ?thesis by (simp add: has_pending_signals_iff)
qed

lemma calm_heeds: "calm t k k' \<Longrightarrow> heeds t k k'"
  by (auto simp: calm_def heeds_def awake_def told_def Let_def pending_bits)

lemma calm_trans: "calm t k k1 \<Longrightarrow> calm t k1 k2 \<Longrightarrow> calm t k k2"
  by (auto simp: calm_def Let_def)

lemma calm_refl [simp]: "calm t k k"
  by (simp add: calm_def)

lemma heeds_trans: "heeds t k k1 \<Longrightarrow> heeds t k1 k2 \<Longrightarrow> heeds t k k2"
  by (simp add: heeds_def)

lemma heeds_refl [simp]: "heeds t k k"
  by (simp add: heeds_def)

lemma calm_fold: "(\<And>x k. calm t k (f x k)) \<Longrightarrow> calm t k (fold f xs k)"
proof (induction xs arbitrary: k)
  case (Cons x xs)
  then show ?case using calm_trans [of t k "f x k"] by simp
qed simp

lemma heeds_fold: "(\<And>x k. heeds t k (f x k)) \<Longrightarrow> heeds t k (fold f xs k)"
proof (induction xs arbitrary: k)
  case (Cons x xs)
  then show ?case using heeds_trans [of t k "f x k"] by simp
qed simp

named_theorems calm_rules \<open>operations that are calm for a thread\<close>

lemma calm_same: "tasks k' t = tasks k t \<Longrightarrow> calm t k k'"
  by (simp add: calm_def)

lemma calm_misc [calm_rules]:
  "calm t k (ev e k)" "calm t k (upd_signal g f k)" "calm t k (upd_sighand h f' k)" "calm t k (upd_hand u f' k)"
  "calm t k (k\<lparr>sqs := s\<rparr>)" "calm t k (k\<lparr>user_sigpending := us\<rparr>)" "calm t k (k\<lparr>next_sq := n\<rparr>)" "calm t k (k\<lparr>cur := c\<rparr>)"
  "calm t k (set_q_info q i k)" "calm t k (bump_counter h sig k)"
  by (simp_all add: calm_same set_q_info_def upd_hand_def bump_counter_def)

lemma calm_upd_task:
  assumes "u = t \<Longrightarrow> calm t k (upd_task t f k)"
  shows "calm t k (upd_task u f k)"
  using assms by (cases "u = t") (simp_all add: calm_same)

lemma calm_fields [calm_rules]:
  "calm t k (upd_task u (\<lambda>x. x\<lparr>t_jobctl := j x\<rparr>) k)" "calm t k (set_tif_sigpending True u k)"
  "calm t k (upd_task u (\<lambda>x. x\<lparr>t_flags := t_flags x OR PF_EXITING\<rparr>) k)"
  "calm t k (upd_task u (\<lambda>x. x\<lparr>t_real_blocked := rb x\<rparr>) k)" "calm t k (upd_task u (\<lambda>x. x\<lparr>t_saved_sigmask := sm x\<rparr>) k)"
  "calm t k (upd_task u (\<lambda>x. x\<lparr>t_restore_sigmask := b\<rparr>) k)" "calm t k (upd_task u (\<lambda>x. x\<lparr>t_sas_ss_sp := sp, t_sas_ss_size := sz\<rparr>) k)"
proof -
  have e: "(f OR PF_EXITING) AND PF_EXITING \<noteq> 0" for f :: u32
  proof -
    have "bit ((f OR PF_EXITING) AND PF_EXITING) 2" by (simp add: PF_EXITING_def bit_simps)
    then show ?thesis by (metis bit_0_eq bot_apply bot_bool_def)
  qed
  show "calm t k (upd_task u (\<lambda>x. x\<lparr>t_jobctl := j x\<rparr>) k)" "calm t k (set_tif_sigpending True u k)"
    "calm t k (upd_task u (\<lambda>x. x\<lparr>t_flags := t_flags x OR PF_EXITING\<rparr>) k)"
    "calm t k (upd_task u (\<lambda>x. x\<lparr>t_real_blocked := rb x\<rparr>) k)" "calm t k (upd_task u (\<lambda>x. x\<lparr>t_saved_sigmask := sm x\<rparr>) k)"
    "calm t k (upd_task u (\<lambda>x. x\<lparr>t_restore_sigmask := b\<rparr>) k)"
    "calm t k (upd_task u (\<lambda>x. x\<lparr>t_sas_ss_sp := sp, t_sas_ss_size := sz\<rparr>) k)"
    by (auto simp: calm_def set_tif_sigpending_def exiting_def task_is_stopped_or_traced_def Let_def e)
qed

text \<open>Queue operations: what matters is the bitmap of the thread's own queue.\<close>

lemma calm_frame:
  assumes f: "pend_frame k k'"
    and "\<And>n. bit (psignal (pending_at k' (Private t))) n \<Longrightarrow> bit (psignal (pending_at k (Private t))) n"
  shows "calm t k k'"
  using assms(2) pend_frame_task [OF f, of t] by (auto simp: calm_def Let_def exiting_def task_is_stopped_or_traced_def)

lemma calm_set [calm_rules]: "l \<noteq> Private t \<or> (\<forall>s n. bit (f s) n \<longrightarrow> bit s n) \<Longrightarrow> calm t k (set_psignal f l k)"
  by (rule calm_frame [OF pend_frame_set]) (auto simp del: pending_at.simps simp: pending_at_set split: if_splits)

lemma calm_drop [calm_rules]: "calm t k (drop_entry l q k)"
  by (rule calm_frame [OF pend_frame_drop]) (simp del: pending_at.simps add: pending_at_drop split: if_splits)

lemma calm_add [calm_rules]: "calm t k (list_add_tail q l k)"
proof -
  have "calm t (k\<lparr>sqs := s\<rparr>) (upd_pending l (\<lambda>p. p\<lparr>plist := h p\<rparr>) (k\<lparr>sqs := s\<rparr>))" for s h
    by (rule calm_frame [OF pend_frame_upd]) (simp del: pending_at.simps split: if_splits)
  with calm_misc(5) show ?thesis unfolding list_add_tail_def by (rule calm_trans)
qed

lemma calm_removes [calm_rules]: "calm t k (snd (rm_from_queue m l k))" "calm t k (snd (rm_from_queue_full m l k))"
proof -
  have "calm t k (fold (drop_entry l) qs (set_psignal (\<lambda>s. s AND NOT m) l k))" for qs
    by (rule calm_trans [OF calm_set calm_fold [OF calm_drop]]) (simp add: bit_simps)
  then show "calm t k (snd (rm_from_queue m l k))" "calm t k (snd (rm_from_queue_full m l k))"
    by (simp_all add: rm_from_queue_def rm_from_queue_full_def Let_def)
qed

lemma calm_collect [calm_rules]: "calm t k (snd (collect_signal sig l info k))"
proof -
  have d: "calm t k (set_psignal (sigdelset sig) l k)" for k
    by (rule calm_set) (simp add: sigdelset_def bit_simps)
  then have "calm t k (drop_entry l q (set_psignal (sigdelset sig) l k))" for q
    by (rule calm_trans) (rule calm_drop)
  with d show ?thesis by (simp add: collect_signal_def calm_drop split: list.splits)
qed

lemma calm_alloc [calm_rules]: "calm t k (snd (sigqueue_alloc_raw E sig u ov k))"
  by (rule calm_same) (auto simp: sigqueue_alloc_raw_def Let_def split: option.splits prod.splits if_splits)

lemma calm_queue_info: "queue_info E sig a u l ns k = (b, k') \<Longrightarrow> calm t k k'"
proof -
  assume r: "queue_info E sig a u l ns k = (b, k')"
  obtain res k0 where al: "sigqueue_alloc_raw E sig u (override_rlimit sig a) k = (res, k0)" by fastforce
  with calm_alloc [of t k E sig u "override_rlimit sig a"] have 0: "calm t k k0" by simp
  have "calm t k0 (set_q_info q f (list_add_tail q l k0))" for q f
    by (rule calm_trans [OF calm_add calm_misc(9)])
  with 0 r al show ?thesis using calm_trans [OF 0] by (auto simp: queue_info_def split: option.splits)
qed

section \<open>Waking\<close>

lemma calm_wake_state: "wakes_by_mask E \<Longrightarrow> calm t k (snd (wake_up_state E u m k))"
  by (auto simp: calm_def wake_up_state_def Let_def wakes_by_mask_def exiting_def task_is_stopped_or_traced_def task_state_defs)

lemma calm_wakes [calm_rules]:
  assumes w: "wakes_by_mask E"
  shows "calm t k (snd (wake_up_state E u m k))" "calm t k (signal_wake_up_state E u st k)" "calm t k (signal_wake_up E u r k)"
    "calm t k (ptrace_signal_wake_up E u r k)" "calm t k (wake_up_process E u k)"
proof -
  show ws: "calm t k (snd (wake_up_state E u m k))" for m k by (rule calm_wake_state [OF w])
  have "calm t k (ev e (snd (wake_up_state E u m (set_tif_sigpending True u k))))"
    "calm t k (snd (wake_up_state E u m (set_tif_sigpending True u k)))" for m e
    by (blast intro: calm_trans ws calm_fields(2) calm_misc(1))+
  then show s: "calm t k (signal_wake_up_state E u st k)" for st
    by (auto simp: signal_wake_up_state_def split_beta)
  show "calm t k (signal_wake_up E u r k)" "calm t k (ptrace_signal_wake_up E u r k)" "calm t k (wake_up_process E u k)"
    by (simp_all add: signal_wake_up_def ptrace_signal_wake_up_def wake_up_process_def s ws)
qed

text \<open>What \<open>calm\<close> looks at. The functions for job control leave it alone.\<close>

definition signs :: "task_struct \<Rightarrow> _" where
  "signs x = (psignal (t_pending x), t_blocked x, t_tif_sigpending x, t_flags x, t_state x)"

lemma calm_signs: "signs (tasks k' t) = signs (tasks k t) \<Longrightarrow> calm t k k'"
  by (simp add: signs_def calm_def exiting_def task_is_stopped_or_traced_def)

lemma signs_jobctl [simp]:
  "signs (tasks (snd (task_set_jobctl_pending u m k)) t) = signs (tasks k t)"
  "signs (tasks (task_clear_jobctl_trapping u k) t) = signs (tasks k t)"
  "signs (tasks (task_clear_jobctl_pending u m k) t) = signs (tasks k t)"
  "signs (tasks (snd (task_participate_group_stop u k)) t) = signs (tasks k t)"
proof -
  have j: "signs (x\<lparr>t_jobctl := v\<rparr>) = signs x" for x v by (simp add: signs_def)
  show "signs (tasks (snd (task_set_jobctl_pending u m k)) t) = signs (tasks k t)"
    by (simp add: task_set_jobctl_pending_def Let_def j)
  show tr: "signs (tasks (task_clear_jobctl_trapping u k) t) = signs (tasks k t)" for k
    by (simp add: task_clear_jobctl_trapping_def j)
  show cl: "signs (tasks (task_clear_jobctl_pending u m k) t) = signs (tasks k t)" for m k
    by (simp add: task_clear_jobctl_pending_def Let_def j tr)
  show "signs (tasks (snd (task_participate_group_stop u k)) t) = signs (tasks k t)"
    by (simp add: task_participate_group_stop_def Let_def cl)
qed

lemma calm_jobctl [calm_rules]:
  "calm t k (snd (task_set_jobctl_pending u m k))" "calm t k (task_clear_jobctl_trapping u k)"
  "calm t k (task_clear_jobctl_pending u m k)" "calm t k (snd (task_participate_group_stop u k))"
  by (simp_all add: calm_signs)

lemma calm_trap [calm_rules]:
  assumes w: "wakes_by_mask E"
  shows "calm t k (ptrace_trap_notify E u k)"
proof -
  have "calm t k (snd (task_set_jobctl_pending u m (if b then ev e k else k)))" for m b e by (simp add: calm_signs)
  then show ?thesis unfolding ptrace_trap_notify_def Let_def by (rule calm_trans) (rule calm_wakes [OF w])
qed

section \<open>Preparing a send\<close>

lemma calm_prepare [calm_rules]:
  assumes w: "wakes_by_mask E"
  shows "calm t k (snd (prepare_signal E sig p ns k))"
proof -
  have s: "calm t k (stop_removes_cont p k)"
    unfolding stop_removes_cont_def each_thread_def by (rule calm_trans [OF calm_removes(1) calm_fold [OF calm_removes(1)]])
  have "calm t k (if b then snd (wake_up_state E u m k1) else ptrace_trap_notify E u k1)"
    if "k1 = snd (rm_from_queue M (Private u) (task_clear_jobctl_pending u J k))" for b u m k1 M J k
  proof -
    have "calm t k k1" unfolding that by (rule calm_trans [OF calm_jobctl(3) calm_removes(1)])
    then show ?thesis by (rule calm_trans) (simp add: calm_wakes(1) [OF w] calm_trap [OF w])
  qed
  then have "calm t k (cont_thread E u k)" for u k unfolding cont_thread_def Let_def by blast
  then have c: "calm t k (cont_removes_stops E p k)"
    unfolding cont_removes_stops_def each_thread_def by (rule calm_trans [OF calm_removes(1) calm_fold])
  have n: "calm t k (note_continued g k)" for g k by (simp add: note_continued_def Let_def calm_misc)
  show ?thesis using s c calm_trans [OF c n] by (simp add: prepare_signal_def Let_def)
qed

section \<open>Choosing a thread\<close>

definition flagged :: "nat \<Rightarrow> kstate \<Rightarrow> kstate \<Rightarrow> bool" where
  "flagged t k k' \<longleftrightarrow> t_tif_sigpending (tasks k' t) \<and> (awake k t \<longrightarrow> awake k' t)"

lemma flagged_heeds: "flagged t k k' \<Longrightarrow> heeds t k k'"
  by (auto simp: flagged_def heeds_def told_def Let_def)

lemma flagged_calm: "flagged t k k1 \<Longrightarrow> calm t k1 k2 \<Longrightarrow> flagged t k k2"
  by (auto simp: flagged_def calm_def awake_def Let_def)

lemma calm_flagged: "calm t k k1 \<Longrightarrow> flagged t k1 k2 \<Longrightarrow> flagged t k k2"
  by (auto simp: flagged_def calm_def awake_def Let_def)

lemma flagged_wake:
  assumes w: "wakes_by_mask E"
  shows "flagged t k (signal_wake_up E t r k)"
proof -
  have "flagged t k (set_tif_sigpending True t k)" by (simp add: flagged_def set_tif_sigpending_def awake_def task_is_stopped_or_traced_def)
  then have "flagged t k (snd (wake_up_state E t m (set_tif_sigpending True t k)))" for m
    by (rule flagged_calm) (rule calm_wake_state [OF w])
  moreover from this have "flagged t k (ev e (snd (wake_up_state E t m (set_tif_sigpending True t k))))" for m e
    by (rule flagged_calm) (rule calm_misc(1))
  ultimately show ?thesis by (simp add: signal_wake_up_def signal_wake_up_state_def split_beta)
qed

lemma awake_set [simp]: "awake (set_psignal f l k) t = awake k t"
  by (cases l) (auto simp: awake_def set_psignal_def task_is_stopped_or_traced_def)

lemma kill_thread_flags:
  assumes w: "wakes_by_mask E"
  shows "flagged t k (kill_thread E t k)" and "heeds t k (kill_thread E u k)"
proof -
  show f: "flagged t k (kill_thread E t k)" for t
  proof -
    have "calm t k (task_clear_jobctl_pending t JOBCTL_PENDING_MASK k)" by (rule calm_jobctl)
    moreover have "flagged t k1 (signal_wake_up E t True (set_psignal (sigaddset SIGKILL) (Private t) k1))" for k1
      using flagged_wake [OF w, of t "set_psignal (sigaddset SIGKILL) (Private t) k1" True] by (simp add: flagged_def)
    ultimately show ?thesis unfolding kill_thread_def by (rule calm_flagged)
  qed
  show "heeds t k (kill_thread E u k)"
    using flagged_heeds [OF f, of u] calm_heeds [OF calm_same [OF kill_thread_other [of t u E k]]] by (cases "u = t") auto
qed

lemma heeds_exit:
  assumes w: "wakes_by_mask E"
  shows "heeds t k (start_group_exit E sig p k)"
  unfolding start_group_exit_def each_thread_def
  by (rule heeds_trans [OF calm_heeds [OF calm_misc(2)] heeds_fold [OF kill_thread_flags(2) [OF w]]])

lemma choose_calm: "choose_thread E sig p grp k = Some (u, k1) \<Longrightarrow> calm t k k1"
  by (auto simp: choose_thread_def calm_misc split: if_splits option.splits)

lemma heeds_complete:
  assumes w: "wakes_by_mask E"
  shows "heeds t k (complete_signal E sig p grp k)"
proof (cases "choose_thread E sig p grp k")
  case (Some uk)
  obtain u k1 where u: "uk = (u, k1)" by fastforce
  with Some choose_calm have c: "calm t k k1" by blast
  have "heeds t k1 (if b then start_group_exit E sig p k1 else signal_wake_up E u r k1)" for b r
    using heeds_exit [OF w] calm_heeds [OF calm_wakes(3) [OF w]] by simp
  with Some u c show ?thesis using heeds_trans [OF calm_heeds [OF c]] by (simp add: complete_signal_def)
qed (simp add: complete_signal_def)

section \<open>Sending\<close>

text \<open>A thread that is on the list of its group.\<close>

definition listed :: "nat \<Rightarrow> kstate \<Rightarrow> bool" where
  "listed t k \<longleftrightarrow> t \<in> set (s_threads (sig_of k t))"

lemma listed_skel: "skel k' = skel k \<Longrightarrow> listed t k' = listed t k"
  using skel_sel [of k' k] by (simp add: listed_def sig_of_def)

lemma listed_upd [simp]:
  "(\<And>x. t_signal (f x) = t_signal x) \<Longrightarrow> listed t (upd_task u f k) = listed t k"
  "(\<And>x. s_threads (h x) = s_threads x) \<Longrightarrow> listed t (upd_signal g h k) = listed t k"
  "listed t (upd_hand u j k) = listed t k" "listed t (ev e k) = listed t k"
  by (simp_all add: listed_def sig_of_def upd_hand_def)

lemma kill_keeps_flag:
  assumes w: "wakes_by_mask E" and f: "flagged t k k1"
  shows "flagged t k (kill_thread E u k1)"
  using kill_thread_flags(1) [OF w, of t k1] kill_thread_other [of t u E k1] f
  by (cases "u = t") (auto simp: flagged_def awake_def)

lemma kill_all_flags:
  assumes w: "wakes_by_mask E" and t: "t \<in> set ts \<or> flagged t k0 k" and a: "awake k0 t \<longrightarrow> awake k t"
  shows "flagged t k0 (fold (kill_thread E) ts k)"
  using t a
proof (induction ts arbitrary: k)
  case (Cons u ts)
  have "flagged t k0 (kill_thread E u k)" if "u = t \<or> flagged t k0 k"
    using that kill_keeps_flag [OF w, of t k0 k u] kill_thread_flags(1) [OF w, of t k] Cons.prems(2) by (auto simp: flagged_def)
  moreover have "awake k0 t \<longrightarrow> awake (kill_thread E u k) t"
    using kill_thread_flags(1) [OF w, of t k] kill_thread_other [of t u E k] Cons.prems(2)
    by (cases "u = t") (auto simp: flagged_def awake_def)
  ultimately show ?case using Cons by auto
qed simp

text \<open>The one place where a thread gets a signal of its own: it is chosen, or need not be told.\<close>

lemma private_send:
  assumes w: "wakes_by_mask E" and l: "listed t k"
  shows "heeds t k (complete_signal E sig t False (set_psignal (sigaddset sig) (Private t) k))"
proof -
  let ?k = "set_psignal (sigaddset sig) (Private t) k"
  have task: "tasks ?k t = (tasks k t)\<lparr>t_pending := (t_pending (tasks k t))\<lparr>psignal := sigaddset sig (psignal (t_pending (tasks k t)))\<rparr>\<rparr>"
    by (simp add: set_psignal_def)
  show ?thesis
  proof (cases "wants_signal E sig t ?k")
    case False
    have "told ?k t" if a: "awake k t" and o: "told k t"
    proof -
      have "sigismember (t_blocked (tasks k t)) sig \<or> exiting (tasks k t) \<or> t_tif_sigpending (tasks k t)"
        using False a by (auto simp: wants_signal_def Let_def task exiting_def awake_def signal_pending_def
            task_is_stopped_or_traced_def split: if_splits)
      then show ?thesis using o
        by (auto simp: told_def Let_def task pending_bits sigaddset_def sigismember_def bit_simps exiting_def)
    qed
    then show ?thesis using False by (simp add: heeds_def complete_signal_def choose_thread_def)
  next
    case True
    have th: "s_threads (signals ?k g) = s_threads (signals k g)" for g by (simp add: set_psignal_def)
    have "flagged t k (start_group_exit E sig t ?k)"
      unfolding start_group_exit_def each_thread_def
      by (intro kill_all_flags [OF w]) (use l in \<open>simp_all add: listed_def group_from_def sig_of_def awake_def task th task_is_stopped_or_traced_def\<close>)
    moreover have "flagged t k (signal_wake_up E t r ?k)" for r
      using flagged_wake [OF w, of t ?k r] by (simp add: flagged_def)
    ultimately show ?thesis using True by (simp add: complete_signal_def choose_thread_def flagged_heeds)
  qed
qed

lemma heeds_target:
  assumes w: "wakes_by_mask E" and l: "listed t k"
  shows "heeds t k (complete_signal E sig p grp (set_psignal (sigaddset sig) (pend_target k p grp) k))"
proof (cases "\<not> grp \<and> p = t")
  case True
  with private_send [OF w l] show ?thesis by (simp add: pend_target_def)
next
  case False
  then have "pend_target k p grp \<noteq> Private t" by (auto simp: pend_target_def)
  then have "calm t k (set_psignal (sigaddset sig) (pend_target k p grp) k)" by (intro calm_set) simp
  with heeds_complete [OF w] show ?thesis using heeds_trans calm_heeds by blast
qed

lemma calm_then_heeds: "calm t k k1 \<Longrightarrow> heeds t k1 k2 \<Longrightarrow> heeds t k k2"
  using heeds_trans calm_heeds by blast

lemma heeds_then_calm: "heeds t k k1 \<Longrightarrow> calm t k1 k2 \<Longrightarrow> heeds t k k2"
  using heeds_trans calm_heeds by blast

lemma heeds_out:
  assumes w: "wakes_by_mask E" and l: "listed t k"
  shows "heeds t k (out_set E sig p grp (pend_target k p grp) k)"
proof -
  have "listed t (ev e k)" "pend_target (ev e k) p grp = pend_target k p grp" for e
    using l by (simp_all add: listed_def sig_of_def pend_target_def)
  with heeds_target [OF w, of t "ev (Ev_Signalfd p sig) k" sig p grp]
  have "heeds t (ev (Ev_Signalfd p sig) k) (out_set E sig p grp (pend_target k p grp) k)" by (simp add: out_set_def)
  then show ?thesis by (rule calm_then_heeds [OF calm_misc(1)])
qed

lemma heeds_send_raw:
  assumes w: "wakes_by_mask E" and l: "listed t k" and r: "send_signal_raw E sig a p grp ns k = (r, k')"
  shows "heeds t k k'"
proof -
  obtain c k1 where p: "prepare_signal E sig p ns k = (c, k1)" by fastforce
  have 1: "calm t k k1" using calm_prepare [OF w, of t k sig p ns] p by simp
  have l1: "listed t k1" using listed_skel [of k1 k t] skel_prepare [of E sig p ns k] l p by simp
  let ?l = "pend_target k1 p grp"
  obtain b k2 where q: "queue_info E sig a p ?l ns k1 = (b, k2)" by fastforce
  have sk: "skel k2 = skel k1" using skel_queue [of E sig a p ?l ns k1] q by simp
  have 2: "calm t k k2" by (rule calm_trans [OF 1 calm_queue_info [OF q]])
  have l2: "listed t k2" using listed_skel [OF sk] l1 by simp
  have "pend_target k2 p grp = ?l" using skel_sel(3) [OF sk] by (simp add: pend_target_def)
  with heeds_out [OF w l2, of sig p grp] have o2: "heeds t k (out_set E sig p grp ?l k2)"
    by (intro calm_then_heeds [OF 2]) simp
  have o1: "heeds t k (out_set E sig p grp ?l k1)" by (rule calm_then_heeds [OF 1 heeds_out [OF w l1]])
  have "k' \<in> {k1, out_set E sig p grp ?l k1, k2, out_set E sig p grp ?l k2}"
    using r unfolding send_signal_raw_def p prod.case Let_def q by (cases c; cases b) (simp_all split: if_split_asm)
  with o1 o2 calm_heeds [OF 1] calm_heeds [OF 2] show ?thesis by (elim insertE emptyE) simp_all
qed

lemma heeds_send:
  assumes w: "wakes_by_mask E" and l: "listed t k"
  shows "send_signal E sig a p grp k = (r, k') \<Longrightarrow> heeds t k k'" and "do_send_sig_info E sig a p grp k = (r, k') \<Longrightarrow> heeds t k k'"
proof -
  show s: "send_signal E sig a p grp k = (r, k') \<Longrightarrow> heeds t k k'" for r k'
    unfolding send_signal_def by (rule heeds_send_raw [OF w l])
  show "do_send_sig_info E sig a p grp k = (r, k') \<Longrightarrow> heeds t k k'"
    using heeds_then_calm [OF s calm_misc(10)] by (fastforce simp: do_send_sig_info_def split: option.splits prod.splits)
qed

lemma heeds_group_send:
  assumes w: "wakes_by_mask E" and l: "listed t k"
  shows "heeds t k (wake_up_parent u p (if c then snd (group_send_sig_info_raw E sig a p k) else k))"
proof -
  have "heeds t k (snd (group_send_sig_info_raw E sig a p k))"
    unfolding group_send_sig_info_raw_def using heeds_send(1) [OF w l surjective_pairing] by simp
  then have "heeds t k (if c then snd (group_send_sig_info_raw E sig a p k) else k)" by simp
  then show ?thesis unfolding wake_up_parent_def by (rule heeds_then_calm) (rule calm_misc)
qed

lemma heeds_notify:
  assumes w: "wakes_by_mask E" and l: "listed t k"
  shows "heeds t k (snd (do_notify_parent E u sig k))" and "heeds t k (do_notify_parent_cldstop E u b why k)"
proof -
  have g: "heeds t k (wake_up_parent u p (if c then snd (group_send_sig_info_raw E sig a p k1) else k1))"
    if k: "tasks k1 = tasks k" "signals k1 = signals k" for u p c sig a k1
  proof -
    have "listed t k1" using l k by (simp add: listed_def sig_of_def)
    moreover have "calm t k k1" using k by (simp add: calm_same)
    ultimately show ?thesis using heeds_group_send [OF w] calm_then_heeds by blast
  qed
  have b: "tasks (bug_if c k1) = tasks k1" "signals (bug_if c k1) = signals k1" for c k1 by (simp_all add: bug_if_def)
  show "heeds t k (snd (do_notify_parent E u sig k))"
    unfolding do_notify_parent_def Let_def split_beta snd_conv by (rule g) (simp_all only: b)
  have "heeds t k (case x of None \<Rightarrow> ev Ev_Bug k
      | Some s \<Rightarrow> wake_up_parent u p (if c then snd (group_send_sig_info_raw E sig (a s) p k) else k))" for x u p c sig a
    using g [of k u p c sig] by (cases x) (simp_all add: calm_heeds calm_misc)
  then show "heeds t k (do_notify_parent_cldstop E u b why k)"
    unfolding do_notify_parent_cldstop_def Let_def split_beta .
qed

lemma heeds_timer:
  assumes w: "wakes_by_mask E" and l: "listed t k" and r: "send_sigqueue E q p grp k = (r, k')"
  shows "heeds t k k'"
proof -
  let ?sig = "si_signo (q_info (sqs k q))"
  let ?k0 = "if q_flags (sqs k q) AND SIGQUEUE_PREALLOC = 0 then ev Ev_Bug k else k"
  have 0: "calm t k ?k0" by (simp add: calm_misc)
  have l0: "listed t ?k0" using l by (simp add: listed_def sig_of_def)
  obtain c k1 where p: "prepare_signal E ?sig p False ?k0 = (c, k1)" by fastforce
  have 1: "calm t k k1" using calm_trans [OF 0 calm_prepare [OF w, of t ?k0 ?sig p False]] p by simp
  have l1: "listed t k1" using listed_skel [of k1 ?k0 t] skel_prepare [of E ?sig p False ?k0] l0 p by simp
  let ?k2 = "ev (Ev_Signalfd p ?sig) (set_q_info q (\<lambda>i. i\<lparr>si_overrun := 0\<rparr>) k1)"
  let ?l = "pend_target ?k2 p grp"
  have 2: "calm t k (list_add_tail q ?l ?k2)"
    by (rule calm_trans [OF calm_trans [OF calm_trans [OF 1 calm_misc(9)] calm_misc(1)] calm_add])
  have sk: "skel (list_add_tail q ?l ?k2) = skel k1" by (simp add: frame_simps)
  have "t_signal (tasks (list_add_tail q ?l ?k2) p) = t_signal (tasks ?k2 p)" by (rule skel_sel(3)) (simp add: frame_simps)
  then have "pend_target (list_add_tail q ?l ?k2) p grp = ?l" by (simp only: pend_target_def)
  with heeds_target [OF w, of t "list_add_tail q ?l ?k2" ?sig p grp] listed_skel [OF sk] l1
  have 3: "heeds t k (complete_signal E ?sig p grp (set_psignal (sigaddset ?sig) ?l (list_add_tail q ?l ?k2)))"
    by (intro calm_then_heeds [OF 2]) simp
  have 4: "calm t k (set_q_info q f (if b then ev Ev_Bug k1 else k1))" for b f
    by (rule calm_trans [OF 1]) (auto intro: calm_trans [OF calm_misc(1) calm_misc(9)] calm_misc)
  have "k' \<in> {?k0, k1, complete_signal E ?sig p grp (set_psignal (sigaddset ?sig) ?l (list_add_tail q ?l ?k2)),
      set_q_info q (\<lambda>i. i\<lparr>si_overrun := si_overrun i + 1\<rparr>) (if si_code (q_info (sqs k1 q)) \<noteq> SI_TIMER E then ev Ev_Bug k1 else k1)}"
    using r p unfolding send_sigqueue_def Let_def by (auto split: option.splits bool.splits if_splits)
  with calm_heeds [OF 0] calm_heeds [OF 1] 3 calm_heeds [OF 4] show ?thesis by (elim insertE emptyE) simp_all
qed

section \<open>Looking again\<close>

lemma calm_recalc_tsk [calm_rules]: "calm t k (snd (recalc_sigpending_tsk u k))"
  by (simp add: recalc_sigpending_tsk_def calm_fields)

lemma recalc_false: "recalc_sigpending_tsk u k = (False, k') \<Longrightarrow> k' = k \<and> told k u"
  by (auto simp: recalc_sigpending_tsk_def told_def Let_def split: if_splits)

text \<open>After \<open>recalc_sigpending\<close> the caller is told whatever was before.\<close>

lemma recalc_tells: "told (recalc_sigpending E k) (cur k)" and awake_recalc: "awake (recalc_sigpending E k) t = awake k t"
proof -
  obtain r k1 where r: "recalc_sigpending_tsk (cur k) k = (r, k1)" by fastforce
  show "told (recalc_sigpending E k) (cur k)"
  proof (cases r)
    case True
    then have "t_tif_sigpending (tasks k1 (cur k))"
      using r by (auto simp: recalc_sigpending_tsk_def set_tif_sigpending_def split: if_splits)
    then show ?thesis using r True by (simp add: recalc_sigpending_def told_def Let_def)
  next
    case False
    with r have k: "k1 = k" using recalc_false [of "cur k" k k1] by simp
    have "\<not> has_pending_signals (psignal (t_pending (tasks k (cur k)))) (t_blocked (tasks k (cur k)))"
      using r False by (auto simp: recalc_sigpending_tsk_def split: if_splits)
    then show ?thesis using r False k by (simp add: recalc_sigpending_def told_def Let_def set_tif_sigpending_def)
  qed
  show "awake (recalc_sigpending E k) t = awake k t"
    by (auto simp: recalc_sigpending_def recalc_sigpending_tsk_def awake_def task_is_stopped_or_traced_def
        set_tif_sigpending_def Let_def split: prod.splits)
qed

lemma heeds_recalc: "heeds t k (recalc_sigpending E k)"
proof (cases "t = cur k")
  case True
  then show ?thesis using recalc_tells [of E k] awake_recalc [of E k t] by (simp add: heeds_def)
next
  case False
  then have "tasks (recalc_sigpending E k) t = tasks k t"
    by (auto simp: recalc_sigpending_def recalc_sigpending_tsk_def set_tif_sigpending_def Let_def split: prod.splits)
  then show ?thesis using calm_heeds [OF calm_same] by blast
qed

lemma calm_retarget [calm_rules]:
  assumes w: "wakes_by_mask E"
  shows "calm t k (retarget_walk E ts r k)" and "calm t k (retarget_shared_pending E u m k)"
proof -
  show r: "calm t k (retarget_walk E ts r k)" for ts r k
  proof (induction ts arbitrary: r k)
    case (Cons u ts)
    have "calm t k (retarget_walk E ts r' (signal_wake_up E u b k))" for r' b
      by (rule calm_trans [OF calm_wakes(3) [OF w] Cons.IH])
    with Cons.IH show ?case by (simp add: Let_def calm_wakes [OF w])
  qed simp
  show "calm t k (retarget_shared_pending E u m k)"
    by (simp add: retarget_shared_pending_def Let_def r)
qed

lemma heeds_block:
  assumes w: "wakes_by_mask E" and b: "u = t \<Longrightarrow> t = cur k \<or> m = t_blocked (tasks k t)"
  shows "heeds t k (set_task_blocked_raw E u m k)"
proof -
  define k1 where "k1 = (if signal_pending (tasks k u) \<and> \<not> thread_group_empty k u
    then retarget_shared_pending E u (m AND NOT (t_blocked (tasks k (cur k)))) k else k)"
  define k2 where "k2 = upd_task u (\<lambda>k. k\<lparr>t_blocked := m\<rparr>) k1"
  have c: "calm t k k1" by (simp add: k1_def calm_retarget [OF w])
  have sk: "skel k1 = skel k" by (simp add: k1_def frame_simps)
  have e: "set_task_blocked_raw E u m k = recalc_sigpending E k2" by (simp add: set_task_blocked_raw_def Let_def k1_def k2_def)
  show ?thesis
  proof (cases "t = cur k")
    case True
    then have "told (recalc_sigpending E k2) t" using recalc_tells [of E k2] skel_sel(2) [OF sk] by (simp add: k2_def)
    moreover have "awake k t \<longrightarrow> awake k1 t" using c by (auto simp: calm_def awake_def Let_def)
    moreover have "awake k2 t = awake k1 t" by (simp add: k2_def awake_def task_is_stopped_or_traced_def)
    ultimately show ?thesis by (simp add: e heeds_def awake_recalc)
  next
    case False
    have "t_blocked (tasks k1 t) = t_blocked (tasks k t)" by (rule skel_sel(5) [OF sk])
    then have "calm t k1 k2" using b False by (cases "u = t") (simp_all add: calm_same k2_def)
    with c have "calm t k k2" by (rule calm_trans)
    then show ?thesis unfolding e by (rule calm_then_heeds [OF _ heeds_recalc])
  qed
qed

lemma calm_collect_raw: "t_notifier (tasks k (cur k)) = None \<Longrightarrow> dequeue_signal_raw l m info k = (s, i, k') \<Longrightarrow> calm t k k'"
  using calm_collect [where t = t and sig = "next_signal (pending_at k l) m" and l = l and info = info and k = k]
  by (auto simp: dequeue_signal_raw_def Let_def split: if_splits prod.splits)

lemma heeds_dequeue:
  assumes q: "queues_ok k" and n: "t_notifier (tasks k (cur k)) = None" and d: "dequeue_signal E u m info k = (s, i, k')"
  shows "heeds t k k'"
proof -
  obtain s1 i1 k1 where r1: "dequeue_signal_raw (Private u) m info k = (s1, i1, k1)" by (metis prod_cases3)
  obtain s2 i2 k2 where r2: "dequeue_signal_raw (Shared (t_signal (tasks k1 u))) m i1 k1 = (s2, i2, k2)" by (metis prod_cases3)
  define k3 where "k3 = (if s1 \<noteq> 0 then k1
    else if s2 = SIGALRM \<and> \<not> s_timer_queued (signals k2 (t_signal (tasks k1 u))) \<and> s_it_real_incr (signals k2 (t_signal (tasks k1 u))) \<noteq> 0
    then ev (Ev_Hrtimer_Restart (t_signal (tasks k1 u))) (upd_signal (t_signal (tasks k1 u)) (\<lambda>s. s\<lparr>s_timer_queued := True\<rparr>) k2) else k2)"
  have 1: "calm t k k1" by (rule calm_collect_raw [OF n r1])
  have "calm t k k2" if "s1 = 0" using dequeue_raw_taken(4) [OF q n r1 that] calm_collect_raw n r2 by blast
  moreover have "calm t k2 (ev e (upd_signal g f k2))" for e g f by (simp add: calm_same)
  ultimately have 3: "calm t k k3" using 1 calm_trans unfolding k3_def by auto
  have c: "calm t k4 (if b then upd_task v (\<lambda>x. x\<lparr>t_jobctl := j x\<rparr>) k4 else k4)" for b v j k4 by (simp add: calm_fields)
  have "calm t k4 (let k5 = (if b then upd_task v (\<lambda>x. x\<lparr>t_jobctl := j x\<rparr>) k4 else k4) in if b' then ev e k5 else k5)" for b v j k4 b' e
    using c calm_trans [OF c calm_misc(1)] by (cases b') (simp_all add: Let_def split del: if_split)
  then have "calm t (recalc_sigpending E k3) k'"
    using d unfolding dequeue_signal_def r1 r2 prod.case Let_def k3_def
    by (cases "s1 = 0"; cases "s2 = 0") (auto split del: if_split)
  then show ?thesis using calm_then_heeds [OF 3 heeds_recalc] heeds_then_calm by blast
qed

section \<open>The other operations\<close>

lemma heeds_force:
  assumes w: "wakes_by_mask E" and l: "listed t k" and r: "force_sig_info E sig a u k = (r, k')"
  shows "heeds t k k'"
proof -
  define k1 where "k1 = (if sigismember (t_blocked (tasks k u)) sig \<or> sig_handler k u sig = SIG_IGN
    then let k = set_handler u sig SIG_DFL k in
         if sigismember (t_blocked (tasks k u)) sig
         then recalc_sigpending_and_wake E u (upd_task u (\<lambda>x. x\<lparr>t_blocked := sigdelset sig (t_blocked x)\<rparr>) k)
         else k
    else k)"
  define k2 where "k2 = (if sig_handler k1 u sig = SIG_DFL
    then upd_signal (t_signal (tasks k1 u)) (\<lambda>s. s\<lparr>s_flags := s_flags s AND NOT SIGNAL_UNKILLABLE\<rparr>) k1 else k1)"
  have h: "calm t k (set_handler u sig SIG_DFL k)" by (simp add: set_handler_def calm_misc)
  have u: "heeds t k (recalc_sigpending_and_wake E u (upd_task u (\<lambda>x. x\<lparr>t_blocked := b x\<rparr>) k))" for b k
  proof -
    let ?k = "upd_task u (\<lambda>x. x\<lparr>t_blocked := b x\<rparr>) k"
    have aw: "awake ?k t = awake k t" by (simp add: awake_def task_is_stopped_or_traced_def)
    obtain r k1 where r: "recalc_sigpending_tsk u ?k = (r, k1)" by fastforce
    have c1: "calm t ?k k1" using calm_recalc_tsk [where t = t and u = u and k = ?k] r by simp
    show ?thesis
    proof (cases "u = t")
      case False
      then have "calm t k ?k" by (simp add: calm_same)
      moreover have "calm t ?k (recalc_sigpending_and_wake E u ?k)"
        using c1 calm_trans [OF c1 calm_wakes(3) [OF w]] by (simp add: recalc_sigpending_and_wake_def r split: bool.splits)
      ultimately show ?thesis using calm_trans calm_heeds by blast
    next
      case True
      show ?thesis
      proof (cases r)
        case True
        with r \<open>u = t\<close> calm_flagged [OF c1 flagged_wake [OF w]] have "flagged t ?k (recalc_sigpending_and_wake E u ?k)"
          by (simp add: recalc_sigpending_and_wake_def)
        then show ?thesis using aw by (auto simp: flagged_def heeds_def told_def Let_def)
      next
        case False
        then show ?thesis using r recalc_false [of u ?k k1] aw \<open>u = t\<close>
          by (simp add: recalc_sigpending_and_wake_def heeds_def)
      qed
    qed
  qed
  have "heeds t k k1" using h u calm_then_heeds [OF h u] by (simp add: k1_def Let_def calm_heeds)
  then have 2: "heeds t k k2" using heeds_then_calm [OF _ calm_misc(2)] by (simp add: k2_def)
  have "listed t (recalc_sigpending_and_wake E u k) = listed t k" for k
    by (rule listed_skel) (simp add: recalc_sigpending_and_wake_def recalc_sigpending_tsk_def frame_simps)
  then have sk: "listed t k2 = listed t k" by (simp add: k2_def k1_def set_handler_def Let_def)
  have b: "t_blocked (tasks (set_handler u sig SIG_DFL k) u) = t_blocked (tasks k u)"
    by (simp add: set_handler_def upd_hand_def)
  have s: "send_signal E sig a u False k2 = (r, k')"
    using r by (simp only: force_sig_info_def Let_def specific_send_sig_info_def k1_def k2_def b)
  from 2 heeds_send(1) [OF w _ s] sk l show ?thesis using heeds_trans by blast
qed

lemma heeds_zap: "wakes_by_mask E \<Longrightarrow> zap_other_threads E u k = (n, k') \<Longrightarrow> heeds t k k'"
proof -
  assume w: "wakes_by_mask E"
  have z: "heeds t k (snd (fold (zap_thread E) ts (n, k)))" for ts n k
  proof (induction ts arbitrary: n k)
    case (Cons u ts)
    have c: "heeds t k (if t_exit_state (tasks (task_clear_jobctl_pending u JOBCTL_PENDING_MASK k) u) \<noteq> 0
        then task_clear_jobctl_pending u JOBCTL_PENDING_MASK k else kill_thread E u k)"
      by (simp add: calm_heeds [OF calm_jobctl(3)] kill_thread_flags(2) [OF w])
    have "zap_thread E u (n, k) = (n + 1, if t_exit_state (tasks (task_clear_jobctl_pending u JOBCTL_PENDING_MASK k) u) \<noteq> 0
        then task_clear_jobctl_pending u JOBCTL_PENDING_MASK k else kill_thread E u k)"
      by (simp add: zap_thread_def Let_def kill_thread_def)
    then show ?case using heeds_trans [OF c Cons.IH] by simp
  qed simp
  show "zap_other_threads E u k = (n, k') \<Longrightarrow> heeds t k k'"
    using calm_then_heeds [OF calm_misc(2) z] by (metis zap_other_threads_def snd_conv)
qed

lemma heeds_leave:
  assumes w: "wakes_by_mask E" and l: "listed t k"
  shows "heeds t k (exit_signals E u k)"
proof -
  obtain b k1 where e: "exit_signals_locked E u k = (b, k1)" by fastforce
  define k0 where "k0 = upd_task u (\<lambda>k. k\<lparr>t_flags := t_flags k OR PF_EXITING\<rparr>) k"
  define k2 where "k2 = retarget_shared_pending E u (NOT (t_blocked (tasks k0 u))) k0"
  have k1: "k1 \<in> {k0, k2, snd (task_participate_group_stop u k2)}"
    using e unfolding exit_signals_locked_def Let_def k0_def [symmetric] k2_def [symmetric]
    by (simp split: if_split_asm)
  have 0: "calm t k k0" unfolding k0_def by (rule calm_fields(3))
  have 2: "calm t k k2" unfolding k2_def by (rule calm_trans [OF 0 calm_retarget(2) [OF w]])
  have 1: "calm t k k1" using k1 0 2 calm_trans [OF 2 calm_jobctl(4)] by (elim insertE emptyE) simp_all
  have l0: "listed t k0" using l by (simp add: k0_def)
  have "listed t k2" unfolding k2_def using listed_skel [of "retarget_shared_pending E u m k0" k0 t for m] l0 by (simp add: frame_simps)
  moreover have "listed t (snd (task_participate_group_stop u k2)) = listed t k2"
    by (rule listed_skel) (simp add: task_participate_group_stop_def Let_def skel_upd_signal frame_simps)
  ultimately have "listed t k1" using k1 l0 by (elim insertE emptyE) simp_all
  then have "heeds t k1 (do_notify_parent_cldstop E u False CLD_STOPPED k1)" by (rule heeds_notify(2) [OF w])
  then show ?thesis using calm_then_heeds [OF 1] calm_heeds [OF 1] by (simp add: exit_signals_def e)
qed

lemma heeds_initiate: "wakes_by_mask E \<Longrightarrow> initiate_stop E sig k = (r, k') \<Longrightarrow> calm t k k'"
proof -
  assume w: "wakes_by_mask E"
  have a: "calm t k (ask_to_stop E m g u k)" for m g u k
  proof (cases "task_set_jobctl_pending u m k")
    case (Pair b k1)
    with calm_jobctl(1) [of t k u m] have c: "calm t k k1" by simp
    have s: "calm t k (upd_signal g f k1)" for f by (rule calm_trans [OF c calm_misc(2)])
    show ?thesis using Pair c calm_trans [OF s calm_wakes(3) [OF w]] calm_trans [OF s calm_trap [OF w]]
      by (simp add: ask_to_stop_def Let_def split: bool.splits)
  qed
  assume i: "initiate_stop E sig k = (r, k')"
  define k1 where "k1 = (if sig AND NOT 0xffff \<noteq> 0 then ev Ev_Warn k else k)"
  have 1: "calm t k k1" by (simp add: k1_def calm_misc)
  have m: "calm t k2 (case task_set_jobctl_pending u m k2 of (b, k) \<Rightarrow> if b then upd_signal g f k else k)" for u m g f k2
    using calm_jobctl(1) [of t k2 u m] calm_trans [OF calm_jobctl(1) calm_misc(2)] by (simp add: split_beta)
  have "calm t k1 (fold (ask_to_stop E m g) us (case task_set_jobctl_pending u m (upd_signal g f k2) of
      (b, k) \<Rightarrow> if b then upd_signal g j k else k))" if "calm t k1 k2" for m g us u f j k2
    by (rule calm_trans [OF calm_trans [OF calm_trans [OF that calm_misc(2)] m] calm_fold [OF a]])
  note go = this
  define k2 where "k2 = (if s_flags (signals k1 (t_signal (tasks k (cur k)))) AND SIGNAL_STOP_STOPPED = 0
    then upd_signal (t_signal (tasks k (cur k))) (\<lambda>s. s\<lparr>s_group_exit_code := sig\<rparr>) k1 else k1)"
  have "calm t k1 k2" by (simp add: k2_def calm_misc)
  from go [OF this] have "calm t k1 k'"
    using i unfolding initiate_stop_def Let_def k1_def [symmetric] k2_def [symmetric] by (simp split: if_split_asm) blast+
  with 1 show "calm t k k'" by (rule calm_trans)
qed

lemma calm_sigaction: "do_sigaction sig act oact k = (r, old, k') \<Longrightarrow> calm t k k'"
proof -
  have d: "calm t k (discard_ignored s k)" for s k
    unfolding discard_ignored_def Let_def by (rule calm_trans [OF calm_removes(2) calm_fold [OF calm_removes(2)]])
  show "do_sigaction sig act oact k = (r, old, k') \<Longrightarrow> calm t k k'"
    using d calm_trans [OF calm_misc(4) d]
    by (auto simp: do_sigaction_def Let_def calm_misc split: if_splits option.splits)
qed

text \<open>Flushing: nothing is left to be told about.\<close>

lemma calm_flush_sigqueue [calm_rules]: "calm t k (flush_sigqueue l k)"
proof -
  have "calm t (set_psignal (\<lambda>_. 0) l k) (flush_sigqueue l k)"
    unfolding flush_sigqueue_def Let_def by (rule calm_fold [OF calm_drop])
  moreover have "calm t k (set_psignal (\<lambda>_. 0) l k)" by (rule calm_set) simp
  ultimately show ?thesis using calm_trans by blast
qed

lemma heeds_flush: "heeds t k (flush_signals u k)"
proof (cases "u = t")
  case False
  then have "calm t k (set_tif_sigpending False u k)" by (simp add: calm_same set_tif_sigpending_def)
  then show ?thesis unfolding flush_signals_def flush_signals_raw_def
    by (intro calm_heeds) (rule calm_trans [OF calm_trans [OF _ calm_flush_sigqueue] calm_flush_sigqueue])
next
  case True
  let ?k = "set_tif_sigpending False t k"
  let ?k1 = "set_psignal (\<lambda>_. 0) (Private t) ?k"
  let ?k2 = "flush_sigqueue (Private t) ?k"
  have "calm t ?k1 ?k2" unfolding flush_sigqueue_def Let_def by (rule calm_fold [OF calm_drop])
  then have "calm t ?k1 (flush_signals t k)"
    unfolding flush_signals_def flush_signals_raw_def by (rule calm_trans [OF _ calm_flush_sigqueue])
  then have "heeds t ?k1 (flush_signals t k)" by (rule calm_heeds)
  moreover have "told ?k1 t" by (simp add: told_def set_psignal_def pending_bits Let_def)
  moreover have "awake ?k1 t = awake k t" by (simp add: set_tif_sigpending_def) (simp add: awake_def task_is_stopped_or_traced_def)
  ultimately show ?thesis using True by (simp add: heeds_def)
qed

lemma calm_itimer_walk:
  assumes "fold (flush_itimer_entry E l) qs (s, r, k) = (s', r', k')"
  shows "calm t k k' \<and> psignal (pending_at k' m) = psignal (pending_at k m) \<and> (\<forall>q. si_signo (q_info (sqs k' q)) = si_signo (q_info (sqs k q))) \<and>
    (\<forall>n. bit s' n \<longrightarrow> bit s n) \<and> (\<forall>n. bit r' n \<longrightarrow> bit r n \<or> (\<exists>q \<in> set qs. n = sigidx (si_signo (q_info (sqs k q)))))"
  using assms
proof (induction qs arbitrary: s r k)
  case (Cons q qs)
  let ?i = "q_info (sqs k q)"
  obtain s1 r1 k1 where e: "flush_itimer_entry E l q (s, r, k) = (s1, r1, k1)" by (metis prod_cases3)
  have f: "calm t k k1" "psignal (pending_at k1 m) = psignal (pending_at k m)" "\<forall>q. si_signo (q_info (sqs k1 q)) = si_signo (q_info (sqs k q))"
    "\<forall>n. bit s1 n \<longrightarrow> bit s n" "\<forall>n. bit r1 n \<longrightarrow> bit r n \<or> n = sigidx (si_signo ?i)"
  proof -
    have d: "pend_frame k (drop_entry l q k)" by (rule pend_frame_drop)
    have "si_signo (q_info (sqs (drop_entry l q k) p)) = si_signo (q_info (sqs k p))" for p
      using pend_frame_more(5) [OF d, of p] by simp
    then show "calm t k k1" "psignal (pending_at k1 m) = psignal (pending_at k m)" "\<forall>q. si_signo (q_info (sqs k1 q)) = si_signo (q_info (sqs k q))"
      using e by (auto simp: flush_itimer_entry_def Let_def calm_drop pending_at_drop split: if_splits simp del: pending_at.simps)
    show "\<forall>n. bit s1 n \<longrightarrow> bit s n" "\<forall>n. bit r1 n \<longrightarrow> bit r n \<or> n = sigidx (si_signo ?i)"
      using e by (auto simp: flush_itimer_entry_def Let_def sigdelset_def sigaddset_def bit_simps split: if_splits)
  qed
  from Cons.IH [of s1 r1 k1] Cons.prems e
  have g: "calm t k1 k' \<and> psignal (pending_at k' m) = psignal (pending_at k1 m) \<and> (\<forall>q. si_signo (q_info (sqs k' q)) = si_signo (q_info (sqs k1 q))) \<and>
    (\<forall>n. bit s' n \<longrightarrow> bit s1 n) \<and> (\<forall>n. bit r' n \<longrightarrow> bit r1 n \<or> (\<exists>q \<in> set qs. n = sigidx (si_signo (q_info (sqs k1 q)))))" by simp
  then show ?case using f calm_trans [OF f(1)] by (auto dest: spec)
qed simp

lemma calm_itimers:
  assumes q: "queues_ok k"
  shows "calm t k (flush_itimer_signals E k)"
proof -
  have one: "calm t k (flush_itimer_signals_raw E l k)" if q: "l = Private t \<Longrightarrow> pend_ok k l" for l k
  proof -
    obtain s r k1 where f: "fold (flush_itimer_entry E l) (plist (pending_at k l)) (psignal (pending_at k l), 0, k) = (s, r, k1)"
      by (metis prod_cases3)
    note w = calm_itimer_walk [OF f, of t l]
    have "calm t k1 (set_psignal (\<lambda>_. s OR r) l k1)"
    proof (cases "l = Private t")
      case True
      with q have "bit r n \<longrightarrow> bit (psignal (pending_at k l)) n" for n
        using w by (auto simp: pend_ok_def sigismember_def simp del: pending_at.simps)
      then show ?thesis using w
        by (intro calm_frame [OF pend_frame_set]) (auto simp: pending_at_set bit_simps split: if_splits simp del: pending_at.simps)
    qed (simp add: calm_set)
    with w show ?thesis unfolding flush_itimer_signals_raw_def Let_def f prod.case using calm_trans by blast
  qed
  have "calm t k (flush_itimer_signals_raw E (Private (cur k)) k)" by (rule one) (use q in \<open>simp add: queues_ok_def\<close>)
  then show ?thesis unfolding flush_itimer_signals_def by (rule calm_trans) (rule one, simp)
qed

lemma calm_init: "init_sigcounter P pid k = Inr (r, k') \<Longrightarrow> calm t k k'"
proof -
  have "calm t k (store_counter h v i k)" for h v i k by (simp add: store_counter_def calm_same)
  then show "init_sigcounter P pid k = Inr (r, k') \<Longrightarrow> calm t k k'"
    by (auto simp: init_sigcounter_def intro: calm_fold split: option.splits)
qed

lemma calm_altstack: "do_sigaltstack uss uoss sp k = (r, old, k') \<Longrightarrow> calm t k k'"
  by (auto simp: do_sigaltstack_def Let_def calm_fields split: option.splits if_splits prod.splits)

lemma heeds_procmask:
  assumes w: "wakes_by_mask E" and r: "sys_rt_sigprocmask E how nset oset sz k = (r, out, k')"
  shows "heeds t k k'"
proof (cases "sz = 8")
  case True
  have "heeds t k (set_current_blocked E m k)" for m
    unfolding set_current_blocked_def by (rule heeds_block [OF w]) simp
  with r True show ?thesis by (auto simp: sys_rt_sigprocmask_eq split: option.splits)
qed (use r in \<open>simp add: sys_rt_sigprocmask_def\<close>)

text \<open>\<open>smunch\<close> tells its target unless SIGKILL is in the pattern: then it only sets the bit and wakes.\<close>

definition silent_kill :: "pidenv \<Rightarrow> int \<Rightarrow> u64 \<Rightarrow> nat \<Rightarrow> kstate \<Rightarrow> bool" where
  "silent_kill P pid b t k \<longleftrightarrow> has_sigkill b \<and> find_task P pid = Some t \<and> \<not> zombie_or_dead (tasks k t)"

lemma heeds_smunch:
  assumes w: "wakes_by_mask E" and r: "smunch E P pid b k = (r, k')" and b: "\<not> silent_kill P pid b t k"
  shows "heeds t k k'"
proof -
  have o: "calm t k (set_psignal f (Private u) k)" if "u \<noteq> t" for u f using that by (intro calm_set) simp
  have "heeds t k (signal_wake_up E u False (set_psignal f (Private u) k))" for u f
  proof (cases "u = t")
    case True
    then show ?thesis using flagged_wake [OF w, of t "set_psignal f (Private t) k" False]
      by (intro flagged_heeds) (simp add: flagged_def)
  next
    case False
    with o calm_wakes(3) [OF w] show ?thesis using calm_trans calm_heeds by blast
  qed
  moreover have "heeds t k (wake_up_process E u (set_psignal f (Private u) k))" if "u \<noteq> t" for u f
    using o [OF that] calm_wakes(5) [OF w] calm_trans calm_heeds by blast
  moreover have "heeds t k (ev e k)" for e by (rule calm_heeds) (rule calm_misc)
  ultimately show ?thesis using r b unfolding smunch_def silent_kill_def
    by (auto split: option.splits if_splits) metis
qed

section \<open>No lost wake-ups\<close>

lemma blocked_recalc [simp]: "t_blocked (tasks (recalc_sigpending E k) t) = t_blocked (tasks k t)"
  by (auto simp: recalc_sigpending_def recalc_sigpending_tsk_def set_tif_sigpending_def Let_def split: prod.splits)

lemma heeds_sleep:
  fixes k :: kstate and u m rb
  defines "k0 \<equiv> upd_task u (\<lambda>x. x\<lparr>t_real_blocked := rb x, t_blocked := t_blocked x AND m\<rparr>) k"
  assumes b: "u = t \<Longrightarrow> t = cur k \<or> t_blocked (tasks (recalc_sigpending E k0) t) = t_blocked (tasks k t)"
  shows "heeds t k (recalc_sigpending E k0)"
proof (cases "u = t \<and> t = cur k")
  case True
  then have "awake k0 t = awake k t" by (simp add: k0_def awake_def task_is_stopped_or_traced_def)
  then show ?thesis using recalc_tells [of E k0] True by (simp add: heeds_def awake_recalc k0_def)
next
  case False
  then have "calm t k k0"
    using b by (cases "u = t") (auto simp: k0_def calm_same calm_def exiting_def task_is_stopped_or_traced_def Let_def)
  then show ?thesis by (rule calm_then_heeds [OF _ heeds_recalc])
qed

lemma told_step:
  assumes s: "sig_step E k k'" and w: "wakes_by_mask E" and i: "sig_inv k" and l: "listed t k" and a: "awake k t" and o: "told k t"
    and b: "t = cur k \<or> t_blocked (tasks k' t) = t_blocked (tasks k t)"
  shows "told k' t \<or> (\<exists>P pid b r. smunch E P pid b k = (r, k') \<and> silent_kill P pid b t k)"
proof -
  have h: "told k' t" if "heeds t k k'" using that a o by (simp add: heeds_def)
  have q: "queues_ok k" "t_notifier (tasks k (cur k)) = None" using i by (simp_all add: sig_inv_def)
  from s show ?thesis
  proof cases
    case (send sig a p grp r)
    then show ?thesis using h heeds_send(2) [OF w l] by blast
  next
    case (take msk info sig i)
    then show ?thesis using h heeds_dequeue [OF q] by blast
  next
    case (procmask how nset oset sz r out)
    then show ?thesis using h heeds_procmask [OF w] by blast
  next
    case (sigaction sig act oact r old)
    then show ?thesis using h calm_heeds [OF calm_sigaction] by blast
  next
    case (smunch P pid b r)
    then show ?thesis using h heeds_smunch [OF w] by blast
  next
    case (init P pid r)
    then show ?thesis using h calm_heeds [OF calm_init] by blast
  next
    case (retarget u m)
    then show ?thesis using h calm_heeds [OF calm_retarget(2) [OF w]] by blast
  next
    case (wake u r)
    then show ?thesis using h calm_heeds [OF calm_wakes(3) [OF w]] by blast
  next
    case (block m u)
    have "t_blocked (tasks k' u) = m" by (simp add: block set_task_blocked_raw_def Let_def)
    with b block have "u = t \<Longrightarrow> t = cur k \<or> m = t_blocked (tasks k t)" by auto
    then have "heeds t k k'" unfolding block by (rule heeds_block [OF w])
    with h show ?thesis by simp
  next
    case (sleep_open u m)
    have "heeds t k k'" unfolding sleep_open by (rule heeds_sleep) (use b in \<open>simp only: sleep_open\<close>)
    with h show ?thesis by simp
  next
    case (run_state u st)
    then have "told k' t = told k t" by (auto simp: told_def exiting_def Let_def)
    with o show ?thesis by simp
  next
    case (altstack uss uoss sp r old)
    then show ?thesis using h calm_heeds [OF calm_altstack] by blast
  next
    case (sleep_done u)
    then show ?thesis using h calm_heeds [OF calm_fields(4), of t k u "\<lambda>_. 0"] by simp
  next
    case (restore_later u b)
    then show ?thesis using h calm_heeds [OF calm_fields(6), of t k u b] by simp
  qed (use h in \<open>auto intro: calm_heeds calm_fields calm_misc\<close>)
qed

lemma told_kernel_step:
  assumes s: "kernel_step E k k'" and w: "wakes_by_mask E" and i: "sig_inv k" and l: "listed t k" and a: "awake k t" and o: "told k t"
    and b: "t = cur k \<or> t_blocked (tasks k' t) = t_blocked (tasks k t)"
  shows "told k' t \<or> (\<exists>P pid b r. smunch E P pid b k = (r, k') \<and> silent_kill P pid b t k)"
proof -
  have h: "told k' t" if "heeds t k k'" using that a o by (simp add: heeds_def)
  have q: "queues_ok k" using i by (simp add: sig_inv_def)
  from s show ?thesis
  proof cases
    case signal
    then show ?thesis by (rule told_step [OF _ w i l a o b])
  next
    case (timer_alloc r)
    obtain x k1 where al: "sigqueue_alloc_raw E (-1) (cur k) False k = (x, k1)" by fastforce
    have c: "calm t k k1" using calm_alloc [of t k E "-1" "cur k" False] al by simp
    have "calm t k k'" using timer_alloc al c calm_trans [OF c calm_misc(5)] by (auto simp: sigqueue_alloc_def split: option.splits)
    with h calm_heeds show ?thesis by blast
  next
    case (timer_send q u grp r)
    then show ?thesis using h heeds_timer [OF w l] by blast
  next
    case (timer_free q)
    then show ?thesis using h calm_heeds [OF calm_same, of k' t k] by (auto simp: sigqueue_free_def sigqueue_free_raw_def Let_def)
  next
    case (flush u)
    then show ?thesis using h heeds_flush by blast
  next
    case flush_itimers
    then show ?thesis using h calm_heeds [OF calm_itimers [OF q]] by blast
  next
    case (ignore_all u)
    then show ?thesis using h calm_then_heeds [OF calm_misc(4) heeds_flush] by (simp add: ignore_signals_def)
  next
    case (default_all u b)
    then show ?thesis using h calm_heeds [OF calm_misc(4)] by (simp add: flush_signal_handlers_def)
  next
    case (force sig a u r)
    then show ?thesis using h heeds_force [OF w l] by blast
  next
    case (tell_parent u sig r)
    then show ?thesis using h heeds_notify(1) [OF w l, of u sig] by simp
  next
    case (tell_stop u b why)
    then show ?thesis using h heeds_notify(2) [OF w l] by blast
  next
    case (start_stop sig r)
    then show ?thesis using h calm_heeds [OF heeds_initiate [OF w]] by blast
  next
    case (join_stop u r)
    then show ?thesis using h calm_heeds [OF calm_jobctl(4) [of t k u]] by simp
  next
    case (leave u)
    then show ?thesis using h heeds_leave [OF w l] by blast
  next
    case (zap u n)
    then show ?thesis using h heeds_zap [OF w] by blast
  next
    case (jobctl u j)
    then show ?thesis using h calm_heeds [OF calm_fields(1)] by blast
  qed
qed

text \<open>A signal nobody can block, put into the queue of a thread without telling it.\<close>

lemma silent_kill_untold:
  assumes r: "smunch E P pid b k = (0, k')" and s: "silent_kill P pid b t k" and i: "sig_inv k"
    and t: "\<not> t_tif_sigpending (tasks k t)" "\<not> exiting (tasks k t)"
  shows "\<not> told k' t"
proof -
  have k': "k' = wake_up_process E t (set_psignal (sigaddset SIGKILL) (Private t) k)"
    using r s by (auto simp: smunch_def silent_kill_def split: option.splits if_splits)
  have "\<not> sigismember (t_blocked (tasks k t)) SIGKILL" using i by (simp add: sig_inv_def mask_ok_def)
  then have "\<not> bit (t_blocked (tasks k t)) 8" by (simp add: sigismember_def sigidx_def)
  then have "has_pending_signals (sigaddset SIGKILL (psignal (t_pending (tasks k t)))) (t_blocked (tasks k t))"
    unfolding pending_bits by (intro exI [of _ 8]) (simp add: sigaddset_def sigidx_def bit_simps)
  with t show ?thesis
    by (auto simp: k' told_def wake_up_process_def wake_up_state_def set_psignal_def exiting_def Let_def split: prod.splits)
qed

end
