(* ===== verification/Account_Properties.thy ===== *)
theory Account_Properties
  imports Delivery_Properties Sig_Told
begin

text \<open>
  What holds of the pending queues over any run of \<open>signal.c\<close>: the count of pending signals of
  each user is exact, nothing in a queue is overtaken, and no thread misses a signal of its own except
  through \<open>smunch\<close>.
\<close>

text \<open>C22: whatever operations run, in any order and by any threads, \<open>user->sigpending\<close> of every user stays
  the number of queue elements charged to that user: those that wait on a queue and those that belong to a
  timer. So every element allocated is given back exactly once.\<close>

theorem queue_accounting:
  assumes "kernel_run E k k'" and "store_ok k" and "\<forall>u. user_sigpending k u = int (card (charged k u))"
  shows "store_ok k' \<and> (\<forall>u. user_sigpending k' u = int (card (charged k' u)))"
  using exact_run [OF assms(1)] assms(2,3) by (simp add: exact_def)

lemma smp_exact: "store_ok smp_state" "charged smp_state u = {}"
  by (simp_all add: store_ok_def charged_def in_use_def prealloc_def) (simp_all add: smp_defs)

theorem queue_accounting_witness:
  "let k1 = snd (sigqueue_alloc smp_env smp_state);
       k2 = snd (do_send_sig_info smp_env SIGUSR1 SEND_SIG_NOINFO 2 True (sigqueue_free 0 k1))
   in user_sigpending k1 1000 = 1 \<and> (\<forall>u. user_sigpending k2 u = int (card (charged k2 u)))"
proof -
  obtain r1 k1 where a: "sigqueue_alloc smp_env smp_state = (r1, k1)" by fastforce
  obtain r2 k2 where s: "do_send_sig_info smp_env SIGUSR1 SEND_SIG_NOINFO 2 True (sigqueue_free 0 k1) = (r2, k2)" by fastforce
  have c: "user_sigpending k1 1000 = 1" "prealloc (sqs k1 0)"
    using a by (auto simp: sigqueue_alloc_def sigqueue_alloc_raw_def smp_defs smp_env_def sig_of_def prealloc_def SIGQUEUE_PREALLOC_def)
  have "kernel_run smp_env smp_state k1" by (rule kernel_run.step [OF kernel_run.start kernel_step.timer_alloc [OF a]])
  then have "kernel_run smp_env smp_state (sigqueue_free 0 k1)" by (rule kernel_run.step [OF _ kernel_step.timer_free [OF c(2)]])
  moreover have "sig_step smp_env (sigqueue_free 0 k1) k2"
    by (rule sig_step.send [OF _ _ s]) (simp_all add: arg_ok_def)
  ultimately have "kernel_run smp_env smp_state k2" using kernel_run.step kernel_step.signal by blast
  from queue_accounting [OF this smp_exact(1)] have "\<forall>u. user_sigpending k2 u = int (card (charged k2 u))"
    by (simp add: smp_exact(2)) (simp add: smp_defs)
  with c(1) show ?thesis using a s by (simp add: Let_def)
qed

text \<open>C24: over any run, a queue keeps the elements it has in their order, loses some of them, and gets new
  ones only behind them; an element that is not a timer's never comes back after it has left.\<close>

theorem no_overtaking:
  assumes "kernel_run E k k'" and "store_ok k"
  shows "\<exists>old new. plist (pending_at k' l) = old @ new \<and> subseq old (plist (pending_at k l)) \<and> (\<forall>q \<in> set new. \<not> settled k q)"
  using order_run [OF assms] by (simp add: keeps_order_def)

text \<open>A queue with two records.\<close>

definition smp_queue :: kstate where
  "smp_queue = upd_pending (Shared 5) (\<lambda>_. \<lparr>plist = [1, 2], psignal = sigaddset 40 0\<rparr>)
     (smp_state\<lparr>next_sq := 3, sqs := (\<lambda>q. \<lparr>q_flags = 0, q_info = zero_siginfo\<lparr>si_signo := 40\<rparr>, q_user = 0, q_linked = (q = 1 \<or> q = 2)\<rparr>)\<rparr>)"

lemma smp_queue_ok: "store_ok smp_queue" "plist (pending_at smp_queue (Shared 5)) = [1, 2]"
    "settled smp_queue q \<longleftrightarrow> q < 3" "cur smp_queue = 5"
proof -
  have p: "plist (pending_at smp_queue m) = (if m = Shared 5 then [1, 2] else [])" for m
    unfolding smp_queue_def by (simp only: upd_pending_sel) (cases m; simp add: smp_defs)
  have f: "next_sq smp_queue = 3" "q_linked (sqs smp_queue q) \<longleftrightarrow> q = 1 \<or> q = 2" "q_flags (sqs smp_queue q) = 0" for q
    by (simp_all add: smp_queue_def)
  show "store_ok smp_queue" by (auto simp: store_ok_def p f in_use_def prealloc_def split: if_splits)
  show "plist (pending_at smp_queue (Shared 5)) = [1, 2]" using p [of "Shared 5"] by simp
  show "settled smp_queue q \<longleftrightarrow> q < 3" by (simp add: f settled_def prealloc_def)
  show "cur smp_queue = 5" by (simp add: smp_queue_def)
qed

theorem no_overtaking_witness:
  "let (sig, i, k1) = dequeue_signal smp_env 5 0 zero_siginfo smp_queue;
       k2 = snd (do_send_sig_info smp_env 41 SEND_SIG_NOINFO 5 True k1)
   in \<exists>old new. plist (pending_at k2 (Shared 5)) = old @ new \<and> subseq old [1, 2] \<and> (\<forall>q \<in> set new. \<not> q < 3)"
proof -
  obtain sig i k1 where d: "dequeue_signal smp_env 5 0 zero_siginfo smp_queue = (sig, i, k1)" by (metis prod_cases3)
  obtain r k2 where s: "do_send_sig_info smp_env 41 SEND_SIG_NOINFO 5 True k1 = (r, k2)" by fastforce
  have "sig_step smp_env smp_queue k1" using sig_step.take [of smp_env smp_queue 0 zero_siginfo] by (simp add: smp_queue_ok d)
  moreover have "sig_step smp_env k1 k2" by (rule sig_step.send [OF _ _ s]) (simp_all add: arg_ok_def signo_def)
  ultimately have "kernel_run smp_env smp_queue k2" using kernel_run.intros kernel_step.signal by meson
  from no_overtaking [OF this smp_queue_ok(1), of "Shared 5"] show ?thesis
    unfolding Let_def d s prod.case snd_conv smp_queue_ok .
qed



end
