(* ===== verification/Syscall_Table.thy ===== *)
theory Syscall_Table
  imports Sig_Abi
begin

text \<open>
  The system call table: the numbers and handlers of \<open>unistd_64.h\<close>, entry by entry and in its
  order, \<open>cond_syscall\<close>, and the user side of a call, the macros \<open>_syscall0\<close> to \<open>_syscall2\<close>
  of \<open>unistd_64.h_user\<close> with its numbers of the added calls.
\<close>

section \<open>The kernel's table\<close>

text \<open>One pair of lines of the header: \<open>#define name number\<close> and \<open>__SYSCALL(name, handler)\<close>.\<close>

type_synonym syscall_entry = "string \<times> nat \<times> string"

abbreviation (input) "entry_name \<equiv> fst :: syscall_entry \<Rightarrow> string"
abbreviation (input) "entry_nr \<equiv> (\<lambda>e. fst (snd e)) :: syscall_entry \<Rightarrow> nat"
abbreviation (input) "entry_handler \<equiv> (\<lambda>e. snd (snd e)) :: syscall_entry \<Rightarrow> string"

definition entries_from_0 :: "syscall_entry list" where
  "entries_from_0 =
    [(''__NR_read'', 0, ''sys_read''), (''__NR_write'', 1, ''sys_write''), (''__NR_open'', 2, ''sys_open''),
     (''__NR_close'', 3, ''sys_close''), (''__NR_stat'', 4, ''sys_newstat''), (''__NR_fstat'', 5, ''sys_newfstat''),
     (''__NR_lstat'', 6, ''sys_newlstat''), (''__NR_poll'', 7, ''sys_poll''), (''__NR_lseek'', 8, ''sys_lseek''),
     (''__NR_mmap'', 9, ''sys_mmap''), (''__NR_mprotect'', 10, ''sys_mprotect''),
     (''__NR_munmap'', 11, ''sys_munmap''), (''__NR_brk'', 12, ''sys_brk''),
     (''__NR_rt_sigaction'', 13, ''sys_rt_sigaction''), (''__NR_rt_sigprocmask'', 14, ''sys_rt_sigprocmask''),
     (''__NR_rt_sigreturn'', 15, ''stub_rt_sigreturn''), (''__NR_ioctl'', 16, ''sys_ioctl''),
     (''__NR_pread64'', 17, ''sys_pread64''), (''__NR_pwrite64'', 18, ''sys_pwrite64''),
     (''__NR_readv'', 19, ''sys_readv''), (''__NR_writev'', 20, ''sys_writev''),
     (''__NR_access'', 21, ''sys_access''), (''__NR_pipe'', 22, ''sys_pipe''),
     (''__NR_select'', 23, ''sys_select''), (''__NR_sched_yield'', 24, ''sys_sched_yield''),
     (''__NR_mremap'', 25, ''sys_mremap''), (''__NR_msync'', 26, ''sys_msync''),
     (''__NR_mincore'', 27, ''sys_mincore''), (''__NR_madvise'', 28, ''sys_madvise''),
     (''__NR_shmget'', 29, ''sys_shmget''), (''__NR_shmat'', 30, ''sys_shmat''),
     (''__NR_shmctl'', 31, ''sys_shmctl''), (''__NR_dup'', 32, ''sys_dup''), (''__NR_dup2'', 33, ''sys_dup2''),
     (''__NR_pause'', 34, ''sys_pause''), (''__NR_nanosleep'', 35, ''sys_nanosleep''),
     (''__NR_getitimer'', 36, ''sys_getitimer''), (''__NR_alarm'', 37, ''sys_alarm''),
     (''__NR_setitimer'', 38, ''sys_setitimer''), (''__NR_getpid'', 39, ''sys_getpid''),
     (''__NR_sendfile'', 40, ''sys_sendfile64''), (''__NR_socket'', 41, ''sys_socket''),
     (''__NR_connect'', 42, ''sys_connect''), (''__NR_accept'', 43, ''sys_accept''),
     (''__NR_sendto'', 44, ''sys_sendto''), (''__NR_recvfrom'', 45, ''sys_recvfrom''),
     (''__NR_sendmsg'', 46, ''sys_sendmsg''), (''__NR_recvmsg'', 47, ''sys_recvmsg''),
     (''__NR_shutdown'', 48, ''sys_shutdown''), (''__NR_bind'', 49, ''sys_bind''),
     (''__NR_listen'', 50, ''sys_listen''), (''__NR_getsockname'', 51, ''sys_getsockname''),
     (''__NR_getpeername'', 52, ''sys_getpeername''), (''__NR_socketpair'', 53, ''sys_socketpair''),
     (''__NR_setsockopt'', 54, ''sys_setsockopt''), (''__NR_getsockopt'', 55, ''sys_getsockopt''),
     (''__NR_clone'', 56, ''stub_clone''), (''__NR_fork'', 57, ''stub_fork''), (''__NR_vfork'', 58, ''stub_vfork''),
     (''__NR_execve'', 59, ''stub_execve''), (''__NR_exit'', 60, ''sys_exit''), (''__NR_wait4'', 61, ''sys_wait4''),
     (''__NR_kill'', 62, ''sys_kill''), (''__NR_uname'', 63, ''sys_newuname''),
     (''__NR_semget'', 64, ''sys_semget''), (''__NR_semop'', 65, ''sys_semop''),
     (''__NR_semctl'', 66, ''sys_semctl''), (''__NR_shmdt'', 67, ''sys_shmdt''),
     (''__NR_msgget'', 68, ''sys_msgget''), (''__NR_msgsnd'', 69, ''sys_msgsnd'')]"

definition entries_from_70 :: "syscall_entry list" where
  "entries_from_70 =
    [(''__NR_msgrcv'', 70, ''sys_msgrcv''), (''__NR_msgctl'', 71, ''sys_msgctl''),
     (''__NR_fcntl'', 72, ''sys_fcntl''), (''__NR_flock'', 73, ''sys_flock''), (''__NR_fsync'', 74, ''sys_fsync''),
     (''__NR_fdatasync'', 75, ''sys_fdatasync''), (''__NR_truncate'', 76, ''sys_truncate''),
     (''__NR_ftruncate'', 77, ''sys_ftruncate''), (''__NR_getdents'', 78, ''sys_getdents''),
     (''__NR_getcwd'', 79, ''sys_getcwd''), (''__NR_chdir'', 80, ''sys_chdir''),
     (''__NR_fchdir'', 81, ''sys_fchdir''), (''__NR_rename'', 82, ''sys_rename''),
     (''__NR_mkdir'', 83, ''sys_mkdir''), (''__NR_rmdir'', 84, ''sys_rmdir''), (''__NR_creat'', 85, ''sys_creat''),
     (''__NR_link'', 86, ''sys_link''), (''__NR_unlink'', 87, ''sys_unlink''),
     (''__NR_symlink'', 88, ''sys_symlink''), (''__NR_readlink'', 89, ''sys_readlink''),
     (''__NR_chmod'', 90, ''sys_chmod''), (''__NR_fchmod'', 91, ''sys_fchmod''),
     (''__NR_chown'', 92, ''sys_chown''), (''__NR_fchown'', 93, ''sys_fchown''),
     (''__NR_lchown'', 94, ''sys_lchown''), (''__NR_umask'', 95, ''sys_umask''),
     (''__NR_gettimeofday'', 96, ''sys_gettimeofday''), (''__NR_getrlimit'', 97, ''sys_getrlimit''),
     (''__NR_getrusage'', 98, ''sys_getrusage''), (''__NR_sysinfo'', 99, ''sys_sysinfo''),
     (''__NR_times'', 100, ''sys_times''), (''__NR_ptrace'', 101, ''sys_ptrace''),
     (''__NR_getuid'', 102, ''sys_getuid''), (''__NR_syslog'', 103, ''sys_syslog''),
     (''__NR_getgid'', 104, ''sys_getgid''), (''__NR_setuid'', 105, ''sys_setuid''),
     (''__NR_setgid'', 106, ''sys_setgid''), (''__NR_geteuid'', 107, ''sys_geteuid''),
     (''__NR_getegid'', 108, ''sys_getegid''), (''__NR_setpgid'', 109, ''sys_setpgid''),
     (''__NR_getppid'', 110, ''sys_getppid''), (''__NR_getpgrp'', 111, ''sys_getpgrp''),
     (''__NR_setsid'', 112, ''sys_setsid''), (''__NR_setreuid'', 113, ''sys_setreuid''),
     (''__NR_setregid'', 114, ''sys_setregid''), (''__NR_getgroups'', 115, ''sys_getgroups''),
     (''__NR_setgroups'', 116, ''sys_setgroups''), (''__NR_setresuid'', 117, ''sys_setresuid''),
     (''__NR_getresuid'', 118, ''sys_getresuid''), (''__NR_setresgid'', 119, ''sys_setresgid''),
     (''__NR_getresgid'', 120, ''sys_getresgid''), (''__NR_getpgid'', 121, ''sys_getpgid''),
     (''__NR_setfsuid'', 122, ''sys_setfsuid''), (''__NR_setfsgid'', 123, ''sys_setfsgid''),
     (''__NR_getsid'', 124, ''sys_getsid''), (''__NR_capget'', 125, ''sys_capget''),
     (''__NR_capset'', 126, ''sys_capset''), (''__NR_rt_sigpending'', 127, ''sys_rt_sigpending''),
     (''__NR_rt_sigtimedwait'', 128, ''sys_rt_sigtimedwait''),
     (''__NR_rt_sigqueueinfo'', 129, ''sys_rt_sigqueueinfo''), (''__NR_rt_sigsuspend'', 130, ''sys_rt_sigsuspend''),
     (''__NR_sigaltstack'', 131, ''stub_sigaltstack''), (''__NR_utime'', 132, ''sys_utime''),
     (''__NR_mknod'', 133, ''sys_mknod''), (''__NR_uselib'', 134, ''sys_ni_syscall''),
     (''__NR_personality'', 135, ''sys_personality''), (''__NR_ustat'', 136, ''sys_ustat''),
     (''__NR_statfs'', 137, ''sys_statfs'')]"

definition entries_from_138 :: "syscall_entry list" where
  "entries_from_138 =
    [(''__NR_fstatfs'', 138, ''sys_fstatfs''), (''__NR_sysfs'', 139, ''sys_sysfs''),
     (''__NR_getpriority'', 140, ''sys_getpriority''), (''__NR_setpriority'', 141, ''sys_setpriority''),
     (''__NR_sched_setparam'', 142, ''sys_sched_setparam''), (''__NR_sched_getparam'', 143, ''sys_sched_getparam''),
     (''__NR_sched_setscheduler'', 144, ''sys_sched_setscheduler''),
     (''__NR_sched_getscheduler'', 145, ''sys_sched_getscheduler''),
     (''__NR_sched_get_priority_max'', 146, ''sys_sched_get_priority_max''),
     (''__NR_sched_get_priority_min'', 147, ''sys_sched_get_priority_min''),
     (''__NR_sched_rr_get_interval'', 148, ''sys_sched_rr_get_interval''), (''__NR_mlock'', 149, ''sys_mlock''),
     (''__NR_munlock'', 150, ''sys_munlock''), (''__NR_mlockall'', 151, ''sys_mlockall''),
     (''__NR_munlockall'', 152, ''sys_munlockall''), (''__NR_vhangup'', 153, ''sys_vhangup''),
     (''__NR_modify_ldt'', 154, ''sys_modify_ldt''), (''__NR_pivot_root'', 155, ''sys_pivot_root''),
     (''__NR__sysctl'', 156, ''sys_sysctl''), (''__NR_prctl'', 157, ''sys_prctl''),
     (''__NR_arch_prctl'', 158, ''sys_arch_prctl''), (''__NR_adjtimex'', 159, ''sys_adjtimex''),
     (''__NR_setrlimit'', 160, ''sys_setrlimit''), (''__NR_chroot'', 161, ''sys_chroot''),
     (''__NR_sync'', 162, ''sys_sync''), (''__NR_acct'', 163, ''sys_acct''),
     (''__NR_settimeofday'', 164, ''sys_settimeofday''), (''__NR_mount'', 165, ''sys_mount''),
     (''__NR_umount2'', 166, ''sys_umount''), (''__NR_swapon'', 167, ''sys_swapon''),
     (''__NR_swapoff'', 168, ''sys_swapoff''), (''__NR_reboot'', 169, ''sys_reboot''),
     (''__NR_sethostname'', 170, ''sys_sethostname''), (''__NR_setdomainname'', 171, ''sys_setdomainname''),
     (''__NR_iopl'', 172, ''stub_iopl''), (''__NR_ioperm'', 173, ''sys_ioperm''),
     (''__NR_create_module'', 174, ''sys_ni_syscall''), (''__NR_init_module'', 175, ''sys_init_module''),
     (''__NR_delete_module'', 176, ''sys_delete_module''), (''__NR_get_kernel_syms'', 177, ''sys_ni_syscall''),
     (''__NR_query_module'', 178, ''sys_ni_syscall''), (''__NR_quotactl'', 179, ''sys_quotactl''),
     (''__NR_nfsservctl'', 180, ''sys_ni_syscall''), (''__NR_getpmsg'', 181, ''sys_ni_syscall''),
     (''__NR_putpmsg'', 182, ''sys_ni_syscall''), (''__NR_afs_syscall'', 183, ''sys_ni_syscall''),
     (''__NR_tuxcall'', 184, ''sys_ni_syscall''), (''__NR_security'', 185, ''sys_ni_syscall''),
     (''__NR_gettid'', 186, ''sys_gettid''), (''__NR_readahead'', 187, ''sys_readahead''),
     (''__NR_setxattr'', 188, ''sys_setxattr''), (''__NR_lsetxattr'', 189, ''sys_lsetxattr''),
     (''__NR_fsetxattr'', 190, ''sys_fsetxattr''), (''__NR_getxattr'', 191, ''sys_getxattr''),
     (''__NR_lgetxattr'', 192, ''sys_lgetxattr''), (''__NR_fgetxattr'', 193, ''sys_fgetxattr''),
     (''__NR_listxattr'', 194, ''sys_listxattr''), (''__NR_llistxattr'', 195, ''sys_llistxattr''),
     (''__NR_flistxattr'', 196, ''sys_flistxattr'')]"

definition entries_from_197 :: "syscall_entry list" where
  "entries_from_197 =
    [(''__NR_removexattr'', 197, ''sys_removexattr''), (''__NR_lremovexattr'', 198, ''sys_lremovexattr''),
     (''__NR_fremovexattr'', 199, ''sys_fremovexattr''), (''__NR_tkill'', 200, ''sys_tkill''),
     (''__NR_time'', 201, ''sys_time''), (''__NR_futex'', 202, ''sys_futex''),
     (''__NR_sched_setaffinity'', 203, ''sys_sched_setaffinity''),
     (''__NR_sched_getaffinity'', 204, ''sys_sched_getaffinity''),
     (''__NR_set_thread_area'', 205, ''sys_ni_syscall''), (''__NR_io_setup'', 206, ''sys_io_setup''),
     (''__NR_io_destroy'', 207, ''sys_io_destroy''), (''__NR_io_getevents'', 208, ''sys_io_getevents''),
     (''__NR_io_submit'', 209, ''sys_io_submit''), (''__NR_io_cancel'', 210, ''sys_io_cancel''),
     (''__NR_get_thread_area'', 211, ''sys_ni_syscall''), (''__NR_lookup_dcookie'', 212, ''sys_lookup_dcookie''),
     (''__NR_epoll_create'', 213, ''sys_epoll_create''), (''__NR_epoll_ctl_old'', 214, ''sys_ni_syscall''),
     (''__NR_epoll_wait_old'', 215, ''sys_ni_syscall''), (''__NR_remap_file_pages'', 216, ''sys_remap_file_pages''),
     (''__NR_getdents64'', 217, ''sys_getdents64''), (''__NR_set_tid_address'', 218, ''sys_set_tid_address''),
     (''__NR_restart_syscall'', 219, ''sys_restart_syscall''), (''__NR_semtimedop'', 220, ''sys_semtimedop''),
     (''__NR_fadvise64'', 221, ''sys_fadvise64''), (''__NR_timer_create'', 222, ''sys_timer_create''),
     (''__NR_timer_settime'', 223, ''sys_timer_settime''), (''__NR_timer_gettime'', 224, ''sys_timer_gettime''),
     (''__NR_timer_getoverrun'', 225, ''sys_timer_getoverrun''), (''__NR_timer_delete'', 226, ''sys_timer_delete''),
     (''__NR_clock_settime'', 227, ''sys_clock_settime''), (''__NR_clock_gettime'', 228, ''sys_clock_gettime''),
     (''__NR_clock_getres'', 229, ''sys_clock_getres''), (''__NR_clock_nanosleep'', 230, ''sys_clock_nanosleep''),
     (''__NR_exit_group'', 231, ''sys_exit_group''), (''__NR_epoll_wait'', 232, ''sys_epoll_wait''),
     (''__NR_epoll_ctl'', 233, ''sys_epoll_ctl''), (''__NR_tgkill'', 234, ''sys_tgkill''),
     (''__NR_utimes'', 235, ''sys_utimes''), (''__NR_vserver'', 236, ''sys_ni_syscall''),
     (''__NR_mbind'', 237, ''sys_mbind''), (''__NR_set_mempolicy'', 238, ''sys_set_mempolicy''),
     (''__NR_get_mempolicy'', 239, ''sys_get_mempolicy''), (''__NR_mq_open'', 240, ''sys_mq_open''),
     (''__NR_mq_unlink'', 241, ''sys_mq_unlink''), (''__NR_mq_timedsend'', 242, ''sys_mq_timedsend''),
     (''__NR_mq_timedreceive'', 243, ''sys_mq_timedreceive''), (''__NR_mq_notify'', 244, ''sys_mq_notify''),
     (''__NR_mq_getsetattr'', 245, ''sys_mq_getsetattr''), (''__NR_kexec_load'', 246, ''sys_kexec_load''),
     (''__NR_waitid'', 247, ''sys_waitid''), (''__NR_add_key'', 248, ''sys_add_key''),
     (''__NR_request_key'', 249, ''sys_request_key''), (''__NR_keyctl'', 250, ''sys_keyctl''),
     (''__NR_ioprio_set'', 251, ''sys_ioprio_set''), (''__NR_ioprio_get'', 252, ''sys_ioprio_get''),
     (''__NR_inotify_init'', 253, ''sys_inotify_init''),
     (''__NR_inotify_add_watch'', 254, ''sys_inotify_add_watch''),
     (''__NR_inotify_rm_watch'', 255, ''sys_inotify_rm_watch''),
     (''__NR_migrate_pages'', 256, ''sys_migrate_pages''), (''__NR_openat'', 257, ''sys_openat''),
     (''__NR_mkdirat'', 258, ''sys_mkdirat''), (''__NR_mknodat'', 259, ''sys_mknodat''),
     (''__NR_fchownat'', 260, ''sys_fchownat''), (''__NR_futimesat'', 261, ''sys_futimesat''),
     (''__NR_newfstatat'', 262, ''sys_newfstatat''), (''__NR_unlinkat'', 263, ''sys_unlinkat''),
     (''__NR_renameat'', 264, ''sys_renameat''), (''__NR_linkat'', 265, ''sys_linkat''),
     (''__NR_symlinkat'', 266, ''sys_symlinkat''), (''__NR_readlinkat'', 267, ''sys_readlinkat''),
     (''__NR_fchmodat'', 268, ''sys_fchmodat''), (''__NR_faccessat'', 269, ''sys_faccessat''),
     (''__NR_pselect6'', 270, ''sys_pselect6'')]"

definition entries_from_271 :: "syscall_entry list" where
  "entries_from_271 =
    [(''__NR_ppoll'', 271, ''sys_ppoll''), (''__NR_unshare'', 272, ''sys_unshare''),
     (''__NR_set_robust_list'', 273, ''sys_set_robust_list''),
     (''__NR_get_robust_list'', 274, ''sys_get_robust_list''), (''__NR_splice'', 275, ''sys_splice''),
     (''__NR_tee'', 276, ''sys_tee''), (''__NR_sync_file_range'', 277, ''sys_sync_file_range''),
     (''__NR_vmsplice'', 278, ''sys_vmsplice''), (''__NR_move_pages'', 279, ''sys_move_pages''),
     (''__NR_utimensat'', 280, ''sys_utimensat''), (''__NR_epoll_pwait'', 281, ''sys_epoll_pwait''),
     (''__NR_signalfd'', 282, ''sys_signalfd''), (''__NR_timerfd_create'', 283, ''sys_timerfd_create''),
     (''__NR_eventfd'', 284, ''sys_eventfd''), (''__NR_fallocate'', 285, ''sys_fallocate''),
     (''__NR_timerfd_settime'', 286, ''sys_timerfd_settime''),
     (''__NR_timerfd_gettime'', 287, ''sys_timerfd_gettime''), (''__NR_accept4'', 288, ''sys_accept4''),
     (''__NR_signalfd4'', 289, ''sys_signalfd4''), (''__NR_eventfd2'', 290, ''sys_eventfd2''),
     (''__NR_epoll_create1'', 291, ''sys_epoll_create1''), (''__NR_dup3'', 292, ''sys_dup3''),
     (''__NR_pipe2'', 293, ''sys_pipe2''), (''__NR_inotify_init1'', 294, ''sys_inotify_init1''),
     (''__NR_preadv'', 295, ''sys_preadv''), (''__NR_pwritev'', 296, ''sys_pwritev''),
     (''__NR_rt_tgsigqueueinfo'', 297, ''sys_rt_tgsigqueueinfo''),
     (''__NR_perf_event_open'', 298, ''sys_perf_event_open''), (''__NR_recvmmsg'', 299, ''sys_recvmmsg''),
     (''__NR_fanotify_init'', 300, ''sys_fanotify_init''), (''__NR_fanotify_mark'', 301, ''sys_fanotify_mark''),
     (''__NR_prlimit64'', 302, ''sys_prlimit64''), (''__NR_name_to_handle_at'', 303, ''sys_name_to_handle_at''),
     (''__NR_open_by_handle_at'', 304, ''sys_open_by_handle_at''),
     (''__NR_clock_adjtime'', 305, ''sys_clock_adjtime''), (''__NR_syncfs'', 306, ''sys_syncfs''),
     (''__NR_sendmmsg'', 307, ''sys_sendmmsg''), (''__NR_setns'', 308, ''sys_setns''),
     (''__NR_getcpu'', 309, ''sys_getcpu''), (''__NR_process_vm_readv'', 310, ''sys_process_vm_readv''),
     (''__NR_process_vm_writev'', 311, ''sys_process_vm_writev'')]"

definition added_entries :: "syscall_entry list" where
  "added_entries =
    [(''__NR_goober'', 312, ''goober''), (''__NR_init_sigcounter'', 313, ''init_sigcounter''),
     (''__NR_get_sigcounter'', 314, ''get_sigcounter''), (''__NR_deepsleep'', 315, ''deepsleep''),
     (''__NR_smunch'', 316, ''smunch'')]"

definition syscall_entries :: "syscall_entry list" where
  "syscall_entries = entries_from_0 @ entries_from_70 @ entries_from_138 @ entries_from_197 @
     entries_from_271 @ added_entries"

text \<open>The array an includer builds with \<open>__SYSCALL(nr, sym)\<close> as \<open>[nr] = sym\<close>; a later entry for the
  same number wins.\<close>

definition syscall_handler :: "nat \<Rightarrow> string option" where
  "syscall_handler nr = map_of (rev (map (\<lambda>e. (entry_nr e, entry_handler e)) syscall_entries)) nr"

text \<open>\<open>NR_syscalls\<close>, from the \<open>__NR_syscall_max\<close> the build generates.\<close>

definition NR_syscalls :: "nat \<Rightarrow> nat" where
  "NR_syscalls syscall_max = syscall_max + 1"

text \<open>\<open>cond_syscall(x)\<close> makes \<open>x\<close> a weak alias: a definition of \<open>x\<close> that is linked in wins.\<close>

definition cond_syscall :: "string list \<Rightarrow> string \<Rightarrow> string" where
  "cond_syscall linked x = (if x \<in> set linked then x else ''sys_ni_syscall'')"

section \<open>The user side\<close>

text \<open>The numbers of the added calls as user programs see them.\<close>

definition user_added_numbers :: "(string \<times> nat) list" where
  "user_added_numbers = [(''__NR_goober'', 312), (''__NR_init_sigcounter'', 313), (''__NR_get_sigcounter'', 314),
     (''__NR_deepsleep'', 315), (''__NR_smunch'', 316)]"

text \<open>\<open>__syscall_return\<close>: the value handed on, and what \<open>errno\<close> is set to, an \<open>int\<close>.\<close>

definition syscall_return :: "u64 \<Rightarrow> u64 \<times> int option" where
  "syscall_return res =
     (if res \<ge> - 125 then (- 1, Some (sint (ucast (- res) :: u32))) else (res, None))"

text \<open>
  \<open>_syscallN(int, name, ...)\<close>: the number and the arguments go into registers, the trap is the
  parameter \<open>trap\<close>, and the result is cut to an \<open>int\<close>.
\<close>

definition user_call ::
  "(nat \<Rightarrow> u64 list \<Rightarrow> 's \<Rightarrow> (u64 \<times> 's) option) \<Rightarrow> nat \<Rightarrow> u64 list \<Rightarrow> 's \<Rightarrow> (int \<times> int option \<times> 's) option" where
  "user_call trap nr args s =
     (case trap nr args s of
        None \<Rightarrow> None
      | Some (res, s') \<Rightarrow>
          (case syscall_return res of (r, errno) \<Rightarrow> Some (sint (ucast r :: u32), errno, s')))"

section \<open>Lemmas\<close>

lemmas entries_defs = entries_from_0_def entries_from_70_def entries_from_138_def entries_from_197_def
  entries_from_271_def added_entries_def

text \<open>The numbers follow each other from 0 without a hole or a repetition.\<close>

lemma segment_numbers:
  "map entry_nr entries_from_0 = [0..<70]" "map entry_nr entries_from_70 = [70..<138]"
  "map entry_nr entries_from_138 = [138..<197]" "map entry_nr entries_from_197 = [197..<271]"
  "map entry_nr entries_from_271 = [271..<312]" "map entry_nr added_entries = [312..<317]"
  by (simp_all add: entries_defs upt_rec)

lemma upt_join: "i \<le> j \<Longrightarrow> j \<le> k \<Longrightarrow> [i..<j] @ [j..<k] = [i..<k]"
  by (metis le_add_diff_inverse upt_add_eq_append)

lemma upt_join6:
  assumes "a \<le> b" "b \<le> c" "c \<le> d" "d \<le> e" "e \<le> f" "f \<le> g"
  shows "[a..<b] @ [b..<c] @ [c..<d] @ [d..<e] @ [e..<f] @ [f..<g] = [a..<g]"
  using assms by (simp add: upt_join)

lemma entry_numbers: "map entry_nr syscall_entries = [0..<317]"
  unfolding syscall_entries_def map_append segment_numbers by (rule upt_join6) simp_all

lemma numbered:
  assumes "map f xs = [0..<n]"
  shows "length xs = n" and "i < n \<Longrightarrow> f (xs ! i) = i" and "distinct (map f xs)"
proof -
  show l: "length xs = n" using arg_cong [OF assms, of length] by simp
  show "distinct (map f xs)" using assms by simp
  show "f (xs ! i) = i" if "i < n" using arg_cong [OF assms, of "\<lambda>l. l ! i"] that l by simp
qed

lemmas entry_count = numbered(1) [OF entry_numbers]
lemmas entry_at = numbered(2) [OF entry_numbers]

lemma handler_in_entries: "syscall_handler nr = Some h \<longleftrightarrow> (\<exists>name. (name, nr, h) \<in> set syscall_entries)"
proof -
  have "distinct (map fst (rev (map (\<lambda>e. (entry_nr e, entry_handler e)) syscall_entries)))"
    using numbered(3) [OF entry_numbers] by (simp add: rev_map [symmetric] comp_def)
  from map_of_eq_Some_iff [OF this] show ?thesis
    by (force simp: syscall_handler_def)
qed

lemma handlerI:
  "(name, nr, h) \<in> set entries_from_0 \<union> set entries_from_70 \<union> set entries_from_138 \<union> set entries_from_197 \<union>
     set entries_from_271 \<union> set added_entries \<Longrightarrow> syscall_handler nr = Some h"
  unfolding handler_in_entries by (rule exI [of _ name]) (simp add: syscall_entries_def)

end
