(* ===== verification/Sig_Syscalls.thy ===== *)
theory Sig_Syscalls
  imports Syscall_Table Sig_Steps
begin

text \<open>
  System calls by number: the handlers the table names for \<open>signal.c\<close> and the added calls, with
  their arguments taken from the registers, user memory read and written through parameters, and
  the result put into the return register. Handlers outside the repository are a parameter.
\<close>

text \<open>What a call stores in user memory.\<close>

datatype stored = St_sigset sigset | St_siginfo siginfo | St_action k_sigaction | St_long int

text \<open>
  A call returns with the register, the stores and the state; or it still waits, for ever as far
  as the inputs given go; or it follows a NULL pointer.
\<close>

datatype outcome = Ret u64 "(u64 \<times> stored) list" kstate | Waits kstate | Oops kfault

text \<open>
  \<open>read_\<dots>\<close>: what \<open>copy_from_user\<close> delivers from an address, \<open>None\<close> for a fault;
  \<open>writable\<close>: whether \<open>copy_to_user\<close> to it succeeds. \<open>upper_half\<close>: what the ABI leaves
  unspecified in the upper half of the register of a result of type \<open>int\<close>. \<open>timed_sleep\<close>,
  \<open>sleep\<close> and \<open>pauses\<close>: what the system does while the caller sleeps. \<open>restart_fn\<close>: the function of
  the caller's restart block. \<open>stack_garbage\<close>: the uninitialised \<open>siginfo\<close> of \<open>kill\<close>;
  \<open>stray_word\<close>: what lies around the counters.
\<close>

record sysenv =
  kern :: kenv
  pids :: pidenv
  read_sigset :: "u64 \<Rightarrow> sigset option"
  read_siginfo :: "u64 \<Rightarrow> siginfo option"
  read_action :: "u64 \<Rightarrow> k_sigaction option"
  read_timespec :: "u64 \<Rightarrow> (int \<times> int) option"
  writable :: "u64 \<Rightarrow> bool"
  upper_half :: u32
  now_nsec :: int
  stack_garbage :: siginfo
  stray_word :: "int \<Rightarrow> u32"
  timed_sleep :: "int \<Rightarrow> kstate \<Rightarrow> int \<times> kstate"
  sleep :: "kstate \<Rightarrow> kstate"
  pauses :: "(kstate \<Rightarrow> kstate) list"
  restart_fn :: "kstate \<Rightarrow> int \<times> kstate"
  elsewhere :: "string \<Rightarrow> u64 list \<Rightarrow> kstate \<Rightarrow> outcome"

section \<open>Arguments and results\<close>

definition int_arg :: "u64 \<Rightarrow> int" where
  "int_arg a = sint (ucast a :: u32)"

text \<open>A result of type \<open>long\<close>, and one of type \<open>int\<close>.\<close>

definition long_result :: "int \<Rightarrow> u64" where
  "long_result r = word_of_int r"

definition int_result :: "u32 \<Rightarrow> int \<Rightarrow> u64" where
  "int_result upper r = push_bit 32 (ucast upper) OR ucast (word_of_int r :: u32)"

text \<open>A pointer the code tests for NULL before it follows it.\<close>

definition opt_ptr :: "(u64 \<Rightarrow> 'a) \<Rightarrow> u64 \<Rightarrow> 'a option" where
  "opt_ptr f a = (if a = 0 then None else Some (f a))"

definition user_store :: "u64 \<Rightarrow> ('a \<Rightarrow> stored) \<Rightarrow> 'a option \<Rightarrow> (u64 \<times> stored) list" where
  "user_store a c v = (case v of None \<Rightarrow> [] | Some x \<Rightarrow> [(a, c x)])"

text \<open>\<open>restart_syscall\<close> calls through the restart block.\<close>

definition sys_restart_syscall :: "(kstate \<Rightarrow> int \<times> kstate) \<Rightarrow> kstate \<Rightarrow> int \<times> kstate" where
  "sys_restart_syscall restart_block_fn ks = restart_block_fn ks"

section \<open>The handlers\<close>

fun ret_pair :: "int \<times> kstate \<Rightarrow> outcome" where
  "ret_pair (r, ks) = Ret (long_result r) [] ks"

fun ret_wait :: "kstate \<Rightarrow> (int \<times> kstate) option \<Rightarrow> outcome" where
  "ret_wait ks None = Waits ks"
| "ret_wait ks (Some p) = ret_pair p"

definition handle_kill :: "sysenv \<Rightarrow> string \<Rightarrow> u64 list \<Rightarrow> kstate \<Rightarrow> outcome option" where
  "handle_kill S h args ks =
     (let E = kern S; P = pids S; arg = (\<lambda>i. args ! i); n = (\<lambda>i. int_arg (args ! i)) in
      if h = ''sys_kill'' then Some (ret_wait ks (sys_kill E P (stack_garbage S) (n 0) (n 1) ks))
      else if h = ''sys_tgkill'' then Some (ret_pair (sys_tgkill E P (n 0) (n 1) (n 2) ks))
      else if h = ''sys_tkill'' then Some (ret_pair (sys_tkill E P (n 0) (n 1) ks))
      else if h = ''sys_rt_sigqueueinfo''
      then Some (ret_wait ks (sys_rt_sigqueueinfo E P (n 0) (n 1) (read_siginfo S (arg 2)) ks))
      else if h = ''sys_rt_tgsigqueueinfo''
      then Some (ret_pair (sys_rt_tgsigqueueinfo E P (n 0) (n 1) (n 2) (read_siginfo S (arg 3)) ks))
      else None)"

definition handle_mask :: "sysenv \<Rightarrow> string \<Rightarrow> u64 list \<Rightarrow> kstate \<Rightarrow> outcome option" where
  "handle_mask S h args ks =
     (let E = kern S; arg = (\<lambda>i. args ! i) in
      if h = ''sys_rt_sigprocmask'' then
        (case sys_rt_sigprocmask E (int_arg (arg 0)) (opt_ptr (read_sigset S) (arg 1)) (opt_ptr (writable S) (arg 2))
                (uint (arg 3)) ks of
           (r, old, ks) \<Rightarrow> Some (Ret (long_result r) (user_store (arg 2) St_sigset old) ks))
      else if h = ''sys_rt_sigpending'' then
        (case sys_rt_sigpending (uint (arg 1)) (writable S (arg 0)) ks of
           (r, pending) \<Rightarrow> Some (Ret (long_result r) (user_store (arg 0) St_sigset pending) ks))
      else if h = ''sys_rt_sigaction'' then
        (case sys_rt_sigaction (int_arg (arg 0)) (opt_ptr (read_action S) (arg 1)) (opt_ptr (writable S) (arg 2))
                (uint (arg 3)) ks of
           (r, old, ks) \<Rightarrow> Some (Ret (long_result r) (user_store (arg 2) St_action old) ks))
      else None)"

definition handle_wait :: "sysenv \<Rightarrow> string \<Rightarrow> u64 list \<Rightarrow> kstate \<Rightarrow> outcome option" where
  "handle_wait S h args ks =
     (let E = kern S; arg = (\<lambda>i. args ! i) in
      if h = ''sys_rt_sigtimedwait'' then
        (case sys_rt_sigtimedwait E (timed_sleep S) (read_sigset S (arg 0)) (opt_ptr (writable S) (arg 1))
                (opt_ptr (read_timespec S) (arg 2)) (uint (arg 3)) ks of
           (r, info, ks) \<Rightarrow> Some (Ret (long_result r) (user_store (arg 1) St_siginfo info) ks))
      else if h = ''sys_rt_sigsuspend''
      then Some (ret_pair (sys_rt_sigsuspend E (sleep S) (read_sigset S (arg 0)) (uint (arg 1)) ks))
      else if h = ''sys_pause'' then Some (ret_wait ks (sys_pause (pauses S) ks))
      else if h = ''sys_restart_syscall'' then Some (ret_pair (sys_restart_syscall (restart_fn S) ks))
      else None)"

definition handle_added :: "sysenv \<Rightarrow> string \<Rightarrow> u64 list \<Rightarrow> kstate \<Rightarrow> outcome option" where
  "handle_added S h args ks =
     (let P = pids S; arg = (\<lambda>i. args ! i); n = (\<lambda>i. int_arg (args ! i)); up = upper_half S in
      if h = ''goober'' then
        (case goober (now_nsec S) (writable S (arg 0)) of
           (r, v) \<Rightarrow> Some (Ret (int_result up r) (user_store (arg 0) St_long v) ks))
      else if h = ''init_sigcounter'' then
        (case init_sigcounter P (n 0) ks of
           Inl f \<Rightarrow> Some (Oops f) | Inr (r, ks) \<Rightarrow> Some (Ret (int_result up r) [] ks))
      else if h = ''get_sigcounter'' then
        (case get_sigcounter (stray_word S) (n 0) ks of
           Inl f \<Rightarrow> Some (Oops f) | Inr r \<Rightarrow> Some (Ret (int_result up r) [] ks))
      else if h = ''deepsleep'' then Some (Waits (deepsleep ks))
      else if h = ''smunch'' then
        (case smunch (kern S) P (n 0) (arg 1) ks of (r, ks) \<Rightarrow> Some (Ret (int_result up r) [] ks))
      else None)"

fun first_some :: "'a option list \<Rightarrow> 'a option" where
  "first_some [] = None"
| "first_some (None # xs) = first_some xs"
| "first_some (Some x # xs) = Some x"

definition do_syscall :: "sysenv \<Rightarrow> nat \<Rightarrow> u64 list \<Rightarrow> kstate \<Rightarrow> outcome" where
  "do_syscall S nr args ks =
     (let h = (case syscall_handler nr of None \<Rightarrow> '''' | Some h \<Rightarrow> h) in
      case first_some [handle_kill S h args ks, handle_mask S h args ks, handle_wait S h args ks, handle_added S h args ks] of
        None \<Rightarrow> elsewhere S h args ks
      | Some out \<Rightarrow> out)"

text \<open>The trap of a user program that sees only the register and the state.\<close>

definition trap :: "sysenv \<Rightarrow> nat \<Rightarrow> u64 list \<Rightarrow> kstate \<Rightarrow> (u64 \<times> kstate) option" where
  "trap S nr args ks = (case do_syscall S nr args ks of Ret r _ ks \<Rightarrow> Some (r, ks) | _ \<Rightarrow> None)"

section \<open>Lemmas\<close>

text \<open>The handlers of the calls on signals and of the added calls.\<close>

lemma signal_handlers:
  "syscall_handler 62 = Some ''sys_kill''"
  "syscall_handler 234 = Some ''sys_tgkill''"
  "syscall_handler 200 = Some ''sys_tkill''"
  "syscall_handler 129 = Some ''sys_rt_sigqueueinfo''"
  "syscall_handler 297 = Some ''sys_rt_tgsigqueueinfo''"
  "syscall_handler 14 = Some ''sys_rt_sigprocmask''"
  "syscall_handler 127 = Some ''sys_rt_sigpending''"
  "syscall_handler 13 = Some ''sys_rt_sigaction''"
  "syscall_handler 128 = Some ''sys_rt_sigtimedwait''"
  "syscall_handler 130 = Some ''sys_rt_sigsuspend''"
  "syscall_handler 34 = Some ''sys_pause''"
  "syscall_handler 219 = Some ''sys_restart_syscall''"
proof -
  show "syscall_handler 62 = Some ''sys_kill''"
    by (rule handlerI [where name = "''__NR_kill''"]) (simp add: entries_from_0_def)
  show "syscall_handler 234 = Some ''sys_tgkill''"
    by (rule handlerI [where name = "''__NR_tgkill''"]) (simp add: entries_from_197_def)
  show "syscall_handler 200 = Some ''sys_tkill''"
    by (rule handlerI [where name = "''__NR_tkill''"]) (simp add: entries_from_197_def)
  show "syscall_handler 129 = Some ''sys_rt_sigqueueinfo''"
    by (rule handlerI [where name = "''__NR_rt_sigqueueinfo''"]) (simp add: entries_from_70_def)
  show "syscall_handler 297 = Some ''sys_rt_tgsigqueueinfo''"
    by (rule handlerI [where name = "''__NR_rt_tgsigqueueinfo''"]) (simp add: entries_from_271_def)
  show "syscall_handler 14 = Some ''sys_rt_sigprocmask''"
    by (rule handlerI [where name = "''__NR_rt_sigprocmask''"]) (simp add: entries_from_0_def)
  show "syscall_handler 127 = Some ''sys_rt_sigpending''"
    by (rule handlerI [where name = "''__NR_rt_sigpending''"]) (simp add: entries_from_70_def)
  show "syscall_handler 13 = Some ''sys_rt_sigaction''"
    by (rule handlerI [where name = "''__NR_rt_sigaction''"]) (simp add: entries_from_0_def)
  show "syscall_handler 128 = Some ''sys_rt_sigtimedwait''"
    by (rule handlerI [where name = "''__NR_rt_sigtimedwait''"]) (simp add: entries_from_70_def)
  show "syscall_handler 130 = Some ''sys_rt_sigsuspend''"
    by (rule handlerI [where name = "''__NR_rt_sigsuspend''"]) (simp add: entries_from_70_def)
  show "syscall_handler 34 = Some ''sys_pause''"
    by (rule handlerI [where name = "''__NR_pause''"]) (simp add: entries_from_0_def)
  show "syscall_handler 219 = Some ''sys_restart_syscall''"
    by (rule handlerI [where name = "''__NR_restart_syscall''"]) (simp add: entries_from_197_def)
qed

lemma added_handlers:
  "syscall_handler 312 = Some ''goober''"
  "syscall_handler 313 = Some ''init_sigcounter''"
  "syscall_handler 314 = Some ''get_sigcounter''"
  "syscall_handler 315 = Some ''deepsleep''"
  "syscall_handler 316 = Some ''smunch''"
proof -
  show "syscall_handler 312 = Some ''goober''"
    by (rule handlerI [where name = "''__NR_goober''"]) (simp add: added_entries_def)
  show "syscall_handler 313 = Some ''init_sigcounter''"
    by (rule handlerI [where name = "''__NR_init_sigcounter''"]) (simp add: added_entries_def)
  show "syscall_handler 314 = Some ''get_sigcounter''"
    by (rule handlerI [where name = "''__NR_get_sigcounter''"]) (simp add: added_entries_def)
  show "syscall_handler 315 = Some ''deepsleep''"
    by (rule handlerI [where name = "''__NR_deepsleep''"]) (simp add: added_entries_def)
  show "syscall_handler 316 = Some ''smunch''"
    by (rule handlerI [where name = "''__NR_smunch''"]) (simp add: added_entries_def)
qed

text \<open>The numbers that belong to the added calls.\<close>

lemma added_calls:
  "do_syscall S 312 args ks = (case goober (now_nsec S) (writable S (args ! 0)) of
     (r, v) \<Rightarrow> Ret (int_result (upper_half S) r) (user_store (args ! 0) St_long v) ks)"
  "do_syscall S 313 args ks = (case init_sigcounter (pids S) (int_arg (args ! 0)) ks of
     Inl f \<Rightarrow> Oops f | Inr (r, ks) \<Rightarrow> Ret (int_result (upper_half S) r) [] ks)"
  "do_syscall S 314 args ks = (case get_sigcounter (stray_word S) (int_arg (args ! 0)) ks of
     Inl f \<Rightarrow> Oops f | Inr r \<Rightarrow> Ret (int_result (upper_half S) r) [] ks)"
  "do_syscall S 315 args ks = Waits (deepsleep ks)"
  "do_syscall S 316 args ks = (case smunch (kern S) (pids S) (int_arg (args ! 0)) (args ! 1) ks of
     (r, ks) \<Rightarrow> Ret (int_result (upper_half S) r) [] ks)"
  by (simp_all add: do_syscall_def added_handlers handle_kill_def handle_mask_def handle_wait_def handle_added_def
      split: prod.splits sum.splits)

lemma kill_call:
  "do_syscall S 62 args ks =
     ret_wait ks (sys_kill (kern S) (pids S) (stack_garbage S) (int_arg (args ! 0)) (int_arg (args ! 1)) ks)"
  by (simp add: do_syscall_def signal_handlers handle_kill_def Let_def)

text \<open>The low half of an \<open>int\<close> result is the result.\<close>

lemma int_result_low [simp]: "(ucast (int_result upper r) :: u32) = word_of_int r"
  by (rule bit_word_eqI) (simp add: int_result_def bit_simps)

end
