(* ===== verification/Sig_Kill_Interface.thy ===== *)
theory Sig_Kill_Interface
  imports Sig_Kill Sig_Send_Facts
begin

text \<open>
  The interface between sending one signal and the calls of the kill family, which send it to a
  process, a group, everyone or one thread: a relation on states that holds for standing still,
  composes, and holds for one \<open>do_send_sig_info\<close> holds for all of them. The loops over tasks and
  the retries are gone through here once; clients choose the relation.
\<close>

locale send_closed =
  fixes E :: kenv and R :: "int \<Rightarrow> sig_arg \<Rightarrow> kstate \<Rightarrow> kstate \<Rightarrow> bool"
  assumes stay: "R sig a k k"
    and follow: "R sig a k k1 \<Longrightarrow> R sig a k1 k2 \<Longrightarrow> R sig a k k2"
    and one_send: "signo sig \<Longrightarrow> do_send_sig_info E sig a p grp k = (r, k') \<Longrightarrow> R sig a k k'"
begin

lemma group_send:
  assumes "group_send_sig_info E sig a p k = (r, k')"
  shows "R sig a k k'"
proof (cases "check_kill_permission E sig a p k = 0 \<and> sig \<noteq> 0")
  case True
  then have "signo sig" by (auto simp: check_kill_permission_def signo_valid split: if_splits)
  moreover have "do_send_sig_info E sig a p True k = (r, k')"
    using assms True by (simp add: group_send_sig_info_def)
  ultimately show ?thesis by (rule one_send)
next
  case False
  then show ?thesis using assms stay by (auto simp: group_send_sig_info_def Let_def split: if_splits)
qed

lemma to_tasks: "kill_tasks E sig a ps (s, r, k) = (s', r', k') \<Longrightarrow> R sig a k k'"
proof (induction ps arbitrary: s r k)
  case (Cons p ps)
  obtain e k1 where g: "group_send_sig_info E sig a p k = (e, k1)" by fastforce
  with Cons show ?case using follow [OF group_send [OF g]] by auto
qed (auto intro: stay)

lemma to_pgrp: "kill_pgrp_info E sig a ps k = (r, k') \<Longrightarrow> R sig a k k'"
  by (auto simp: kill_pgrp_info_def split: prod.splits intro: to_tasks)

lemma to_lookups: "kill_lookups E sig a ls k = Some (r, k') \<Longrightarrow> R sig a k k'"
proof (induction ls arbitrary: k)
  case (Cons l ls)
  show ?case
  proof (cases l)
    case None
    with Cons.prems stay show ?thesis by auto
  next
    case (Some p)
    obtain e k1 where g: "group_send_sig_info E sig a p k = (e, k1)" by fastforce
    with Cons Some show ?thesis using follow [OF group_send [OF g]] group_send [OF g] by (auto split: if_splits)
  qed
qed simp

lemma to_all: "kill_all E P sig a ps (c, r, k) = (c', r', k') \<Longrightarrow> R sig a k k'"
proof (induction ps arbitrary: c r k)
  case (Cons p ps)
  obtain e k1 where g: "group_send_sig_info E sig a p k = (e, k1)" by fastforce
  with Cons show ?case using follow [OF group_send [OF g]] by (auto split: if_splits)
qed (auto intro: stay)

lemma to_something: "kill_something_info E P sig a pid k = Some (r, k') \<Longrightarrow> R sig a k k'"
  by (auto simp: kill_something_info_def kill_pid_info_def split: if_splits prod.splits
      intro: to_lookups to_pgrp to_all)

lemma to_specific:
  assumes "do_send_specific E P tgid pid sig a k = (r, k')"
  shows "R sig a k k'"
proof (cases "\<exists>p. find_task P pid = Some p \<and> (tgid \<le> 0 \<or> tgid_vnr P p = tgid) \<and> check_kill_permission E sig a p k = 0 \<and> sig \<noteq> 0")
  case True
  then obtain p where p: "find_task P pid = Some p" "tgid \<le> 0 \<or> tgid_vnr P p = tgid" "check_kill_permission E sig a p k = 0" "sig \<noteq> 0"
    by blast
  then have "signo sig" by (auto simp: check_kill_permission_def signo_valid split: if_splits)
  moreover obtain e where "do_send_sig_info E sig a p False k = (e, k')"
    using assms p by (auto simp: do_send_specific_def split: prod.splits if_splits)
  ultimately show ?thesis by (rule one_send)
next
  case False
  then show ?thesis using assms stay by (auto simp: do_send_specific_def Let_def split: option.splits if_splits)
qed

text \<open>The system calls: each sends one \<open>siginfo\<close>, or refuses and leaves at most a warning.\<close>

lemma kill_call_sends:
  assumes "sys_kill E P st pid sig k = Some (r, k')"
  shows "R sig (Info (st\<lparr>si_signo := sig, si_errno := 0, si_code := SI_USER,
      si_pid := tgid_vnr P (cur k), si_uid := c_uid (t_cred (tasks k (cur k)))\<rparr>)) k k'"
  using assms unfolding sys_kill_def by (rule to_something)

lemma tkill_call_sends:
  assumes "sys_tkill E P pid sig k = (r, k') \<or> sys_tgkill E P tgid pid sig k = (r, k')"
  shows "R sig (Info (zero_siginfo\<lparr>si_signo := sig, si_errno := 0, si_code := SI_TKILL,
      si_pid := tgid_vnr P (cur k), si_uid := c_uid (t_cred (tasks k (cur k)))\<rparr>)) k k'"
  using assms by (auto simp: sys_tkill_def sys_tgkill_def do_tkill_def split: if_splits intro: stay to_specific)

lemma queueinfo_call_sends:
  assumes "sys_rt_sigqueueinfo E P pid sig ui k = Some (r, k') \<or> sys_rt_tgsigqueueinfo E P tgid pid sig ui k = (r, k')"
  shows "k' = k \<or> k' = ev Ev_Warn k \<or>
    (\<exists>i. ui = Some i \<and> si_code i < 0 \<and> si_code i \<noteq> SI_TKILL \<and> R sig (Info (i\<lparr>si_signo := sig\<rparr>)) k k')"
  using assms
  by (auto simp: sys_rt_sigqueueinfo_def sys_rt_tgsigqueueinfo_def do_rt_tgsigqueueinfo_def warn_if_def
      kill_proc_info_def kill_pid_info_def split: option.splits if_splits intro: to_lookups to_specific)

end

end
