(* ===== verification/Sig_Syscall_Facts.thy ===== *)
theory Sig_Syscall_Facts
  imports Sig_Syscalls Sig_Kill_Interface
begin

text \<open>
  Every system call is a run of the signal system: its effect on the state is a sequence of the
  steps of \<open>sig_step\<close>, whatever its number and arguments, as long as what happens outside the
  repository while it runs is one too.
\<close>

section \<open>Runs\<close>

lemma run_one: "sig_step E k k' \<Longrightarrow> sig_run E k k'"
  by (rule sig_run.step [OF sig_run.refl])

lemma run_trans: "sig_run E b c \<Longrightarrow> sig_run E a b \<Longrightarrow> sig_run E a c"
  by (induction rule: sig_run.induct) (auto intro: sig_run.step)

section \<open>Sending\<close>

text \<open>A \<open>siginfo\<close> argument whose number is the signal's, or a special one.\<close>

definition info_for :: "int \<Rightarrow> sig_arg \<Rightarrow> bool" where
  "info_for sig a \<longleftrightarrow> a = SEND_SIG_FORCED \<or> arg_ok sig a"

lemma info_for_simps [simp]: "info_for sig (Info i) = (si_signo i = sig)" "info_for sig (si_special priv)"
  by (auto simp: info_for_def arg_ok_def si_special_def)

text \<open>The calls that send are runs, by the contract of \<open>send_closed\<close>.\<close>

interpretation runs: send_closed E "\<lambda>sig a k k'. info_for sig a \<longrightarrow> sig_run E k k'" for E
proof
  fix sig a k k1 k2
  assume "info_for sig a \<longrightarrow> sig_run E k k1" and "info_for sig a \<longrightarrow> sig_run E k1 k2"
  then show "info_for sig a \<longrightarrow> sig_run E k k2" using run_trans by blast
qed (auto simp: info_for_def intro: sig_run.refl run_one sig_step.send)

lemma run_kill_calls:
  "sys_kill E P st pid sig k = Some (r, k') \<Longrightarrow> sig_run E k k'"
  "sys_tgkill E P tgid pid sig k = (r, k') \<Longrightarrow> sig_run E k k'"
  "sys_tkill E P pid sig k = (r, k') \<Longrightarrow> sig_run E k k'"
  "sys_rt_sigqueueinfo E P pid sig ui k = Some (r, k') \<Longrightarrow> sig_run E k k'"
  "sys_rt_tgsigqueueinfo E P tgid pid sig ui k = (r, k') \<Longrightarrow> sig_run E k k'"
proof -
  show "sys_kill E P st pid sig k = Some (r, k') \<Longrightarrow> sig_run E k k'"
    using runs.kill_call_sends by fastforce
  show "sys_tgkill E P tgid pid sig k = (r, k') \<Longrightarrow> sig_run E k k'"
    and "sys_tkill E P pid sig k = (r, k') \<Longrightarrow> sig_run E k k'"
    using runs.tkill_call_sends by fastforce+
  have e: "sig_run E k (ev Ev_Warn k)" by (rule run_one [OF sig_step.event])
  show "sys_rt_sigqueueinfo E P pid sig ui k = Some (r, k') \<Longrightarrow> sig_run E k k'"
    and "sys_rt_tgsigqueueinfo E P tgid pid sig ui k = (r, k') \<Longrightarrow> sig_run E k k'"
    using runs.queueinfo_call_sends [of E P pid sig ui k r k' tgid] e sig_run.refl [of E k] by auto
qed

section \<open>Masks, actions and waiting\<close>

lemma run_procmask: "sys_rt_sigprocmask E how nset oset sz k = (r, out, k') \<Longrightarrow> sig_run E k k'"
  by (rule run_one [OF sig_step.procmask])

lemma run_sigaction: "sys_rt_sigaction sig act oact sz k = (r, out, k') \<Longrightarrow> sig_run E k k'"
  by (auto simp: sys_rt_sigaction_def split: if_splits option.splits prod.splits
      intro: sig_run.refl run_one sig_step.sigaction)

text \<open>What the rest of the system does while a caller sleeps is a run, and leaves the caller on the processor.\<close>

definition sleeps_ok :: "kenv \<Rightarrow> (kstate \<Rightarrow> kstate) \<Rightarrow> bool" where
  "sleeps_ok E f \<longleftrightarrow> (\<forall>k. sig_run E k (f k) \<and> cur (f k) = cur k)"

lemma run_sigsuspend:
  assumes "sleeps_ok E f" and r: "sys_rt_sigsuspend E f new sz k = (r, k')"
  shows "sig_run E k k'"
proof (cases "sz = 8 \<and> new \<noteq> None")
  case False
  with r sig_run.refl show ?thesis by (auto simp: sys_rt_sigsuspend_def split: if_splits)
next
  case True
  then obtain n where n: "new = Some n" "sz = 8" by auto
  let ?t = "cur k" and ?m = "n AND NOT (sigmask SIGKILL OR sigmask SIGSTOP)"
  let ?k1 = "upd_task ?t (\<lambda>x. x\<lparr>t_saved_sigmask := t_blocked x\<rparr>) k"
  let ?k2 = "set_task_blocked_raw E ?t ?m ?k1"
  let ?k3 = "upd_task ?t (\<lambda>x. x\<lparr>t_state := TASK_INTERRUPTIBLE\<rparr>) ?k2"
  have c: "cur ?k1 = ?t" by simp
  have "sig_run E k ?k1" by (rule run_one [OF sig_step.save_mask])
  then have "sig_run E k ?k2" by (rule sig_run.step) (rule sig_step.block, rule mask_ok_strip)
  then have "sig_run E k ?k3" by (rule sig_run.step) (rule sig_step.run_state)
  have "sig_run E ?k3 (f ?k3)" using assms(1) unfolding sleeps_ok_def by blast
  then have "sig_run E k (f ?k3)" by (rule run_trans) fact
  moreover have "k' = upd_task ?t (\<lambda>x. x\<lparr>t_restore_sigmask := True\<rparr>) (f ?k3)"
    using r unfolding sys_rt_sigsuspend_def n set_current_blocked_def Let_def c by simp
  ultimately show ?thesis using sig_run.step [OF _ sig_step.restore_later] by simp
qed

lemma run_pause:
  assumes "list_all (sleeps_ok E) fs" and "sys_pause fs k = Some (r, k')"
  shows "sig_run E k k'"
  using assms
proof (induction fs arbitrary: k)
  case (Cons f fs)
  let ?k = "upd_task (cur k) (\<lambda>x. x\<lparr>t_state := TASK_INTERRUPTIBLE\<rparr>) k"
  have "sig_run E ?k (f ?k)" using Cons.prems(1) by (simp add: sleeps_ok_def)
  then have a: "sig_run E k (f ?k)" by (rule run_trans [OF _ run_one [OF sig_step.run_state]])
  show ?case
  proof (cases "signal_pending (tasks k (cur k))")
    case True
    with Cons.prems(2) sig_run.refl show ?thesis by simp
  next
    case False
    with Cons have "sig_run E (f ?k) k'" by simp
    then show ?thesis by (rule run_trans [OF _ a])
  qed
qed (use sig_run.refl in \<open>simp split: if_splits\<close>)

lemma run_timed_wait:
  assumes i: "sig_inv k" and s: "\<And>n. sleeps_ok E (\<lambda>k. snd (f n k))" and r: "timed_wait E f which info to k = (r, i', k')"
  shows "sig_run E k k'"
proof -
  let ?t = "cur k" and ?m = "NOT (which AND NOT (sigmask SIGKILL OR sigmask SIGSTOP))"
  obtain g1 i1 k1 where d1: "dequeue_signal E ?t ?m info k = (g1, i1, k1)" by (metis prod_cases3)
  have 1: "sig_run E k k1" using d1 by (intro run_one sig_step.take)
  have c1: "cur k1 = ?t" using dequeue_frame [OF sig_inv_queues [OF i] _ d1] i by (simp add: caller_frame_def sig_inv_def)
  show ?thesis
  proof (cases "g1 = 0 \<and> to \<noteq> 0")
    case False
    with r d1 1 show ?thesis by (auto simp: timed_wait_def Let_def split: if_splits)
  next
    case True
    let ?k2 = "recalc_sigpending E (upd_task ?t (\<lambda>x. x\<lparr>t_real_blocked := t_blocked x, t_blocked := t_blocked x AND ?m\<rparr>) k1)"
    obtain to2 k3 where f: "f to ?k2 = (to2, k3)" by fastforce
    let ?k4 = "set_task_blocked_raw E ?t (t_real_blocked (tasks k3 ?t)) k3"
    let ?k5 = "upd_task ?t (\<lambda>x. x\<lparr>t_real_blocked := 0\<rparr>) ?k4"
    obtain g2 i2 k6 where d2: "dequeue_signal E ?t ?m i1 ?k5 = (g2, i2, k6)" by (metis prod_cases3)
    have k': "k' = k6" using r d1 True f d2 by (simp add: timed_wait_def Let_def)
    have 2: "sig_run E k ?k2" by (rule sig_run.step [OF 1 sig_step.sleep_open])
    have "sig_run E ?k2 (snd (f to ?k2)) \<and> cur (snd (f to ?k2)) = cur ?k2"
      using s [of to, unfolded sleeps_ok_def] by (rule spec)
    then have 23: "sig_run E ?k2 k3" "cur k3 = cur ?k2" unfolding f snd_conv by simp_all
    have 3: "sig_run E k k3" by (rule run_trans [OF 23(1) 2])
    have c3: "cur k3 = ?t" unfolding 23(2) recalc_exact(3) using c1 by simp
    have "sig_inv k3" by (rule sig_run_inv [OF 3 i])
    then have "mask_ok (t_real_blocked (tasks k3 ?t))" by (rule inv_masks)
    from sig_run.step [OF 3 sig_step.block [OF this]] have "sig_run E k ?k4" .
    then have 5: "sig_run E k ?k5" by (rule sig_run.step) (rule sig_step.sleep_done)
    have "cur ?k5 = ?t" using c3 set_task_blocked_effect(3) [OF HOL.refl, of E ?t _ k3] by simp
    then show ?thesis using 5 d2 k' by (intro sig_run.step [OF 5] sig_step.take) simp
  qed
qed

lemma run_sigtimedwait:
  assumes "sig_inv k" and "\<And>n. sleeps_ok E (\<lambda>k. snd (f n k))"
    and "sys_rt_sigtimedwait E f these ui uts sz k = (r, i', k')"
  shows "sig_run E k k'"
  using assms(3) sig_run.refl [of E k] run_timed_wait [OF assms(1,2)]
  by (auto simp: sys_rt_sigtimedwait_def do_sigtimedwait_def split: if_splits option.splits prod.splits)

lemma run_init: "init_sigcounter P pid k = Inr (r, k') \<Longrightarrow> sig_run E k k'"
  by (rule run_one [OF sig_step.init])

lemma run_smunch: "smunch E P pid b k = (r, k') \<Longrightarrow> sig_run E k k'"
  by (rule run_one [OF sig_step.smunch])

lemma run_deepsleep: "sig_run E k (deepsleep k)"
  unfolding deepsleep_def by (rule run_one [OF sig_step.run_state])

section \<open>All calls\<close>

text \<open>The state an outcome leaves, if the machine goes on.\<close>

fun state_after :: "outcome \<Rightarrow> kstate option" where
  "state_after (Ret r st k) = Some k"
| "state_after (Waits k) = Some k"
| "state_after (Oops f) = None"

text \<open>The code outside the repository acts on the signal system only through its steps.\<close>

definition outside_ok :: "sysenv \<Rightarrow> bool" where
  "outside_ok S \<longleftrightarrow> sleeps_ok (kern S) (sleep S) \<and> (\<forall>n. sleeps_ok (kern S) (\<lambda>k. snd (timed_sleep S n k))) \<and>
     list_all (sleeps_ok (kern S)) (pauses S) \<and> (\<forall>k. sig_run (kern S) k (snd (restart_fn S k))) \<and>
     (\<forall>h args k k'. state_after (elsewhere S h args k) = Some k' \<longrightarrow> sig_run (kern S) k k')"

lemma run_ret_wait:
  assumes "\<And>r k'. p = Some (r, k') \<Longrightarrow> sig_run E k k'" and "state_after (ret_wait k p) = Some k'"
  shows "sig_run E k k'"
  using assms sig_run.refl [of E k] by (cases p) auto

lemma run_ret_pair:
  assumes "\<And>r k'. p = (r, k') \<Longrightarrow> sig_run E k k'" and "state_after (ret_pair p) = Some k'"
  shows "sig_run E k k'"
  using assms by (cases p) auto

lemma run_handle_kill:
  assumes "handle_kill S h args k = Some out" and "state_after out = Some k'"
  shows "sig_run (kern S) k k'"
  using assms by (auto simp: handle_kill_def Let_def split: if_splits
      intro: run_ret_wait [OF run_kill_calls(1)] run_ret_pair [OF run_kill_calls(2)] run_ret_pair [OF run_kill_calls(3)]
        run_ret_wait [OF run_kill_calls(4)] run_ret_pair [OF run_kill_calls(5)])

lemma run_handle_mask:
  assumes "handle_mask S h args k = Some out" and "state_after out = Some k'"
  shows "sig_run (kern S) k k'"
  using assms sig_run.refl [of "kern S" k] by (auto simp: handle_mask_def Let_def split: if_splits prod.splits
      intro: run_procmask run_sigaction)

lemma run_handle_wait:
  assumes "sig_inv k" and "outside_ok S" and "handle_wait S h args k = Some out" and "state_after out = Some k'"
  shows "sig_run (kern S) k k'"
proof -
  have o: "sleeps_ok (kern S) (sleep S)" "\<And>n. sleeps_ok (kern S) (\<lambda>k. snd (timed_sleep S n k))"
    "list_all (sleeps_ok (kern S)) (pauses S)" "sig_run (kern S) k (snd (restart_fn S k))"
    using assms(2) by (simp_all add: outside_ok_def)
  have r: "sys_restart_syscall (restart_fn S) k = (r, k1) \<Longrightarrow> sig_run (kern S) k k1" for r k1
    using o(4) by (simp add: sys_restart_syscall_def)
  show ?thesis using assms(3,4)
    by (auto simp: handle_wait_def Let_def split: if_splits prod.splits intro: run_sigtimedwait [OF assms(1) o(2)]
        run_ret_pair [OF run_sigsuspend [OF o(1)]] run_ret_wait [OF run_pause [OF o(3)]] run_ret_pair [OF r])
qed

lemma run_handle_added:
  assumes "handle_added S h args k = Some out" and "state_after out = Some k'"
  shows "sig_run (kern S) k k'"
  using assms sig_run.refl [of "kern S" k] by (auto simp: handle_added_def Let_def split: if_splits prod.splits sum.splits
      intro: run_init run_smunch run_deepsleep)

lemma first_some_cases:
  assumes "first_some [a, b, c, d] = x"
  obtains "x = None" | v where "x = Some v" "a = x" | v where "x = Some v" "b = x"
    | v where "x = Some v" "c = x" | v where "x = Some v" "d = x"
  using assms by (cases a; cases b; cases c; cases d) auto

lemma run_syscall:
  assumes i: "sig_inv k" and o: "outside_ok S" and s: "state_after (do_syscall S nr args k) = Some k'"
  shows "sig_run (kern S) k k'"
proof -
  define h where "h = (case syscall_handler nr of None \<Rightarrow> '''' | Some h \<Rightarrow> h)"
  define x where "x = first_some [handle_kill S h args k, handle_mask S h args k, handle_wait S h args k, handle_added S h args k]"
  have d: "do_syscall S nr args k = (case x of None \<Rightarrow> elsewhere S h args k | Some out \<Rightarrow> out)"
    unfolding do_syscall_def Let_def h_def [symmetric] x_def [symmetric] ..
  show ?thesis
    using x_def [symmetric]
  proof (cases rule: first_some_cases)
    case 1
    with d s o show ?thesis by (simp add: outside_ok_def)
  qed (use d s run_handle_kill run_handle_mask run_handle_wait [OF i o] run_handle_added in auto)
qed

end
