(* ===== verification/Sig_Test_Programs.thy ===== *)
theory Sig_Test_Programs
  imports Sig_Syscall_Facts
begin

text \<open>
  The test programs of the added calls as the system calls they make: \<open>testsignal.c\<close> (a parent
  that signals its child in rounds and a handler in the child that reads the counters),
  \<open>testkill.c\<close>, \<open>sleeper.c\<close>, \<open>zombie.c\<close>, \<open>testtime.c\<close> and \<open>gg.c\<close>. Every added call
  goes through the table by its number and through the user side's \<open>__syscall_return\<close>.
\<close>

section \<open>Sequences of calls\<close>

text \<open>The results of the calls a program makes one after the other; \<open>None\<close> when one does not return.\<close>

fun make_calls :: "sysenv \<Rightarrow> (nat \<times> u64 list) list \<Rightarrow> kstate \<Rightarrow> (int list \<times> kstate) option" where
  "make_calls S [] ks = Some ([], ks)"
| "make_calls S ((nr, args) # cs) ks =
     (case user_call (trap S) nr args ks of
        None \<Rightarrow> None
      | Some (r, errno, ks) \<Rightarrow>
          (case make_calls S cs ks of None \<Rightarrow> None | Some (rs, ks) \<Rightarrow> Some (r # rs, ks)))"

lemma make_calls_append:
  "make_calls S (cs @ ds) ks = (case make_calls S cs ks of None \<Rightarrow> None
     | Some (rs, ks1) \<Rightarrow> (case make_calls S ds ks1 of None \<Rightarrow> None | Some (qs, ks2) \<Rightarrow> Some (rs @ qs, ks2)))"
  by (induction cs arbitrary: ks) (auto split: option.splits prod.splits)

section \<open>The programs\<close>

text \<open>The parent of \<open>testsignal.c\<close>, \<open>n\<close> times round its loop, and the handler \<open>happy\<close> of the child.\<close>

definition testsignal_round :: "u64 \<Rightarrow> (nat \<times> u64 list) list" where
  "testsignal_round pid = map (\<lambda>sig. (62, [pid, word_of_int sig])) test_round"

definition testsignal_parent :: "nat \<Rightarrow> u64 \<Rightarrow> (nat \<times> u64 list) list" where
  "testsignal_parent n pid = (313, [pid]) # concat (replicate n (testsignal_round pid))"

definition happy :: "(nat \<times> u64 list) list" where
  "happy = map (\<lambda>sig. (314, [sig])) [10, 19, 18, 28]"

text \<open>\<open>testkill\<close>: \<open>bitpattern\<close> is SIGKILL and signal 3.\<close>

definition testkill_main :: "u64 \<Rightarrow> (nat \<times> u64 list) list" where
  "testkill_main pid = [(316, [pid, testkill_pattern])]"

definition sleeper_main :: "(nat \<times> u64 list) list" where
  "sleeper_main = [(315, [])]"

text \<open>\<open>testtime.c\<close> and \<open>gg.c\<close> hand \<open>goober\<close> the address of a local variable.\<close>

definition testtime_main :: "u64 \<Rightarrow> (nat \<times> u64 list) list" where
  "testtime_main time = [(312, [time])]"

text \<open>\<open>zombie.c\<close>: what the two processes print and call. \<open>fork\<close> answers 0 in the child; every
  other answer, -1 included, makes a parent, which sleeps forever: \<open>n\<close> counts its rounds.\<close>

datatype u_step = Print string int | Exit int | Sleep nat

definition zombie_main :: "int \<Rightarrow> int \<Rightarrow> nat \<Rightarrow> u_step list" where
  "zombie_main pid getpid n =
     (if pid = 0 then [Print ''try to get pid'' getpid, Exit 0]
      else Print ''without killing'' getpid # replicate n (Sleep 20))"

text \<open>The child exits and the parent, which neither ends nor waits, leaves it a zombie: in any
  number of rounds it only sleeps.\<close>

lemma zombie_stays:
  "last (zombie_main 0 p n) = Exit 0"
  "pid \<noteq> 0 \<Longrightarrow> tl (zombie_main pid p n) = replicate n (Sleep 20)"
  by (simp_all add: zombie_main_def)

section \<open>What the user side sees\<close>

lemma smunch_results: "fst (smunch E P pid b k) = 0 \<or> fst (smunch E P pid b k) = -1"
  by (auto simp: smunch_def split: option.splits)

lemma int_result_high: "(ucast (drop_bit 32 (int_result upper r)) :: u32) = upper"
  by (rule bit_word_eqI) (auto simp: int_result_def bit_simps)

lemma half_bounds:
  fixes R :: int
  assumes "18446744073709551491 \<le> R" and "R < 18446744073709551616"
  shows "R div 4294967296 = 4294967295" and "4294967171 \<le> R mod 4294967296"
proof -
  show a: "R div 4294967296 = 4294967295" using assms by linarith
  show "4294967171 \<le> R mod 4294967296" using a assms(1) by (simp add: minus_div_mult_eq_mod [symmetric])
qed

lemma int_result_uint:
  "uint upper = take_bit 32 (uint (int_result upper r) div 4294967296)"
  "uint (word_of_int r :: u32) = uint (int_result upper r) mod 4294967296"
proof -
  let ?R = "int_result upper r"
  have "take_bit 64 (uint ?R) = uint ?R" using uint_lt2p [of ?R] by (intro take_bit_int_eq_self) simp_all
  then have "uint (ucast (drop_bit 32 ?R) :: u32) = take_bit 32 (uint ?R div 4294967296)"
    by (simp only: unsigned_ucast_eq unsigned_drop_bit_eq) (simp add: drop_bit_eq_div)
  then show "uint upper = take_bit 32 (uint ?R div 4294967296)" unfolding int_result_high .
  have "uint (ucast ?R :: u32) = uint ?R mod 4294967296"
    by (simp only: unsigned_ucast_eq take_bit_eq_mod) simp
  then show "uint (word_of_int r :: u32) = uint ?R mod 4294967296" unfolding int_result_low .
qed

lemma syscall_return_low:
  assumes "\<not> (upper = - 1 \<and> (word_of_int r :: u32) \<ge> - 125)"
  shows "syscall_return (int_result upper r) = (int_result upper r, None)"
proof -
  let ?R = "int_result upper r"
  have "\<not> ?R \<ge> - 125"
  proof
    assume "?R \<ge> - 125"
    then have g: "18446744073709551491 \<le> uint ?R" by (simp add: word_le_def)
    have "uint ?R < 18446744073709551616" using uint_lt2p [of ?R] by simp
    note h = half_bounds [OF g this]
    have "uint upper = 4294967295" using int_result_uint(1) [of upper r] unfolding h(1) by (simp add: take_bit_eq_mod)
    then have "uint upper = uint (- 1 :: u32)" by (simp add: unsigned_minus_1_eq_mask mask_eq_exp_minus_1)
    then have "upper = - 1" by (simp only: word_uint_eq_iff)
    moreover have "- 125 \<le> (word_of_int r :: u32)"
      using h(2) unfolding int_result_uint(2) [symmetric] by (simp add: word_le_def)
    ultimately show False using assms by blast
  qed
  then show ?thesis by (simp add: syscall_return_def)
qed

section \<open>Counting through system calls\<close>

text \<open>The caller may signal task \<open>p\<close>, as its owner, and neither audit nor security objects.\<close>

definition may_signal :: "kenv \<Rightarrow> nat \<Rightarrow> kstate \<Rightarrow> bool" where
  "may_signal E p k \<longleftrightarrow> (\<forall>sig a. audit_signal_info E sig p = 0 \<and> security_task_kill E p a sig = 0) \<and>
     (same_thread_group (tasks k (cur k)) (tasks k p) \<or> kill_ok_by_cred E p k)"

text \<open>Task \<open>t\<close> runs and may signal \<open>p\<close>, whose counters hold \<open>c\<close>.\<close>

definition counting :: "kenv \<Rightarrow> nat \<Rightarrow> nat \<Rightarrow> nat \<Rightarrow> (int \<Rightarrow> u32) \<Rightarrow> kstate \<Rightarrow> bool" where
  "counting E t p h c k \<longleftrightarrow> cur k = t \<and> t_sighand (tasks k p) = Some h \<and> may_signal E p k \<and>
     length (counters (sighands k h)) = 64 \<and> (\<forall>i. 0 \<le> i \<and> i < 64 \<longrightarrow> counters (sighands k h) ! nat i = c i)"

lemma send_result: "fst (send_signal E sig a p grp k) \<noteq> - ESRCH"
  by (auto simp: send_signal_def send_signal_raw_def Let_def split: prod.splits bool.splits)

lemma send_counting:
  assumes c: "counting E t p h c k" and sig: "0 < sig" "sig < 64" and s: "do_send_sig_info E sig a p True k = (r, k')"
  shows "counting E t p h (c(sig := c sig + 1)) k' \<and> r \<noteq> - ESRCH"
proof -
  have h: "t_sighand (tasks k p) = Some h" and len: "length (counters (sighands k h)) = 64"
    using c by (simp_all add: counting_def)
  have i: "0 \<le> sig" "nat sig < length (counters (sighands k h))" using sig len by simp_all
  note d = do_send_counts [OF h i s]
  obtain q k1 where sd: "send_signal E sig a p True k = (q, k1)" by fastforce
  have sk: "skel k1 = skel k" using skel_send_signal [of E sig a p True k] sd by simp
  have "k' = bump_counter h sig k1" using s h sd by (simp add: do_send_sig_info_def lock_task_sighand_def)
  then have tk: "tasks k' = tasks k1" by simp
  have "may_signal E p k' = may_signal E p k"
    unfolding may_signal_def same_thread_group_def kill_ok_by_cred_def Let_def tk d(3) skel_sel(8,9) [OF sk] ..
  moreover have "nat sig = nat j \<longleftrightarrow> sig = j" if "0 \<le> j" for j using sig that by auto
  ultimately show ?thesis using c d(1,3,4) d(2) [of p] len i send_result [of E sig a p True k]
    by (auto simp: counting_def nth_list_update)
qed

lemma int_arg_small: "0 \<le> n \<Longrightarrow> n < 2 ^ 31 \<Longrightarrow> int_arg (word_of_int n) = n"
proof -
  assume n: "0 \<le> n" "n < 2 ^ 31"
  then have "uint (word_of_int n :: u64) = n" by (simp add: unsigned_of_int take_bit_int_eq_self)
  then have "(ucast (word_of_int n :: u64) :: u32) = word_of_int n" by (metis ucast_eq)
  then show ?thesis using n by (simp add: int_arg_def signed_of_int signed_take_bit_int_eq_self)
qed

lemma may_signal_check:
  assumes "may_signal E p k" and "0 \<le> sig" "sig \<le> 64"
  shows "check_kill_permission E sig a p k = 0"
proof -
  have "audit_signal_info E sig p = 0" "security_task_kill E p a sig = 0"
    "same_thread_group (tasks k (cur k)) (tasks k p) \<or> kill_ok_by_cred E p k"
    using assms(1) unfolding may_signal_def by blast+
  then show ?thesis using assms(2,3) by (auto simp: check_kill_permission_def valid_signal_def)
qed

lemma kill_counting:
  assumes c: "counting (kern S) t p h c k" and l: "0 < int_arg pid" "lookups (pids S) (int_arg pid) = Some p # ls"
    and sig: "0 < sig" "sig < 64"
  shows "\<exists>r e k'. user_call (trap S) 62 [pid, word_of_int sig] k = Some (r, e, k') \<and>
    counting (kern S) t p h (c(sig := c sig + 1)) k'"
proof -
  let ?a = "user_info (stack_garbage S) (pids S) sig k"
  have n: "int_arg (word_of_int sig) = sig" using sig by (simp add: int_arg_small)
  have "check_kill_permission (kern S) sig ?a p k = 0"
    using c sig by (simp add: counting_def may_signal_check)
  moreover obtain r k' where s: "do_send_sig_info (kern S) sig ?a p True k = (r, k')" by fastforce
  ultimately have "sys_kill (kern S) (pids S) (stack_garbage S) (int_arg pid) sig k = Some (r, k')"
    using l sig send_counting [OF c sig s]
    by (simp add: sys_kill_def kill_something_info_def kill_pid_info_def group_send_sig_info_def user_info_def)
  then have "trap S 62 [pid, word_of_int sig] k = Some (long_result r, k')"
    by (simp add: trap_def kill_call n)
  then show ?thesis using send_counting [OF c sig s] by (auto simp: user_call_def split: prod.splits)
qed

lemma kills_counting:
  assumes "counting (kern S) t p h c k" and l: "0 < int_arg pid" "lookups (pids S) (int_arg pid) = Some p # ls"
    and "\<forall>sig \<in> set sigs. 0 < sig \<and> sig < 64"
  shows "\<exists>rs k'. make_calls S (map (\<lambda>sig. (62, [pid, word_of_int sig])) sigs) k = Some (rs, k') \<and>
    counting (kern S) t p h (\<lambda>i. c i + of_nat (count_list sigs i)) k'"
  using assms(1,4)
proof (induction sigs arbitrary: c k)
  case (Cons sig sigs)
  from kill_counting [OF Cons.prems(1) l, of sig] Cons.prems(2) obtain r e k1
    where 1: "user_call (trap S) 62 [pid, word_of_int sig] k = Some (r, e, k1)"
      "counting (kern S) t p h (c(sig := c sig + 1)) k1" by auto
  from Cons.IH [OF 1(2)] Cons.prems(2) obtain rs k'
    where 2: "make_calls S (map (\<lambda>sig. (62, [pid, word_of_int sig])) sigs) k1 = Some (rs, k')"
      "counting (kern S) t p h (\<lambda>i. (c(sig := c sig + 1)) i + of_nat (count_list sigs i)) k'" by auto
  have "(\<lambda>i. (c(sig := c sig + 1)) i + of_nat (count_list sigs i)) = (\<lambda>i. c i + of_nat (count_list (sig # sigs) i))"
    by (auto simp: fun_eq_iff)
  with 1 2 show ?case by simp
qed simp

lemma init_counting:
  assumes p: "find_task (pids S) (int_arg pid) = Some p" and h: "t_sighand (tasks k p) = Some h"
    and len: "length (counters (sighands k h)) = 64" and m: "may_signal (kern S) p k"
  shows "\<exists>r e k1. user_call (trap S) 313 [pid] k = Some (r, e, k1) \<and> counting (kern S) (cur k) p h (\<lambda>_. 0) k1"
proof -
  let ?k = "ev (Ev_Overrun h 65) (ev (Ev_Overrun h 64) (upd_sighand h (\<lambda>s. s\<lparr>counters := replicate 64 0\<rparr>) k))"
  have "trap S 313 [pid] k = Some (int_result (upper_half S) 0, ?k)"
    using init_effect [OF p h len] by (simp add: trap_def added_calls)
  moreover have "may_signal (kern S) p ?k = may_signal (kern S) p k"
    by (simp add: may_signal_def same_thread_group_def kill_ok_by_cred_def)
  then have "counting (kern S) (cur k) p h (\<lambda>_. 0) ?k" using h m by (simp add: counting_def nat_less_iff)
  ultimately show ?thesis by (auto simp: user_call_def split: prod.splits)
qed

lemma read_counter:
  assumes h: "t_sighand (tasks k (cur k)) = Some h" and len: "length (counters (sighands k h)) = 64"
    and sig: "0 \<le> sig" "sig < 64" and c: "counters (sighands k h) ! nat sig = of_nat n" and n: "n < 2 ^ 31"
  shows "\<exists>e. user_call (trap S) 314 [word_of_int sig] k = Some (int n, e, k)"
proof -
  have s: "sint (of_nat n :: u32) = int n" using n by (simp add: signed_of_nat signed_take_bit_int_eq_self)
  have "get_sigcounter (stray_word S) (int_arg (word_of_int sig)) k = Inr (int n)"
    using h len sig c s by (simp add: get_sigcounter_def int_arg_small nat_less_iff)
  then have t: "trap S 314 [word_of_int sig] k = Some (int_result (upper_half S) (int n), k)"
    by (simp add: trap_def added_calls)
  have "\<not> (word_of_int (int n) :: u32) \<ge> - 125"
    using n by (simp add: word_le_def unsigned_of_nat take_bit_nat_eq_self)
  then have "syscall_return (int_result (upper_half S) (int n)) = (int_result (upper_half S) (int n), None)"
    by (intro syscall_return_low) simp
  then show ?thesis using t s by (simp add: user_call_def)
qed

lemma make_calls_stable:
  assumes "\<forall>c \<in> set cs. \<exists>e. user_call (trap S) (fst c) (snd c) k = Some (v, e, k)"
  shows "make_calls S cs k = Some (replicate (length cs) v, k)"
  using assms
proof (induction cs)
  case (Cons c cs)
  then obtain e where "user_call (trap S) (fst c) (snd c) k = Some (v, e, k)" by auto
  with Cons show ?case by (cases c) auto
qed simp

lemma count_rounds: "count_list (concat (replicate n test_round)) i = (if i \<in> set test_round then n else 0)"
  by (induction n) (auto simp: test_round_def)

lemma happy_counts:
  assumes c: "counting E t p h (\<lambda>i. of_nat (count_list (concat (replicate n test_round)) i)) k" and n: "n < 2 ^ 31"
  shows "make_calls S happy (k\<lparr>cur := p\<rparr>) = Some ([int n, int n, int n, int n], k\<lparr>cur := p\<rparr>)"
proof -
  have "\<exists>e. user_call (trap S) 314 [word_of_int sig] (k\<lparr>cur := p\<rparr>) = Some (int n, e, k\<lparr>cur := p\<rparr>)"
    if "sig \<in> set test_round" for sig
  proof -
    have b: "0 \<le> sig" "sig < 64" using that by (auto simp: test_round_def)
    have "counters (sighands k h) ! nat sig = of_nat (count_list (concat (replicate n test_round)) sig)"
      using c b unfolding counting_def by blast
    then show ?thesis using c b that
      by (intro read_counter [OF _ _ b _ n, of _ h]) (simp_all add: counting_def count_rounds)
  qed
  from this [of 10] this [of 18] this [of 19] this [of 28]
  have "make_calls S happy (k\<lparr>cur := p\<rparr>) = Some (replicate (length happy) (int n), k\<lparr>cur := p\<rparr>)"
    by (intro make_calls_stable) (simp add: happy_def test_round_def)
  then show ?thesis by (simp add: happy_def)
qed

lemma parent_counts:
  assumes p: "find_task (pids S) (int_arg pid) = Some p" and h: "t_sighand (tasks k p) = Some h"
    and len: "length (counters (sighands k h)) = 64" and m: "may_signal (kern S) p k"
    and l: "0 < int_arg pid" "lookups (pids S) (int_arg pid) = Some p # ls"
  shows "\<exists>rs k'. make_calls S (testsignal_parent n pid) k = Some (rs, k') \<and>
    counting (kern S) (cur k) p h (\<lambda>i. of_nat (count_list (concat (replicate n test_round)) i)) k'"
proof -
  obtain r e k1 where 1: "user_call (trap S) 313 [pid] k = Some (r, e, k1)" "counting (kern S) (cur k) p h (\<lambda>_. 0) k1"
    using init_counting [OF p h len m] by blast
  have "concat (replicate n (testsignal_round pid)) = map (\<lambda>sig. (62, [pid, word_of_int sig])) (concat (replicate n test_round))"
    by (simp add: testsignal_round_def map_concat map_replicate)
  moreover have "\<forall>sig \<in> set (concat (replicate n test_round)). 0 < sig \<and> sig < 64" by (auto simp: test_round_def)
  ultimately obtain rs k' where "make_calls S (concat (replicate n (testsignal_round pid))) k1 = Some (rs, k')"
    "counting (kern S) (cur k) p h (\<lambda>i. 0 + of_nat (count_list (concat (replicate n test_round)) i)) k'"
    using kills_counting [OF 1(2) l] by metis
  with 1 show ?thesis by (simp add: testsignal_parent_def)
qed

end
