(* ===== verification/Sig_Records.thy ===== *)
theory Sig_Records
  imports Sig_Syscall_Facts
begin

text \<open>
  Which records the calls of the kill family can put into a queue: only the one they were given or
  made up, with the sender's pid cleared when the target lives in another pid namespace.
\<close>

definition records :: "kstate \<Rightarrow> pend_loc \<Rightarrow> siginfo set" where
  "records k l = set (snd (pview k l))"

definition adds_only :: "siginfo set \<Rightarrow> kstate \<Rightarrow> kstate \<Rightarrow> bool" where
  "adds_only I k k' \<longleftrightarrow> (\<forall>l. records k' l \<subseteq> records k l \<union> I)"

lemma adds_only_refl [simp]: "adds_only I k k"
  by (simp add: adds_only_def)

lemma adds_only_trans: "adds_only I k k1 \<Longrightarrow> adds_only I k1 k2 \<Longrightarrow> adds_only I k k2"
  by (fastforce simp: adds_only_def)

lemma adds_only_pv: "pv k' = pv k \<Longrightarrow> adds_only I k k'"
  by (simp add: adds_only_def records_def pview_def pv_def fun_eq_iff)

text \<open>The record of a \<open>siginfo\<close> argument in the queue of a target.\<close>

definition as_sent :: "siginfo \<Rightarrow> siginfo set" where
  "as_sent i = {i, i\<lparr>si_pid := 0\<rparr>}"

lemma queue_adds: "queue_info E sig (Info i) t l ns k = (b, k') \<Longrightarrow> adds_only (as_sent i) k k'"
proof -
  assume r: "queue_info E sig (Info i) t l ns k = (b, k')"
  obtain res k0 where al: "sigqueue_alloc_raw E sig t (override_rlimit sig (Info i)) k = (res, k0)" by fastforce
  note ae = alloc_effect(1,2) [OF al]
  show ?thesis
  proof (cases res)
    case None
    with r al ae show ?thesis by (auto simp: queue_info_def adds_only_def records_def pview_def)
  next
    case (Some q)
    then have "k' = set_q_info q (fill_info E sig (Info i) t ns k0) (list_add_tail q l k0)"
      using r al by (simp add: queue_info_def)
    then show ?thesis
      by (auto simp: adds_only_def records_def pview_def set_q_info_effect list_add_effect ae fill_info_def as_sent_def
          split: if_splits)
  qed
qed

lemma records_set [simp]: "records (set_psignal f l k) m = records k m"
  by (auto simp: records_def pview_def pending_at_set pend_frame_more(5) [OF pend_frame_set])

lemma out_adds: "adds_only I k (out_set E sig t grp l k)"
proof -
  have "records (complete_signal E sig t grp k1) m = records k1 m" for k1 m
    using complete_grown [of k1 m E sig t grp] by (simp add: records_def grown_def)
  moreover have "records (ev e k) m = records k m" for e m
    using adds_only_pv [of "ev e k" k "{}"] adds_only_pv [of k "ev e k" "{}"] pv_misc(1) [of e k]
    by (auto simp: adds_only_def)
  ultimately show ?thesis by (simp add: adds_only_def out_set_def)
qed

lemma send_adds:
  assumes q: "queues_ok k" and d: "distinct (s_threads (sig_of k t))"
    and r: "send_signal_raw E sig (Info i) t grp ns k = (r, k')"
  shows "adds_only (as_sent i) k k'"
proof -
  obtain c k1 where p: "prepare_signal E sig t ns k = (c, k1)" by fastforce
  have 1: "adds_only (as_sent i) k k1"
    using prepare_cleaned(1) [OF q d p]
    by (auto simp: adds_only_def records_def cleaned_def remove_spec_def split: prod.splits)
  let ?l = "pend_target k1 t grp"
  obtain b k2 where qi: "queue_info E sig (Info i) t ?l ns k1 = (b, k2)" by fastforce
  have 2: "adds_only (as_sent i) k k2" using adds_only_trans [OF 1 queue_adds [OF qi]] .
  show ?thesis
    using r p qi 1 2 adds_only_trans [OF 2 out_adds]
    by (auto simp: send_signal_raw_def Let_def split: if_splits bool.splits)
qed

lemma counted_send_adds:
  assumes i: "sig_inv k" and r: "do_send_sig_info E sig (Info i) p grp k = (r, k')"
  shows "adds_only (as_sent i) k k'"
proof -
  have d: "distinct (s_threads (sig_of k p))" and q: "queues_ok k"
    using i by (simp_all add: sig_inv_def sig_of_def groups_distinct)
  obtain q1 k1 where sd: "send_signal E sig (Info i) p grp k = (q1, k1)" by fastforce
  from send_adds [OF q d] sd have "adds_only (as_sent i) k k1" by (simp add: send_signal_def)
  then show ?thesis
    using r sd adds_only_trans [OF _ adds_only_pv [OF bump_frame]] by (auto simp: do_send_sig_info_def split: option.splits)
qed

text \<open>By the contract of \<open>send_closed\<close>, the same for every call that sends.\<close>

definition sends_info :: "int \<Rightarrow> sig_arg \<Rightarrow> kstate \<Rightarrow> kstate \<Rightarrow> bool" where
  "sends_info sig a k k' \<longleftrightarrow>
     (\<forall>i. a = Info i \<and> si_signo i = sig \<and> sig_inv k \<longrightarrow> sig_inv k' \<and> adds_only (as_sent i) k k')"

interpretation recs: send_closed E sends_info for E
proof
  fix sig a k k1 k2
  assume "sends_info sig a k k1" and "sends_info sig a k1 k2"
  then show "sends_info sig a k k2" unfolding sends_info_def using adds_only_trans by blast
next
  fix sig a p grp k r k'
  assume "signo sig" and "do_send_sig_info E sig a p grp k = (r, k')"
  then show "sends_info sig a k k'"
    using inv_send [of k sig a E p grp r k'] counted_send_adds [of k E sig _ p grp r k']
    by (auto simp: sends_info_def arg_ok_def)
qed (simp add: sends_info_def)

text \<open>What a record may claim about its origin: a code only user space uses, or the caller's own identity.\<close>

definition honest :: "sysenv \<Rightarrow> kstate \<Rightarrow> siginfo \<Rightarrow> bool" where
  "honest S k i \<longleftrightarrow> si_code i < 0 \<and> si_code i \<noteq> SI_TKILL \<or>
     (si_code i = SI_USER \<or> si_code i = SI_TKILL) \<and> si_uid i = c_uid (t_cred (tasks k (cur k))) \<and>
     (si_pid i = tgid_vnr (pids S) (cur k) \<or> si_pid i = 0)"

lemma as_sent_honest: "i \<in> as_sent j \<Longrightarrow> honest S k j \<Longrightarrow> honest S k i"
  by (auto simp: as_sent_def honest_def)

definition honest_step :: "sysenv \<Rightarrow> kstate \<Rightarrow> kstate \<Rightarrow> bool" where
  "honest_step S k k' \<longleftrightarrow> (\<forall>l. \<forall>i \<in> records k' l - records k l. honest S k i)"

lemma honest_adds:
  assumes "sends_info sig (Info i) k k'" and "si_signo i = sig" and "sig_inv k" and "honest S k i"
  shows "honest_step S k k'"
proof -
  have "adds_only (as_sent i) k k'" using assms(1-3) by (simp add: sends_info_def)
  with as_sent_honest [OF _ assms(4)] show ?thesis unfolding adds_only_def honest_step_def by blast
qed

lemma honest_pv: "pv k' = pv k \<Longrightarrow> honest_step S k k'"
  using adds_only_pv [of k' k "{}"] by (fastforce simp: adds_only_def honest_step_def)

lemma honest_call:
  assumes i: "sig_inv k" and h: "handle_kill S h args k = Some out" and s: "state_after out = Some k'"
  shows "honest_step S k k'"
proof -
  have kill: "honest_step S k k1" if "sys_kill (kern S) (pids S) st pid sig k = Some (r, k1)" for st pid sig r k1
    using recs.kill_call_sends [OF that] i by (auto intro: honest_adds simp: honest_def)
  have tkill: "honest_step S k k1"
    if "sys_tkill (kern S) (pids S) pid sig k = (r, k1) \<or> sys_tgkill (kern S) (pids S) tgid pid sig k = (r, k1)" for pid tgid sig r k1
    using recs.tkill_call_sends [OF that] i by (auto intro: honest_adds simp: honest_def)
  have qinfo: "honest_step S k k1"
    if "sys_rt_sigqueueinfo (kern S) (pids S) pid sig ui k = Some (r, k1) \<or>
      sys_rt_tgsigqueueinfo (kern S) (pids S) tgid pid sig ui k = (r, k1)" for pid tgid sig ui r k1
    using recs.queueinfo_call_sends [OF that] i honest_pv [of k k] honest_pv [of "ev Ev_Warn k" k]
    by (auto intro: honest_adds simp: honest_def frame_simps)
  have stay: "honest_step S k k" by (simp add: honest_pv)
  have wait: "honest_step S k k'" if "state_after (ret_wait k p) = Some k'" "\<And>r k1. p = Some (r, k1) \<Longrightarrow> honest_step S k k1" for p
    using that stay by (cases p) auto
  have pair: "honest_step S k k'" if "state_after (ret_pair p) = Some k'" "\<And>r k1. p = (r, k1) \<Longrightarrow> honest_step S k k1" for p
    using that by (cases p) auto
  show ?thesis
    using h s by (auto simp: handle_kill_def Let_def split: if_splits
        intro: wait [OF _ kill] wait [OF _ qinfo] pair [OF _ tkill] pair [OF _ qinfo])
qed

text \<open>The handlers the numbers of the kill family lead to.\<close>

lemma dispatch_kill:
  assumes "syscall_handler nr = Some h" and "handle_kill S h args k = Some out"
  shows "do_syscall S nr args k = out"
  using assms by (simp add: do_syscall_def)

lemma kill_numbers:
  assumes "nr \<in> {62, 129, 200, 234, 297}"
  shows "\<exists>h out. do_syscall S nr args k = out \<and> handle_kill S h args k = Some out"
proof -
  have "\<exists>h \<in> {''sys_kill'', ''sys_rt_sigqueueinfo'', ''sys_tkill'', ''sys_tgkill'', ''sys_rt_tgsigqueueinfo''}.
      syscall_handler nr = Some h"
    using assms by (elim insertE emptyE) (simp_all add: signal_handlers)
  then obtain h where h: "h \<in> {''sys_kill'', ''sys_rt_sigqueueinfo'', ''sys_tkill'', ''sys_tgkill'', ''sys_rt_tgsigqueueinfo''}"
    "syscall_handler nr = Some h" by (rule bexE)
  from h(1) have "handle_kill S h args k \<noteq> None"
    by (elim insertE emptyE) (simp_all add: handle_kill_def Let_def)
  then obtain out where "handle_kill S h args k = Some out" unfolding not_None_eq ..
  with dispatch_kill [OF h(2)] show ?thesis by blast
qed

end
