(* ===== verification/Sig_Report.thy ===== *)
theory Sig_Report
  imports Sig_Mask
begin

text \<open>
  What \<open>signal.c\<close> hands to user space and to the console: \<open>copy_siginfo_to_user\<close>, which copies
  the fields that belong to the kind of the signal and nothing else, and the messages about
  dropped and fatal signals.
\<close>

section \<open>\<open>copy_siginfo_to_user\<close>\<close>

text \<open>The fields of \<open>siginfo_t\<close> the function names; those after \<open>F_code\<close> share a union.\<close>

datatype si_field = F_signo | F_errno | F_code | F_pid | F_uid | F_tid | F_overrun | F_ptr | F_band | F_fd
  | F_addr | F_trapno | F_addr_lsb | F_status | F_utime | F_stime

text \<open>The values of \<open>si_code & __SI_MASK\<close>; their encoding, and whether the architecture has a trap
  number and the \<open>BUS_MCEERR\<close> codes, come from headers outside the repository.\<close>

datatype si_kind = SI_KILL_kind | SI_TIMER_kind | SI_POLL_kind | SI_FAULT_kind | SI_CHLD_kind | SI_RT_kind
  | SI_MESGQ_kind | Other_kind

record si_layout =
  kind_of :: "int \<Rightarrow> si_kind"
  has_trapno :: bool
  is_mceerr :: "int \<Rightarrow> bool"

definition kind_fields :: "si_layout \<Rightarrow> int \<Rightarrow> si_field list" where
  "kind_fields L code =
     (case kind_of L code of
        SI_KILL_kind \<Rightarrow> [F_pid, F_uid]
      | SI_TIMER_kind \<Rightarrow> [F_tid, F_overrun, F_ptr]
      | SI_POLL_kind \<Rightarrow> [F_band, F_fd]
      | SI_FAULT_kind \<Rightarrow> [F_addr] @ (if has_trapno L then [F_trapno] else []) @ (if is_mceerr L code then [F_addr_lsb] else [])
      | SI_CHLD_kind \<Rightarrow> [F_pid, F_uid, F_status, F_utime, F_stime]
      | SI_RT_kind \<Rightarrow> [F_pid, F_uid, F_ptr]
      | SI_MESGQ_kind \<Rightarrow> [F_pid, F_uid, F_ptr]
      | Other_kind \<Rightarrow> [F_pid, F_uid])"

text \<open>What reaches user memory: nothing, the whole structure, or single fields.\<close>

datatype user_copy = Whole | Fields "(si_field \<times> int) list"

text \<open>One \<open>err |= __put_user(v, &to->f)\<close>: errors accumulate, later fields are still tried.\<close>

definition put_field :: "(si_field \<Rightarrow> bool) \<Rightarrow> si_field \<times> int \<Rightarrow> int \<times> (si_field \<times> int) list \<Rightarrow> int \<times> (si_field \<times> int) list" where
  "put_field put_ok fv st =
     (if put_ok (fst fv) then (fst st, snd st @ [fv]) else (- EFAULT, snd st))"

definition copy_siginfo_to_user ::
  "si_layout \<Rightarrow> bool \<Rightarrow> bool \<Rightarrow> (si_field \<Rightarrow> bool) \<Rightarrow> (si_field \<Rightarrow> int) \<Rightarrow> int \<times> user_copy" where
  "copy_siginfo_to_user L access_ok copy_ok put_ok from =
     (if \<not> access_ok then (- EFAULT, Fields [])
      else if from F_code < 0 then (if copy_ok then (0, Whole) else (- EFAULT, Fields []))
      else
        (case fold (put_field put_ok)
                ([(F_signo, from F_signo), (F_errno, from F_errno), (F_code, signed_take_bit 15 (from F_code))]
                 @ map (\<lambda>f. (f, from f)) (kind_fields L (from F_code))) (0, []) of
           (err, out) \<Rightarrow> (err, Fields out)))"

section \<open>Messages\<close>

datatype message = Msg_Dropped string int int | Msg_Fatal string int int "nat list"

text \<open>\<open>print_dropped_signal\<close>: only when asked for and not too often.\<close>

definition print_dropped_signal :: "int \<Rightarrow> bool \<Rightarrow> string \<Rightarrow> int \<Rightarrow> int \<Rightarrow> message list" where
  "print_dropped_signal print_fatal_signals ratelimit_ok comm pid sig =
     (if print_fatal_signals = 0 then []
      else if \<not> ratelimit_ok then []
      else [Msg_Dropped comm pid sig])"

text \<open>The code bytes of the 32-bit build, until one cannot be read.\<close>

fun code_bytes :: "(u64 \<Rightarrow> nat option) \<Rightarrow> u64 \<Rightarrow> nat \<Rightarrow> nat list" where
  "code_bytes get_user ip 0 = []"
| "code_bytes get_user ip (Suc n) =
     (case get_user ip of None \<Rightarrow> [] | Some insn \<Rightarrow> insn # code_bytes get_user (ip + 1) n)"

definition print_fatal_signal :: "bool \<Rightarrow> (u64 \<Rightarrow> nat option) \<Rightarrow> u64 \<Rightarrow> string \<Rightarrow> int \<Rightarrow> int \<Rightarrow> message list" where
  "print_fatal_signal i386 get_user ip comm pid signr =
     [Msg_Fatal comm pid signr (if i386 then code_bytes get_user ip 16 else [])]"

text \<open>The boot parameter: \<open>get_option\<close> stores the number it reads, if it reads one.\<close>

definition setup_print_fatal_signals :: "(string \<Rightarrow> int option) \<Rightarrow> string \<Rightarrow> int \<Rightarrow> int \<times> int" where
  "setup_print_fatal_signals get_option str print_fatal_signals =
     (1, case get_option str of None \<Rightarrow> print_fatal_signals | Some n \<Rightarrow> n)"

text \<open>At boot the cache of queue elements is created; \<open>KMEM_CACHE\<close> is given the structure and
  the flags, and with \<open>SLAB_PANIC\<close> it does not return without a cache. \<open>arch_vma_name\<close> is the weak
  default: the architecture names no mappings.\<close>

definition signals_init :: "(string \<Rightarrow> string \<Rightarrow> 'c) \<Rightarrow> 'c" where
  "signals_init KMEM_CACHE = KMEM_CACHE ''sigqueue'' ''SLAB_PANIC''"

definition arch_vma_name :: "'v \<Rightarrow> string option" where
  "arch_vma_name vma = None"

section \<open>Lemmas\<close>

lemma fold_put:
  "fold (put_field put_ok) fvs (err, out) =
     (if \<forall>fv \<in> set fvs. put_ok (fst fv) then err else - EFAULT, out @ filter (\<lambda>fv. put_ok (fst fv)) fvs)"
  by (induction fvs arbitrary: err out) (auto simp: put_field_def)

text \<open>What a copy may name: the three common fields and those of its kind.\<close>

definition named_fields :: "si_layout \<Rightarrow> int \<Rightarrow> si_field set" where
  "named_fields L code = {F_signo, F_errno, F_code} \<union> set (kind_fields L code)"

lemma copied_fields:
  assumes "copy_siginfo_to_user L True copy_ok put_ok from = (err, Fields out)" and "0 \<le> from F_code"
  shows "map fst out = filter put_ok ([F_signo, F_errno, F_code] @ kind_fields L (from F_code))"
    and "(f, v) \<in> set out \<Longrightarrow> v = (if f = F_code then signed_take_bit 15 (from F_code) else from f)"
    and "err = (if \<forall>f \<in> named_fields L (from F_code). put_ok f then 0 else - EFAULT)"
proof -
  let ?fvs = "[(F_signo, from F_signo), (F_errno, from F_errno), (F_code, signed_take_bit 15 (from F_code))]
    @ map (\<lambda>f. (f, from f)) (kind_fields L (from F_code))"
  have c: "F_code \<notin> set (kind_fields L (from F_code))"
    by (auto simp: kind_fields_def split: si_kind.splits)
  have r: "out = filter (\<lambda>fv. put_ok (fst fv)) ?fvs" "err = (if \<forall>fv \<in> set ?fvs. put_ok (fst fv) then 0 else - EFAULT)"
    using assms unfolding copy_siginfo_to_user_def fold_put by auto
  show "map fst out = filter put_ok ([F_signo, F_errno, F_code] @ kind_fields L (from F_code))"
    unfolding r(1) by (simp add: filter_map comp_def)
  show "(f, v) \<in> set out \<Longrightarrow> v = (if f = F_code then signed_take_bit 15 (from F_code) else from f)"
    unfolding r(1) set_filter using c by auto
  show "err = (if \<forall>f \<in> named_fields L (from F_code). put_ok f then 0 else - EFAULT)"
    unfolding r(2) by (simp add: named_fields_def)
qed

end
