(* ===== verification/Syscall_Properties.thy ===== *)
theory Syscall_Properties
  imports Sig_Test_Programs Delivery_Properties Sig_Records Sig_Report
begin

text \<open>
  Properties of the system call layer: the table, every call as a run of the signal system, the
  typing of the state across all calls, and what user programs get back from the added calls.
\<close>

section \<open>A sample machine\<close>

text \<open>The sample system of \<open>Signal_Sample\<close>, with readable and writable user memory and sleeps nothing happens in.\<close>

definition smp_sys :: sysenv where
  "smp_sys = \<lparr>kern = smp_env, pids = smp_pids, read_sigset = (\<lambda>a. Some 0), read_siginfo = (\<lambda>a. Some zero_siginfo),
     read_action = (\<lambda>a. Some smp_action), read_timespec = (\<lambda>a. Some (0, 0)), writable = (\<lambda>a. True), upper_half = 0,
     now_nsec = 0, stack_garbage = zero_siginfo, stray_word = (\<lambda>i. 0), timed_sleep = (\<lambda>n k. (n, k)), sleep = (\<lambda>k. k),
     pauses = [], restart_fn = (\<lambda>k. (- EINTR, k)), elsewhere = (\<lambda>h args k. Ret 0 [] k)\<rparr>"


section \<open>The table\<close>


section \<open>Calls and the state\<close>







section \<open>Where signals come from\<close>



section \<open>What user space sees of a record\<close>




section \<open>User programs\<close>

text \<open>A user's call of \<open>smunch\<close> has the effect and the result of the kernel's function on its
  arguments; \<open>errno\<close> is set on failure only if the unspecified upper half of the return register is all ones.\<close>

theorem user_smunch:
  "user_call (trap S) 316 [pid, pattern] k =
    (case smunch (kern S) (pids S) (int_arg pid) pattern k of
       (r, k') \<Rightarrow> Some (r, if r = -1 \<and> upper_half S = - 1 then Some EPERM else None, k'))"
proof -
  obtain r k' where s: "smunch (kern S) (pids S) (int_arg pid) pattern k = (r, k')" by fastforce
  have t: "trap S 316 [pid, pattern] k = Some (int_result (upper_half S) r, k')"
    using s by (simp add: trap_def added_calls)
  have r: "r = 0 \<or> r = -1" using smunch_results [of "kern S" "pids S" "int_arg pid" pattern k] s by simp
  show ?thesis
  proof (cases "r = -1 \<and> upper_half S = - 1")
    case True
    then have "int_result (upper_half S) r = - 1"
      by (intro bit_word_eqI) (auto simp: int_result_def bit_simps)
    moreover have "(ucast (- 1 :: u64) :: u32) = - 1" by (rule bit_word_eqI) (simp add: bit_simps)
    ultimately show ?thesis using t s True by (simp add: user_call_def syscall_return_def)
  next
    case False
    have "syscall_return (int_result (upper_half S) r) = (int_result (upper_half S) r, None)"
      by (rule syscall_return_low) (use False r in auto)
    with t s False r show ?thesis by (auto simp: user_call_def)
  qed
qed

text \<open>C36: the counter test through system calls: after the parent has made its first call and gone \<open>n < 2^31\<close>
  times round its loop, the child's handler prints \<open>n\<close> for each of the four signals.\<close>

theorem counter_test_counts:
  assumes "find_task (pids S) (int_arg pid) = Some p" and "t_sighand (tasks k p) = Some h"
    and "length (counters (sighands k h)) = 64" and "may_signal (kern S) p k"
    and "0 < int_arg pid" and "lookups (pids S) (int_arg pid) = Some p # ls" and "n < 2 ^ 31"
  shows "\<exists>rs k'. make_calls S (testsignal_parent n pid) k = Some (rs, k') \<and>
    make_calls S happy (k'\<lparr>cur := p\<rparr>) = Some ([int n, int n, int n, int n], k'\<lparr>cur := p\<rparr>)"
  using parent_counts [OF assms(1-6)] happy_counts [OF _ assms(7)] by blast

theorem counter_test_counts_witness:
  "\<exists>rs k'. make_calls smp_sys (testsignal_parent 3 5) smp_state = Some (rs, k') \<and>
    make_calls smp_sys happy (k'\<lparr>cur := 5\<rparr>) = Some ([3, 3, 3, 3], k'\<lparr>cur := 5\<rparr>)"
proof -
  have n: "int_arg 5 = 5" using int_arg_small [of 5] by simp
  have "may_signal smp_env 5 smp_state" by (simp add: may_signal_def same_thread_group_def smp_env_def)
  then show ?thesis
    using counter_test_counts [of smp_sys 5 5 smp_state 5 "[None]" 3] by (simp add: n smp_sys_def smp_pids_def)
qed

end
