(* ===== verification/Sched_Flags.thy ===== *)
theory Sched_Flags
  imports Sched_Task
begin

text \<open>
  The flag words and the arithmetic of \<open>sched.h\<close>: the cloning flags, the process flags, the
  flags of a memory map and of a scheduling domain, the state letters with the size check the
  compiler makes on them, priorities, and the fixed-point step of the load averages. Bits of
  one word are kept as a table in the order of the header, so that \<open>bits_apart\<close> says once for
  all of them that setting or clearing one flag leaves the others.
\<close>

section \<open>Tables of flags\<close>

definition bits_apart :: "u32 list \<Rightarrow> bool" where
  "bits_apart ws \<longleftrightarrow> sorted_wrt (\<lambda>a b. a AND b = 0) ws \<and> (\<forall>w\<in>set ws. \<exists>k\<in>set [0..<32]. w = push_bit k 1)"

lemma bits_apart_disjoint:
  assumes "bits_apart ws" and "i < length ws" and "j < length ws" and "i \<noteq> j"
  shows "ws ! i AND ws ! j = 0"
proof (cases "i < j")
  case True
  then show ?thesis using assms by (auto simp: bits_apart_def sorted_wrt_iff_nth_less)
next
  case False
  then have "ws ! j AND ws ! i = 0" using assms by (auto simp: bits_apart_def sorted_wrt_iff_nth_less)
  then show ?thesis by (simp add: and.commute)
qed

lemma flag_frame:
  fixes w a b :: u32
  assumes "a AND b = 0"
  shows "(w OR a) AND b = w AND b" and "(w AND NOT a) AND b = w AND b"
proof -
  from assms show "(w OR a) AND b = w AND b" by (simp add: bit.conj_disj_distrib2)
  show "(w AND NOT a) AND b = w AND b"
    using assms by (intro bit_eqI) (auto simp: bit_simps bit_eq_iff)
qed

definition CSIGNAL :: u32 where "CSIGNAL = 0x000000ff"

definition clone_flags :: "(string \<times> u32) list" where
  "clone_flags =
    [(''CLONE_VM'', 0x00000100), (''CLONE_FS'', 0x00000200), (''CLONE_FILES'', 0x00000400),
     (''CLONE_SIGHAND'', 0x00000800), (''CLONE_PTRACE'', 0x00002000), (''CLONE_VFORK'', 0x00004000),
     (''CLONE_PARENT'', 0x00008000), (''CLONE_THREAD'', 0x00010000), (''CLONE_NEWNS'', 0x00020000),
     (''CLONE_SYSVSEM'', 0x00040000), (''CLONE_SETTLS'', 0x00080000),
     (''CLONE_PARENT_SETTID'', 0x00100000), (''CLONE_CHILD_CLEARTID'', 0x00200000),
     (''CLONE_DETACHED'', 0x00400000), (''CLONE_UNTRACED'', 0x00800000),
     (''CLONE_CHILD_SETTID'', 0x01000000), (''CLONE_NEWUTS'', 0x04000000),
     (''CLONE_NEWIPC'', 0x08000000), (''CLONE_NEWUSER'', 0x10000000),
     (''CLONE_NEWPID'', 0x20000000), (''CLONE_NEWNET'', 0x40000000), (''CLONE_IO'', 0x80000000)]"

definition flag :: "(string \<times> u32) list \<Rightarrow> string \<Rightarrow> u32" where
  "flag tab n = (case map_of tab n of Some w \<Rightarrow> w | None \<Rightarrow> 0)"

definition CLONE_KERNEL :: u32 where
  "CLONE_KERNEL = flag clone_flags ''CLONE_FS'' OR flag clone_flags ''CLONE_FILES'' OR flag clone_flags ''CLONE_SIGHAND''"

definition process_flags :: "(string \<times> u32) list" where
  "process_flags =
    [(''PF_STARTING'', 0x00000002), (''PF_EXITING'', PF_EXITING), (''PF_EXITPIDONE'', 0x00000008),
     (''PF_VCPU'', 0x00000010), (''PF_WQ_WORKER'', 0x00000020), (''PF_FORKNOEXEC'', 0x00000040),
     (''PF_MCE_PROCESS'', 0x00000080), (''PF_SUPERPRIV'', 0x00000100), (''PF_DUMPCORE'', 0x00000200),
     (''PF_SIGNALED'', PF_SIGNALED), (''PF_MEMALLOC'', 0x00000800), (''PF_NPROC_EXCEEDED'', 0x00001000),
     (''PF_USED_MATH'', 0x00002000), (''PF_FREEZING'', 0x00004000), (''PF_NOFREEZE'', 0x00008000),
     (''PF_FROZEN'', 0x00010000), (''PF_FSTRANS'', 0x00020000), (''PF_KSWAPD'', 0x00040000),
     (''PF_LESS_THROTTLE'', 0x00100000), (''PF_KTHREAD'', 0x00200000), (''PF_RANDOMIZE'', 0x00400000),
     (''PF_SWAPWRITE'', 0x00800000), (''PF_SPREAD_PAGE'', 0x01000000), (''PF_SPREAD_SLAB'', 0x02000000),
     (''PF_THREAD_BOUND'', 0x04000000), (''PF_MCE_EARLY'', 0x08000000), (''PF_MEMPOLICY'', 0x10000000),
     (''PF_MUTEX_TESTER'', 0x20000000), (''PF_FREEZER_SKIP'', 0x40000000), (''PF_FREEZER_NOSIG'', 0x80000000)]"

definition domain_flags :: "(string \<times> u32) list" where
  "domain_flags =
    [(''SD_LOAD_BALANCE'', 0x0001), (''SD_BALANCE_NEWIDLE'', 0x0002), (''SD_BALANCE_EXEC'', 0x0004),
     (''SD_BALANCE_FORK'', 0x0008), (''SD_BALANCE_WAKE'', 0x0010), (''SD_WAKE_AFFINE'', 0x0020),
     (''SD_PREFER_LOCAL'', 0x0040), (''SD_SHARE_CPUPOWER'', 0x0080), (''SD_POWERSAVINGS_BALANCE'', 0x0100),
     (''SD_SHARE_PKG_RESOURCES'', 0x0200), (''SD_SERIALIZE'', 0x0400), (''SD_ASYM_PACKING'', 0x0800),
     (''SD_PREFER_SIBLING'', 0x1000), (''SD_OVERLAP'', 0x2000)]"

definition jobctl_bits :: "u32 list" where
  "jobctl_bits = [JOBCTL_STOP_DEQUEUED, JOBCTL_STOP_PENDING, JOBCTL_STOP_CONSUME, JOBCTL_TRAP_STOP,
     JOBCTL_TRAP_NOTIFY, JOBCTL_TRAPPING, JOBCTL_LISTENING]"

text \<open>The table of powers of two with distinct exponents.\<close>

lemma bits_apart_powers:
  assumes "distinct ks" and "\<forall>k\<in>set ks. k < 32"
  shows "bits_apart (map (\<lambda>k. push_bit k 1) ks)"
proof -
  have apart: "push_bit i 1 AND push_bit j 1 = (0 :: u32)" if "i \<noteq> j" for i j
    using that by (intro bit_eqI) (auto simp: bit_simps bit_1_iff)
  from assms(1) have "sorted_wrt (\<lambda>a b. a AND b = (0 :: u32)) (map (\<lambda>k. push_bit k 1) ks)"
    by (induction ks) (auto simp del: push_bit_of_1 intro!: apart)
  with assms(2) show ?thesis by (auto simp: bits_apart_def)
qed

lemma flag_exponents:
  "map snd clone_flags = map (\<lambda>k. push_bit k 1) [8, 9, 10, 11, 13, 14, 15, 16, 17, 18, 19, 20, 21, 22, 23, 24, 26, 27, 28, 29, 30, 31]"
  "map snd process_flags = map (\<lambda>k. push_bit k 1) [1, 2, 3, 4, 5, 6, 7, 8, 9, 10, 11, 12, 13, 14, 15, 16, 17, 18, 20, 21, 22, 23, 24, 25, 26, 27, 28, 29, 30, 31]"
  "map snd domain_flags = map (\<lambda>k. push_bit k 1) [0, 1, 2, 3, 4, 5, 6, 7, 8, 9, 10, 11, 12, 13]"
  "jobctl_bits = map (\<lambda>k. push_bit k 1) [16, 17, 18, 19, 20, 21, 22]"
  by (simp_all add: clone_flags_def process_flags_def domain_flags_def jobctl_bits_def
      PF_EXITING_def PF_SIGNALED_def jobctl_defs)

lemma flags_apart:
  "bits_apart (map snd clone_flags)" "bits_apart (map snd process_flags)"
  "bits_apart (map snd domain_flags)" "bits_apart jobctl_bits"
  unfolding flag_exponents by (rule bits_apart_powers; simp)+

section \<open>Task states\<close>

definition TASK_DEAD :: u64 where "TASK_DEAD = 64"
definition TASK_WAKING :: u64 where "TASK_WAKING = 256"
definition TASK_STATE_MAX :: u64 where "TASK_STATE_MAX = 512"
definition TASK_KILLABLE :: u64 where "TASK_KILLABLE = TASK_WAKEKILL OR TASK_UNINTERRUPTIBLE"
definition TASK_REPORT :: u64 where
  "TASK_REPORT = TASK_RUNNING OR TASK_INTERRUPTIBLE OR TASK_UNINTERRUPTIBLE OR T_STOPPED OR T_TRACED"

definition TASK_STATE_TO_CHAR_STR :: string where "TASK_STATE_TO_CHAR_STR = ''RSDTtZXxKW''"

text \<open>The size of the array \<open>___assert_task_state\<close>; \<open>ilog2\<close> is outside the repository.\<close>

definition assert_task_state :: "(u64 \<Rightarrow> int) \<Rightarrow> int" where
  "assert_task_state ilog2 =
     1 - 2 * (if int (length TASK_STATE_TO_CHAR_STR) \<noteq> ilog2 TASK_STATE_MAX + 1 then 1 else 0)"

definition task_is_dead :: "task_struct \<Rightarrow> bool" where
  "task_is_dead t \<longleftrightarrow> t_exit_state t \<noteq> 0"

definition task_contributes_to_load :: "task_struct \<Rightarrow> bool" where
  "task_contributes_to_load t \<longleftrightarrow>
     t_state t AND TASK_UNINTERRUPTIBLE \<noteq> 0 \<and> t_flags t AND flag process_flags ''PF_FREEZING'' = 0"

section \<open>Flags of a memory map\<close>

definition MMF_DUMPABLE_BITS :: nat where "MMF_DUMPABLE_BITS = 2"
definition MMF_DUMPABLE_MASK :: u64 where "MMF_DUMPABLE_MASK = push_bit MMF_DUMPABLE_BITS 1 - 1"
definition MMF_DUMP_FILTER_SHIFT :: nat where "MMF_DUMP_FILTER_SHIFT = MMF_DUMPABLE_BITS"
definition MMF_DUMP_FILTER_BITS :: nat where "MMF_DUMP_FILTER_BITS = 7"
definition MMF_DUMP_FILTER_MASK :: u64 where
  "MMF_DUMP_FILTER_MASK = push_bit MMF_DUMP_FILTER_SHIFT (push_bit MMF_DUMP_FILTER_BITS 1 - 1)"

text \<open>Bit numbers of the core dump filter; \<open>elf\<close>: the kernel was built with
  \<open>CONFIG_CORE_DUMP_DEFAULT_ELF_HEADERS\<close>.\<close>

definition dump_filter_bits :: "(string \<times> nat) list" where
  "dump_filter_bits = [(''MMF_DUMP_ANON_PRIVATE'', 2), (''MMF_DUMP_ANON_SHARED'', 3),
     (''MMF_DUMP_MAPPED_PRIVATE'', 4), (''MMF_DUMP_MAPPED_SHARED'', 5), (''MMF_DUMP_ELF_HEADERS'', 6),
     (''MMF_DUMP_HUGETLB_PRIVATE'', 7), (''MMF_DUMP_HUGETLB_SHARED'', 8)]"

definition MMF_DUMP_MASK_DEFAULT_ELF :: "bool \<Rightarrow> u64" where
  "MMF_DUMP_MASK_DEFAULT_ELF elf = (if elf then push_bit 6 1 else 0)"

definition MMF_DUMP_FILTER_DEFAULT :: "bool \<Rightarrow> u64" where
  "MMF_DUMP_FILTER_DEFAULT elf =
     push_bit 2 1 OR push_bit 3 1 OR push_bit 7 1 OR MMF_DUMP_MASK_DEFAULT_ELF elf"

definition MMF_INIT_MASK :: u64 where "MMF_INIT_MASK = MMF_DUMPABLE_MASK OR MMF_DUMP_FILTER_MASK"

lemmas mmf_defs = MMF_DUMPABLE_BITS_def MMF_DUMPABLE_MASK_def MMF_DUMP_FILTER_SHIFT_def
  MMF_DUMP_FILTER_BITS_def MMF_DUMP_FILTER_MASK_def MMF_DUMP_MASK_DEFAULT_ELF_def
  MMF_DUMP_FILTER_DEFAULT_def MMF_INIT_MASK_def

lemma dump_filter_inside:
  "MMF_DUMP_FILTER_DEFAULT elf AND NOT MMF_DUMP_FILTER_MASK = 0"
  "MMF_DUMPABLE_MASK AND MMF_DUMP_FILTER_MASK = 0"
  "(n, k) \<in> set dump_filter_bits \<Longrightarrow> push_bit k 1 AND MMF_DUMP_FILTER_MASK \<noteq> (0 :: u64)"
  by (auto simp: mmf_defs dump_filter_bits_def)

section \<open>Scheduling domains\<close>

text \<open>\<open>mc\<close> and \<open>smt\<close> are \<open>sched_mc_power_savings\<close> and \<open>sched_smt_power_savings\<close>.\<close>

definition sd_balance_for_mc_power :: "u32 \<Rightarrow> u32 \<Rightarrow> u32" where
  "sd_balance_for_mc_power mc smt =
     (if smt \<noteq> 0 then flag domain_flags ''SD_POWERSAVINGS_BALANCE''
      else if mc = 0 then flag domain_flags ''SD_PREFER_SIBLING''
      else 0)"

definition sd_balance_for_package_power :: "u32 \<Rightarrow> u32 \<Rightarrow> u32" where
  "sd_balance_for_package_power mc smt =
     (if mc OR smt \<noteq> 0 then flag domain_flags ''SD_POWERSAVINGS_BALANCE''
      else flag domain_flags ''SD_PREFER_SIBLING'')"

definition sd_power_saving_flags :: "u32 \<Rightarrow> u32 \<Rightarrow> u32" where
  "sd_power_saving_flags mc smt = (if mc OR smt \<noteq> 0 then flag domain_flags ''SD_BALANCE_NEWIDLE'' else 0)"

lemma or_eq_0_word: "a OR b = 0 \<longleftrightarrow> a = 0 \<and> b = 0" for a b :: u32
  by (auto simp: bit_eq_iff bit_simps)

lemma power_saving_choices:
  "sd_power_saving_flags mc smt = 0 \<longleftrightarrow> sd_balance_for_package_power mc smt = flag domain_flags ''SD_PREFER_SIBLING''"
  "smt \<noteq> 0 \<Longrightarrow> sd_balance_for_mc_power mc smt = sd_balance_for_package_power mc smt"
  "mc = 0 \<Longrightarrow> sd_balance_for_mc_power mc smt = sd_balance_for_package_power mc smt"
  by (auto simp: sd_power_saving_flags_def sd_balance_for_package_power_def sd_balance_for_mc_power_def
      flag_def domain_flags_def or_eq_0_word)

datatype sched_domain = Sched_Domain (sd_parent: "sched_domain option") (sd_flags: u32)

definition test_sd_parent :: "sched_domain \<Rightarrow> u32 \<Rightarrow> int" where
  "test_sd_parent sd f =
     (case sd_parent sd of Some p \<Rightarrow> if sd_flags p AND f \<noteq> 0 then 1 else 0 | None \<Rightarrow> 0)"

section \<open>Priorities and policies\<close>

definition sched_policies :: "(string \<times> u32) list" where
  "sched_policies = [(''SCHED_NORMAL'', 0), (''SCHED_FIFO'', 1), (''SCHED_RR'', 2), (''SCHED_BATCH'', 3),
     (''SCHED_IDLE'', 5), (''SCHED_RESET_ON_FORK'', 0x40000000)]"

definition MAX_USER_RT_PRIO :: int where "MAX_USER_RT_PRIO = 100"
definition MAX_RT_PRIO :: int where "MAX_RT_PRIO = MAX_USER_RT_PRIO"
definition MAX_PRIO :: int where "MAX_PRIO = MAX_RT_PRIO + 40"
definition DEFAULT_PRIO :: int where "DEFAULT_PRIO = MAX_RT_PRIO + 20"

definition rt_prio :: "int \<Rightarrow> int" where
  "rt_prio prio = (if prio < MAX_RT_PRIO then 1 else 0)"

section \<open>Load averages\<close>

definition FSHIFT :: nat where "FSHIFT = 11"
definition FIXED_1 :: u64 where "FIXED_1 = push_bit FSHIFT 1"
definition EXP_1 :: u64 where "EXP_1 = 1884"
definition EXP_5 :: u64 where "EXP_5 = 2014"
definition EXP_15 :: u64 where "EXP_15 = 2037"

definition CALC_LOAD :: "u64 \<Rightarrow> u64 \<Rightarrow> u64 \<Rightarrow> u64" where
  "CALC_LOAD load e n =
     (let load = load * e;
          load = load + n * (FIXED_1 - e)
      in drop_bit FSHIFT load)"

lemma fixed_1 [simp]: "FIXED_1 = 2048"
  by (simp add: FIXED_1_def FSHIFT_def)

text \<open>Below 2^53 nothing wraps, and the step is the weighted mean, rounded down.\<close>

lemma unat_calc_load:
  assumes "unat load < 2 ^ 53" and "unat n < 2 ^ 53" and "unat e \<le> 2048"
  shows "unat (CALC_LOAD load e n) = (unat load * unat e + unat n * (2048 - unat e)) div 2048"
proof -
  have e: "unat (2048 - e) = 2048 - unat e" using assms(3) by (simp add: unat_sub word_le_nat_alt)
  have "unat load * unat e + unat n * (2048 - unat e) \<le> (2 ^ 53 - 1) * unat e + (2 ^ 53 - 1) * (2048 - unat e)"
    using assms by (intro add_mono mult_le_mono) auto
  also have "\<dots> = (2 ^ 53 - 1) * 2048" using assms(3) by (simp add: algebra_simps)
  also have "\<dots> < 2 ^ 64" by simp
  finally have b: "unat load * unat e + unat n * (2048 - unat e) < 2 ^ 64" .
  then have "unat (load * e) = unat load * unat e" "unat (n * (2048 - e)) = unat n * (2048 - unat e)"
    by (simp_all add: unat_mult_lem [THEN iffD1] e)
  with b have "unat (load * e + n * (2048 - e)) = unat load * unat e + unat n * (2048 - unat e)"
    by (simp add: unat_add_lem [THEN iffD1])
  then show ?thesis by (simp add: CALC_LOAD_def FSHIFT_def drop_bit_eq_div unat_div)
qed

end
