(* ===== verification/Sched_Helpers.thy ===== *)
theory Sched_Helpers
  imports Sched_Flags Sig_Kill
begin

text \<open>
  The inline helpers of \<open>sched.h\<close> around a task: reference counts, pids and thread groups, the
  bounds of the kernel stack, the FPU flag, and the wrappers of the signal functions.
\<close>

section \<open>Reference counts\<close>

text \<open>
  \<open>usage\<close> of a task, \<open>mm_count\<close> of a memory map and \<open>__count\<close> of a user are 32-bit
  \<open>atomic_t\<close>. \<open>freed\<close> lists the objects handed to \<open>__put_task_struct\<close> or \<open>__mmdrop\<close>.
\<close>

record refs =
  count :: "nat \<Rightarrow> u32"
  freed :: "nat list"

definition get_task_struct :: "nat \<Rightarrow> refs \<Rightarrow> refs" where
  "get_task_struct t r = r\<lparr>count := (count r)(t := count r t + 1)\<rparr>"

definition atomic_dec_and_test :: "nat \<Rightarrow> refs \<Rightarrow> bool \<times> refs" where
  "atomic_dec_and_test t r =
     (let v = count r t - 1 in (v = 0, r\<lparr>count := (count r)(t := v)\<rparr>))"

definition put_task_struct :: "nat \<Rightarrow> refs \<Rightarrow> refs" where
  "put_task_struct t r =
     (case atomic_dec_and_test t r of (z, r) \<Rightarrow> if z then r\<lparr>freed := freed r @ [t]\<rparr> else r)"

definition mmdrop :: "nat \<Rightarrow> refs \<Rightarrow> refs" where
  "mmdrop mm r =
     (case atomic_dec_and_test mm r of (z, r) \<Rightarrow> if z then r\<lparr>freed := freed r @ [mm]\<rparr> else r)"

definition get_uid :: "nat \<Rightarrow> refs \<Rightarrow> nat \<times> refs" where
  "get_uid u r = (u, r\<lparr>count := (count r)(u := count r u + 1)\<rparr>)"

datatype ref_call = Get nat | Put nat

fun ref_step :: "ref_call \<Rightarrow> refs \<Rightarrow> refs" where
  "ref_step (Get t) r = get_task_struct t r"
| "ref_step (Put t) r = put_task_struct t r"

definition gets :: "nat \<Rightarrow> ref_call list \<Rightarrow> nat" where
  "gets t cs = count_list cs (Get t)"

definition puts :: "nat \<Rightarrow> ref_call list \<Rightarrow> nat" where
  "puts t cs = count_list cs (Put t)"

text \<open>Callers that hold what they drop: at every call the references given up so far are fewer
  than those there were, and the count stays below 2^32.\<close>

fun owned :: "nat \<Rightarrow> nat \<Rightarrow> ref_call list \<Rightarrow> bool" where
  "owned t n [] \<longleftrightarrow> True"
| "owned t n (c # cs) \<longleftrightarrow>
     (if c = Get t then 0 < n \<and> n + 1 < 2 ^ 32 \<and> owned t (n + 1) cs
      else if c = Put t then 0 < n \<and> owned t (n - 1) cs
      else owned t n cs)"

lemma ref_other:
  assumes "c \<noteq> Get t" and "c \<noteq> Put t"
  shows "count (ref_step c r) t = count r t"
    and "count_list (freed (ref_step c r)) t = count_list (freed r) t"
  using assms by (cases c; auto simp: get_task_struct_def put_task_struct_def atomic_dec_and_test_def Let_def)+

lemma ref_get_freed: "freed (get_task_struct t r) = freed r"
  by (simp add: get_task_struct_def)

lemma ref_get:
  assumes "unat (count r t) = n" and "n + 1 < 2 ^ 32"
  shows "unat (count (ref_step (Get t) r) t) = n + 1"
  using assms by (simp add: get_task_struct_def unat_word_ariths)

lemma ref_put:
  assumes "unat (count r t) = n" and "0 < n"
  shows "unat (count (ref_step (Put t) r) t) = n - 1"
    and "count_list (freed (ref_step (Put t) r)) t = count_list (freed r) t + (if n = 1 then 1 else 0)"
proof -
  have le: "1 \<le> count r t" using assms by (simp add: word_le_nat_alt)
  then have v: "unat (count r t - 1) = n - 1" using assms by (simp add: unat_sub)
  have one: "count r t = 1 \<longleftrightarrow> n = 1" using assms(1) by (auto simp: word_unat_eq_iff)
  with v show "unat (count (ref_step (Put t) r) t) = n - 1"
    by (simp add: put_task_struct_def atomic_dec_and_test_def Let_def)
  from one show "count_list (freed (ref_step (Put t) r)) t = count_list (freed r) t + (if n = 1 then 1 else 0)"
    by (simp add: put_task_struct_def atomic_dec_and_test_def Let_def)
qed

lemma call_counts [simp]:
  "gets t [] = 0" "puts t [] = 0"
  "gets t (c # cs) = (if c = Get t then 1 else 0) + gets t cs"
  "puts t (c # cs) = (if c = Put t then 1 else 0) + puts t cs"
  by (auto simp: gets_def puts_def)

lemma owned_zero: "owned t 0 cs \<Longrightarrow> gets t cs = 0 \<and> puts t cs = 0"
  by (induction cs) (auto split: if_splits)

text \<open>The count follows the calls, and the object is freed once: at the call that drops the last
  reference, after which a legal sequence has no call on it.\<close>

lemma ref_run:
  assumes "unat (count r t) = n" and "owned t n cs"
  shows "unat (count (fold ref_step cs r) t) + puts t cs = n + gets t cs \<and>
         count_list (freed (fold ref_step cs r)) t =
           count_list (freed r) t + (if 0 < n \<and> puts t cs = n + gets t cs then 1 else 0)"
  using assms
proof (induction cs arbitrary: r n)
  case (Cons c cs)
  consider "c = Get t" | "c = Put t" | "c \<noteq> Get t" "c \<noteq> Put t" by blast
  then show ?case
  proof cases
    case 1
    then have n: "n + 1 < 2 ^ 32" "owned t (n + 1) cs" "0 < n" using Cons.prems(2) by auto
    show ?thesis
      using 1 n Cons.IH [OF ref_get [OF Cons.prems(1) n(1)] n(2)] by (simp add: ref_get_freed)
  next
    case 2
    with Cons.prems have n: "0 < n" "owned t (n - 1) cs" by auto
    have IH: "unat (count (fold ref_step (c # cs) r) t) + puts t cs = n - 1 + gets t cs"
      "count_list (freed (fold ref_step (c # cs) r)) t = count_list (freed (ref_step c r)) t +
         (if 0 < n - 1 \<and> puts t cs = n - 1 + gets t cs then 1 else 0)"
      using Cons.IH [OF ref_put(1) [OF Cons.prems(1) n(1)] n(2)] 2 by simp_all
    show ?thesis
      using 2 n IH ref_put(2) [OF Cons.prems(1) n(1)] owned_zero [of t cs]
      by (cases "n = 1") (auto split: if_splits)
  next
    case 3
    then show ?thesis
      using Cons.prems Cons.IH [of "ref_step c r" n] ref_other [of c t r] by simp
  qed
qed auto

section \<open>Pids and thread groups\<close>

text \<open>The thread id of a task is its number; \<open>pids\<close> gives the pid structures it is attached to.\<close>

datatype pid_type = PIDTYPE_PID | PIDTYPE_PGID | PIDTYPE_SID

type_synonym pid_links = "nat \<Rightarrow> pid_type \<Rightarrow> nat option"

definition task_pid :: "pid_links \<Rightarrow> nat \<Rightarrow> nat option" where
  "task_pid L t = L t PIDTYPE_PID"

definition task_tgid :: "pid_links \<Rightarrow> kstate \<Rightarrow> nat \<Rightarrow> nat option" where
  "task_tgid L ks t = L (t_group_leader (tasks ks t)) PIDTYPE_PID"

definition task_pgrp :: "pid_links \<Rightarrow> kstate \<Rightarrow> nat \<Rightarrow> nat option" where
  "task_pgrp L ks t = L (t_group_leader (tasks ks t)) PIDTYPE_PGID"

definition task_session :: "pid_links \<Rightarrow> kstate \<Rightarrow> nat \<Rightarrow> nat option" where
  "task_session L ks t = L (t_group_leader (tasks ks t)) PIDTYPE_SID"

definition pid_alive :: "pid_links \<Rightarrow> nat \<Rightarrow> bool" where
  "pid_alive L t \<longleftrightarrow> L t PIDTYPE_PID \<noteq> None"

definition task_pid_nr :: "nat \<Rightarrow> nat" where "task_pid_nr t = t"
definition task_tgid_nr :: "kstate \<Rightarrow> nat \<Rightarrow> nat" where "task_tgid_nr ks t = t_tgid (tasks ks t)"

definition has_group_leader_pid :: "kstate \<Rightarrow> nat \<Rightarrow> bool" where
  "has_group_leader_pid ks t \<longleftrightarrow> t = t_tgid (tasks ks t)"

text \<open>\<open>x\<close> is \<open>p->exit_signal\<close>, which the signal code of the repository does not read here.\<close>

definition thread_group_leader :: "int \<Rightarrow> bool" where
  "thread_group_leader x \<longleftrightarrow> x \<ge> 0"

definition delay_group_leader :: "kstate \<Rightarrow> nat \<Rightarrow> int \<Rightarrow> bool" where
  "delay_group_leader ks t x \<longleftrightarrow> thread_group_leader x \<and> \<not> thread_group_empty ks t"

section \<open>The kernel stack\<close>

text \<open>
  Addresses are 64-bit words; \<open>base\<close> is where the stack page of a task starts, with the
  \<open>thread_info\<close> of \<open>ti_size\<close> bytes at its low end. \<open>THREAD_SIZE\<close> and \<open>ti_size\<close> belong to the
  architecture. \<open>mem\<close> is the memory as words of eight bytes.
\<close>

definition kstack_end :: "u64 \<Rightarrow> u64 \<Rightarrow> bool" where
  "kstack_end THREAD_SIZE addr \<longleftrightarrow> (addr + 8 - 1) AND (THREAD_SIZE - 8) = 0"

definition end_of_stack :: "u64 \<Rightarrow> u64 \<Rightarrow> u64" where
  "end_of_stack ti_size base = base + ti_size"

definition object_is_on_stack :: "u64 \<Rightarrow> u64 \<Rightarrow> u64 \<Rightarrow> bool" where
  "object_is_on_stack THREAD_SIZE stack obj \<longleftrightarrow> obj \<ge> stack \<and> obj < stack + THREAD_SIZE"

partial_function (option) first_used :: "(u64 \<Rightarrow> u64) \<Rightarrow> u64 \<Rightarrow> u64 option" where
  "first_used mem n = (let n = n + 8 in if mem n \<noteq> 0 then Some n else first_used mem n)"

definition stack_not_used :: "(u64 \<Rightarrow> u64) \<Rightarrow> u64 \<Rightarrow> u64 \<Rightarrow> u64 option" where
  "stack_not_used mem ti_size base =
     (case first_used mem (end_of_stack ti_size base) of
        None \<Rightarrow> None | Some n \<Rightarrow> Some (n - end_of_stack ti_size base))"

lemma first_used_found:
  assumes "\<forall>i. 0 < i \<and> i < k \<longrightarrow> mem (n + 8 * of_nat i) = 0" and "mem (n + 8 * of_nat k) \<noteq> 0" and "0 < k"
  shows "first_used mem n = Some (n + 8 * of_nat k)"
  using assms
proof (induction k arbitrary: n)
  case (Suc k)
  show ?case
  proof (cases "k = 0")
    case True
    then show ?thesis using Suc.prems by (subst first_used.simps) simp
  next
    case False
    then have "mem (n + 8) = 0" using Suc.prems(1) [rule_format, of 1] by simp
    moreover have "first_used mem (n + 8) = Some (n + 8 + 8 * of_nat k)"
    proof (rule Suc.IH)
      show "\<forall>i. 0 < i \<and> i < k \<longrightarrow> mem (n + 8 + 8 * of_nat i) = 0"
        using Suc.prems(1) [rule_format, of "Suc i" for i] by (simp add: algebra_simps)
      show "mem (n + 8 + 8 * of_nat k) \<noteq> 0" using Suc.prems(2) by (simp add: algebra_simps)
    qed (use False in simp)
    ultimately show ?thesis by (subst first_used.simps) (simp add: algebra_simps)
  qed
qed simp

lemma bit_window: "bit (x AND push_bit 3 (mask (k - 3))) i \<longleftrightarrow> 3 \<le> i \<and> i < k \<and> bit x i" for x :: u64
  by (auto simp: bit_and_iff bit_push_bit_iff bit_mask_iff dest: bit_imp_le_length)

lemma no_high_bits: "(\<forall>i. 3 \<le> i \<and> i < k \<longrightarrow> \<not> bit x i) \<longleftrightarrow> unat x mod 2 ^ k < 8" for x :: u64
proof -
  have "bit (take_bit k (unat x)) i \<longleftrightarrow> i < k \<and> bit x i" for i
    by (auto simp: bit_take_bit_iff bit_unsigned_iff dest: bit_imp_le_length)
  then have "take_bit 3 (take_bit k (unat x)) = take_bit k (unat x) \<longleftrightarrow> (\<forall>i. (i < 3 \<and> i < k \<and> bit x i) = (i < k \<and> bit x i))"
    by (subst bit_eq_iff) (simp only: bit_take_bit_iff [of 3] possible_bit_def, simp)
  then have "(\<forall>i. 3 \<le> i \<and> i < k \<longrightarrow> \<not> bit x i) \<longleftrightarrow> take_bit 3 (take_bit k (unat x)) = take_bit k (unat x)"
    by (metis not_less)
  also have "\<dots> \<longleftrightarrow> take_bit k (unat x) < 2 ^ 3" by (rule take_bit_nat_eq_self_iff)
  finally show ?thesis by (simp add: take_bit_eq_mod)
qed

lemma kstack_end_mod:
  assumes "3 \<le> k"
  shows "kstack_end (push_bit k 1) addr \<longleftrightarrow> unat (addr + 7) mod 2 ^ k < 8"
proof -
  have "2 ^ k = (2 ^ 3 * 2 ^ (k - 3) :: u64)" using assms by (simp only: flip: power_add) simp
  then have m: "push_bit k 1 - 8 = push_bit 3 (mask (k - 3) :: u64)"
    by (simp add: push_bit_eq_mult mask_eq_exp_minus_1 algebra_simps)
  have z: "y = 0 \<longleftrightarrow> (\<forall>i. \<not> bit y i)" for y :: u64
    using bit_eqI [of y 0] by auto
  have a: "addr + 8 - 1 = addr + 7" by simp
  have "kstack_end (push_bit k 1) addr \<longleftrightarrow> (\<forall>i. 3 \<le> i \<and> i < k \<longrightarrow> \<not> bit (addr + 7) i)"
    unfolding kstack_end_def m a z bit_window by blast
  then show ?thesis by (simp only: no_high_bits)
qed

lemma low_after_shift:
  fixes a K :: nat
  assumes "8 \<le> K"
  shows "(a + 7) mod K < 8 \<longleftrightarrow> a mod K = 0 \<or> K - 7 \<le> a mod K"
proof -
  define m where "m = a mod K"
  have m: "m < K" using assms by (simp add: m_def)
  have s: "(a + 7) mod K = (m + 7) mod K" by (simp add: m_def mod_add_left_eq)
  show ?thesis
  proof (cases "K \<le> m + 7")
    case True
    then have "(m + 7) mod K = m + 7 - K" using m assms by (simp add: le_mod_geq)
    with True m assms show ?thesis unfolding s m_def [symmetric] by linarith
  next
    case False
    then show ?thesis unfolding s m_def [symmetric] by auto
  qed
qed

section \<open>The FPU flag\<close>

definition PF_USED_MATH :: u32 where "PF_USED_MATH = 0x00002000"

definition clear_stopped_child_used_math :: "task_struct \<Rightarrow> task_struct" where
  "clear_stopped_child_used_math child = child\<lparr>t_flags := t_flags child AND NOT PF_USED_MATH\<rparr>"

definition set_stopped_child_used_math :: "task_struct \<Rightarrow> task_struct" where
  "set_stopped_child_used_math child = child\<lparr>t_flags := t_flags child OR PF_USED_MATH\<rparr>"

definition conditional_stopped_child_used_math :: "bool \<Rightarrow> task_struct \<Rightarrow> task_struct" where
  "conditional_stopped_child_used_math c child =
     (let child = child\<lparr>t_flags := t_flags child AND NOT PF_USED_MATH\<rparr>
      in child\<lparr>t_flags := t_flags child OR (if c then PF_USED_MATH else 0)\<rparr>)"

definition copy_to_stopped_child_used_math :: "task_struct \<Rightarrow> task_struct \<Rightarrow> task_struct" where
  "copy_to_stopped_child_used_math current child =
     (let child = child\<lparr>t_flags := t_flags child AND NOT PF_USED_MATH\<rparr>
      in child\<lparr>t_flags := t_flags child OR (t_flags current AND PF_USED_MATH)\<rparr>)"

definition tsk_used_math :: "task_struct \<Rightarrow> u32" where
  "tsk_used_math p = t_flags p AND PF_USED_MATH"

definition clear_used_math :: "kstate \<Rightarrow> kstate" where
  "clear_used_math ks = upd_task (cur ks) clear_stopped_child_used_math ks"

definition set_used_math :: "kstate \<Rightarrow> kstate" where
  "set_used_math ks = upd_task (cur ks) set_stopped_child_used_math ks"

definition conditional_used_math :: "bool \<Rightarrow> kstate \<Rightarrow> kstate" where
  "conditional_used_math c ks = upd_task (cur ks) (conditional_stopped_child_used_math c) ks"

definition used_math :: "kstate \<Rightarrow> u32" where
  "used_math ks = tsk_used_math (tasks ks (cur ks))"

lemma used_math_results:
  "tsk_used_math (clear_stopped_child_used_math t) = 0"
  "tsk_used_math (set_stopped_child_used_math t) = PF_USED_MATH"
  "tsk_used_math (conditional_stopped_child_used_math c t) = (if c then PF_USED_MATH else 0)"
  "tsk_used_math (copy_to_stopped_child_used_math u t) = tsk_used_math u"
  by (auto simp: tsk_used_math_def clear_stopped_child_used_math_def set_stopped_child_used_math_def
      conditional_stopped_child_used_math_def copy_to_stopped_child_used_math_def Let_def
      PF_USED_MATH_def bit_simps intro!: bit_eqI)

section \<open>Wrappers of the signal functions\<close>

definition dequeue_signal_lock ::
  "kenv \<Rightarrow> nat \<Rightarrow> sigset \<Rightarrow> siginfo \<Rightarrow> kstate \<Rightarrow> int \<times> siginfo \<times> kstate" where
  "dequeue_signal_lock E tsk msk info ks = (case dequeue_signal E tsk msk info ks of (ret, i, ks) \<Rightarrow> (ret, i, ks))"

definition kill_cad_pid :: "kenv \<Rightarrow> pidenv \<Rightarrow> int \<Rightarrow> int \<Rightarrow> bool \<Rightarrow> kstate \<Rightarrow> (int \<times> kstate) option" where
  "kill_cad_pid E P cad_pid sig priv ks = kill_pid E P cad_pid sig priv ks"

abbreviation (input) "ERESTARTNOINTR \<equiv> 513 :: int"

definition restart_syscall :: "kstate \<Rightarrow> int \<times> kstate" where
  "restart_syscall ks = (- ERESTARTNOINTR, upd_task (cur ks) (\<lambda>t. t\<lparr>t_tif_sigpending := True\<rparr>) ks)"

lemma restart_syscall_pending: "restart_syscall ks = (r, ks') \<Longrightarrow> signal_pending (tasks ks' (cur ks'))"
  by (auto simp: restart_syscall_def signal_pending_def)

end
