(* ===== verification/Sched_Properties.thy ===== *)
theory Sched_Properties
  imports Sched_Helpers
begin

text \<open>
  Properties of the scheduler side of \<open>sched.h\<close>: the load averages stay between the old average
  and the number of active tasks and where they come to rest, objects are freed exactly once, and
  flags of one word do not disturb each other.
\<close>

section \<open>Load averages\<close>

lemma load_below: "l \<le> n \<Longrightarrow> e \<le> 2048 \<Longrightarrow> (l * e + n * (2048 - e)) div 2048 = l + ((n - l) * (2048 - e)) div 2048"
  for l n e :: nat
proof -
  assume "l \<le> n" "e \<le> 2048"
  then obtain d c where d: "n = l + d" "2048 = e + c" by (metis le_Suc_ex)
  then have "2048 - e = c" by simp
  then have "l * e + n * (2048 - e) = l * 2048 + (n - l) * (2048 - e)" unfolding d by (simp add: algebra_simps)
  then show ?thesis by simp
qed

lemma load_above: "n \<le> l \<Longrightarrow> e \<le> 2048 \<Longrightarrow> (l * e + n * (2048 - e)) div 2048 = n + ((l - n) * e) div 2048"
  for l n e :: nat
proof -
  assume "n \<le> l" "e \<le> 2048"
  then obtain d c where d: "l = n + d" "2048 = e + c" by (metis le_Suc_ex)
  then have "2048 - e = c" by simp
  then have "l * e + n * (2048 - e) = n * 2048 + (l - n) * e" unfolding d by (simp add: algebra_simps)
  then show ?thesis by simp
qed

lemma scaled_le: "a * c div 2048 \<le> a" if "c \<le> 2048" for a c :: nat
  using mult_le_mono2 [OF that, of a] div_le_mono [of "a * c" "a * 2048" 2048] by simp

lemma scaled_less: "a * c div 2048 < a" if "c < 2048" "0 < a" for a c :: nat
  using that by (simp add: div_less_iff_less_mult)

text \<open>C40: one step of a load average takes it no further than the number \<open>n\<close> of active tasks (both in units
  of 1/2048, below 2^53) and never past the old value: above \<open>n\<close> it always falls, below \<open>n\<close> it rises
  until less than \<open>2048 / (2048 - e)\<close> units are missing, and stays there.\<close>

theorem load_average_step:
  assumes "unat load < 2 ^ 53" and "unat n < 2 ^ 53" and "unat e < 2048"
  shows "min load n \<le> CALC_LOAD load e n \<and> CALC_LOAD load e n \<le> max load n \<and>
    (n < load \<longrightarrow> CALC_LOAD load e n < load) \<and>
    (load \<le> n \<longrightarrow> (CALC_LOAD load e n = load \<longleftrightarrow> (unat n - unat load) * (2048 - unat e) < 2048))"
proof -
  have u: "unat (CALC_LOAD load e n) = (unat load * unat e + unat n * (2048 - unat e)) div 2048"
    using assms by (intro unat_calc_load) simp_all
  show ?thesis
  proof (cases "load \<le> n")
    case True
    then have le: "unat load \<le> unat n" by (simp add: word_le_nat_alt)
    define r where "r = (unat n - unat load) * (2048 - unat e) div 2048"
    have v: "unat (CALC_LOAD load e n) = unat load + r" using u load_below [OF le] assms(3) by (simp add: r_def)
    have "r \<le> unat n - unat load" unfolding r_def by (rule scaled_le) simp
    moreover have "r = 0 \<longleftrightarrow> (unat n - unat load) * (2048 - unat e) < 2048" by (simp add: r_def div_eq_0_iff)
    ultimately show ?thesis
      using True le v by (simp add: word_le_nat_alt word_less_nat_alt word_unat_eq_iff min_def max_def)
  next
    case False
    then have le: "unat n < unat load" by (simp add: word_le_nat_alt)
    define r where "r = (unat load - unat n) * unat e div 2048"
    have v: "unat (CALC_LOAD load e n) = unat n + r" using u load_above [of "unat n" "unat load" "unat e"] le assms(3) by (simp add: r_def)
    have "r < unat load - unat n" unfolding r_def using le assms(3) by (intro scaled_less) simp_all
    then have "unat n + r < unat load" by simp
    then show ?thesis
      using False le v by (simp add: word_le_nat_alt word_less_nat_alt min_def max_def)
  qed
qed

theorem load_average_step_witness:
  "CALC_LOAD 2036 EXP_1 2048 = 2036 \<and> CALC_LOAD 4096 EXP_1 2048 < 4096"
  using load_average_step [of 2036 2048 EXP_1] load_average_step [of 4096 2048 EXP_1] by (simp add: EXP_1_def)

section \<open>Lifetimes\<close>

text \<open>As long as callers drop only references they hold, a task structure with \<open>n\<close> references is freed once
  exactly when all of them and all taken later have been dropped, and not before; the count is what is left.\<close>

theorem task_freed_once:
  assumes "unat (count r t) = n" and "0 < n" and "owned t n cs" and "t \<notin> set (freed r)"
  shows "unat (count (fold ref_step cs r) t) = n + gets t cs - puts t cs \<and>
    count_list (freed (fold ref_step cs r)) t = (if puts t cs = n + gets t cs then 1 else 0)"
  using ref_run [OF assms(1,3)] assms(2,4) by (auto simp: count_list_0_iff)

section \<open>Flags and the stack\<close>

text \<open>Setting or clearing one process flag leaves the value of every other.\<close>

theorem process_flags_apart:
  assumes "i < length process_flags" and "j < length process_flags" and "i \<noteq> j"
  defines "a \<equiv> snd (process_flags ! i)" and "b \<equiv> snd (process_flags ! j)"
  shows "(w OR a) AND b = w AND b \<and> (w AND NOT a) AND b = w AND b \<and> a \<noteq> 0"
proof -
  have l: "map snd process_flags ! i = a" "map snd process_flags ! j = b"
    using assms by (simp_all add: a_def b_def)
  have "a AND b = 0"
    using bits_apart_disjoint [OF flags_apart(2), of i j] assms(1-3) by (simp add: a_def b_def)
  moreover have "a \<in> set (map snd process_flags)" using assms(1) by (simp add: a_def)
  with flags_apart(2) obtain k where "k \<in> set [0..<32]" "a = push_bit k 1" unfolding bits_apart_def by blast
  then have "bit a k" by (simp add: bit_simps)
  then have "a \<noteq> 0" by auto
  ultimately show ?thesis using flag_frame by blast
qed

text \<open>The test for the end of a kernel stack of \<open>2^k\<close> bytes accepts the end itself and the seven
  addresses before it, which the BIOS calls of the comment may leave.\<close>

theorem kstack_end_iff:
  assumes "3 \<le> k" and "k < 64"
  shows "kstack_end (push_bit k 1) addr \<longleftrightarrow>
    unat addr mod 2 ^ k = 0 \<or> 2 ^ k - 7 \<le> unat addr mod 2 ^ k"
proof -
  have K: "8 \<le> (2 :: nat) ^ k" using power_increasing [OF assms(1), of "2 :: nat"] by simp
  have "unat (addr + 7) mod 2 ^ k = (unat addr + 7) mod 2 ^ 64 mod 2 ^ k" by (simp add: unat_word_ariths)
  also have "\<dots> = (unat addr + 7) mod 2 ^ k"
    by (rule mod_mod_cancel) (use assms(2) in \<open>intro le_imp_power_dvd, simp\<close>)
  finally show ?thesis
    using kstack_end_mod [OF assms(1)] low_after_shift [OF K] by simp
qed

text \<open>The unused stack is measured up to the first word in use above the canary.\<close>

theorem stack_not_used_value:
  assumes "\<forall>i. 0 < i \<and> i < k \<longrightarrow> mem (end_of_stack s base + 8 * of_nat i) = 0"
    and "mem (end_of_stack s base + 8 * of_nat k) \<noteq> 0" and "0 < k"
  shows "stack_not_used mem s base = Some (8 * of_nat k)"
  using first_used_found [OF assms] by (simp add: stack_not_used_def)

end
