(* ===== verification/Sched_Walks.thy ===== *)
theory Sched_Walks
  imports Sched_Helpers
begin

text \<open>
  The walks over all processes and all threads that \<open>sched.h\<close> defines as macros, on the pointers
  they follow. A walk follows the \<open>next\<close> pointers until it is back where it started; it may not
  end, so it is a partial function. It ends exactly when the start can be reached again, and it then
  visits the tasks of the list once each, in order. The last section shows that the walk over a
  thread group visits what \<open>each_thread\<close> of the signal model folds over.
\<close>

section \<open>Following the pointers\<close>

text \<open>The loop \<open>for (; (p = next(p)) != stop; )\<close>: the values of \<open>p\<close> in its body.\<close>

partial_function (option) walk :: "(nat \<Rightarrow> nat) \<Rightarrow> nat \<Rightarrow> nat \<Rightarrow> nat list option" where
  "walk nx stop p =
     (if nx p = stop then Some []
      else Option.bind (walk nx stop (nx p)) (\<lambda>qs. Some (nx p # qs)))"

fun path :: "(nat \<Rightarrow> nat) \<Rightarrow> nat \<Rightarrow> nat list \<Rightarrow> nat \<Rightarrow> bool" where
  "path nx p [] q \<longleftrightarrow> nx p = q"
| "path nx p (x # xs) q \<longleftrightarrow> nx p = x \<and> path nx x xs q"

lemma walk_path:
  assumes "path nx p xs stop" and "stop \<notin> set xs"
  shows "walk nx stop p = Some xs"
  using assms
proof (induction xs arbitrary: p)
  case Nil
  then show ?case by (simp add: walk.simps)
next
  case (Cons x xs)
  then have "nx p = x" "x \<noteq> stop" "walk nx stop x = Some xs" by auto
  then show ?case by (subst walk.simps) simp
qed

lemma walk_Some:
  assumes "walk nx stop p = Some xs"
  shows "path nx p xs stop \<and> stop \<notin> set xs"
proof (rule walk.raw_induct [OF _ assms])
  fix f :: "(nat \<Rightarrow> nat) \<Rightarrow> nat \<Rightarrow> nat \<Rightarrow> nat list option" and nx stop p y
  assume "\<And>nx stop p y. f nx stop p = Some y \<Longrightarrow> path nx p y stop \<and> stop \<notin> set y"
    and "(if nx p = stop then Some [] else Option.bind (f nx stop (nx p)) (\<lambda>qs. Some (nx p # qs))) = Some y"
  then show "path nx p y stop \<and> stop \<notin> set y" by (auto split: if_splits simp: bind_eq_Some_conv)
qed

lemma path_steps: "path nx p xs q \<Longrightarrow> (nx ^^ Suc (length xs)) p = q"
  by (induction xs arbitrary: p) (simp_all add: funpow_swap1)

lemma steps_path: "(nx ^^ Suc n) p = q \<Longrightarrow> \<exists>xs. path nx p xs q \<and> q \<notin> set xs"
proof (induction n arbitrary: p)
  case 0
  then have "path nx p [] q \<and> q \<notin> set []" by simp
  then show ?case by blast
next
  case (Suc n)
  show ?case
  proof (cases "nx p = q")
    case True
    then have "path nx p [] q \<and> q \<notin> set []" by simp
    then show ?thesis by blast
  next
    case False
    have "(nx ^^ Suc n) (nx p) = q" using Suc.prems by (simp only: funpow_Suc_right o_apply)
    from Suc.IH [OF this] obtain xs where "path nx (nx p) xs q" "q \<notin> set xs" by blast
    with False have "path nx p (nx p # xs) q \<and> q \<notin> set (nx p # xs)" by simp
    then show ?thesis by blast
  qed
qed

text \<open>A walk ends exactly when its stop can be reached.\<close>

theorem walk_ends: "(\<exists>xs. walk nx stop p = Some xs) \<longleftrightarrow> (\<exists>n. (nx ^^ Suc n) p = stop)"
  using walk_Some path_steps steps_path walk_path by metis

section \<open>The macros\<close>

definition init_task :: nat where "init_task = 0"

definition for_each_process :: "(nat \<Rightarrow> nat) \<Rightarrow> nat list option" where
  "for_each_process task_next = walk task_next init_task init_task"

text \<open>\<open>do \<dots> while_each_thread(g, t)\<close>: the body runs for \<open>g\<close> before the first step.\<close>

definition while_each_thread :: "(nat \<Rightarrow> nat) \<Rightarrow> nat \<Rightarrow> nat list option" where
  "while_each_thread thread_next g = map_option (Cons g) (walk thread_next g g)"

fun in_turn :: "(nat \<Rightarrow> nat list option) \<Rightarrow> nat list \<Rightarrow> nat list option" where
  "in_turn f [] = Some []"
| "in_turn f (g # gs) =
     (case f g of None \<Rightarrow> None
      | Some ts \<Rightarrow> (case in_turn f gs of None \<Rightarrow> None | Some us \<Rightarrow> Some (ts @ us)))"

definition do_each_thread :: "(nat \<Rightarrow> nat) \<Rightarrow> (nat \<Rightarrow> nat) \<Rightarrow> nat list option" where
  "do_each_thread task_next thread_next =
     (case for_each_process task_next of None \<Rightarrow> None
      | Some gs \<Rightarrow> in_turn (while_each_thread thread_next) gs)"

text \<open>A process list: the ring of \<open>init_task\<close> and the processes; a thread group: the ring of its
  threads. \<open>init_task\<close> itself is visited by neither walk.\<close>

definition ring :: "(nat \<Rightarrow> nat) \<Rightarrow> nat \<Rightarrow> nat list \<Rightarrow> bool" where
  "ring nx p xs \<longleftrightarrow> path nx p xs p \<and> p \<notin> set xs"

lemma ring_walk: "ring nx p xs \<longleftrightarrow> walk nx p p = Some xs"
  using walk_path walk_Some unfolding ring_def by blast

lemma processes_visited: "ring nx init_task ps \<Longrightarrow> for_each_process nx = Some ps"
  by (simp add: for_each_process_def ring_walk)

lemma in_turn_concat: "(\<And>g. g \<in> set gs \<Longrightarrow> f g = Some (h g)) \<Longrightarrow> in_turn f gs = Some (concat (map h gs))"
  by (induction gs) auto

theorem threads_visited:
  assumes "ring task_next init_task gs" and "\<And>g. g \<in> set gs \<Longrightarrow> ring thread_next g (ts g)"
  shows "do_each_thread task_next thread_next = Some (concat (map (\<lambda>g. g # ts g) gs))"
proof -
  have "while_each_thread thread_next g = Some (g # ts g)" if "g \<in> set gs" for g
    using assms(2) [OF that] by (simp add: while_each_thread_def ring_walk)
  from in_turn_concat [of gs, OF this] assms(1) show ?thesis
    by (simp add: do_each_thread_def processes_visited)
qed

text \<open>A walk that comes to a task outside the list whose pointer leads back to itself does not
  end.\<close>

lemma stuck_walk:
  assumes "nx p = q" and "nx q = q" and "q \<noteq> stop"
  shows "walk nx stop p = None"
proof -
  have "(nx ^^ n) q = q" for n using assms(2) by (induction n) auto
  then have "(nx ^^ Suc n) p \<noteq> stop" for n using assms(1,3) by (simp only: funpow_Suc_right o_apply not_False_eq_True)
  with walk_ends [of nx stop p] show ?thesis by (metis not_None_eq)
qed

section \<open>The thread groups of the signal model\<close>

lemma ring_from_at: "q \<notin> set us \<Longrightarrow> ring_from q (us @ q # vs) = q # vs @ us"
proof -
  assume q: "q \<notin> set us"
  have "dropWhile (\<lambda>x. x \<noteq> q) (us @ q # vs) = q # vs" "takeWhile (\<lambda>x. x \<noteq> q) (us @ q # vs) = us"
    using q by (induction us) auto
  then show ?thesis by (simp add: ring_from_def)
qed

lemma ring_from_again:
  assumes "distinct xs" and "p \<in> set xs" and "q \<in> set xs"
  shows "ring_from q (ring_from p xs) = ring_from q xs"
proof -
  from assms(2) obtain us vs where xs: "xs = us @ p # vs" by (meson split_list)
  then have p: "p \<notin> set us" "p \<notin> set vs" "set us \<inter> set vs = {}" using assms(1) by auto
  have rs: "ring_from p xs = p # vs @ us" using p xs by (simp add: ring_from_at)
  from assms(3) xs consider "q = p" | "q \<in> set us" "q \<noteq> p" | "q \<in> set vs" "q \<noteq> p" by auto
  then show ?thesis
  proof cases
    case 1
    then show ?thesis using rs ring_from_at [of p "[]" "vs @ us"] by simp
  next
    case 2
    then obtain a b where us: "us = a @ q # b" by (meson split_list)
    have q: "q \<notin> set a" "q \<notin> set vs" using assms(1) xs us by auto
    show ?thesis
      using rs us xs 2 q ring_from_at [of q "p # vs @ a" b] ring_from_at [of q a "b @ p # vs"] by simp
  next
    case 3
    then obtain a b where vs: "vs = a @ q # b" by (meson split_list)
    have q: "q \<notin> set a" "q \<notin> set us" using assms(1) xs vs by auto
    show ?thesis
      using rs vs xs 3 q ring_from_at [of q "p # a" "b @ us"] ring_from_at [of q "us @ p # a" b] by simp
  qed
qed

lemma path_of_ring:
  assumes "\<And>us q vs. p # rs = us @ q # vs \<Longrightarrow> nx q = hd (vs @ [e])"
  shows "path nx p rs e"
  using assms
proof (induction rs arbitrary: p)
  case Nil
  from Nil [of "[]" p "[]"] show ?case by simp
next
  case (Cons r rs)
  from Cons.prems [of "[]" p "r # rs"] have "nx p = r" by simp
  moreover have "path nx r rs e"
  proof (rule Cons.IH)
    fix us q vs assume "r # rs = us @ q # vs"
    with Cons.prems [of "p # us" q vs] show "nx q = hd (vs @ [e])" by simp
  qed
  ultimately show ?case by simp
qed

text \<open>The threads of a group share one \<open>signal\<close>, which lists each of them once.\<close>

definition sound_group :: "kstate \<Rightarrow> nat \<Rightarrow> bool" where
  "sound_group ks p \<longleftrightarrow> distinct (s_threads (sig_of ks p)) \<and> p \<in> set (s_threads (sig_of ks p)) \<and>
     (\<forall>t \<in> set (s_threads (sig_of ks p)). sig_of ks t = sig_of ks p)"

theorem group_walk:
  assumes "sound_group ks p"
  shows "while_each_thread (next_thread ks) p = Some (group_from ks p)"
proof -
  let ?xs = "s_threads (sig_of ks p)"
  have d: "distinct ?xs" and p: "p \<in> set ?xs" and same: "\<And>t. t \<in> set ?xs \<Longrightarrow> sig_of ks t = sig_of ks p"
    using assms unfolding sound_group_def by blast+
  from p obtain us vs where xs: "?xs = us @ p # vs" by (meson split_list)
  then have rs: "group_from ks p = p # vs @ us" using d by (simp add: group_from_def ring_from_at)
  have "next_thread ks q = hd (b @ [p])" if s: "p # vs @ us = a @ q # b" for a q b
  proof -
    have "q \<in> set (p # vs @ us)" unfolding s by simp
    then have q: "q \<in> set ?xs" using xs by auto
    have da: "distinct (a @ q # b)" using d xs unfolding s [symmetric] by auto
    have "group_from ks q = ring_from q (ring_from p ?xs)"
      using same [OF q] ring_from_again [OF d p q] by (simp add: group_from_def)
    also have "ring_from p ?xs = a @ q # b" using rs s by (simp add: group_from_def)
    also have "ring_from q (a @ q # b) = q # b @ a" using da by (simp add: ring_from_at)
    finally have g: "group_from ks q = q # b @ a" .
    show ?thesis using g s by (cases b; cases a) (auto simp: next_thread_def)
  qed
  then have path: "path (next_thread ks) p (vs @ us) p" by (rule path_of_ring)
  have "p \<notin> set (vs @ us)" using d xs by auto
  from walk_path [OF path this] show ?thesis by (simp add: while_each_thread_def rs)
qed

end
