(* ===== verification/Sched_Accessors.thy ===== *)
theory Sched_Accessors
  imports Sched_Walks Sched_Structs
begin

text \<open>
  The remaining inline functions, macros and enumerations of \<open>sched.h\<close>: thread flags, I/O
  accounting, resource limits, pid numbers in a namespace, CPUs and the constants of the scheduler.
  What depends on the configuration takes it as an argument.
\<close>

section \<open>Thread flags\<close>

text \<open>The fields of \<open>thread_info\<close> (an architecture header) that these functions use. Flags are
  bits; the number of \<open>TIF_NEED_RESCHED\<close> is a parameter.\<close>

record thread_info =
  ti_task :: nat
  ti_flags :: u32
  ti_cpu :: u32

type_synonym thread_infos = "nat \<Rightarrow> thread_info"

definition upd_flags :: "nat \<Rightarrow> (u32 \<Rightarrow> u32) \<Rightarrow> thread_infos \<Rightarrow> thread_infos" where
  "upd_flags tsk f ti = ti(tsk := (ti tsk)\<lparr>ti_flags := f (ti_flags (ti tsk))\<rparr>)"

definition setup_thread_stack :: "nat \<Rightarrow> nat \<Rightarrow> thread_infos \<Rightarrow> thread_infos" where
  "setup_thread_stack p org ti = ti(p := (ti org)\<lparr>ti_task := p\<rparr>)"

definition set_tsk_thread_flag :: "nat \<Rightarrow> nat \<Rightarrow> thread_infos \<Rightarrow> thread_infos" where
  "set_tsk_thread_flag tsk nr = upd_flags tsk (set_bit nr)"

definition clear_tsk_thread_flag :: "nat \<Rightarrow> nat \<Rightarrow> thread_infos \<Rightarrow> thread_infos" where
  "clear_tsk_thread_flag tsk nr = upd_flags tsk (unset_bit nr)"

definition test_tsk_thread_flag :: "nat \<Rightarrow> nat \<Rightarrow> thread_infos \<Rightarrow> bool" where
  "test_tsk_thread_flag tsk nr ti = bit (ti_flags (ti tsk)) nr"

definition test_and_set_tsk_thread_flag :: "nat \<Rightarrow> nat \<Rightarrow> thread_infos \<Rightarrow> bool \<times> thread_infos" where
  "test_and_set_tsk_thread_flag tsk nr ti =
     (test_tsk_thread_flag tsk nr ti, set_tsk_thread_flag tsk nr ti)"

definition test_and_clear_tsk_thread_flag :: "nat \<Rightarrow> nat \<Rightarrow> thread_infos \<Rightarrow> bool \<times> thread_infos" where
  "test_and_clear_tsk_thread_flag tsk nr ti =
     (test_tsk_thread_flag tsk nr ti, clear_tsk_thread_flag tsk nr ti)"

definition set_tsk_need_resched :: "nat \<Rightarrow> nat \<Rightarrow> thread_infos \<Rightarrow> thread_infos" where
  "set_tsk_need_resched TIF_NEED_RESCHED tsk = set_tsk_thread_flag tsk TIF_NEED_RESCHED"

definition clear_tsk_need_resched :: "nat \<Rightarrow> nat \<Rightarrow> thread_infos \<Rightarrow> thread_infos" where
  "clear_tsk_need_resched TIF_NEED_RESCHED tsk = clear_tsk_thread_flag tsk TIF_NEED_RESCHED"

definition test_tsk_need_resched :: "nat \<Rightarrow> nat \<Rightarrow> thread_infos \<Rightarrow> bool" where
  "test_tsk_need_resched TIF_NEED_RESCHED tsk = test_tsk_thread_flag tsk TIF_NEED_RESCHED"

definition need_resched :: "nat \<Rightarrow> nat \<Rightarrow> thread_infos \<Rightarrow> bool" where
  "need_resched TIF_NEED_RESCHED current = test_tsk_thread_flag current TIF_NEED_RESCHED"

lemma flag_after:
  assumes "f < 32"
  shows "test_tsk_thread_flag u g (set_tsk_thread_flag t f ti) \<longleftrightarrow>
      (u = t \<and> g = f) \<or> test_tsk_thread_flag u g ti"
    and "test_tsk_thread_flag u g (clear_tsk_thread_flag t f ti) \<longleftrightarrow>
      \<not> (u = t \<and> g = f) \<and> test_tsk_thread_flag u g ti"
  using assms
  by (auto simp: test_tsk_thread_flag_def set_tsk_thread_flag_def clear_tsk_thread_flag_def upd_flags_def
      bit_set_bit_iff bit_unset_bit_iff)

text \<open>A new thread starts with the flags of its parent, so a pending reschedule is inherited, and
  with itself as the task of its stack.\<close>

lemma setup_inherits:
  "test_tsk_need_resched R p (setup_thread_stack p org ti) = test_tsk_need_resched R org ti"
  "ti_task (setup_thread_stack p org ti p) = p"
  "u \<noteq> p \<Longrightarrow> setup_thread_stack p org ti u = ti u"
  by (simp_all add: setup_thread_stack_def test_tsk_need_resched_def test_tsk_thread_flag_def)

text \<open>\<open>test_and_clear\<close> takes a flag once: of two calls in a row only the first can see it.\<close>

lemma flag_taken_once:
  assumes "test_and_clear_tsk_thread_flag t f ti = (b, ti1)" and "f < 32"
  shows "\<not> fst (test_and_clear_tsk_thread_flag t f ti1)"
  using assms flag_after(2) [of f t f t ti] by (auto simp: test_and_clear_tsk_thread_flag_def)

section \<open>I/O accounting and resource limits\<close>

record task_ioac =
  rchar :: u64
  wchar :: u64
  syscr :: u64
  syscw :: u64

text \<open>The counters exist with \<open>CONFIG_TASK_XACCT\<close> only. \<open>amt\<close> is signed and is extended to 64
  bits; a sum wraps around.\<close>

definition add_rchar :: "bool \<Rightarrow> u64 \<Rightarrow> task_ioac \<Rightarrow> task_ioac" where
  "add_rchar xacct amt a = (if xacct then a\<lparr>rchar := rchar a + amt\<rparr> else a)"

definition add_wchar :: "bool \<Rightarrow> u64 \<Rightarrow> task_ioac \<Rightarrow> task_ioac" where
  "add_wchar xacct amt a = (if xacct then a\<lparr>wchar := wchar a + amt\<rparr> else a)"

definition inc_syscr :: "bool \<Rightarrow> task_ioac \<Rightarrow> task_ioac" where
  "inc_syscr xacct a = (if xacct then a\<lparr>syscr := syscr a + 1\<rparr> else a)"

definition inc_syscw :: "bool \<Rightarrow> task_ioac \<Rightarrow> task_ioac" where
  "inc_syscw xacct a = (if xacct then a\<lparr>syscw := syscw a + 1\<rparr> else a)"

text \<open>A limit of the process; \<open>None\<close> when the index is outside the array \<open>rlim\<close>, which the
  functions do not check.\<close>

record rlimits =
  rlim_cur :: "u64 list"
  rlim_max :: "u64 list"

definition elem :: "u64 list \<Rightarrow> u32 \<Rightarrow> u64 option" where
  "elem xs i = (if unat i < length xs then Some (xs ! unat i) else None)"

definition task_rlimit :: "(nat \<Rightarrow> rlimits) \<Rightarrow> kstate \<Rightarrow> nat \<Rightarrow> u32 \<Rightarrow> u64 option" where
  "task_rlimit R ks t limit = elem (rlim_cur (R (t_signal (tasks ks t)))) limit"

definition task_rlimit_max :: "(nat \<Rightarrow> rlimits) \<Rightarrow> kstate \<Rightarrow> nat \<Rightarrow> u32 \<Rightarrow> u64 option" where
  "task_rlimit_max R ks t limit = elem (rlim_max (R (t_signal (tasks ks t)))) limit"

definition rlimit :: "(nat \<Rightarrow> rlimits) \<Rightarrow> kstate \<Rightarrow> u32 \<Rightarrow> u64 option" where
  "rlimit R ks limit = task_rlimit R ks (cur ks) limit"

definition rlimit_max :: "(nat \<Rightarrow> rlimits) \<Rightarrow> kstate \<Rightarrow> u32 \<Rightarrow> u64 option" where
  "rlimit_max R ks limit = task_rlimit_max R ks (cur ks) limit"

text \<open>Limits belong to the thread group: its threads see the same ones.\<close>

lemma limits_shared:
  "t_signal (tasks ks t) = t_signal (tasks ks u) \<Longrightarrow> task_rlimit R ks t l = task_rlimit R ks u l"
  by (simp add: task_rlimit_def)

section \<open>Pid numbers in a namespace\<close>

text \<open>\<open>nr_ns t ty ns\<close> stands for \<open>__task_pid_nr_ns\<close>, \<open>vnr p\<close> for \<open>pid_vnr\<close> (\<open>kernel/pid.c\<close>); no
  namespace means the one of the caller.\<close>

type_synonym nr_ns = "nat \<Rightarrow> pid_type \<Rightarrow> nat option \<Rightarrow> int"

definition task_pid_nr_ns :: "nr_ns \<Rightarrow> nat \<Rightarrow> nat \<Rightarrow> int" where
  "task_pid_nr_ns nr_ns t ns = nr_ns t PIDTYPE_PID (Some ns)"
definition task_pid_vnr :: "nr_ns \<Rightarrow> nat \<Rightarrow> int" where
  "task_pid_vnr nr_ns t = nr_ns t PIDTYPE_PID None"
definition task_tgid_vnr :: "(nat option \<Rightarrow> int) \<Rightarrow> pid_links \<Rightarrow> kstate \<Rightarrow> nat \<Rightarrow> int" where
  "task_tgid_vnr vnr L ks t = vnr (task_tgid L ks t)"
definition task_pgrp_nr_ns :: "nr_ns \<Rightarrow> nat \<Rightarrow> nat \<Rightarrow> int" where
  "task_pgrp_nr_ns nr_ns t ns = nr_ns t PIDTYPE_PGID (Some ns)"
definition task_pgrp_vnr :: "nr_ns \<Rightarrow> nat \<Rightarrow> int" where
  "task_pgrp_vnr nr_ns t = nr_ns t PIDTYPE_PGID None"
definition task_session_nr_ns :: "nr_ns \<Rightarrow> nat \<Rightarrow> nat \<Rightarrow> int" where
  "task_session_nr_ns nr_ns t ns = nr_ns t PIDTYPE_SID (Some ns)"
definition task_session_vnr :: "nr_ns \<Rightarrow> nat \<Rightarrow> int" where
  "task_session_vnr nr_ns t = nr_ns t PIDTYPE_SID None"
definition task_pgrp_nr :: "nr_ns \<Rightarrow> nat \<Rightarrow> nat \<Rightarrow> int" where
  "task_pgrp_nr nr_ns init_pid_ns t = task_pgrp_nr_ns nr_ns t init_pid_ns"

section \<open>States, priorities, threads\<close>

definition set_task_state :: "nat \<Rightarrow> u64 \<Rightarrow> kstate \<Rightarrow> kstate" where
  "set_task_state t v = upd_task t (\<lambda>t. t\<lparr>t_state := v\<rparr>)"

definition set_current_state :: "u64 \<Rightarrow> kstate \<Rightarrow> kstate" where
  "set_current_state v ks = set_task_state (cur ks) v ks"

lemma state_read_back: "t_state (tasks (set_current_state v ks) (cur ks)) = v"
  by (simp add: set_current_state_def set_task_state_def)

text \<open>\<open>prio\<close> and \<open>normal_prio\<close> of a task; without RT mutexes nothing boosts a priority.\<close>

definition rt_task :: "(nat \<Rightarrow> int) \<Rightarrow> nat \<Rightarrow> int" where
  "rt_task prio p = rt_prio (prio p)"

definition rt_mutex_getprio :: "(nat \<Rightarrow> int) \<Rightarrow> nat \<Rightarrow> int" where
  "rt_mutex_getprio normal_prio p = normal_prio p"

definition get_nr_threads :: "(nat \<Rightarrow> int) \<Rightarrow> kstate \<Rightarrow> nat \<Rightarrow> int" where
  "get_nr_threads nr_threads ks t = nr_threads (t_signal (tasks ks t))"

text \<open>When the counter of a group is right, the walk over it makes that many rounds.\<close>

lemma nr_threads_walked:
  assumes "sound_group ks p"
    and "nr_threads (t_signal (tasks ks p)) = int (length (s_threads (sig_of ks p)))"
  shows "map_option (int \<circ> length) (while_each_thread (next_thread ks) p) = Some (get_nr_threads nr_threads ks p)"
  using group_walk [OF assms(1)] assms(2) by (simp add: get_nr_threads_def group_from_def)

section \<open>CPUs\<close>

text \<open>With \<open>CONFIG_SMP\<close> the CPU is in \<open>thread_info\<close>; without it there is CPU 0 only, and a mask
  without it is refused.\<close>

definition task_cpu :: "bool \<Rightarrow> thread_infos \<Rightarrow> nat \<Rightarrow> u32" where
  "task_cpu smp ti p = (if smp then ti_cpu (ti p) else 0)"

abbreviation (input) "INVALID_MASK \<equiv> -22 :: int"

definition set_cpus_allowed_ptr :: "u64 \<Rightarrow> int" where
  "set_cpus_allowed_ptr new_mask = (if \<not> bit new_mask 0 then INVALID_MASK else 0)"

definition set_cpus_allowed :: "u64 \<Rightarrow> int" where
  "set_cpus_allowed new_mask = set_cpus_allowed_ptr new_mask"

definition wait_task_inactive :: "u64 \<Rightarrow> u64" where
  "wait_task_inactive match_state = 1"

definition spin_needbreak :: "bool \<Rightarrow> (nat \<Rightarrow> bool) \<Rightarrow> nat \<Rightarrow> bool" where
  "spin_needbreak preempt contended lock = (if preempt then contended lock else False)"

definition sched_info_on :: "config \<Rightarrow> int \<Rightarrow> int" where
  "sched_info_on c delayacct_on =
     (if opt c ''CONFIG_SCHEDSTATS'' then 1
      else if opt c ''CONFIG_TASK_DELAY_ACCT'' then delayacct_on else 0)"

definition get_sysctl_timer_migration :: "config \<Rightarrow> u32 \<Rightarrow> u32" where
  "get_sysctl_timer_migration c sysctl_timer_migration =
     (if opt c ''CONFIG_SCHED_DEBUG'' then sysctl_timer_migration else 1)"

text \<open>The masks behind the structures of the scheduling domains, as addresses.\<close>

definition sched_group_cpus :: "abi \<Rightarrow> config \<Rightarrow> nat \<Rightarrow> nat option" where
  "sched_group_cpus a c sg = map_option (\<lambda>n. sg + n) (offset_of a (sched_group_fields c) ''cpumask'')"

definition sched_domain_span :: "abi \<Rightarrow> config \<Rightarrow> nat \<Rightarrow> nat option" where
  "sched_domain_span a c sd = map_option (\<lambda>n. sd + n) (offset_of a (sched_domain_fields c) ''span'')"

lemma masks_behind:
  assumes "word_aligned a [''atomic_t'', ''struct rcu_head'']"
  shows "sched_group_cpus a c sg = Some (sg + size_of a (Struct (sched_group_fields c)))"
    and "sched_domain_span a c sd = Some (sd + size_of a (Struct (sched_domain_fields c)))"
  using masks_follow_structures [OF assms, of c]
  by (simp_all add: sched_group_cpus_def sched_domain_span_def del: size_of.simps)

section \<open>RCU state of a new task\<close>

record task_rcu =
  rcu_read_lock_nesting :: int
  rcu_read_unlock_special :: "8 word"
  rcu_blocked_node :: "nat option"
  rcu_boost_mutex :: "nat option"
  rcu_node_entry :: "nat list"

definition RCU_READ_UNLOCK_BLOCKED :: "8 word" where "RCU_READ_UNLOCK_BLOCKED = push_bit 0 1"
definition RCU_READ_UNLOCK_BOOSTED :: "8 word" where "RCU_READ_UNLOCK_BOOSTED = push_bit 1 1"
definition RCU_READ_UNLOCK_NEED_QS :: "8 word" where "RCU_READ_UNLOCK_NEED_QS = push_bit 2 1"

text \<open>\<open>rcu_node_entry\<close> is initialised to the empty list.\<close>

definition rcu_copy_process :: "config \<Rightarrow> task_rcu \<Rightarrow> task_rcu" where
  "rcu_copy_process c p =
     (if \<not> opt c ''CONFIG_PREEMPT_RCU'' then p
      else let p = p\<lparr>rcu_read_lock_nesting := 0, rcu_read_unlock_special := 0\<rparr>;
               p = (if opt c ''CONFIG_TREE_PREEMPT_RCU'' then p\<lparr>rcu_blocked_node := None\<rparr> else p);
               p = (if opt c ''CONFIG_RCU_BOOST'' then p\<lparr>rcu_boost_mutex := None\<rparr> else p)
           in p\<lparr>rcu_node_entry := []\<rparr>)"

text \<open>A child carries none of the RCU state of a parent that forks inside a read-side section.\<close>

lemma rcu_child_clean:
  assumes "opt c ''CONFIG_PREEMPT_RCU''"
  shows "rcu_read_lock_nesting (rcu_copy_process c p) = 0 \<and> rcu_node_entry (rcu_copy_process c p) = [] \<and>
    rcu_read_unlock_special (rcu_copy_process c p) AND
      (RCU_READ_UNLOCK_BLOCKED OR RCU_READ_UNLOCK_BOOSTED OR RCU_READ_UNLOCK_NEED_QS) = 0"
  using assms by (simp add: rcu_copy_process_def Let_def)

end
