(* ===== verification/Sched_Locks.thy ===== *)
theory Sched_Locks
  imports Sched_Accessors Sig_Send
begin

text \<open>
  The wrappers of locks in \<open>sched.h\<close> and \<open>__lock_task_sighand\<close> of \<open>signal.c\<close>, the lock they all
  rest on. Locks themselves are not in the repository: a wrapper is the list of calls it makes, and
  \<open>obeys\<close> says what one CPU must keep to when it makes them: take no spinlock twice, give back only
  what it holds, sleep only with nothing held.
\<close>

section \<open>Calls on locks\<close>

datatype lock = Alloc_Lock nat | Siglock nat | Fork_Lock nat | Cputimer_Lock nat

datatype lock_call =
    Spin_Lock lock | Spin_Unlock lock | Raw_Spin_Lock_Init lock
  | Down_Read lock | Up_Read lock | Down_Write lock | Up_Write lock
  | Rcu_Read_Lock | Rcu_Read_Unlock | Irq_Save | Irq_Restore | Might_Sleep u32

record cpu_locks =
  spinning :: "lock list"
  reading :: "lock list"
  writing :: "lock list"
  rcu_depth :: nat
  irq_saves :: nat

definition no_locks :: cpu_locks where
  "no_locks = \<lparr>spinning = [], reading = [], writing = [], rcu_depth = 0, irq_saves = 0\<rparr>"

text \<open>
  A semaphore may only be waited for with nothing held. \<open>__might_sleep\<close> takes the preemption count
  its caller has: one for \<open>cond_resched_lock\<close>, which drops the one lock held.
\<close>

definition may_block :: "cpu_locks \<Rightarrow> bool" where
  "may_block s \<longleftrightarrow> spinning s = [] \<and> rcu_depth s = 0 \<and> irq_saves s = 0"

fun obey :: "lock_call \<Rightarrow> cpu_locks \<Rightarrow> cpu_locks option" where
  "obey (Spin_Lock l) s = (if l \<in> set (spinning s) then None else Some (s\<lparr>spinning := l # spinning s\<rparr>))"
| "obey (Spin_Unlock l) s = (if l \<in> set (spinning s) then Some (s\<lparr>spinning := remove1 l (spinning s)\<rparr>) else None)"
| "obey (Raw_Spin_Lock_Init l) s = (if l \<in> set (spinning s) then None else Some s)"
| "obey (Down_Read l) s = (if may_block s \<and> l \<notin> set (writing s) then Some (s\<lparr>reading := l # reading s\<rparr>) else None)"
| "obey (Up_Read l) s = (if l \<in> set (reading s) then Some (s\<lparr>reading := remove1 l (reading s)\<rparr>) else None)"
| "obey (Down_Write l) s =
     (if may_block s \<and> l \<notin> set (reading s) \<union> set (writing s) then Some (s\<lparr>writing := l # writing s\<rparr>) else None)"
| "obey (Up_Write l) s = (if l \<in> set (writing s) then Some (s\<lparr>writing := remove1 l (writing s)\<rparr>) else None)"
| "obey Rcu_Read_Lock s = Some (s\<lparr>rcu_depth := Suc (rcu_depth s)\<rparr>)"
| "obey Rcu_Read_Unlock s = (if rcu_depth s = 0 then None else Some (s\<lparr>rcu_depth := rcu_depth s - 1\<rparr>))"
| "obey Irq_Save s = Some (s\<lparr>irq_saves := Suc (irq_saves s)\<rparr>)"
| "obey Irq_Restore s = (if irq_saves s = 0 then None else Some (s\<lparr>irq_saves := irq_saves s - 1\<rparr>))"
| "obey (Might_Sleep preempt_offset) s =
     (if length (spinning s) = unat preempt_offset \<and> rcu_depth s = 0 \<and> irq_saves s = 0 then Some s else None)"

fun obeys :: "lock_call list \<Rightarrow> cpu_locks \<Rightarrow> cpu_locks option" where
  "obeys [] s = Some s"
| "obeys (x # xs) s = (case obey x s of None \<Rightarrow> None | Some t \<Rightarrow> obeys xs t)"

lemma obeys_append: "obeys (xs @ ys) s = (case obeys xs s of None \<Rightarrow> None | Some t \<Rightarrow> obeys ys t)"
  by (induction xs arbitrary: s) (auto split: option.splits)

section \<open>The wrappers\<close>

definition task_lock :: "nat \<Rightarrow> lock_call list" where
  "task_lock p = [Spin_Lock (Alloc_Lock p)]"

definition task_unlock :: "nat \<Rightarrow> lock_call list" where
  "task_unlock p = [Spin_Unlock (Alloc_Lock p)]"

text \<open>\<open>spin_unlock_irqrestore\<close> on the \<open>siglock\<close> of the task's \<open>sighand\<close>.\<close>

definition unlock_task_sighand :: "nat \<Rightarrow> lock_call list" where
  "unlock_task_sighand sighand = [Spin_Unlock (Siglock sighand), Irq_Restore]"

definition threadgroup_fork_read_lock :: "config \<Rightarrow> nat \<Rightarrow> lock_call list" where
  "threadgroup_fork_read_lock c sig = (if opt c ''CONFIG_CGROUPS'' then [Down_Read (Fork_Lock sig)] else [])"

definition threadgroup_fork_read_unlock :: "config \<Rightarrow> nat \<Rightarrow> lock_call list" where
  "threadgroup_fork_read_unlock c sig = (if opt c ''CONFIG_CGROUPS'' then [Up_Read (Fork_Lock sig)] else [])"

definition threadgroup_fork_write_lock :: "config \<Rightarrow> nat \<Rightarrow> lock_call list" where
  "threadgroup_fork_write_lock c sig = (if opt c ''CONFIG_CGROUPS'' then [Down_Write (Fork_Lock sig)] else [])"

definition threadgroup_fork_write_unlock :: "config \<Rightarrow> nat \<Rightarrow> lock_call list" where
  "threadgroup_fork_write_unlock c sig = (if opt c ''CONFIG_CGROUPS'' then [Up_Write (Fork_Lock sig)] else [])"

definition thread_group_cputime_init :: "nat \<Rightarrow> lock_call list" where
  "thread_group_cputime_init sig = [Raw_Spin_Lock_Init (Cputimer_Lock sig)]"

text \<open>Rescheduling: the check, then a function of the scheduler, whose answer is \<open>r\<close>.\<close>

definition PREEMPT_LOCK_OFFSET :: "config \<Rightarrow> u32 \<Rightarrow> u32" where
  "PREEMPT_LOCK_OFFSET c PREEMPT_OFFSET = (if opt c ''CONFIG_PREEMPT_COUNT'' then PREEMPT_OFFSET else 0)"

definition cond_resched :: "int \<Rightarrow> lock_call list \<times> int" where
  "cond_resched r = ([Might_Sleep 0], r)"

definition cond_resched_lock :: "config \<Rightarrow> u32 \<Rightarrow> (lock \<Rightarrow> int) \<Rightarrow> lock \<Rightarrow> lock_call list \<times> int" where
  "cond_resched_lock c PREEMPT_OFFSET r l = ([Might_Sleep (PREEMPT_LOCK_OFFSET c PREEMPT_OFFSET)], r l)"

definition cond_resched_softirq :: "u32 \<Rightarrow> int \<Rightarrow> lock_call list \<times> int" where
  "cond_resched_softirq SOFTIRQ_DISABLE_OFFSET r = ([Might_Sleep SOFTIRQ_DISABLE_OFFSET], r)"

section \<open>\<open>__lock_task_sighand\<close>\<close>

text \<open>
  Another CPU may exchange \<open>tsk->sighand\<close> or take it away (exec and exit) at any time until the lock
  is held. A round of the loop reads the pointer twice, before it takes the lock of what it saw and
  under it; the list holds what these two reads give, round by round. \<open>None\<close> is a loop that has not
  ended when the list does.
\<close>

fun lock_task_sighand_loop :: "(nat option \<times> nat option) list \<Rightarrow> (nat option \<times> lock_call list) option" where
  "lock_task_sighand_loop [] = None"
| "lock_task_sighand_loop ((sighand, now) # rounds) =
     (case sighand of
        None \<Rightarrow> Some (None, [Irq_Save, Rcu_Read_Lock, Rcu_Read_Unlock, Irq_Restore])
      | Some h \<Rightarrow>
          if now = Some h then Some (Some h, [Irq_Save, Rcu_Read_Lock, Spin_Lock (Siglock h), Rcu_Read_Unlock])
          else map_option (apsnd ((@) [Irq_Save, Rcu_Read_Lock, Spin_Lock (Siglock h), Spin_Unlock (Siglock h),
                   Rcu_Read_Unlock, Irq_Restore])) (lock_task_sighand_loop rounds))"

text \<open>A round that settles: no pointer, or the same one again.\<close>

definition settles :: "nat option \<times> nat option \<Rightarrow> bool" where
  "settles r \<longleftrightarrow> fst r = None \<or> snd r = fst r"

theorem lock_loop_ends: "lock_task_sighand_loop rounds \<noteq> None \<longleftrightarrow> (\<exists>r \<in> set rounds. settles r)"
  by (induction rounds rule: lock_task_sighand_loop.induct) (auto simp: settles_def split: option.splits)

text \<open>
  What the loop returns is what the task points to under its lock, and of all the locks it has taken
  it holds exactly that one, interrupts saved once and out of the RCU section; with NULL it holds nothing.
\<close>

theorem lock_loop_holds:
  assumes "lock_task_sighand_loop rounds = Some (sighand, calls)" and "spinning s = []"
  shows "obeys calls s = Some (case sighand of None \<Rightarrow> s
      | Some h \<Rightarrow> s\<lparr>spinning := [Siglock h], irq_saves := Suc (irq_saves s)\<rparr>)"
  using assms
proof (induction rounds arbitrary: calls rule: lock_task_sighand_loop.induct)
  case (2 sighand0 now rounds)
  then show ?case by (cases s) (auto split: option.splits if_splits)
qed simp

theorem lock_loop_current:
  assumes "lock_task_sighand_loop rounds = Some (sighand, calls)"
  shows "case sighand of None \<Rightarrow> \<exists>now. (None, now) \<in> set rounds | Some h \<Rightarrow> (Some h, Some h) \<in> set rounds"
  using assms
proof (induction rounds arbitrary: calls rule: lock_task_sighand_loop.induct)
  case (2 sighand0 now rounds)
  then show ?case by (cases sighand) (auto split: option.splits if_splits)
qed simp

text \<open>\<open>lock_task_sighand\<close> followed by \<open>unlock_task_sighand\<close> leaves nothing behind.\<close>

theorem sighand_lock_balanced:
  assumes "lock_task_sighand_loop rounds = Some (Some h, calls)" and "spinning s = []"
  shows "obeys (calls @ unlock_task_sighand h) s = Some s"
  using lock_loop_holds [OF assms] assms(2) by (cases s) (simp add: obeys_append unlock_task_sighand_def)

text \<open>With nobody else at the pointer the first round settles, on the value the signal model reads.\<close>

theorem lock_undisturbed:
  "map_option fst (lock_task_sighand_loop ((t_sighand (tasks ks t), t_sighand (tasks ks t)) # rounds))
     = Some (lock_task_sighand t ks)"
  by (cases "t_sighand (tasks ks t)") (simp_all add: lock_task_sighand_def)

section \<open>The other pairs\<close>

theorem pairs_balanced:
  assumes "may_block s"
  shows "obeys (task_lock p @ task_unlock p) s = Some s"
    and "Fork_Lock g \<notin> set (writing s) \<Longrightarrow>
      obeys (threadgroup_fork_read_lock c g @ threadgroup_fork_read_unlock c g) s = Some s"
    and "Fork_Lock g \<notin> set (reading s) \<union> set (writing s) \<Longrightarrow>
      obeys (threadgroup_fork_write_lock c g @ threadgroup_fork_write_unlock c g) s = Some s"
    and "obeys (fst (cond_resched r)) s = Some s"
  using assms
  by (cases s; simp add: may_block_def task_lock_def task_unlock_def threadgroup_fork_read_lock_def
      threadgroup_fork_read_unlock_def threadgroup_fork_write_lock_def threadgroup_fork_write_unlock_def
      cond_resched_def)+

text \<open>The fork lock may sleep, so it comes before \<open>siglock\<close> and \<open>alloc_lock\<close>, never after them.\<close>

theorem fork_lock_first:
  assumes "opt c ''CONFIG_CGROUPS''"
  shows "obeys (task_lock p @ threadgroup_fork_read_lock c g) s = None"
    and "obeys (threadgroup_fork_read_lock c g @ task_lock p) no_locks \<noteq> None"
  using assms
  by (simp_all add: task_lock_def threadgroup_fork_read_lock_def obeys_append may_block_def no_locks_def)

end
