(* ===== verification/Sched_Enums.thy ===== *)
theory Sched_Enums
  imports Sched_Flags Sched_Structs
begin

text \<open>
  The enumerations and the remaining constants of \<open>sched.h\<close>. An enumeration is a datatype with its
  numbering; the levels of power saving are compared by the kernel and are an order. The last section
  checks that the bounds the structures use are the ones the enumerations give.
\<close>

section \<open>Enumerations\<close>

datatype cpu_idle_type = CPU_IDLE | CPU_NOT_IDLE | CPU_NEWLY_IDLE

primrec idle_number :: "cpu_idle_type \<Rightarrow> nat" where
  "idle_number CPU_IDLE = 0"
| "idle_number CPU_NOT_IDLE = 1"
| "idle_number CPU_NEWLY_IDLE = 2"

definition CPU_MAX_IDLE_TYPES :: nat where "CPU_MAX_IDLE_TYPES = 3"

datatype perf_event_task_context = perf_invalid_context | perf_hw_context | perf_sw_context

primrec perf_number :: "perf_event_task_context \<Rightarrow> int" where
  "perf_number perf_invalid_context = -1"
| "perf_number perf_hw_context = 0"
| "perf_number perf_sw_context = 1"

definition perf_nr_task_contexts :: nat where "perf_nr_task_contexts = 2"

datatype sched_tunable_scaling =
  SCHED_TUNABLESCALING_NONE | SCHED_TUNABLESCALING_LOG | SCHED_TUNABLESCALING_LINEAR

primrec scaling_number :: "sched_tunable_scaling \<Rightarrow> nat" where
  "scaling_number SCHED_TUNABLESCALING_NONE = 0"
| "scaling_number SCHED_TUNABLESCALING_LOG = 1"
| "scaling_number SCHED_TUNABLESCALING_LINEAR = 2"

definition SCHED_TUNABLESCALING_END :: nat where "SCHED_TUNABLESCALING_END = 3"

datatype powersavings_balance_level =
  POWERSAVINGS_BALANCE_NONE | POWERSAVINGS_BALANCE_BASIC | POWERSAVINGS_BALANCE_WAKEUP

primrec level_number :: "powersavings_balance_level \<Rightarrow> nat" where
  "level_number POWERSAVINGS_BALANCE_NONE = 0"
| "level_number POWERSAVINGS_BALANCE_BASIC = 1"
| "level_number POWERSAVINGS_BALANCE_WAKEUP = 2"

definition MAX_POWERSAVINGS_BALANCE_LEVELS :: nat where "MAX_POWERSAVINGS_BALANCE_LEVELS = 3"

lemma level_number_inj: "level_number a = level_number b \<Longrightarrow> a = b"
  by (cases a; cases b) simp_all

instantiation powersavings_balance_level :: linorder
begin

definition less_eq_powersavings_balance_level ::
    "powersavings_balance_level \<Rightarrow> powersavings_balance_level \<Rightarrow> bool" where
  "a \<le> b \<longleftrightarrow> level_number a \<le> level_number b"

definition less_powersavings_balance_level ::
    "powersavings_balance_level \<Rightarrow> powersavings_balance_level \<Rightarrow> bool" where
  "a < b \<longleftrightarrow> level_number a < level_number b"

instance
  by standard (auto simp: less_eq_powersavings_balance_level_def less_powersavings_balance_level_def
      intro: level_number_inj)

end

text \<open>A level is any number below the last enumerator, and no other.\<close>

lemma numbers_cover:
  "range level_number = {..< MAX_POWERSAVINGS_BALANCE_LEVELS}"
  "range idle_number = {..< CPU_MAX_IDLE_TYPES}"
  "range scaling_number = {..< SCHED_TUNABLESCALING_END}"
proof -
  have three: "{..< 3::nat} = {0, 1, 2}" by auto
  have u: "UNIV = {POWERSAVINGS_BALANCE_NONE, POWERSAVINGS_BALANCE_BASIC, POWERSAVINGS_BALANCE_WAKEUP}"
    using powersavings_balance_level.exhaust by blast
  show "range level_number = {..< MAX_POWERSAVINGS_BALANCE_LEVELS}"
    unfolding u MAX_POWERSAVINGS_BALANCE_LEVELS_def three by simp
  have u: "UNIV = {CPU_IDLE, CPU_NOT_IDLE, CPU_NEWLY_IDLE}" using cpu_idle_type.exhaust by blast
  show "range idle_number = {..< CPU_MAX_IDLE_TYPES}" unfolding u CPU_MAX_IDLE_TYPES_def three by simp
  have u: "UNIV = {SCHED_TUNABLESCALING_NONE, SCHED_TUNABLESCALING_LOG, SCHED_TUNABLESCALING_LINEAR}"
    using sched_tunable_scaling.exhaust by blast
  show "range scaling_number = {..< SCHED_TUNABLESCALING_END}"
    unfolding u SCHED_TUNABLESCALING_END_def three by simp
qed

text \<open>The power saving settings as levels: any saving at all moves domains to balance for power, and
  the higher of the two levels decides whether there is any.\<close>

lemma saving_by_level:
  fixes mc smt :: powersavings_balance_level
  shows "sd_power_saving_flags (of_nat (level_number mc)) (of_nat (level_number smt)) \<noteq> 0 \<longleftrightarrow>
    POWERSAVINGS_BALANCE_BASIC \<le> max mc smt"
  by (cases mc; cases smt)
    (simp_all add: sd_power_saving_flags_def flag_def domain_flags_def max_def less_eq_powersavings_balance_level_def)

section \<open>Constants\<close>

definition wake_flags :: "(string \<times> u32) list" where
  "wake_flags = [(''WF_SYNC'', 0x01), (''WF_FORK'', 0x02), (''WF_MIGRATED'', 0x04)]"

definition enqueue_flags :: "bool \<Rightarrow> (string \<times> u32) list" where
  "enqueue_flags smp =
     [(''ENQUEUE_WAKEUP'', 1), (''ENQUEUE_HEAD'', 2), (''ENQUEUE_WAKING'', if smp then 4 else 0)]"

definition DEQUEUE_SLEEP :: u32 where "DEQUEUE_SLEEP = 1"

lemma queue_exponents:
  "map snd wake_flags = map (\<lambda>k. push_bit k 1) [0, 1, 2]"
  "map snd (enqueue_flags True) = map (\<lambda>k. push_bit k 1) [0, 1, 2]"
  by (simp_all add: wake_flags_def enqueue_flags_def push_bit_eq_mult)

lemma queue_flags_apart: "bits_apart (map snd wake_flags)" "bits_apart (map snd (enqueue_flags True))"
  unfolding queue_exponents by (rule bits_apart_powers; simp)+

definition suid_dump_values :: "(string \<times> nat) list" where
  "suid_dump_values = [(''SUID_DUMP_DISABLE'', 0), (''SUID_DUMP_USER'', 1), (''SUID_DUMP_ROOT'', 2)]"

definition mm_dumpable_bits :: "(string \<times> nat) list" where
  "mm_dumpable_bits = [(''MMF_DUMPABLE'', 0), (''MMF_DUMP_SECURELY'', 1)]"

definition mm_vm_bits :: "(string \<times> nat) list" where
  "mm_vm_bits = [(''MMF_VM_MERGEABLE'', 16), (''MMF_VM_HUGEPAGE'', 17)]"

text \<open>The flags of KSM and huge pages are not inherited with the dump settings: they lie outside
  \<open>MMF_INIT_MASK\<close>, the dumpable bits inside it.\<close>

lemma inherited_mm_flags:
  "map (\<lambda>(x, i). bit MMF_INIT_MASK i) (mm_dumpable_bits @ mm_vm_bits) = [True, True, False, False]"
  by (simp add: mm_dumpable_bits_def mm_vm_bits_def MMF_INIT_MASK_def MMF_DUMPABLE_MASK_def MMF_DUMPABLE_BITS_def
      MMF_DUMP_FILTER_MASK_def MMF_DUMP_FILTER_BITS_def MMF_DUMP_FILTER_SHIFT_def bit_simps)

definition LOAD_FREQ :: "u64 \<Rightarrow> u64" where "LOAD_FREQ HZ = 5 * HZ + 1"

definition MAX_SCHEDULE_TIMEOUT :: "64 word" where "MAX_SCHEDULE_TIMEOUT = 0x7fffffffffffffff"

definition MAPCOUNT_ELF_CORE_MARGIN :: nat where "MAPCOUNT_ELF_CORE_MARGIN = 5"

definition DEFAULT_MAX_MAP_COUNT :: nat where
  "DEFAULT_MAX_MAP_COUNT = (2 ^ 16 - 1) - MAPCOUNT_ELF_CORE_MARGIN"

text \<open>A default map count leaves room for the margin in a 16-bit count of ELF headers.\<close>

lemma map_count_fits: "DEFAULT_MAX_MAP_COUNT + MAPCOUNT_ELF_CORE_MARGIN < 2 ^ 16"
  by (simp add: DEFAULT_MAX_MAP_COUNT_def MAPCOUNT_ELF_CORE_MARGIN_def)

text \<open>The resolution of load weights; the branch with 10 bits is switched off by \<open>#if 0\<close>.\<close>

definition SCHED_LOAD_RESOLUTION :: nat where "SCHED_LOAD_RESOLUTION = 0"

definition scale_load :: "u64 \<Rightarrow> u64" where "scale_load w = w"
definition scale_load_down :: "u64 \<Rightarrow> u64" where "scale_load_down w = w"

definition SCHED_LOAD_SHIFT :: nat where "SCHED_LOAD_SHIFT = 10 + SCHED_LOAD_RESOLUTION"
definition SCHED_LOAD_SCALE :: u64 where "SCHED_LOAD_SCALE = push_bit SCHED_LOAD_SHIFT 1"
definition SCHED_POWER_SHIFT :: nat where "SCHED_POWER_SHIFT = 10"
definition SCHED_POWER_SCALE :: u64 where "SCHED_POWER_SCALE = push_bit SCHED_POWER_SHIFT 1"

lemma scales_agree: "scale_load_down SCHED_LOAD_SCALE = SCHED_POWER_SCALE"
  by (simp add: scale_load_down_def SCHED_LOAD_SCALE_def SCHED_LOAD_SHIFT_def SCHED_LOAD_RESOLUTION_def
      SCHED_POWER_SCALE_def SCHED_POWER_SHIFT_def)

section \<open>Initialisers\<close>

text \<open>CPU time counts (\<open>cputime_t\<close> is a long) and the names their fields have when they hold expirations.\<close>

record task_cputime =
  utime :: u64
  stime :: u64
  sum_exec_runtime :: u64

definition prof_exp :: "task_cputime \<Rightarrow> u64" where "prof_exp = stime"
definition virt_exp :: "task_cputime \<Rightarrow> u64" where "virt_exp = utime"
definition sched_exp :: "task_cputime \<Rightarrow> u64" where "sched_exp = sum_exec_runtime"

definition INIT_CPUTIME :: task_cputime where
  "INIT_CPUTIME = \<lparr>utime = 0, stime = 0, sum_exec_runtime = 0\<rparr>"

definition INIT_PREEMPT_COUNT :: "u32 \<Rightarrow> u32" where
  "INIT_PREEMPT_COUNT PREEMPT_ACTIVE = 1 + PREEMPT_ACTIVE"

definition TASK_COMM_LEN :: nat where "TASK_COMM_LEN = 16"

text \<open>\<open>struct sched_domain_attr\<close> has one field.\<close>

definition SD_ATTR_INIT :: int where "SD_ATTR_INIT = -1"

definition show_state :: "(u64 \<Rightarrow> 'a) \<Rightarrow> 'a" where
  "show_state show_state_filter = show_state_filter 0"

text \<open>An expiration field is one of the three counts, so a fresh record expires nowhere.\<close>

lemma init_cputime_expirations: "map (\<lambda>f. f INIT_CPUTIME) [prof_exp, virt_exp, sched_exp] = [0, 0, 0]"
  by (simp add: INIT_CPUTIME_def prof_exp_def virt_exp_def sched_exp_def)

section \<open>The bounds of the structures\<close>

lemma comm_bound: "(''comm'', Arr TASK_COMM_LEN c_char) \<in> set (task_struct_fields c)"
  unfolding task_struct_fields_def set_append by (simp add: task_family_fields_def TASK_COMM_LEN_def)


theorem array_bounds:
  "opt c ''CONFIG_SCHEDSTATS'' \<Longrightarrow>
     (''lb_count'', Arr CPU_MAX_IDLE_TYPES c_int) \<in> set (sched_domain_fields c)"
  "opt c ''CONFIG_PERF_EVENTS'' \<Longrightarrow>
     (''perf_event_ctxp'', Arr perf_nr_task_contexts c_ptr) \<in> set (task_struct_fields c)"
proof -
  show "opt c ''CONFIG_SCHEDSTATS'' \<Longrightarrow>
     (''lb_count'', Arr CPU_MAX_IDLE_TYPES c_int) \<in> set (sched_domain_fields c)"
    by (simp add: sched_domain_fields_def given_def CPU_MAX_IDLE_TYPES_def)
  show "opt c ''CONFIG_PERF_EVENTS'' \<Longrightarrow>
     (''perf_event_ctxp'', Arr perf_nr_task_contexts c_ptr) \<in> set (task_struct_fields c)"
    unfolding task_struct_fields_def task_resource_fields_def set_append
    by (simp add: given_def perf_nr_task_contexts_def)
qed

end
